(* ===== verification/Nexus_Prelude.thy ===== *)
theory Nexus_Prelude
  imports
    Complex_Main
    "HOL-Library.AList"
    "HOL-Library.Char_ord"
    "HOL-Library.List_Lexorder"
    "HOL-Library.Sublist"
    "HOL-Library.Multiset"
begin

text \<open>
  Shared vocabulary of the development: the names the model gives to Go's basic types, the
  part of Go's standard library (\<open>strings\<close>, \<open>sort\<close>, maps) that the modelled packages
  call, and the generic lemmas on lists, strings and finite maps that several components use.

  \<^item> A Go \<open>string\<close> or \<open>[]byte\<close> is a list of bytes, so HOL's \<open>string\<close>.
  \<^item> A Go \<open>int\<close>, \<open>int64\<close> or \<open>time.Duration\<close> is an \<open>int\<close>; where a counter could
    leave the 64-bit range a bound is proved.
  \<^item> A Go \<open>float64\<close> is a \<open>real\<close>: rounding, infinities and NaN are not modelled.
  \<^item> A Go \<open>map\<close> is an association list with distinct keys. Go iterates a map in an
    unspecified order; the order of the list is that order, and statements about loops over a
    map are stated for every such list.
\<close>

type_synonym float64 = real
type_synonym duration = int
type_synonym ('k, 'v) gomap = "('k \<times> 'v) list"

named_theorems gostr \<open>the string functions of the standard library, unfolded\<close>
named_theorems gomap \<open>lookups in association lists\<close>

section \<open>Maps\<close>

definition gomap_wf :: "('k, 'v) gomap \<Rightarrow> bool" where
  "gomap_wf m \<longleftrightarrow> distinct (map fst m)"

abbreviation gomap_get :: "('k, 'v) gomap \<Rightarrow> 'k \<Rightarrow> 'v option" where
  "gomap_get m k \<equiv> map_of m k"

text \<open>Indexing a map with a missing key yields the zero value of the element type.\<close>

definition gomap_or :: "'v \<Rightarrow> ('k, 'v) gomap \<Rightarrow> 'k \<Rightarrow> 'v" where
  "gomap_or z m k = (case map_of m k of None \<Rightarrow> z | Some v \<Rightarrow> v)"

abbreviation gomap_set :: "'k \<Rightarrow> 'v \<Rightarrow> ('k, 'v) gomap \<Rightarrow> ('k, 'v) gomap" where
  "gomap_set k v m \<equiv> AList.update k v m"

abbreviation gomap_del :: "'k \<Rightarrow> ('k, 'v) gomap \<Rightarrow> ('k, 'v) gomap" where
  "gomap_del k m \<equiv> AList.delete k m"

text \<open>\<open>for _, k := range ks { m[k] = v }\<close>.\<close>

definition gomap_set_all :: "'k list \<Rightarrow> 'v \<Rightarrow> ('k, 'v) gomap \<Rightarrow> ('k, 'v) gomap" where
  "gomap_set_all ks v m = fold (\<lambda>k. gomap_set k v) ks m"

section \<open>The string functions\<close>

text \<open>\<open>strings.HasPrefix\<close>, \<open>strings.HasSuffix\<close> and \<open>strings.Contains\<close> are \<open>prefix\<close>,
  \<open>suffix\<close> and \<open>sublist\<close> of the library, with the arguments swapped.

  \<open>strings.Cut(s, sep)\<close> for a one-byte separator; \<open>None\<close> is the result \<open>found = false\<close>.\<close>

definition strings_Cut :: "char \<Rightarrow> string \<Rightarrow> (string \<times> string) option" where
  "strings_Cut c s =
     (case dropWhile (\<lambda>x. x \<noteq> c) s of
        [] \<Rightarrow> None
      | _ # rest \<Rightarrow> Some (takeWhile (\<lambda>x. x \<noteq> c) s, rest))"

text \<open>\<open>strings.Join(parts, sep)\<close>.\<close>

fun strings_Join :: "string \<Rightarrow> string list \<Rightarrow> string" where
  "strings_Join sep [] = []"
| "strings_Join sep [x] = x"
| "strings_Join sep (x # y # ys) = x @ sep @ strings_Join sep (y # ys)"

text \<open>\<open>strings.ReplaceAll(s, old, new)\<close> for a non-empty \<open>old\<close>, the only use the code makes
  of it: leftmost occurrences, not overlapping.\<close>

function strings_ReplaceAll :: "string \<Rightarrow> string \<Rightarrow> string \<Rightarrow> string" where
  "strings_ReplaceAll s old new =
     (if old = [] then s
      else case s of
        [] \<Rightarrow> []
      | x # xs \<Rightarrow>
          if prefix old s then new @ strings_ReplaceAll (drop (length old) s) old new
          else x # strings_ReplaceAll xs old new)"
  by pat_completeness auto
termination
  by (relation "measure (\<lambda>(s, old, new). length s)") auto

declare strings_ReplaceAll.simps [simp del]

text \<open>\<open>strings.TrimSpace\<close> removes leading and trailing white space as Unicode defines it.
  On bytes: the ASCII spaces and the UTF-8 encodings of the other white-space runes.\<close>

definition space_runes :: "string list" where
  "space_runes =
     [[CHR 0x09], [CHR 0x0A], [CHR 0x0B], [CHR 0x0C], [CHR 0x0D], [CHR 0x20],
      [CHR 0xC2, CHR 0x85], [CHR 0xC2, CHR 0xA0], [CHR 0xE1, CHR 0x9A, CHR 0x80]]
     @ map (\<lambda>b. [CHR 0xE2, CHR 0x80, b])
         [CHR 0x80, CHR 0x81, CHR 0x82, CHR 0x83, CHR 0x84, CHR 0x85, CHR 0x86, CHR 0x87,
          CHR 0x88, CHR 0x89, CHR 0x8A, CHR 0xA8, CHR 0xA9, CHR 0xAF]
     @ [[CHR 0xE2, CHR 0x81, CHR 0x9F], [CHR 0xE3, CHR 0x80, CHR 0x80]]"

function trim_front :: "string list \<Rightarrow> string \<Rightarrow> string" where
  "trim_front ws s =
     (case find (\<lambda>w. w \<noteq> [] \<and> prefix w s) ws of
        None \<Rightarrow> s
      | Some w \<Rightarrow> trim_front ws (drop (length w) s))"
  by pat_completeness auto
termination
proof (relation "measure (\<lambda>(ws, s). length s)", goal_cases)
  case (2 ws s w)
  then have "w \<noteq> []" and "prefix w s"
    by (auto simp: find_Some_iff)
  then have "0 < length w" and "length w \<le> length s"
    by (auto dest: prefix_length_le)
  then have "length s - length w < length s" by linarith
  then show ?case by simp
qed simp

declare trim_front.simps [simp del]

definition strings_TrimSpace :: "string \<Rightarrow> string" where
  "strings_TrimSpace s =
     rev (trim_front (map rev space_runes) (rev (trim_front space_runes s)))"

text \<open>\<open>strings.EqualFold\<close> on ASCII input; the code folds the scheme name only.\<close>

definition lower_ascii :: "char \<Rightarrow> char" where
  "lower_ascii c = (if 65 \<le> (of_char c :: nat) \<and> (of_char c :: nat) \<le> 90
     then char_of ((of_char c :: nat) + 32) else c)"

definition strings_EqualFold :: "string \<Rightarrow> string \<Rightarrow> bool" where
  "strings_EqualFold a b \<longleftrightarrow> map lower_ascii a = map lower_ascii b"

text \<open>\<open>strconv.Itoa\<close> on non-negative arguments.\<close>

fun strconv_Itoa :: "nat \<Rightarrow> string" where
  "strconv_Itoa n =
     (if n < 10 then [char_of (48 + n)] else strconv_Itoa (n div 10) @ [char_of (48 + n mod 10)])"

declare strconv_Itoa.simps [simp del]

section \<open>Facts about the string functions\<close>

lemma strings_Cut_append: "c \<notin> set a \<Longrightarrow> strings_Cut c (a @ c # b) = Some (a, b)"
proof -
  assume "c \<notin> set a"
  then have "dropWhile (\<lambda>x. x \<noteq> c) (a @ c # b) = c # b"
    and "takeWhile (\<lambda>x. x \<noteq> c) (a @ c # b) = a"
    by (induction a) auto
  then show ?thesis by (simp add: strings_Cut_def)
qed

lemma strings_Cut_None: "strings_Cut c s = None \<longleftrightarrow> c \<notin> set s"
proof (cases "c \<in> set s")
  case True
  then obtain p q where "s = p @ c # q" "c \<notin> set p"
    by (blast dest: split_list_first)
  with True show ?thesis by (simp add: strings_Cut_append)
next
  case False
  then have none: "dropWhile (\<lambda>x. x \<noteq> c) s = []" by auto
  from False show ?thesis unfolding strings_Cut_def none by simp
qed

lemma strings_Cut_Some:
  "strings_Cut c s = Some (a, b) \<longleftrightarrow> s = a @ c # b \<and> c \<notin> set a"
proof
  assume cut: "strings_Cut c s = Some (a, b)"
  then have "strings_Cut c s \<noteq> None" by simp
  then have "c \<in> set s" by (simp add: strings_Cut_None)
  then obtain p q where pq: "s = p @ c # q" "c \<notin> set p"
    by (blast dest: split_list_first)
  with cut strings_Cut_append [of c p q] show "s = a @ c # b \<and> c \<notin> set a" by simp
qed (simp add: strings_Cut_append)

lemma split_at_first:
  fixes c :: char
  assumes "a @ c # b = a' @ c # b'" and "c \<notin> set a" and "c \<notin> set a'"
  shows "a = a' \<and> b = b'"
proof -
  have "Some (a, b) = strings_Cut c (a' @ c # b')"
    unfolding assms(1) [symmetric] using assms(2) by (rule strings_Cut_append [symmetric])
  also have "\<dots> = Some (a', b')"
    using assms(3) by (rule strings_Cut_append)
  finally show ?thesis by simp
qed

lemma strings_Join_Cons: "xs \<noteq> [] \<Longrightarrow> strings_Join sep (x # xs) = x @ sep @ strings_Join sep xs"
  by (cases xs) auto

lemma strings_Join_no_sep:
  "\<forall>x \<in> set (x # xs). c \<notin> set x \<Longrightarrow> c \<in> set (strings_Join [c] (x # xs)) \<longleftrightarrow> xs \<noteq> []"
  by (cases xs) auto

lemma strings_Join_inj:
  assumes "strings_Join [c] xs = strings_Join [c] ys" and "xs \<noteq> []" and "ys \<noteq> []"
    and "\<forall>x \<in> set xs. c \<notin> set x" and "\<forall>y \<in> set ys. c \<notin> set y"
  shows "xs = ys"
  using assms
proof (induction xs arbitrary: ys)
  case Nil
  then show ?case by simp
next
  case (Cons x xs)
  then obtain y ys' where ys: "ys = y # ys'" by (cases ys) auto
  have "c \<in> set (strings_Join [c] (x # xs)) \<longleftrightarrow> xs \<noteq> []"
    using Cons.prems(4) by (rule strings_Join_no_sep)
  moreover have "c \<in> set (strings_Join [c] (y # ys')) \<longleftrightarrow> ys' \<noteq> []"
    using Cons.prems(5) unfolding ys by (rule strings_Join_no_sep)
  ultimately have nonempty: "xs \<noteq> [] \<longleftrightarrow> ys' \<noteq> []"
    using Cons.prems(1) unfolding ys by simp
  show ?case
  proof (cases "xs = []")
    case True
    with nonempty Cons.prems(1) show ?thesis unfolding ys by simp
  next
    case False
    with nonempty Cons.prems(1) have "x @ c # strings_Join [c] xs = y @ c # strings_Join [c] ys'"
      unfolding ys by (simp add: strings_Join_Cons)
    then have "x = y \<and> strings_Join [c] xs = strings_Join [c] ys'"
      by (rule split_at_first) (use Cons.prems(4,5) in \<open>auto simp: ys\<close>)
    moreover from this have "xs = ys'"
      using Cons.prems(4,5) False nonempty by (intro Cons.IH) (auto simp: ys)
    ultimately show ?thesis by (simp add: ys)
  qed
qed

section \<open>Facts about lists\<close>

lemma filter_enumerate_neq:
  assumes "i < length xs"
  shows "map snd (filter (\<lambda>(j, m). j \<noteq> i) (enumerate 0 xs)) = take i xs @ drop (Suc i) xs"
proof -
  have all: "map snd (filter (\<lambda>(j, m). j \<noteq> k) (enumerate s ys)) = ys" if "k < s \<or> s + length ys \<le> k"
    for k s and ys :: "'a list"
    using that by (induction ys arbitrary: s) auto
  have "map snd (filter (\<lambda>(j, m). j \<noteq> s + i) (enumerate s xs)) = take i xs @ drop (Suc i) xs"
    if "i < length xs" for s i
    using that
  proof (induction xs arbitrary: s i)
    case (Cons x xs)
    show ?case
    proof (cases i)
      case 0
      with all [of s "Suc s" xs] show ?thesis by simp
    next
      case (Suc k)
      with Cons.IH [of k "Suc s"] Cons.prems show ?thesis by simp
    qed
  qed simp
  from this [OF assms, of 0] show ?thesis by simp
qed

section \<open>Facts about maps\<close>

lemma gomap_set_get [gomap]: "gomap_get (gomap_set k v m) k' = (if k' = k then Some v else gomap_get m k')"
  by (simp add: update_conv')

lemma gomap_del_get [gomap]: "gomap_get (gomap_del k m) k' = (if k' = k then None else gomap_get m k')"
  by (simp add: delete_conv')

lemma gomap_set_all_get [gomap]:
  "gomap_get (gomap_set_all ks v m) k = (if k \<in> set ks then Some v else gomap_get m k)"
  unfolding gomap_set_all_def by (induction ks arbitrary: m) (auto simp: gomap)

lemma gomap_del_all_get [gomap]:
  "gomap_get (fold gomap_del ks m) k = (if k \<in> set ks then None else gomap_get m k)"
  by (induction ks arbitrary: m) (auto simp: gomap)

lemma gomap_or_set [gomap]: "gomap_or z (gomap_set k v m) k' = (if k' = k then v else gomap_or z m k')"
  by (simp add: gomap_or_def gomap)

lemma gomap_or_del [gomap]: "gomap_or z (gomap_del k m) k' = (if k' = k then z else gomap_or z m k')"
  by (simp add: gomap_or_def gomap)

lemma dom_gomap_set [gomap]: "dom (map_of (gomap_set k v m)) = insert k (dom (map_of m))"
  by (auto simp: dom_def gomap)

lemma dom_gomap_set_all [gomap]: "dom (map_of (gomap_set_all ks v m)) = set ks \<union> dom (map_of m)"
  by (auto simp: dom_def gomap)

lemma dom_gomap_del_all [gomap]: "dom (map_of (fold gomap_del ks m)) = dom (map_of m) - set ks"
  by (auto simp: dom_def gomap split: if_splits)

lemma gomap_wf_Nil [simp]: "gomap_wf []"
  by (simp add: gomap_wf_def)

lemma gomap_wf_set [simp]: "gomap_wf m \<Longrightarrow> gomap_wf (gomap_set k v m)"
  by (simp add: gomap_wf_def distinct_update)

lemma gomap_wf_del [simp]: "gomap_wf m \<Longrightarrow> gomap_wf (gomap_del k m)"
  by (simp add: gomap_wf_def distinct_delete)

lemma gomap_wf_set_all [simp]: "gomap_wf m \<Longrightarrow> gomap_wf (gomap_set_all ks v m)"
  unfolding gomap_set_all_def by (induction ks arbitrary: m) auto

lemma gomap_wf_del_all [simp]: "gomap_wf m \<Longrightarrow> gomap_wf (fold gomap_del ks m)"
  by (induction ks arbitrary: m) auto

lemma gomap_wf_get: "gomap_wf m \<Longrightarrow> (k, v) \<in> set m \<longleftrightarrow> gomap_get m k = Some v"
  by (simp add: gomap_wf_def)

section \<open>Decimal numerals\<close>

definition digits_val :: "string \<Rightarrow> nat" where
  "digits_val s = foldl (\<lambda>a c. 10 * a + (of_char c - 48)) 0 s"

definition is_digit :: "char \<Rightarrow> bool" where
  "is_digit c \<longleftrightarrow> 48 \<le> (of_char c :: nat) \<and> (of_char c :: nat) \<le> 57"

lemma digit_char: "n < 10 \<Longrightarrow> is_digit (char_of (48 + n)) \<and> of_char (char_of (48 + n)) - (48 :: nat) = n"
  for n :: nat
  by (simp add: is_digit_def)

lemma strconv_Itoa_digits: "list_all is_digit (strconv_Itoa n) \<and> digits_val (strconv_Itoa n) = n"
proof (induction n rule: strconv_Itoa.induct)
  case (1 n)
  show ?case
  proof (cases "n < 10")
    case True
    with digit_char [of n] show ?thesis
      by (simp add: strconv_Itoa.simps [of n] digits_val_def)
  next
    case False
    with 1 have "list_all is_digit (strconv_Itoa (n div 10))"
      and "digits_val (strconv_Itoa (n div 10)) = n div 10" by simp_all
    with False digit_char [of "n mod 10"] show ?thesis
      by (simp add: strconv_Itoa.simps [of n] digits_val_def)
  qed
qed

lemma strconv_Itoa_inj: "strconv_Itoa m = strconv_Itoa n \<longleftrightarrow> m = n"
  by (metis strconv_Itoa_digits)

lemma digits_val_zeros: "digits_val (replicate k (CHR ''0'') @ s) = digits_val s"
  unfolding digits_val_def by (induction k) simp_all

lemma strconv_Itoa_short: "n < 100 \<Longrightarrow> length (strconv_Itoa n) \<le> 2"
  by (subst strconv_Itoa.simps, simp) (subst strconv_Itoa.simps, simp)

section \<open>Hexadecimal\<close>

text \<open>\<open>hex.EncodeToString\<close>.\<close>

definition hex_digit :: "nat \<Rightarrow> char" where
  "hex_digit n = ''0123456789abcdef'' ! n"

definition hex_EncodeToString :: "string \<Rightarrow> string" where
  "hex_EncodeToString bs =
     concat (map (\<lambda>b. [hex_digit (of_char b div 16), hex_digit (of_char b mod 16)]) bs)"

end
