(* ===== verification/Balancer.thy ===== *)
theory Balancer
  imports Nexus_Prelude
begin

text \<open>
  The smooth weighted round-robin balancer of \<open>internal/balancer/roundrobin.go\<close>: a map from
  a routing alias to the running weights of its candidates, advanced by \<open>Next\<close>, and
  \<open>RotateChain\<close>, which moves the pick to the front of the failover chain. The mutex makes each
  call atomic, so an execution is a sequence of calls in some order.

  Reading or writing \<open>current[i]\<close> beyond its length panics in Go; the model returns
  \<open>None\<close> there.
\<close>

section \<open>The state and the operations\<close>

record swrrState =
  fingerprint :: string
  swrr_current :: "int list"

record WeightedRR =
  groups :: "(string, swrrState) gomap"

definition NewWeightedRR :: WeightedRR where
  "NewWeightedRR = \<lparr>groups = []\<rparr>"

text \<open>The loop of \<open>Next\<close> over \<open>i\<close>: \<open>total\<close>, \<open>best\<close> and the weights.\<close>

function swrr_loop :: "nat \<Rightarrow> nat \<Rightarrow> int \<Rightarrow> nat \<Rightarrow> int list \<Rightarrow> (int \<times> nat \<times> int list) option" where
  "swrr_loop n i tot best cur =
     (if i < n then
        (if i < length cur then
           let wi = int n - int i;
               cur' = cur[i := cur ! i + wi]
           in swrr_loop n (Suc i) (tot + wi) (if cur' ! i > cur' ! best then i else best) cur'
         else None)
      else Some (tot, best, cur))"
  by pat_completeness auto
termination
  by (relation "measure (\<lambda>(n, i, _). n - i)") auto

declare swrr_loop.simps [simp del]

definition swrr_state :: "WeightedRR \<Rightarrow> string \<Rightarrow> string list \<Rightarrow> swrrState" where
  "swrr_state w groupKey ranked =
     (let fp = strings_Join [CHR 0x00] ranked;
          fresh = \<lparr>fingerprint = fp, swrr_current = replicate (length ranked) 0\<rparr>
      in case gomap_get (groups w) groupKey of
           None \<Rightarrow> fresh
         | Some st \<Rightarrow> if fingerprint st \<noteq> fp then fresh else st)"

definition Next :: "WeightedRR \<Rightarrow> string \<Rightarrow> string list \<Rightarrow> (nat \<times> WeightedRR) option" where
  "Next w groupKey ranked =
     (let n = length ranked
      in if n \<le> 1 then Some (0, w)
         else
           let st = swrr_state w groupKey ranked
           in case swrr_loop n 0 0 0 (swrr_current st) of
                None \<Rightarrow> None
              | Some (tot, best, cur) \<Rightarrow>
                  Some (best,
                    w\<lparr>groups := gomap_set groupKey
                        (st\<lparr>swrr_current := cur[best := cur ! best - tot]\<rparr>) (groups w)\<rparr>))"

text \<open>\<open>RotateChain\<close>; the balancer argument is a pointer that may be nil.\<close>

definition RotateChain ::
  "string \<Rightarrow> string list \<Rightarrow> WeightedRR option \<Rightarrow> (string list \<times> WeightedRR option) option" where
  "RotateChain groupKey ranked w =
     (case w of
        None \<Rightarrow> Some (ranked, None)
      | Some b \<Rightarrow>
          if length ranked \<le> 1 then Some (ranked, w)
          else case Next b groupKey ranked of
                 None \<Rightarrow> None
               | Some (i, b') \<Rightarrow>
                   Some (ranked ! i # map snd (filter (\<lambda>(j, m). j \<noteq> i) (enumerate 0 ranked)), Some b'))"

text \<open>A run of calls, each with its own alias and candidate list, and the picks it makes.\<close>

fun Next_seq :: "WeightedRR \<Rightarrow> (string \<times> string list) list \<Rightarrow> (nat list \<times> WeightedRR) option" where
  "Next_seq w [] = Some ([], w)"
| "Next_seq w ((g, ranked) # calls) =
     (case Next w g ranked of
        None \<Rightarrow> None
      | Some (i, w') \<Rightarrow>
          (case Next_seq w' calls of None \<Rightarrow> None | Some (is, w'') \<Rightarrow> Some (i # is, w'')))"

section \<open>One round of the weights\<close>

text \<open>The sum of the rank weights \<open>n, n - 1, \<dots>, 1\<close>.\<close>

definition rank_total :: "nat \<Rightarrow> int" where
  "rank_total n = (\<Sum>j = 0..<n. int n - int j)"

lemma rank_total_pos: "0 < n \<Longrightarrow> 0 < rank_total n"
  unfolding rank_total_def by (rule sum_pos) auto

lemma rank_total_gauss: "2 * rank_total n = int n * (int n + 1)"
proof (induction n)
  case (Suc n)
  have "rank_total (Suc n) = (\<Sum>j = 0..<n. int n - int j + 1) + 1"
    by (simp add: rank_total_def algebra_simps)
  also have "\<dots> = rank_total n + int n + 1"
    by (simp add: rank_total_def sum.distrib)
  finally show ?case using Suc by (simp add: algebra_simps)
qed (simp add: rank_total_def)

lemma swrr_loop_correct:
  assumes "length cur = n" and "i \<le> n"
    and "i = 0 \<and> best = 0 \<or> best < i \<and> (\<forall>j < i. cur ! j \<le> cur ! best)"
  shows "\<exists>best' cur'. swrr_loop n i tot best cur =
             Some (tot + (\<Sum>j = i..<n. int n - int j), best', cur')
           \<and> length cur' = n
           \<and> (\<forall>j < n. cur' ! j = cur ! j + (if i \<le> j then int n - int j else 0))
           \<and> (0 < n \<longrightarrow> best' < n \<and> (\<forall>j < n. cur' ! j \<le> cur' ! best'))"
  using assms
proof (induction n i tot best cur rule: swrr_loop.induct)
  case (1 n i tot best cur)
  show ?case
  proof (cases "i < n")
    case False
    then have "swrr_loop n i tot best cur = Some (tot, best, cur)"
      by (subst swrr_loop.simps) simp
    with 1(2-4) False show ?thesis
      by (intro exI [of _ best] exI [of _ cur]) auto
  next
    case True
    define wi where "wi = int n - int i"
    define cur' where "cur' = cur[i := cur ! i + wi]"
    define b where "b = (if cur' ! i > cur' ! best then i else best)"
    have eq: "swrr_loop n i tot best cur = swrr_loop n (Suc i) (tot + wi) b cur'"
      using True 1(2) by (subst swrr_loop.simps) (simp add: Let_def wi_def cur'_def b_def)
    have len: "length cur' = n" using 1(2) by (simp add: cur'_def)
    have "b < Suc i \<and> (\<forall>j < Suc i. cur' ! j \<le> cur' ! b)"
      using 1(2,4) True by (auto simp: b_def cur'_def less_Suc_eq nth_list_update)
    then have prem: "Suc i = 0 \<and> b = 0 \<or> b < Suc i \<and> (\<forall>j < Suc i. cur' ! j \<le> cur' ! b)"
      by simp
    have sum: "(\<Sum>j = i..<n. int n - int j) = wi + (\<Sum>j = Suc i..<n. int n - int j)"
      using True by (simp add: sum.atLeast_Suc_lessThan wi_def)
    have "i < length cur" using True 1(2) by simp
    note IH = 1(1) [OF True this wi_def cur'_def, folded b_def, OF len _ prem]
    have "Suc i \<le> n" using True by simp
    from IH [OF this] obtain best' cur'' where
      res: "swrr_loop n (Suc i) (tot + wi) b cur' =
              Some (tot + wi + (\<Sum>j = Suc i..<n. int n - int j), best', cur'')"
      and len'': "length cur'' = n"
      and vals: "\<forall>j < n. cur'' ! j = cur' ! j + (if Suc i \<le> j then int n - int j else 0)"
      and max: "0 < n \<longrightarrow> best' < n \<and> (\<forall>j < n. cur'' ! j \<le> cur'' ! best')"
      by blast
    have "\<forall>j < n. cur'' ! j = cur ! j + (if i \<le> j then int n - int j else 0)"
      using vals 1(2) True
      by (auto simp: cur'_def wi_def nth_list_update Suc_le_eq dest: le_neq_implies_less)
    with res len'' max sum eq show ?thesis by (auto simp: algebra_simps)
  qed
qed

lemma swrr_round:
  assumes "length cur = n" and "0 < n"
  obtains best cur' where
    "swrr_loop n 0 0 0 cur = Some (rank_total n, best, cur')"
    and "best < n" and "length cur' = n"
    and "\<And>j. j < n \<Longrightarrow> cur' ! j = cur ! j + (int n - int j)"
    and "\<And>j. j < n \<Longrightarrow> cur' ! j \<le> cur' ! best"
  using swrr_loop_correct [of cur n 0 0 0] assms that by (auto simp: rank_total_def)

text \<open>The invariant of the running weights between two calls: they sum to zero and none has
  fallen by a whole total.\<close>

definition wf_weights :: "nat \<Rightarrow> int list \<Rightarrow> bool" where
  "wf_weights n cur \<longleftrightarrow>
     length cur = n \<and> (\<Sum>j = 0..<n. cur ! j) = 0 \<and> (\<forall>j < n. - rank_total n < cur ! j)"

lemma wf_weights_fresh: "0 < n \<Longrightarrow> wf_weights n (replicate n 0)"
  by (simp add: wf_weights_def rank_total_pos)

lemma wf_weights_round:
  assumes wf: "wf_weights n cur" and n: "0 < n"
    and len: "length cur' = n" and best: "best < n"
    and vals: "\<And>j. j < n \<Longrightarrow> cur' ! j = cur ! j + (int n - int j)"
    and max: "\<And>j. j < n \<Longrightarrow> cur' ! j \<le> cur' ! best"
  shows "wf_weights n (cur'[best := cur' ! best - rank_total n])" (is "wf_weights n ?new")
proof -
  have "(\<Sum>j = 0..<n. cur' ! j) = (\<Sum>j = 0..<n. cur ! j) + rank_total n"
    by (simp add: vals sum.distrib rank_total_def)
  with wf have sum': "(\<Sum>j = 0..<n. cur' ! j) = rank_total n"
    by (simp add: wf_weights_def)
  have new: "?new ! j = cur' ! j - (if j = best then rank_total n else 0)" if "j < n" for j
    using that len by (simp add: nth_list_update)
  then have "(\<Sum>j = 0..<n. ?new ! j) = (\<Sum>j = 0..<n. cur' ! j - (if j = best then rank_total n else 0))"
    by (intro sum.cong) auto
  also have "\<dots> = (\<Sum>j = 0..<n. cur' ! j) - rank_total n"
    using best by (simp add: sum_subtractf)
  finally have zero: "(\<Sum>j = 0..<n. ?new ! j) = 0" using sum' by simp
  have "0 < cur' ! best"
  proof (rule ccontr)
    assume "\<not> 0 < cur' ! best"
    with max have "cur' ! j \<le> 0" if "j < n" for j using that by force
    then have "(\<Sum>j = 0..<n. cur' ! j) \<le> 0" by (intro sum_nonpos) auto
    with sum' rank_total_pos [OF n] show False by simp
  qed
  moreover have "- rank_total n < cur' ! j" if "j < n" for j
  proof -
    have "- rank_total n < cur ! j" using wf that by (simp add: wf_weights_def)
    with vals [OF that] that show ?thesis by simp
  qed
  ultimately have "\<forall>j < n. - rank_total n < ?new ! j" using new by auto
  with zero len show ?thesis by (simp add: wf_weights_def)
qed

section \<open>The balancer state\<close>

text \<open>The candidate names the fingerprint can tell apart: it joins them with NUL bytes.\<close>

definition nul_free :: "string list \<Rightarrow> bool" where
  "nul_free ms \<longleftrightarrow> (\<forall>m \<in> set ms. CHR 0x00 \<notin> set m)"

definition bal_wf :: "WeightedRR \<Rightarrow> bool" where
  "bal_wf w \<longleftrightarrow>
     (\<forall>g st. gomap_get (groups w) g = Some st \<longrightarrow>
        (\<exists>r. nul_free r \<and> 2 \<le> length r \<and> fingerprint st = strings_Join [CHR 0x00] r
           \<and> wf_weights (length r) (swrr_current st)))"

abbreviation weights_of :: "WeightedRR \<Rightarrow> string \<Rightarrow> string list \<Rightarrow> int list" where
  "weights_of w g ranked \<equiv> swrr_current (swrr_state w g ranked)"

lemma bal_wf_new: "bal_wf NewWeightedRR"
  by (simp add: bal_wf_def NewWeightedRR_def)

lemma fingerprint_inj:
  assumes "nul_free r" and "nul_free r'" and "2 \<le> length r" and "2 \<le> length r'"
    and "strings_Join [CHR 0x00] r = strings_Join [CHR 0x00] r'"
  shows "r = r'"
  using assms by (intro strings_Join_inj [of "CHR 0x00"]) (auto simp: nul_free_def)

lemma weights_of_wf:
  assumes "bal_wf w" and "nul_free ranked" and "2 \<le> length ranked"
  shows "wf_weights (length ranked) (weights_of w g ranked)"
proof -
  have fresh: "wf_weights (length ranked) (replicate (length ranked) 0)"
    using assms(3) by (intro wf_weights_fresh) linarith
  show ?thesis
proof (cases "gomap_get (groups w) g")
  case None
  then show ?thesis using fresh by (simp add: swrr_state_def)
next
  case (Some st)
  show ?thesis
  proof (cases "fingerprint st = strings_Join [CHR 0x00] ranked")
    case False
    with Some fresh show ?thesis by (simp add: swrr_state_def)
  next
    case True
    from assms(1) Some obtain r where "nul_free r" "2 \<le> length r"
      "fingerprint st = strings_Join [CHR 0x00] r" "wf_weights (length r) (swrr_current st)"
      unfolding bal_wf_def by blast
    moreover from this True assms(2,3) have "r = ranked" by (intro fingerprint_inj) auto
    ultimately show ?thesis using Some True by (simp add: swrr_state_def)
  qed
qed
qed

lemma fingerprint_swrr_state:
  "fingerprint (swrr_state w g ranked) = strings_Join [CHR 0x00] ranked"
  by (simp add: swrr_state_def Let_def split: option.splits)

text \<open>One call: it does not panic, picks an index of the list, keeps the invariant, moves the
  weights of its own group by one round and leaves every other group alone.\<close>

lemma Next_step:
  assumes wf: "bal_wf w" and nul: "nul_free ranked" and n: "2 \<le> length ranked"
  obtains i w' where "Next w g ranked = Some (i, w')" and "i < length ranked" and "bal_wf w'"
    and "\<And>j. j < length ranked \<Longrightarrow> weights_of w' g ranked ! j =
            weights_of w g ranked ! j + (int (length ranked) - int j)
            - (if j = i then rank_total (length ranked) else 0)"
    and "\<And>g' r. g' \<noteq> g \<Longrightarrow> swrr_state w' g' r = swrr_state w g' r"
proof -
  let ?n = "length ranked" and ?st = "swrr_state w g ranked"
  have pos: "0 < ?n" using n by linarith
  have wfw: "wf_weights ?n (swrr_current ?st)" using assms by (rule weights_of_wf)
  then have "length (swrr_current ?st) = ?n" by (simp add: wf_weights_def)
  then obtain best cur' where
    loop: "swrr_loop ?n 0 0 0 (swrr_current ?st) = Some (rank_total ?n, best, cur')"
    and best: "best < ?n" and len: "length cur' = ?n"
    and vals: "\<And>j. j < ?n \<Longrightarrow> cur' ! j = swrr_current ?st ! j + (int ?n - int j)"
    and max: "\<And>j. j < ?n \<Longrightarrow> cur' ! j \<le> cur' ! best"
    using pos by (rule swrr_round) blast
  define st' where "st' = ?st\<lparr>swrr_current := cur'[best := cur' ! best - rank_total ?n]\<rparr>"
  define w' where "w' = w\<lparr>groups := gomap_set g st' (groups w)\<rparr>"
  have nxt: "Next w g ranked = Some (best, w')"
    using n loop by (simp add: Next_def w'_def st'_def)
  have fp: "fingerprint st' = strings_Join [CHR 0x00] ranked"
    by (simp add: st'_def fingerprint_swrr_state)
  have own: "swrr_state w' g ranked = st'"
    using fp by (simp add: swrr_state_def w'_def update_conv')
  have "wf_weights ?n (swrr_current st')"
    using wf_weights_round [OF wfw pos len best vals max] by (simp add: st'_def)
  with nul n fp have new: "\<exists>r. nul_free r \<and> 2 \<le> length r \<and> fingerprint st' = strings_Join [CHR 0x00] r
      \<and> wf_weights (length r) (swrr_current st')" by blast
  have wf': "bal_wf w'"
    using wf new by (auto simp: bal_wf_def w'_def update_conv' split: if_splits)
  have frame: "swrr_state w' g' r = swrr_state w g' r" if "g' \<noteq> g" for g' r
    using that by (simp add: swrr_state_def w'_def update_conv')
  have step: "weights_of w' g ranked ! j = weights_of w g ranked ! j + (int ?n - int j)
            - (if j = best then rank_total ?n else 0)" if "j < ?n" for j
    unfolding own using that len by (simp add: st'_def nth_list_update vals)
  show thesis by (rule that [OF nxt best wf' step frame])
qed

lemma Next_short: "length ranked \<le> 1 \<Longrightarrow> Next w g ranked = Some (0, w)"
  by (simp add: Next_def)

section \<open>Sequences of calls\<close>

definition picks_of :: "string \<Rightarrow> (string \<times> string list) list \<Rightarrow> nat list \<Rightarrow> nat list" where
  "picks_of g calls is = map snd (filter (\<lambda>(c, _). fst c = g) (zip calls is))"

definition calls_of :: "string \<Rightarrow> (string \<times> string list) list \<Rightarrow> (string \<times> string list) list" where
  "calls_of g calls = filter (\<lambda>c. fst c = g) calls"

lemma Next_seq_weights:
  assumes "bal_wf w" and "\<forall>(g', r) \<in> set calls. nul_free r \<and> (g' = g \<longrightarrow> r = ranked)"
    and "2 \<le> length ranked"
  shows "\<exists>is w'. Next_seq w calls = Some (is, w') \<and> length is = length calls \<and> bal_wf w'
     \<and> (\<forall>j < length ranked. weights_of w' g ranked ! j =
          weights_of w g ranked ! j + int (length (calls_of g calls)) * (int (length ranked) - int j)
          - rank_total (length ranked) * int (count_list (picks_of g calls is) j))"
  using assms
proof (induction calls arbitrary: w)
  case Nil
  then show ?case by (simp add: picks_of_def calls_of_def)
next
  case (Cons c calls)
  obtain g' r where c: "c = (g', r)" by (cases c)
  have nul: "nul_free r" and same: "g' = g \<longrightarrow> r = ranked"
    using Cons.prems(2) by (auto simp: c)
  have rest: "\<forall>(g', r) \<in> set calls. nul_free r \<and> (g' = g \<longrightarrow> r = ranked)"
    using Cons.prems(2) by auto
  obtain i w1 where nxt: "Next w g' r = Some (i, w1)" and wf1: "bal_wf w1"
    and step: "\<forall>j < length ranked. weights_of w1 g ranked ! j =
          weights_of w g ranked ! j + (if g' = g then (int (length ranked) - int j)
            - (if j = i then rank_total (length ranked) else 0) else 0)"
  proof (cases "2 \<le> length r")
    case False
    with same Cons.prems(3) have "g' \<noteq> g" by auto
    with False Cons.prems(1) show ?thesis by (intro that [of 0 w]) (auto simp: Next_short)
  next
    case True
    obtain i w1 where n1: "Next w g' r = Some (i, w1)" "bal_wf w1"
      and own: "\<And>j. j < length r \<Longrightarrow> weights_of w1 g' r ! j =
            weights_of w g' r ! j + (int (length r) - int j)
            - (if j = i then rank_total (length r) else 0)"
      and frame: "\<And>g'' r'. g'' \<noteq> g' \<Longrightarrow> swrr_state w1 g'' r' = swrr_state w g'' r'"
      using Next_step [OF Cons.prems(1) nul True, of g'] by metis
    show ?thesis
    proof (intro that [OF n1] allI impI)
      fix j assume "j < length ranked"
      then show "weights_of w1 g ranked ! j = weights_of w g ranked ! j
          + (if g' = g then (int (length ranked) - int j)
            - (if j = i then rank_total (length ranked) else 0) else 0)"
        using own [of j] frame [of g ranked] same by (cases "g' = g") auto
    qed
  qed
  from Cons.IH [OF wf1 rest Cons.prems(3)] obtain "is" w' where
    seq: "Next_seq w1 calls = Some (is, w')" "length is = length calls" "bal_wf w'"
    and ws: "\<forall>j < length ranked. weights_of w' g ranked ! j =
          weights_of w1 g ranked ! j + int (length (calls_of g calls)) * (int (length ranked) - int j)
          - rank_total (length ranked) * int (count_list (picks_of g calls is) j)"
    by blast
  have "\<forall>j < length ranked. weights_of w' g ranked ! j =
          weights_of w g ranked ! j
          + int (length (calls_of g (c # calls))) * (int (length ranked) - int j)
          - rank_total (length ranked) * int (count_list (picks_of g (c # calls) (i # is)) j)"
    using ws step by (auto simp: c picks_of_def calls_of_def algebra_simps)
  with nxt seq show ?case by (auto simp: c)
qed

lemma zero_weights:
  assumes wf: "wf_weights n ws" and n: "0 < n"
    and mult: "\<And>j. j < n \<Longrightarrow> ws ! j = rank_total n * f j"
  shows "j < n \<Longrightarrow> f j = 0"
proof -
  have T: "0 < rank_total n" using n by (rule rank_total_pos)
  have nonneg: "0 \<le> f j" if "j < n" for j
  proof (rule ccontr)
    assume "\<not> 0 \<le> f j"
    then have "rank_total n * f j \<le> rank_total n * (- 1)" using T by (intro mult_left_mono) auto
    with wf that mult [OF that] show False by (auto simp: wf_weights_def)
  qed
  have "rank_total n * (\<Sum>j = 0..<n. f j) = (\<Sum>j = 0..<n. ws ! j)"
    by (simp add: sum_distrib_left mult)
  also have "\<dots> = 0" using wf by (simp add: wf_weights_def)
  finally have "(\<Sum>j = 0..<n. f j) = 0" using T by simp
  with nonneg have "\<forall>j \<in> {0..<n}. f j = 0" by (subst (asm) sum_nonneg_eq_0_iff) auto
  then show "j < n \<Longrightarrow> f j = 0" by simp
qed

lemma Next_seq_wf:
  assumes "\<forall>(g', r) \<in> set calls. nul_free r" and "Next_seq NewWeightedRR calls = Some (is, w)"
  shows "bal_wf w"
proof -
  have "Next_seq v calls = Some (is, w) \<Longrightarrow> bal_wf v \<Longrightarrow> bal_wf w" for v
    using assms(1)
  proof (induction calls arbitrary: v "is")
    case (Cons c calls)
    obtain g r where c: "c = (g, r)" by (cases c)
    with Cons.prems(1) obtain i v' is' where nxt: "Next v g r = Some (i, v')"
      and rest: "Next_seq v' calls = Some (is', w)"
      by (auto split: option.splits)
    have "nul_free r" using Cons.prems(3) by (simp add: c)
    have "bal_wf v'"
    proof (cases "2 \<le> length r")
      case True
      from Next_step [OF Cons.prems(2) \<open>nul_free r\<close> True, of g] nxt show ?thesis by auto
    next
      case False
      with nxt Cons.prems(2) show ?thesis by (simp add: Next_short)
    qed
    with Cons.IH [OF rest] Cons.prems(3) show ?case by simp
  qed simp
  with assms(2) bal_wf_new show ?thesis by blast
qed

lemma wf_weights_upper:
  assumes "wf_weights n ws" and "j < n"
  shows "ws ! j \<le> int n * rank_total n"
proof -
  let ?T = "rank_total n"
  have "ws ! j + (\<Sum>i \<in> {0..<n} - {j}. ws ! i) = (\<Sum>i = 0..<n. ws ! i)"
    using assms(2) by (subst sum.remove [of _ j]) auto
  then have "ws ! j = (\<Sum>i \<in> {0..<n} - {j}. - ws ! i)"
    using assms(1) by (simp add: wf_weights_def sum_negf)
  also have "\<dots> \<le> (\<Sum>i \<in> {0..<n} - {j}. ?T)"
    using assms(1) by (intro sum_mono) (force simp: wf_weights_def)
  also have "\<dots> \<le> int n * ?T"
    using rank_total_pos [of n] assms(2) by (simp add: mult_right_mono)
  finally show ?thesis .
qed

lemma weights_of_new: "weights_of NewWeightedRR g ranked = replicate (length ranked) 0"
  by (simp add: swrr_state_def NewWeightedRR_def)

text \<open>C15. Proportional share. Let an alias be called \<open>k\<close> times a full round of
  \<open>n + (n - 1) + \<dots> + 1\<close> calls, always with the same ranked list of \<open>n \<ge> 2\<close> models,
  interleaved in any way with calls for other aliases. Then no call panics and the model at rank
  \<open>j\<close> is picked exactly \<open>k * (n - j)\<close> times.\<close>

theorem swrr_proportional_share:
  assumes "\<forall>(g', r) \<in> set calls. nul_free r \<and> (g' = g \<longrightarrow> r = ranked)"
    and "nul_free ranked" and "2 \<le> length ranked"
    and "int (length (calls_of g calls)) = int k * rank_total (length ranked)"
  shows "\<exists>is w'. Next_seq NewWeightedRR calls = Some (is, w') \<and> length is = length calls
     \<and> (\<forall>j < length ranked. count_list (picks_of g calls is) j = k * (length ranked - j))"
proof -
  let ?n = "length ranked"
  from Next_seq_weights [OF bal_wf_new assms(1,3)] obtain "is" w' where
    seq: "Next_seq NewWeightedRR calls = Some (is, w')" "length is = length calls" "bal_wf w'"
    and ws: "\<forall>j < ?n. weights_of w' g ranked ! j =
          weights_of NewWeightedRR g ranked ! j + int (length (calls_of g calls)) * (int ?n - int j)
          - rank_total ?n * int (count_list (picks_of g calls is) j)"
    by blast
  let ?f = "\<lambda>j. int k * (int ?n - int j) - int (count_list (picks_of g calls is) j)"
  have wf: "wf_weights ?n (weights_of w' g ranked)"
    using seq(3) assms(2,3) by (rule weights_of_wf)
  have pos: "0 < ?n" using assms(3) by linarith
  have "weights_of w' g ranked ! j = rank_total ?n * ?f j" if "j < ?n" for j
    using ws that assms(4) by (simp add: weights_of_new algebra_simps)
  then have zero: "?f j = 0" if "j < ?n" for j
    using that by (rule zero_weights [OF wf pos])
  have "count_list (picks_of g calls is) j = k * (?n - j)" if "j < ?n" for j
  proof -
    have "int (count_list (picks_of g calls is) j) = int (k * (?n - j))"
      using zero [OF that] that by simp
    then show ?thesis by (simp only: of_nat_eq_iff)
  qed
  with seq show ?thesis by blast
qed

theorem swrr_proportional_share_witness:
  "\<exists>is w'. Next_seq NewWeightedRR
        [(''fast'', [''a'', ''b'']), (''slow'', [''c'', ''d'']), (''fast'', [''a'', ''b'']),
         (''fast'', [''a'', ''b''])] = Some (is, w')
     \<and> (\<forall>j < length [''a'', ''b'']. count_list (picks_of ''fast''
          [(''fast'', [''a'', ''b'']), (''slow'', [''c'', ''d'']), (''fast'', [''a'', ''b'']),
           (''fast'', [''a'', ''b''])] is) j = 1 * (length [''a'', ''b''] - j))"
proof -
  let ?ab = "[''a'', ''b'']"
  let ?calls = "[(''fast'', ?ab), (''slow'', [''c'', ''d'']), (''fast'', ?ab), (''fast'', ?ab)]"
  have "\<forall>(g', r) \<in> set ?calls. nul_free r \<and> (g' = ''fast'' \<longrightarrow> r = ?ab)"
    and "nul_free ?ab" and "2 \<le> length ?ab"
    by (simp_all add: nul_free_def)
  moreover have "int (length (calls_of ''fast'' ?calls)) = int 1 * rank_total (length ?ab)"
    by (simp add: calls_of_def rank_total_def)
  ultimately show ?thesis using swrr_proportional_share [of ?calls "''fast''" ?ab 1] by blast
qed

lemma swrr_loop_best: "swrr_loop n i tot best cur = Some (tot', best', cur') \<Longrightarrow> best < n \<Longrightarrow> best' < n"
proof (induction n i tot best cur rule: swrr_loop.induct)
  case (1 n i tot best cur)
  then show ?case by (subst (asm) (2) swrr_loop.simps) (auto simp: Let_def split: if_splits)
qed

text \<open>Whatever the state of the balancer, a rotated chain has no models of its own.\<close>

lemma RotateChain_members: "RotateChain g ranked w = Some (chain, w') \<Longrightarrow> set chain \<subseteq> set ranked"
  using swrr_loop_best
  by (fastforce simp: RotateChain_def Next_def Let_def in_set_enumerate_eq split: option.splits if_splits prod.splits)

text \<open>Failover order. For a chain of at least two models \<open>RotateChain\<close> returns the picked
  model followed by the remaining ones in their ranked order: nothing is lost, duplicated or
  reordered, and the balancer stays well formed.\<close>

theorem RotateChain_rotates:
  assumes "bal_wf b" and "nul_free ranked" and "2 \<le> length ranked"
  shows "\<exists>i b'. i < length ranked
     \<and> RotateChain g ranked (Some b) =
         Some (ranked ! i # take i ranked @ drop (Suc i) ranked, Some b') \<and> bal_wf b'
     \<and> mset (ranked ! i # take i ranked @ drop (Suc i) ranked) = mset ranked"
proof -
  obtain i b' where nxt: "Next b g ranked = Some (i, b')" and i: "i < length ranked" and wf: "bal_wf b'"
    using Next_step [OF assms] by metis
  have skip: "map snd (filter (\<lambda>(j, m). j \<noteq> i) (enumerate 0 ranked)) = take i ranked @ drop (Suc i) ranked"
    using i by (rule filter_enumerate_neq)
  have "ranked = take i ranked @ ranked ! i # drop (Suc i) ranked"
    using i by (rule id_take_nth_drop)
  then have "mset ranked = mset (take i ranked @ ranked ! i # drop (Suc i) ranked)"
    by (rule arg_cong)
  with nxt i wf assms(3) show ?thesis by (auto simp: RotateChain_def skip)
qed

theorem RotateChain_rotates_witness:
  "\<exists>i b'. i < length [''a'', ''b'', ''c'']
     \<and> RotateChain ''fast'' [''a'', ''b'', ''c''] (Some NewWeightedRR) =
         Some ([''a'', ''b'', ''c''] ! i # take i [''a'', ''b'', ''c'']
             @ drop (Suc i) [''a'', ''b'', ''c''], Some b') \<and> bal_wf b'"
proof -
  have "nul_free [''a'', ''b'', ''c'']" and "2 \<le> length [''a'', ''b'', ''c'']"
    by (simp_all add: nul_free_def)
  then show ?thesis using RotateChain_rotates [OF bal_wf_new, of _ "''fast''"] by blast
qed

text \<open>No overflow. With at most \<open>2 ^ 20\<close> candidates per alias the weights, in every state the
  balancer can reach and at every point of its loop, stay within a 64-bit \<open>int\<close>.\<close>

theorem swrr_no_overflow:
  assumes "\<forall>(g', r) \<in> set calls. nul_free r"
    and "Next_seq NewWeightedRR calls = Some (is, w)"
    and "nul_free ranked" and "2 \<le> length ranked" and "length ranked \<le> 2 ^ 20"
    and "j < length ranked"
  shows "- (2 ^ 63) \<le> weights_of w g ranked ! j - rank_total (length ranked)
     \<and> weights_of w g ranked ! j + int (length ranked) < 2 ^ 63"
proof -
  let ?n = "length ranked" and ?ws = "weights_of w g ranked"
  have "bal_wf w" using assms(1,2) by (rule Next_seq_wf)
  then have wf: "wf_weights ?n ?ws" using assms(3,4) by (rule weights_of_wf)
  have n: "int ?n \<le> 2 ^ 20" using assms(5) by (simp add: numeral_power_le_of_nat_cancel_iff)
  have "2 * rank_total ?n \<le> 2 ^ 20 * (2 ^ 20 + 1)"
    unfolding rank_total_gauss using n by (intro mult_mono) auto
  then have T: "rank_total ?n \<le> 2 ^ 40" by simp
  have "int ?n * rank_total ?n \<le> 2 ^ 20 * 2 ^ 40"
    using n T by (intro mult_mono) (auto simp: rank_total_def intro: sum_nonneg)
  with wf_weights_upper [OF wf assms(6)] n T wf assms(6) show ?thesis
    by (auto simp: wf_weights_def)
qed

theorem swrr_no_overflow_witness:
  "\<exists>is w. Next_seq NewWeightedRR [(''fast'', [''a'', ''b''])] = Some (is, w)
     \<and> - (2 ^ 63) \<le> weights_of w ''fast'' [''a'', ''b''] ! 0 - rank_total (length [''a'', ''b''])
     \<and> weights_of w ''fast'' [''a'', ''b''] ! 0 + int (length [''a'', ''b'']) < 2 ^ 63"
proof -
  let ?ab = "[''a'', ''b'']"
  have nul: "nul_free ?ab" and two: "2 \<le> length ?ab" and small: "length ?ab \<le> 2 ^ 20"
    and zero: "0 < length ?ab" and calls: "\<forall>(g', r) \<in> set [(''fast'', ?ab)]. nul_free r"
    by (simp_all add: nul_free_def)
  obtain i w where "Next NewWeightedRR ''fast'' ?ab = Some (i, w)"
    using Next_step [OF bal_wf_new nul two] by metis
  then have "Next_seq NewWeightedRR [(''fast'', ?ab)] = Some ([i], w)" by simp
  with swrr_no_overflow [OF calls this nul two small zero, of "''fast''"] show ?thesis by blast
qed

end
