(* ===== verification/ApiErr.thy ===== *)
theory ApiErr
  imports Nexus_Prelude
begin

text \<open>
  The public error contract of \<open>internal/apierr/apierr.go\<close>: the stable codes with their HTTP
  envelope and default message, the body that \<open>Render\<close> writes, and \<open>Scrub\<close>, the gate every
  gateway error message passes before it reaches a caller.
\<close>

section \<open>Codes\<close>

text \<open>\<open>Code\<close> is a string type with named constants; any other string is \<open>CodeOther\<close>.\<close>

datatype Code =
    CodeInvalidRequest
  | CodeUnauthorized
  | CodeUnauthenticated
  | CodeForbidden
  | CodeNotFound
  | CodeConflict
  | CodeRateLimited
  | CodeRequestTooLarge
  | CodeBudgetExceeded
  | CodeConcurrencyLimit
  | CodeEgressDenied
  | CodeEvalPluginInvalid
  | CodeModelNotAllowed
  | CodeInviteInvalid
  | CodeSSOStateInvalid
  | CodeSchemaContractViolation
  | CodeAdminRequired
  | CodeUpstreamError
  | CodeDependencyUnavailable
  | CodeInternalError
  | CodeOther string

fun code_string :: "Code \<Rightarrow> string" where
  "code_string CodeInvalidRequest = ''invalid_request''"
| "code_string CodeUnauthorized = ''unauthorized''"
| "code_string CodeUnauthenticated = ''unauthenticated''"
| "code_string CodeForbidden = ''forbidden''"
| "code_string CodeNotFound = ''not_found''"
| "code_string CodeConflict = ''conflict''"
| "code_string CodeRateLimited = ''rate_limited''"
| "code_string CodeRequestTooLarge = ''request_too_large''"
| "code_string CodeBudgetExceeded = ''budget_exceeded''"
| "code_string CodeConcurrencyLimit = ''concurrency_limit''"
| "code_string CodeEgressDenied = ''egress_denied''"
| "code_string CodeEvalPluginInvalid = ''eval_plugin_invalid''"
| "code_string CodeModelNotAllowed = ''model_not_allowed''"
| "code_string CodeInviteInvalid = ''invite_invalid''"
| "code_string CodeSSOStateInvalid = ''sso_state_invalid''"
| "code_string CodeSchemaContractViolation = ''schema_contract_violation''"
| "code_string CodeAdminRequired = ''admin_required''"
| "code_string CodeUpstreamError = ''upstream_error''"
| "code_string CodeDependencyUnavailable = ''dependency_unavailable''"
| "code_string CodeInternalError = ''internal_error''"
| "code_string (CodeOther s) = s"

fun defaultMessage :: "Code \<Rightarrow> string" where
  "defaultMessage CodeInvalidRequest = ''the request was invalid''"
| "defaultMessage CodeUnauthorized = ''authentication is required''"
| "defaultMessage CodeForbidden = ''access is forbidden for the caller''"
| "defaultMessage CodeNotFound = ''the resource was not found''"
| "defaultMessage CodeConflict = ''the request conflicts with the current state''"
| "defaultMessage CodeRateLimited = ''too many requests, try again shortly''"
| "defaultMessage CodeBudgetExceeded = ''the spend or quota limit was exceeded''"
| "defaultMessage CodeUpstreamError = ''the upstream provider returned an error''"
| "defaultMessage CodeDependencyUnavailable = ''an internal dependency is not currently available''"
| "defaultMessage CodeInternalError =
     ''an internal error occurred, contact support with the request id''"
| "defaultMessage _ = ''an error occurred''"

fun HTTPStatus :: "Code \<Rightarrow> nat" where
  "HTTPStatus CodeInvalidRequest = 400"
| "HTTPStatus CodeUnauthorized = 401"
| "HTTPStatus CodeForbidden = 403"
| "HTTPStatus CodeNotFound = 404"
| "HTTPStatus CodeConflict = 409"
| "HTTPStatus CodeRateLimited = 429"
| "HTTPStatus CodeBudgetExceeded = 402"
| "HTTPStatus CodeUpstreamError = 502"
| "HTTPStatus CodeDependencyUnavailable = 503"
| "HTTPStatus CodeInternalError = 500"
| "HTTPStatus _ = 500"

definition Message :: "Code \<Rightarrow> string \<Rightarrow> string" where
  "Message code msg = (if msg = [] then defaultMessage code else msg)"

record Body =
  body_code :: Code
  body_message :: string
  body_request_id :: string

record rendered =
  rendered_status :: nat
  rendered_headers :: "(string \<times> string) list"
  rendered_body :: Body

definition Render :: "nat \<Rightarrow> Code \<Rightarrow> string \<Rightarrow> string \<Rightarrow> rendered" where
  "Render status code requestID message =
     \<lparr>rendered_status = status,
      rendered_headers =
        (if requestID \<noteq> [] then [(''X-Request-Id'', requestID)] else [])
        @ [(''Content-Type'', ''application/json'')],
      rendered_body =
        \<lparr>body_code = code, body_message = Message code message, body_request_id = requestID\<rparr>\<rparr>"

section \<open>The leak guard\<close>

definition redactedMarker :: string where
  "redactedMarker = CHR 0x1A # ''[NEXUS_REDACTED]'' @ [CHR 0x1A]"

definition slackPrefix :: string where
  "slackPrefix = [CHR ''x'', CHR ''o'', CHR ''x'', CHR ''b'', CHR ''-'']"

definition ghTokenPrefix :: string where
  "ghTokenPrefix = [CHR ''g'', CHR ''h'', CHR ''p'', CHR ''_'']"

definition protectedSignatures :: "string list" where
  "protectedSignatures =
     [''SQLSTATE'', ''ERROR:'', ''pq:'', ''goroutine '', ''.go:'', ''/Users/'', ''/home/'',
      ''127.0.0.1'', ''localhost'', ''metadata.google.internal'', ''sk-'', slackPrefix,
      ghTokenPrefix, ''postgres://'', ''clickhouse://'', ''redis://'', ''AKIA'', ''PRIVATE KEY'',
      ''prompt_content='', ''messages=['', ''org_id='']"

definition Scrub :: "string \<Rightarrow> string" where
  "Scrub s = foldl (\<lambda>s sig. strings_ReplaceAll s sig redactedMarker) s protectedSignatures"

section \<open>Replacing with a fenced marker\<close>

lemma ReplaceAll_Nil: "strings_ReplaceAll [] old new = []"
  by (simp add: strings_ReplaceAll.simps)

lemma ReplaceAll_hit:
  "old \<noteq> [] \<Longrightarrow> prefix old s \<Longrightarrow>
   strings_ReplaceAll s old new = new @ strings_ReplaceAll (drop (length old) s) old new"
  by (subst strings_ReplaceAll.simps) (auto split: list.splits)

lemma ReplaceAll_miss:
  "old \<noteq> [] \<Longrightarrow> \<not> prefix old (x # xs) \<Longrightarrow>
   strings_ReplaceAll (x # xs) old new = x # strings_ReplaceAll xs old new"
  by (subst strings_ReplaceAll.simps) simp

lemma ReplaceAll_induct [consumes 1, case_names Nil hit miss]:
  assumes "old \<noteq> []" and "P []"
    and "\<And>s. s \<noteq> [] \<Longrightarrow> prefix old s \<Longrightarrow> P (drop (length old) s) \<Longrightarrow> P s"
    and "\<And>x xs. \<not> prefix old (x # xs) \<Longrightarrow> P xs \<Longrightarrow> P (x # xs)"
  shows "P s"
proof (induction s rule: length_induct)
  case (1 s)
  show ?case
  proof (cases s)
    case (Cons x xs)
    show ?thesis
    proof (cases "prefix old s")
      case True
      have "0 < length old" using assms(1) by simp
      then have "length (drop (length old) s) < length s" unfolding Cons length_drop by simp
      with 1 True Cons assms(3) [of s] show ?thesis by simp
    next
      case False
      with 1 Cons assms(4) [of x xs] show ?thesis by simp
    qed
  qed (simp add: assms(2))
qed

text \<open>A fence byte outside the pattern cannot be part of one of its occurrences.\<close>

lemma prefix_fence: "c \<notin> set sig \<Longrightarrow> prefix sig (a @ c # b) \<Longrightarrow> prefix sig a"
  by (auto simp: prefix_append prefix_Cons)

lemma sublist_fence:
  "c \<notin> set sig \<Longrightarrow> sublist sig (a @ c # b) \<Longrightarrow> sublist sig a \<or> sublist sig b"
proof (induction a)
  case Nil
  then show ?case by (cases sig) (auto simp: sublist_Cons_right)
next
  case (Cons x a)
  then show ?case
    using prefix_fence [of c sig "x # a" b] by (auto simp: sublist_Cons_right)
qed

lemma sublist_fence_head:
  "c \<notin> set sig \<Longrightarrow> sig \<noteq> [] \<Longrightarrow> sublist sig (c # b) \<longleftrightarrow> sublist sig b"
  by (cases sig) (auto simp: sublist_Cons_right)

text \<open>In what follows the marker is a body between two fence bytes, and neither the byte nor an
  occurrence inside the body can be part of the signature at hand.\<close>

lemma prefix_ReplaceAll:
  assumes "c \<notin> set sig" and "sig \<noteq> []" and "old \<noteq> []"
    and "prefix sig (strings_ReplaceAll s old (c # mid @ [c]))"
  shows "prefix sig s"
  using assms(3,1,2,4)
proof (induction s arbitrary: sig rule: ReplaceAll_induct)
  case Nil
  then show ?case by (simp add: ReplaceAll_Nil)
next
  case (hit s)
  have "prefix sig (c # mid @ c # strings_ReplaceAll (drop (length old) s) old (c # mid @ [c]))"
    using hit.prems(3) hit.hyps(2) assms(3) by (simp add: ReplaceAll_hit)
  with hit.prems(1,2) show ?case by (cases sig) simp_all
next
  case (miss x xs)
  obtain y ys where sig: "sig = y # ys" using miss.prems(2) by (cases sig) auto
  with miss.prems(3) miss.hyps(1) assms(3)
  have "y = x" and "prefix ys (strings_ReplaceAll xs old (c # mid @ [c]))"
    by (simp_all add: ReplaceAll_miss)
  with miss.IH [of ys] miss.prems(1) show ?case by (cases ys) (auto simp: sig)
qed

lemma sublist_ReplaceAll:
  assumes "c \<notin> set sig" and "\<not> sublist sig mid" and "old \<noteq> []"
    and "sublist sig (strings_ReplaceAll s old (c # mid @ [c]))"
  shows "sublist sig s"
  using assms(3,4)
proof (induction s rule: ReplaceAll_induct)
  case Nil
  then show ?case by (simp add: ReplaceAll_Nil)
next
  case (hit s)
  let ?rest = "strings_ReplaceAll (drop (length old) s) old (c # mid @ [c])"
  have "sig \<noteq> []" using assms(2) by auto
  with hit.prems hit.hyps(2) assms(3) have "sublist sig (mid @ c # ?rest)"
    by (simp add: ReplaceAll_hit sublist_fence_head [OF assms(1)])
  then have "sublist sig ?rest"
    using sublist_fence [OF assms(1), of mid ?rest] assms(2) by simp
  then have "sublist sig (drop (length old) s)" by (rule hit.IH)
  then show ?case using sublist_drop [of "length old" s] by (rule sublist_order.order_trans)
next
  case (miss x xs)
  have nonempty: "sig \<noteq> []" using assms(2) by auto
  from miss.prems miss.hyps assms(3)
  have "prefix sig (strings_ReplaceAll (x # xs) old (c # mid @ [c]))
      \<or> sublist sig (strings_ReplaceAll xs old (c # mid @ [c]))"
    by (simp add: ReplaceAll_miss sublist_Cons_right)
  then show ?case
    using prefix_ReplaceAll [OF assms(1) nonempty assms(3)] miss.IH
    by (auto simp: sublist_Cons_right)
qed

lemma ReplaceAll_removes:
  assumes "c \<notin> set old" and "\<not> sublist old mid"
  shows "\<not> sublist old (strings_ReplaceAll s old (c # mid @ [c]))"
proof -
  have "old \<noteq> []" using assms(2) by auto
  then show ?thesis
  proof (induction s rule: ReplaceAll_induct)
    case Nil
    then show ?case using \<open>old \<noteq> []\<close> by (simp add: ReplaceAll_Nil)
  next
    case (hit s)
    let ?rest = "strings_ReplaceAll (drop (length old) s) old (c # mid @ [c])"
    have "\<not> sublist old (mid @ c # ?rest)"
      using sublist_fence [OF assms(1), of mid ?rest] assms(2) hit.IH by blast
    with hit.hyps(2) \<open>old \<noteq> []\<close> show ?case
      by (simp add: ReplaceAll_hit sublist_fence_head [OF assms(1)])
  next
    case (miss x xs)
    then show ?case
      using prefix_ReplaceAll [OF assms(1) \<open>old \<noteq> []\<close> \<open>old \<noteq> []\<close>, of "x # xs"] \<open>old \<noteq> []\<close>
      by (auto simp: ReplaceAll_miss sublist_Cons_right)
  qed
qed

lemma ReplaceAll_absent:
  assumes "old \<noteq> []"
  shows "\<not> sublist old s \<Longrightarrow> strings_ReplaceAll s old new = s"
  using assms
proof (induction s rule: ReplaceAll_induct)
  case (miss x xs)
  then show ?case using assms by (simp add: ReplaceAll_miss sublist_Cons_right)
next
  case (hit s)
  then show ?case by (meson prefix_imp_sublist)
qed (simp add: ReplaceAll_Nil)

text \<open>A whole list of signatures, replaced one after the other.\<close>

definition fenced :: "char \<Rightarrow> string \<Rightarrow> string list \<Rightarrow> bool" where
  "fenced c mid sigs \<longleftrightarrow> (\<forall>sig \<in> set sigs. c \<notin> set sig \<and> \<not> sublist sig mid)"

lemma foldl_ReplaceAll_keeps_out:
  assumes "fenced c mid (sig # sigs)" and "\<not> sublist sig s"
  shows "\<not> sublist sig (foldl (\<lambda>s sig. strings_ReplaceAll s sig (c # mid @ [c])) s sigs)"
  using assms
proof (induction sigs arbitrary: s)
  case (Cons x sigs)
  have "x \<noteq> []" using Cons.prems(1) by (auto simp: fenced_def)
  then have "\<not> sublist sig (strings_ReplaceAll s x (c # mid @ [c]))"
    using Cons.prems sublist_ReplaceAll [of c sig mid x s] by (auto simp: fenced_def)
  moreover have "fenced c mid (sig # sigs)" using Cons.prems(1) by (simp add: fenced_def)
  ultimately show ?case unfolding foldl.simps by (intro Cons.IH)
qed simp

lemma foldl_ReplaceAll_removes:
  assumes "fenced c mid sigs" and "sig \<in> set sigs"
  shows "\<not> sublist sig (foldl (\<lambda>s sig. strings_ReplaceAll s sig (c # mid @ [c])) s sigs)"
  using assms
proof (induction sigs arbitrary: s)
  case (Cons x sigs)
  have tail: "fenced c mid sigs" and head: "c \<notin> set x" "\<not> sublist x mid"
    using Cons.prems(1) by (simp_all add: fenced_def)
  show ?case
  proof (cases "sig \<in> set sigs")
    case True
    show ?thesis unfolding foldl.simps by (rule Cons.IH [OF tail True])
  next
    case False
    with Cons.prems(2) have "sig = x" by simp
    then show ?thesis
      unfolding foldl.simps
      using foldl_ReplaceAll_keeps_out [OF Cons.prems(1) ReplaceAll_removes [OF head]] by blast
  qed
qed simp

lemma foldl_ReplaceAll_id:
  "\<forall>sig \<in> set sigs. sig \<noteq> [] \<and> \<not> sublist sig s \<Longrightarrow>
   foldl (\<lambda>s sig. strings_ReplaceAll s sig new) s sigs = s"
  by (induction sigs) (auto simp: ReplaceAll_absent)

section \<open>The guarantee of the leak guard\<close>

lemma protectedSignatures_fenced: "fenced (CHR 0x1A) ''[NEXUS_REDACTED]'' protectedSignatures"
  unfolding fenced_def protectedSignatures_def slackPrefix_def ghTokenPrefix_def list.set ball_simps
  by (intro conjI) (simp_all add: sublist_Cons_right)

lemma Scrub_removes: "sig \<in> set protectedSignatures \<Longrightarrow> \<not> sublist sig (Scrub s)"
  unfolding Scrub_def redactedMarker_def
  by (rule foldl_ReplaceAll_removes [OF protectedSignatures_fenced])

text \<open>C17. No protected signature survives the leak guard: whatever the message, the scrubbed text
  contains none of the listed fragments, although the list is processed one entry at a time and each
  replacement inserts new text. Scrubbing a scrubbed message changes nothing.\<close>

theorem Scrub_leak_free:
  "list_all (\<lambda>sig. \<not> sublist sig (Scrub s)) protectedSignatures \<and> Scrub (Scrub s) = Scrub s"
proof
  show "list_all (\<lambda>sig. \<not> sublist sig (Scrub s)) protectedSignatures"
    by (simp add: list_all_iff Scrub_removes)
  have "\<forall>sig \<in> set protectedSignatures. sig \<noteq> [] \<and> \<not> sublist sig (Scrub s)"
    using Scrub_removes by auto
  then show "Scrub (Scrub s) = Scrub s"
    unfolding Scrub_def [of "Scrub s"] by (rule foldl_ReplaceAll_id)
qed

end
