(* ===== verification/Router.thy ===== *)
theory Router
  imports Nexus_Prelude
begin

text \<open>
  Quality-aware model selection (\<open>internal/router/router.go\<close>), the blend of judge scores with
  external benchmarks (\<open>bench_provider.go\<close>, \<open>bench_freshness.go\<close>) and the composition of
  failover sinks (\<open>notifier.go\<close>).

  The statistics backend (Postgres or ClickHouse) and the benchmark store are arguments: a
  \<open>StatsProvider\<close> is a function from the window to statistics or an error, \<open>None\<close>. The mutex
  makes every method of \<open>Router\<close> one step on the record.
\<close>

section \<open>Statistics and weights\<close>

record ModelStats =
  ms_Model :: string
  ms_Quality :: float64
  ms_QualitySamples :: int
  ms_PassRate :: float64
  ms_SafetyPassRate :: float64
  ms_SafetySamples :: int
  ms_AvgLatencyMs :: float64
  ms_AvgCostUSD :: float64
  ms_Samples :: int
  ms_EffQuality :: float64

definition zero_ModelStats :: ModelStats where
  "zero_ModelStats =
     \<lparr>ms_Model = [], ms_Quality = 0, ms_QualitySamples = 0, ms_PassRate = 0, ms_SafetyPassRate = 0,
      ms_SafetySamples = 0, ms_AvgLatencyMs = 0, ms_AvgCostUSD = 0, ms_Samples = 0, ms_EffQuality = 0\<rparr>"

type_synonym StatsProvider = "duration \<Rightarrow> (string, ModelStats) gomap option"

record Weights =
  w_Quality :: float64
  w_Cost :: float64
  w_Latency :: float64

definition DefaultWeights :: Weights where
  "DefaultWeights = \<lparr>w_Quality = 6 / 10, w_Cost = 2 / 10, w_Latency = 2 / 10\<rparr>"

definition explorationQuality :: float64 where "explorationQuality = 3 / 4"
definition judgeWeight :: float64 where "judgeWeight = 7 / 10"
definition safetyWeight :: float64 where "safetyWeight = 3 / 10"

definition effectiveQuality :: "ModelStats \<Rightarrow> float64" where
  "effectiveQuality s =
     (let hasJudge = ms_QualitySamples s > 0; hasSafety = ms_SafetySamples s > 0 in
      if hasJudge \<and> hasSafety then judgeWeight * ms_Quality s + safetyWeight * ms_SafetyPassRate s
      else if hasJudge then ms_Quality s
      else if hasSafety then ms_SafetyPassRate s
      else explorationQuality)"

definition maxFloat64 :: "float64 \<Rightarrow> float64 \<Rightarrow> float64" where
  "maxFloat64 a b = (if a > b then a else b)"

definition normalize :: "Weights \<Rightarrow> Weights" where
  "normalize w =
     (let q = maxFloat64 0 (w_Quality w); c = maxFloat64 0 (w_Cost w); l = maxFloat64 0 (w_Latency w);
          s = q + c + l in
      if s \<le> 0 then DefaultWeights
      else \<lparr>w_Quality = q / s, w_Cost = c / s, w_Latency = l / s\<rparr>)"

section \<open>The router\<close>

record Router =
  rt_provider :: "StatsProvider option"
  rt_weights :: Weights
  rt_window :: duration
  rt_stats :: "(string, ModelStats) gomap"

definition time_Hour :: duration where "time_Hour = 3600000000000"

text \<open>The boolean tells whether the call returned without an error.\<close>

definition Refresh :: "Router \<Rightarrow> Router \<times> bool" where
  "Refresh r =
     (case rt_provider r of
        None \<Rightarrow> (r, True)
      | Some p \<Rightarrow>
          (case p (rt_window r) of
             None \<Rightarrow> (r, False)
           | Some s \<Rightarrow>
               (r\<lparr>rt_stats := map (\<lambda>(m, st). (m, st\<lparr>ms_EffQuality := effectiveQuality st\<rparr>)) s\<rparr>, True)))"

definition clamp_window :: "duration \<Rightarrow> duration" where
  "clamp_window window = (if window \<le> 0 then time_Hour else window)"

definition New :: "StatsProvider option \<Rightarrow> Weights \<Rightarrow> duration \<Rightarrow> Router" where
  "New provider w window =
     fst (Refresh \<lparr>rt_provider = provider, rt_weights = normalize w,
                   rt_window = clamp_window window, rt_stats = []\<rparr>)"

definition Snapshot :: "Router \<Rightarrow> (string, ModelStats) gomap" where
  "Snapshot r = fold (\<lambda>(k, v). gomap_set k v) (rt_stats r) []"

definition SetWeights :: "Weights \<Rightarrow> Router \<Rightarrow> Router" where
  "SetWeights w r = r\<lparr>rt_weights := normalize w\<rparr>"

definition SetWindow :: "duration \<Rightarrow> Router \<Rightarrow> Router" where
  "SetWindow window r = r\<lparr>rt_window := clamp_window window\<rparr>"

definition KnownModels :: "Router \<Rightarrow> string list" where
  "KnownModels r = sort (map fst (rt_stats r))"

subsection \<open>Ranking\<close>

record cand =
  cd_model :: string
  cd_quality :: float64
  cd_lat :: float64
  cd_cost :: float64
  cd_score :: float64
  cd_known :: bool

definition invNorm :: "float64 \<Rightarrow> float64 \<Rightarrow> float64 \<Rightarrow> float64" where
  "invNorm v mn mx = (if mx \<le> mn then 1 else (mx - v) / (mx - mn))"

fun minMax :: "('t \<Rightarrow> float64) \<Rightarrow> 't list \<Rightarrow> float64 \<times> float64" where
  "minMax f [] = (0, 0)"
| "minMax f (x # xs) =
     foldl (\<lambda>(mn, mx) it. let v = f it in (if v < mn then v else mn, if v > mx then v else mx))
       (f x, f x) xs"

text \<open>One iteration of the first loop of \<open>Rank\<close>; \<open>None\<close> is its \<open>continue\<close>.\<close>

definition rank_cand :: "(string, ModelStats) gomap \<Rightarrow> float64 \<Rightarrow> string \<Rightarrow> cand option" where
  "rank_cand stats minQuality m =
     (let s = gomap_get stats m;
          known = (case s of None \<Rightarrow> False | Some s \<Rightarrow> ms_Samples s > 0);
          quality = (case s of None \<Rightarrow> explorationQuality | Some s \<Rightarrow> effectiveQuality s) in
      if minQuality > 0 \<and> quality < minQuality then None
      else Some \<lparr>cd_model = m, cd_quality = quality,
             cd_lat = (if known then (case s of None \<Rightarrow> 0 | Some s \<Rightarrow> ms_AvgLatencyMs s) else 0),
             cd_cost = (if known then (case s of None \<Rightarrow> 0 | Some s \<Rightarrow> ms_AvgCostUSD s) else 0),
             cd_score = 0, cd_known = known\<rparr>)"

text \<open>The second and third loop: the means of the known candidates fill the gaps of the others.\<close>

definition rank_sums :: "cand list \<Rightarrow> float64 \<times> float64 \<times> float64" where
  "rank_sums cs =
     foldl (\<lambda>(meanLat, meanCost, n) c.
              if cd_known c then (meanLat + cd_lat c, meanCost + cd_cost c, n + 1)
              else (meanLat, meanCost, n)) (0, 0, 0) cs"

definition rank_fill :: "cand list \<Rightarrow> cand list" where
  "rank_fill cs =
     (case rank_sums cs of (sumLat, sumCost, n) \<Rightarrow>
        let meanLat = (if n > 0 then sumLat / n else sumLat);
            meanCost = (if n > 0 then sumCost / n else sumCost) in
        map (\<lambda>c. if cd_known c then c else c\<lparr>cd_lat := meanLat, cd_cost := meanCost\<rparr>) cs)"

definition rank_scored :: "Weights \<Rightarrow> cand list \<Rightarrow> cand list" where
  "rank_scored w cs =
     (case minMax cd_lat cs of (minLat, maxLat) \<Rightarrow>
      case minMax cd_cost cs of (minCost, maxCost) \<Rightarrow>
        map (\<lambda>c. c\<lparr>cd_score := w_Quality w * cd_quality c
                   + w_Latency w * invNorm (cd_lat c) minLat maxLat
                   + w_Cost w * invNorm (cd_cost c) minCost maxCost\<rparr>) cs)"

text \<open>\<open>sort.SliceStable\<close> by decreasing score is the stable \<open>sort_key\<close> by the negated score.\<close>

definition Rank :: "Router \<Rightarrow> string list \<Rightarrow> float64 \<Rightarrow> string list" where
  "Rank r candidates minQuality =
     (if candidates = [] then []
      else let cs = List.map_filter (rank_cand (rt_stats r) minQuality) candidates in
        if cs = [] then []
        else if length cs = 1 then [cd_model (hd cs)]
        else map cd_model
               (sort_key (\<lambda>c. - cd_score c) (rank_scored (rt_weights r) (rank_fill cs))))"

definition Select :: "Router \<Rightarrow> string list \<Rightarrow> float64 \<Rightarrow> string \<times> bool" where
  "Select r candidates minQuality =
     (let ranked = Rank r candidates minQuality in
      if ranked = [] then ([], False) else (hd ranked, True))"

section \<open>The benchmark blend\<close>

record BenchmarkStats =
  bs_AvgScore :: float64
  bs_CompletedAt :: int

type_synonym BenchmarkScoreSource = "(string, BenchmarkStats) gomap option"

definition Hours :: "duration \<Rightarrow> float64" where
  "Hours d = real_of_int d / 3600000000000"

definition Freshness :: "BenchmarkStats \<Rightarrow> duration \<Rightarrow> int \<Rightarrow> float64" where
  "Freshness bench halfLife now =
     (if halfLife \<le> 0 then 1
      else let age = now - bs_CompletedAt bench; age = (if age < 0 then 0 else age) in
        exp (- ln 2 * Hours age / Hours halfLife))"

definition blendQuality :: "float64 \<Rightarrow> BenchmarkStats \<Rightarrow> float64 \<Rightarrow> duration \<Rightarrow> int \<Rightarrow> float64" where
  "blendQuality judge bench wB halfLife now =
     (if wB \<le> 0 then judge
      else
        let freshness =
              (if halfLife > 0
               then (let age = now - bs_CompletedAt bench; age = (if age < 0 then 0 else age) in
                     exp (- ln 2 * Hours age / Hours halfLife))
               else 1);
            wBench = wB * freshness;
            wBench = (if wBench > 1 then 1 else wBench) in
        judge * (1 - wBench) + bs_AvgScore bench * wBench)"

record CombinedProvider =
  cp_primary :: "StatsProvider option"
  cp_bench :: "BenchmarkScoreSource option"
  cp_weight :: float64
  cp_halfLife :: duration

definition NewCombinedStatsProvider ::
  "StatsProvider option \<Rightarrow> BenchmarkScoreSource option \<Rightarrow> float64 \<Rightarrow> duration \<Rightarrow> CombinedProvider" where
  "NewCombinedStatsProvider primary bench w decayHalfLife =
     (let w = (if w < 0 then 0 else w); w = (if w > 1 then 1 else w) in
      \<lparr>cp_primary = primary, cp_bench = bench, cp_weight = w, cp_halfLife = decayHalfLife\<rparr>)"

text \<open>One iteration of the loop over the benchmark map: \<open>stats[model]\<close> is the zero value when the
  primary source has no row for the model.\<close>

definition blend_row ::
  "CombinedProvider \<Rightarrow> int \<Rightarrow> string \<times> BenchmarkStats \<Rightarrow> (string, ModelStats) gomap \<Rightarrow>
     (string, ModelStats) gomap" where
  "blend_row c now mb stats =
     (case mb of (model, b) \<Rightarrow>
        let s = gomap_or zero_ModelStats stats model;
            s = s\<lparr>ms_Quality := blendQuality (ms_Quality s) b (cp_weight c) (cp_halfLife c) now\<rparr>;
            s = (if ms_QualitySamples s > 0 then s\<lparr>ms_QualitySamples := ms_QualitySamples s + 1\<rparr>
                 else s\<lparr>ms_QualitySamples := 1\<rparr>) in
        gomap_set model s stats)"

definition CombinedProvider_ModelStats :: "CombinedProvider \<Rightarrow> int \<Rightarrow> StatsProvider" where
  "CombinedProvider_ModelStats c now window =
     (case cp_primary c of
        None \<Rightarrow> Some []
      | Some primary \<Rightarrow>
          (case primary window of
             None \<Rightarrow> None
           | Some stats \<Rightarrow>
               (case cp_bench c of
                  None \<Rightarrow> Some stats
                | Some bench \<Rightarrow>
                    if cp_weight c = 0 then Some stats
                    else (case bench of
                       None \<Rightarrow> Some stats
                     | Some bench \<Rightarrow> Some (fold (blend_row c now) bench stats)))))"

record SnapshotWithFreshness =
  sf_Stats :: BenchmarkStats
  sf_Freshness :: float64
  sf_HalfLife :: duration
  sf_BlendedIn :: bool
  sf_SampleTime :: int

definition FreshnessSnapshot ::
  "BenchmarkScoreSource option \<Rightarrow> duration \<Rightarrow> int \<Rightarrow> (string, SnapshotWithFreshness) gomap option" where
  "FreshnessSnapshot src halfLife now =
     (case src of
        None \<Rightarrow> Some []
      | Some src \<Rightarrow>
          let halfLife = (if halfLife < 0 then 0 else halfLife) in
          (case src of
             None \<Rightarrow> None
           | Some bench \<Rightarrow>
               Some (fold (\<lambda>(model, b). gomap_set model
                        \<lparr>sf_Stats = b, sf_Freshness = Freshness b halfLife now, sf_HalfLife = halfLife,
                         sf_BlendedIn = False, sf_SampleTime = now\<rparr>) bench [])))"

section \<open>Failover notification\<close>

record FailoverEvent =
  fe_OrgID :: string
  fe_VirtualKeyID :: string
  fe_Alias :: string
  fe_Tried :: "string list"
  fe_Primary :: string
  fe_Fallback :: string
  fe_Reason :: string
  fe_LatencyMs :: int
  fe_FailedAtUnix :: int
  fe_ReplicaID :: string

text \<open>A sink is identified by a value of \<open>'s\<close>; what it does with an event is its own business.\<close>

datatype 's Notifier = NilNotifier | NoopNotifier | Sink 's | MultiNotifier "'s Notifier list"

definition NewMultiNotifier :: "'s Notifier list \<Rightarrow> 's Notifier list option" where
  "NewMultiNotifier notifiers =
     (let kept = filter (\<lambda>n. n \<noteq> NilNotifier \<and> n \<noteq> NoopNotifier) notifiers in
      if kept = [] then None else Some kept)"

text \<open>The deliveries of one \<open>Notify\<close> call in order. A nil interface in the list of sinks would
  be a nil dereference; \<open>NewMultiNotifier\<close> never keeps one.\<close>

fun Notify :: "'s Notifier \<Rightarrow> FailoverEvent \<Rightarrow> ('s \<times> FailoverEvent) list option" where
  "Notify NilNotifier ev = None"
| "Notify NoopNotifier ev = Some []"
| "Notify (Sink s) ev = Some [(s, ev)]"
| "Notify (MultiNotifier ns) ev =
     fold (\<lambda>n acc. case acc of None \<Rightarrow> None | Some ds \<Rightarrow> map_option (\<lambda>d. ds @ d) (Notify n ev)) ns (Some [])"

section \<open>Weights\<close>

definition simplex :: "Weights \<Rightarrow> bool" where
  "simplex w \<longleftrightarrow> 0 \<le> w_Quality w \<and> 0 \<le> w_Cost w \<and> 0 \<le> w_Latency w
     \<and> w_Quality w + w_Cost w + w_Latency w = 1"

lemma normalize_simplex: "simplex (normalize w)"
proof -
  define q c l where qcl: "q = maxFloat64 0 (w_Quality w)" "c = maxFloat64 0 (w_Cost w)"
    "l = maxFloat64 0 (w_Latency w)"
  have "0 \<le> q" "0 \<le> c" "0 \<le> l" by (simp_all add: qcl maxFloat64_def)
  moreover have "q / (q + c + l) + c / (q + c + l) + l / (q + c + l) = 1" if "0 < q + c + l"
    using that by (simp flip: add_divide_distrib)
  ultimately show ?thesis
    by (simp add: normalize_def simplex_def DefaultWeights_def Let_def flip: qcl)
qed

lemma normalize_fixpoint: "simplex w \<Longrightarrow> normalize w = w"
  by (simp add: normalize_def simplex_def maxFloat64_def Let_def)

section \<open>What a ranking is\<close>

text \<open>The reference: each model's quality, latency and cost as a function of the model, with the
  mean over the measured models of the pool standing in for a missing measurement, and the score
  computed from the extreme values of the pool.\<close>

definition model_quality :: "(string, ModelStats) gomap \<Rightarrow> string \<Rightarrow> float64" where
  "model_quality stats m =
     (case gomap_get stats m of None \<Rightarrow> explorationQuality | Some s \<Rightarrow> effectiveQuality s)"

definition measured :: "(string, ModelStats) gomap \<Rightarrow> string \<Rightarrow> bool" where
  "measured stats m \<longleftrightarrow> (case gomap_get stats m of None \<Rightarrow> False | Some s \<Rightarrow> ms_Samples s > 0)"

definition passes :: "(string, ModelStats) gomap \<Rightarrow> float64 \<Rightarrow> string \<Rightarrow> bool" where
  "passes stats minQuality m \<longleftrightarrow> minQuality \<le> 0 \<or> minQuality \<le> model_quality stats m"

definition mean_of :: "real list \<Rightarrow> real" where
  "mean_of xs = (if xs = [] then 0 else sum_list xs / real (length xs))"

definition metric_of ::
  "(ModelStats \<Rightarrow> float64) \<Rightarrow> (string, ModelStats) gomap \<Rightarrow> string list \<Rightarrow> string \<Rightarrow> float64" where
  "metric_of f stats pool m =
     (if measured stats m then f (the (gomap_get stats m))
      else mean_of (map (\<lambda>m. f (the (gomap_get stats m))) (filter (measured stats) pool)))"

definition cheapness :: "(string \<Rightarrow> float64) \<Rightarrow> string list \<Rightarrow> string \<Rightarrow> float64" where
  "cheapness g pool m = invNorm (g m) (Min (g ` set pool)) (Max (g ` set pool))"

definition rank_score ::
  "Weights \<Rightarrow> (string, ModelStats) gomap \<Rightarrow> string list \<Rightarrow> string \<Rightarrow> float64" where
  "rank_score w stats pool m =
     w_Quality w * model_quality stats m
     + w_Latency w * cheapness (metric_of ms_AvgLatencyMs stats pool) pool m
     + w_Cost w * cheapness (metric_of ms_AvgCostUSD stats pool) pool m"

lemma minMax_fold:
  "foldl (\<lambda>(mn, mx) it. let v = f it in (if v < mn then v else mn, if v > mx then v else mx))
     (a, b) xs = (fold (\<lambda>x. min (f x)) xs a, fold (\<lambda>x. max (f x)) xs b)"
  for a b :: real
proof (induction xs arbitrary: a b)
  case (Cons x xs)
  have "(if f x < a then f x else a) = min (f x) a" "(if f x > b then f x else b) = max (f x) b"
    by auto
  with Cons.IH show ?case by (simp add: Let_def)
qed simp

lemma fold_min_Min: "fold (\<lambda>x. min (f x)) xs a = Min (insert a (f ` set xs))" for a :: real
proof (induction xs arbitrary: a)
  case (Cons x xs)
  have "Min (insert (min (f x) a) (f ` set xs)) = Min (insert a (insert (f x) (f ` set xs)))"
    by (cases "set xs = {}") (simp_all add: min.assoc min.left_commute min.commute)
  with Cons.IH show ?case by simp
qed simp

lemma fold_max_Max: "fold (\<lambda>x. max (f x)) xs a = Max (insert a (f ` set xs))" for a :: real
proof (induction xs arbitrary: a)
  case (Cons x xs)
  have "Max (insert (max (f x) a) (f ` set xs)) = Max (insert a (insert (f x) (f ` set xs)))"
    by (cases "set xs = {}") (simp_all add: max.assoc max.left_commute max.commute)
  with Cons.IH show ?case by simp
qed simp

lemma minMax_eq: "xs \<noteq> [] \<Longrightarrow> minMax f xs = (Min (f ` set xs), Max (f ` set xs))"
  by (cases xs) (simp_all add: minMax_fold fold_min_Min fold_max_Max)

lemma rank_cand_eq:
  "rank_cand stats minQuality m =
     (if passes stats minQuality m
      then Some \<lparr>cd_model = m, cd_quality = model_quality stats m,
             cd_lat = (if measured stats m then ms_AvgLatencyMs (the (gomap_get stats m)) else 0),
             cd_cost = (if measured stats m then ms_AvgCostUSD (the (gomap_get stats m)) else 0),
             cd_score = 0, cd_known = measured stats m\<rparr>
      else None)"
  by (auto simp: rank_cand_def passes_def model_quality_def measured_def Let_def
        split: option.splits)

lemma map_filter_if: "List.map_filter (\<lambda>x. if P x then Some (f x) else None) xs = map f (filter P xs)"
  by (induction xs) (simp_all add: map_filter_simps)

lemma rank_sums_eq:
  "rank_sums cs =
     (sum_list (map cd_lat (filter cd_known cs)), sum_list (map cd_cost (filter cd_known cs)),
      real (length (filter cd_known cs)))"
proof -
  have "foldl (\<lambda>(l, k, n) c. if cd_known c then (l + cd_lat c, k + cd_cost c, n + 1) else (l, k, n))
          (a, b, d) cs =
        (a + sum_list (map cd_lat (filter cd_known cs)), b + sum_list (map cd_cost (filter cd_known cs)),
         d + real (length (filter cd_known cs)))" for a b d
    by (induction cs arbitrary: a b d) auto
  then show ?thesis by (simp add: rank_sums_def)
qed

definition ranked_cand :: "Weights \<Rightarrow> (string, ModelStats) gomap \<Rightarrow> string list \<Rightarrow> string \<Rightarrow> cand" where
  "ranked_cand w stats pool m =
     \<lparr>cd_model = m, cd_quality = model_quality stats m,
      cd_lat = metric_of ms_AvgLatencyMs stats pool m,
      cd_cost = metric_of ms_AvgCostUSD stats pool m,
      cd_score = rank_score w stats pool m, cd_known = measured stats m\<rparr>"

lemma rank_fill_eq:
  assumes "cs = List.map_filter (rank_cand stats minQuality) candidates"
    and "pool = filter (passes stats minQuality) candidates"
  shows "rank_fill cs = map (\<lambda>m. (ranked_cand w stats pool m)\<lparr>cd_score := 0\<rparr>) pool"
proof -
  define c where "c m = \<lparr>cd_model = m, cd_quality = model_quality stats m,
      cd_lat = (if measured stats m then ms_AvgLatencyMs (the (gomap_get stats m)) else 0),
      cd_cost = (if measured stats m then ms_AvgCostUSD (the (gomap_get stats m)) else 0),
      cd_score = 0, cd_known = measured stats m\<rparr>" for m
  have cs: "cs = map c pool"
    unfolding assms c_def rank_cand_eq by (rule map_filter_if)
  have known: "filter cd_known cs = map c (filter (measured stats) pool)"
    by (simp add: cs filter_map comp_def c_def)
  have lat: "sum_list (map cd_lat (filter cd_known cs)) =
      sum_list (map (\<lambda>m. ms_AvgLatencyMs (the (gomap_get stats m))) (filter (measured stats) pool))"
    unfolding known by (intro arg_cong [where f = sum_list]) (simp add: c_def)
  have cost: "sum_list (map cd_cost (filter cd_known cs)) =
      sum_list (map (\<lambda>m. ms_AvgCostUSD (the (gomap_get stats m))) (filter (measured stats) pool))"
    unfolding known by (intro arg_cong [where f = sum_list]) (simp add: c_def)
  have len: "length (filter cd_known cs) = length (filter (measured stats) pool)"
    by (simp add: known)
  show ?thesis
    unfolding rank_fill_def rank_sums_eq lat cost len prod.case Let_def
    by (auto simp: cs c_def ranked_cand_def metric_of_def mean_of_def)
qed

lemma rank_scored_eq:
  assumes "pool \<noteq> []"
  shows "rank_scored w (map (\<lambda>m. (ranked_cand w stats pool m)\<lparr>cd_score := 0\<rparr>) pool)
       = map (ranked_cand w stats pool) pool"
proof -
  have "minMax cd_lat (map (\<lambda>m. (ranked_cand w stats pool m)\<lparr>cd_score := 0\<rparr>) pool) =
        (Min (metric_of ms_AvgLatencyMs stats pool ` set pool),
         Max (metric_of ms_AvgLatencyMs stats pool ` set pool))"
    using assms by (simp add: minMax_eq image_image ranked_cand_def)
  moreover have "minMax cd_cost (map (\<lambda>m. (ranked_cand w stats pool m)\<lparr>cd_score := 0\<rparr>) pool) =
        (Min (metric_of ms_AvgCostUSD stats pool ` set pool),
         Max (metric_of ms_AvgCostUSD stats pool ` set pool))"
    using assms by (simp add: minMax_eq image_image ranked_cand_def)
  ultimately show ?thesis
    by (simp add: rank_scored_def ranked_cand_def rank_score_def cheapness_def)
qed

lemma sort_key_map: "map g (sort_key (\<lambda>x. f (g x)) xs) = sort_key f (map g xs)"
proof -
  have "map g (insort_key (\<lambda>x. f (g x)) x ys) = insort_key f (g x) (map g ys)" for x ys
    by (induction ys) auto
  then show ?thesis by (induction xs) simp_all
qed

lemma Rank_reference:
  "Rank r candidates minQuality =
     (let pool = filter (passes (rt_stats r) minQuality) candidates in
      sort_key (\<lambda>m. - rank_score (rt_weights r) (rt_stats r) pool m) pool)"
proof -
  define pool where "pool = filter (passes (rt_stats r) minQuality) candidates"
  define cs where "cs = List.map_filter (rank_cand (rt_stats r) minQuality) candidates"
  define sc where "sc = ranked_cand (rt_weights r) (rt_stats r) pool"
  have model: "cd_model (sc m) = m"
    and score: "cd_score (sc m) = rank_score (rt_weights r) (rt_stats r) pool m" for m
    by (simp_all add: sc_def ranked_cand_def)
  have models: "map cd_model cs = pool"
    unfolding cs_def pool_def rank_cand_eq map_filter_if by (simp add: comp_def)
  have main: "map cd_model (sort_key (\<lambda>c. - cd_score c) (rank_scored (rt_weights r) (rank_fill cs)))
      = sort_key (\<lambda>m. - rank_score (rt_weights r) (rt_stats r) pool m) pool" if "pool \<noteq> []"
  proof -
    have "rank_scored (rt_weights r) (rank_fill cs) = map sc pool"
      unfolding rank_fill_eq [OF cs_def pool_def, of "rt_weights r"] rank_scored_eq [OF that]
      by (simp add: sc_def)
    moreover have "sort_key (\<lambda>c. - cd_score c) (map sc pool) = map sc (sort_key (\<lambda>m. - cd_score (sc m)) pool)"
      by (rule sort_key_map [symmetric])
    ultimately show ?thesis by (simp add: model score comp_def)
  qed
  have len: "length cs = length pool" unfolding models [symmetric] by simp
  have one: "[cd_model (hd cs)] = pool" if "length cs = 1"
    using that models by (cases cs) auto
  consider (none) "pool = []" | (one) m where "pool = [m]" | (many) "pool \<noteq> []" "length pool \<noteq> 1"
    by (cases pool rule: remdups_adj.cases) auto
  then show ?thesis
  proof cases
    case none
    then show ?thesis using models by (simp add: Rank_def flip: cs_def pool_def)
  next
    case (one m)
    then have "length cs = 1" using len by simp
    moreover from this have "cs \<noteq> []" "candidates \<noteq> []" using one by (auto simp: pool_def)
    ultimately show ?thesis using \<open>length cs = 1 \<Longrightarrow> [cd_model (hd cs)] = pool\<close> one
      by (simp add: Rank_def flip: cs_def pool_def)
  next
    case many
    then have "cs \<noteq> []" "length cs \<noteq> 1" "candidates \<noteq> []"
      using len by (auto simp: pool_def)
    with main many show ?thesis by (simp add: Rank_def flip: cs_def pool_def)
  qed
qed

lemma set_Rank: "set (Rank r candidates minQuality) =
    {m \<in> set candidates. passes (rt_stats r) minQuality m}"
  by (auto simp: Rank_reference Let_def)

lemma mset_Rank: "mset (Rank r candidates minQuality) =
    filter_mset (passes (rt_stats r) minQuality) (mset candidates)"
  by (simp add: Rank_reference Let_def mset_filter)

lemma Rank_sorted:
  "sorted_wrt (\<lambda>a b. rank_score (rt_weights r) (rt_stats r)
      (filter (passes (rt_stats r) minQuality) candidates) b
    \<le> rank_score (rt_weights r) (rt_stats r)
      (filter (passes (rt_stats r) minQuality) candidates) a) (Rank r candidates minQuality)"
proof -
  define f where "f = (\<lambda>m. - rank_score (rt_weights r) (rt_stats r)
      (filter (passes (rt_stats r) minQuality) candidates) m)"
  have "sorted (map f (Rank r candidates minQuality))"
    by (simp add: Rank_reference Let_def f_def)
  then have "sorted_wrt (\<lambda>a b. f a \<le> f b) (Rank r candidates minQuality)"
    by (simp add: sorted_wrt_map)
  then show ?thesis by (simp add: f_def)
qed

lemma sorted_wrt_before:
  "sorted_wrt P xs \<Longrightarrow> xs = as @ x # bs @ y # cs \<Longrightarrow> P x y"
  by (simp add: sorted_wrt_append)

lemma invNorm_antimono: "v \<le> v' \<Longrightarrow> invNorm v' mn mx \<le> invNorm v mn mx"
  by (auto simp: invNorm_def intro: divide_right_mono)

lemma invNorm_unit: "mn \<le> v \<Longrightarrow> v \<le> mx \<Longrightarrow> 0 \<le> invNorm v mn mx \<and> invNorm v mn mx \<le> 1"
  by (auto simp: invNorm_def)

lemma cheapness_unit: "m \<in> set pool \<Longrightarrow> 0 \<le> cheapness g pool m \<and> cheapness g pool m \<le> 1"
  unfolding cheapness_def by (intro invNorm_unit) simp_all

text \<open>\<open>a\<close> is at least as good as \<open>b\<close> on every axis, both being measured.\<close>

definition dominates :: "(string, ModelStats) gomap \<Rightarrow> string \<Rightarrow> string \<Rightarrow> bool" where
  "dominates stats a b \<longleftrightarrow>
     measured stats a \<and> measured stats b
     \<and> model_quality stats b \<le> model_quality stats a
     \<and> ms_AvgLatencyMs (the (gomap_get stats a)) \<le> ms_AvgLatencyMs (the (gomap_get stats b))
     \<and> ms_AvgCostUSD (the (gomap_get stats a)) \<le> ms_AvgCostUSD (the (gomap_get stats b))"

lemma dominates_score:
  assumes "simplex w" and "dominates stats a b"
  shows "rank_score w stats pool b
      + w_Quality w * (model_quality stats a - model_quality stats b) \<le> rank_score w stats pool a"
proof -
  have "w_Latency w * cheapness (metric_of ms_AvgLatencyMs stats pool) pool b
      \<le> w_Latency w * cheapness (metric_of ms_AvgLatencyMs stats pool) pool a"
    using assms unfolding cheapness_def simplex_def dominates_def
    by (intro mult_left_mono invNorm_antimono) (simp_all add: metric_of_def)
  moreover have "w_Cost w * cheapness (metric_of ms_AvgCostUSD stats pool) pool b
      \<le> w_Cost w * cheapness (metric_of ms_AvgCostUSD stats pool) pool a"
    using assms unfolding cheapness_def simplex_def dominates_def
    by (intro mult_left_mono invNorm_antimono) (simp_all add: metric_of_def)
  ultimately show ?thesis by (simp add: rank_score_def algebra_simps)
qed

section \<open>The contract the gateway relies on\<close>

text \<open>The handler sees a router only through the interface \<open>ModelRouter\<close>: a function from the
  candidates of a group and a quality floor to the models to try, in order.\<close>

locale model_router =
  fixes rank :: "string list \<Rightarrow> float64 \<Rightarrow> string list"
  assumes rank_sub: "mset (rank candidates q) \<subseteq># mset candidates"
    and rank_all: "q \<le> 0 \<Longrightarrow> mset (rank candidates q) = mset candidates"
begin

lemma rank_members: "m \<in> set (rank candidates q) \<Longrightarrow> m \<in> set candidates"
  using set_mset_mono [OF rank_sub] by fastforce

lemma rank_length: "length (rank candidates q) \<le> length candidates"
  using size_mset_mono [OF rank_sub, of candidates q] by simp

lemma rank_nonempty: "q \<le> 0 \<Longrightarrow> candidates \<noteq> [] \<Longrightarrow> rank candidates q \<noteq> []"
  using rank_all [of q candidates] by auto

end

lemma passes_off: "q \<le> 0 \<Longrightarrow> passes stats q = (\<lambda>_. True)"
  by (simp add: passes_def fun_eq_iff)

interpretation router_rank: model_router "Rank r" for r
  by unfold_locales (simp_all add: mset_Rank passes_off)

section \<open>Properties\<close>

text \<open>C14. Ranking meets its specification: the result is the list of the candidates that pass the
  quality floor, in a stable order of decreasing score, where the score of a model is the weighted
  sum of its quality and of its min-max normalised latency and cost, an unmeasured model counting
  with the mean of the measured ones.\<close>

theorem Rank_refines_reference:
  "Rank r candidates minQuality =
     (let pool = filter (passes (rt_stats r) minQuality) candidates in
      sort_key (\<lambda>m. - rank_score (rt_weights r) (rt_stats r) pool m) pool)"
  by (rule Rank_reference)

text \<open>Routing never prefers a worse model: if the weights are normalised and give quality some
  weight, a measured model with strictly better quality and with latency and cost no worse than
  another's is never placed after it.\<close>

theorem Rank_respects_dominance:
  assumes "simplex (rt_weights r)" and "0 < w_Quality (rt_weights r)"
    and "dominates (rt_stats r) a b"
    and "model_quality (rt_stats r) b < model_quality (rt_stats r) a"
  shows "Rank r candidates minQuality \<noteq> xs @ b # ys @ a # zs"
proof
  define sc where "sc = rank_score (rt_weights r) (rt_stats r)
      (filter (passes (rt_stats r) minQuality) candidates)"
  assume eq: "Rank r candidates minQuality = xs @ b # ys @ a # zs"
  have "sc a \<le> sc b"
    using sorted_wrt_before [OF Rank_sorted eq] by (simp add: sc_def)
  moreover have "sc b + w_Quality (rt_weights r) * (model_quality (rt_stats r) a - model_quality (rt_stats r) b) \<le> sc a"
    unfolding sc_def by (rule dominates_score [OF assms(1,3)])
  moreover have "0 < w_Quality (rt_weights r) * (model_quality (rt_stats r) a - model_quality (rt_stats r) b)"
    using assms(2,4) by simp
  ultimately show False by linarith
qed

definition witness_stats :: "float64 \<Rightarrow> float64 \<Rightarrow> ModelStats" where
  "witness_stats q lat = zero_ModelStats\<lparr>ms_Quality := q, ms_QualitySamples := 4, ms_Samples := 9,
     ms_AvgLatencyMs := lat, ms_AvgCostUSD := 1\<rparr>"

definition witness_router :: Router where
  "witness_router = \<lparr>rt_provider = None, rt_weights = DefaultWeights, rt_window = time_Hour,
     rt_stats = [(''a'', witness_stats (9 / 10) 10), (''b'', witness_stats (1 / 2) 20)]\<rparr>"

theorem Rank_respects_dominance_witness:
  "Rank witness_router [''b'', ''a''] 0 \<noteq> [] @ ''b'' # [] @ ''a'' # []"
  by (rule Rank_respects_dominance)
    (simp_all add: witness_router_def witness_stats_def zero_ModelStats_def simplex_def
      DefaultWeights_def dominates_def measured_def model_quality_def effectiveQuality_def)

text \<open>The states a router passes through. The answers of the statistics backend change over time:
  \<open>backend\<close> replaces the function that stands for it.\<close>

inductive router_reach :: "Router \<Rightarrow> bool" where
  init: "router_reach (New p w window)"
| backend: "router_reach r \<Longrightarrow> router_reach (r\<lparr>rt_provider := Some p\<rparr>)"
| refresh: "router_reach r \<Longrightarrow> router_reach (fst (Refresh r))"
| set_weights: "router_reach r \<Longrightarrow> router_reach (SetWeights w r)"
| set_window: "router_reach r \<Longrightarrow> router_reach (SetWindow window r)"

definition stats_fresh :: "(string, ModelStats) gomap \<Rightarrow> bool" where
  "stats_fresh stats \<longleftrightarrow> list_all (\<lambda>(m, st). ms_EffQuality st = effectiveQuality st) stats"

definition router_wf :: "Router \<Rightarrow> bool" where
  "router_wf r \<longleftrightarrow> simplex (rt_weights r) \<and> 0 < rt_window r \<and> stats_fresh (rt_stats r)"

lemma effectiveQuality_update: "effectiveQuality (st\<lparr>ms_EffQuality := x\<rparr>) = effectiveQuality st"
  by (simp add: effectiveQuality_def Let_def)

lemma Refresh_wf: "router_wf r \<Longrightarrow> router_wf (fst (Refresh r))"
  by (auto simp: router_wf_def Refresh_def stats_fresh_def list_all_iff effectiveQuality_update
        split: option.splits)

lemma router_reach_wf: "router_reach r \<Longrightarrow> router_wf r"
proof (induction rule: router_reach.induct)
  case (init p w window)
  show ?case
    unfolding New_def
    by (rule Refresh_wf)
      (simp add: router_wf_def normalize_simplex clamp_window_def time_Hour_def stats_fresh_def)
qed (simp_all add: Refresh_wf, simp_all add: router_wf_def SetWeights_def SetWindow_def
      normalize_simplex clamp_window_def time_Hour_def)

lemma stats_fresh_get: "stats_fresh stats \<Longrightarrow> gomap_get stats m = Some st \<Longrightarrow>
    ms_EffQuality st = effectiveQuality st"
  by (auto simp: stats_fresh_def list_all_iff dest: map_of_SomeD)

lemma effectiveQuality_unit:
  assumes "0 \<le> ms_Quality s \<and> ms_Quality s \<le> 1" and "0 \<le> ms_SafetyPassRate s \<and> ms_SafetyPassRate s \<le> 1"
  shows "0 \<le> effectiveQuality s \<and> effectiveQuality s \<le> 1"
  using assms
  by (auto simp: effectiveQuality_def Let_def judgeWeight_def safetyWeight_def explorationQuality_def)

text \<open>Whatever configuration and whatever sequence of refreshes, weight changes and window
  changes, the weights stay on the probability simplex and the window stays positive, and the
  quality the console shows for a model is the quality the ranking uses for it.\<close>

theorem router_invariant:
  assumes "router_reach r"
  shows "simplex (rt_weights r) \<and> 0 < rt_window r
    \<and> (gomap_get (rt_stats r) m = Some st \<longrightarrow> ms_EffQuality st = model_quality (rt_stats r) m)"
  using router_reach_wf [OF assms] stats_fresh_get
  by (auto simp: router_wf_def model_quality_def)

theorem router_invariant_witness:
  "simplex (rt_weights (SetWeights \<lparr>w_Quality = 0, w_Cost = -1, w_Latency = 0\<rparr> (New None DefaultWeights 0)))"
  using router_invariant [OF router_reach.set_weights [OF router_reach.init]] by blast

subsection \<open>The blend\<close>

lemma Hours_ratio: "k * Hours a / Hours b = k * (real_of_int a / real_of_int b)"
  by (simp add: Hours_def)

lemma Freshness_pos: "0 < Freshness b halfLife now"
  by (simp add: Freshness_def Let_def)

lemma Freshness_le_1: "Freshness b halfLife now \<le> 1"
  by (auto simp: Freshness_def Let_def Hours_def zero_le_divide_iff)

lemma blendQuality_Freshness:
  assumes "0 \<le> w" and "w \<le> 1"
  shows "blendQuality judge b w halfLife now =
    judge + w * Freshness b halfLife now * (bs_AvgScore b - judge)"
proof -
  have "w * Freshness b halfLife now \<le> 1"
    using assms Freshness_le_1 [of b halfLife now] Freshness_pos [of b halfLife now]
    by (intro mult_le_one) simp_all
  then have "\<not> w * Freshness b halfLife now > 1" by simp
  moreover have "blendQuality judge b w halfLife now =
      (let f = Freshness b halfLife now; v = (if w * f > 1 then 1 else w * f) in
       if w \<le> 0 then judge else judge * (1 - v) + bs_AvgScore b * v)"
    by (simp add: blendQuality_def Freshness_def Let_def)
  ultimately show ?thesis using assms(1) by (simp add: Let_def algebra_simps)
qed

lemma Freshness_half_life:
  assumes "0 < halfLife" and "bs_CompletedAt b \<le> now"
  shows "Freshness b halfLife (now + halfLife) = Freshness b halfLife now / 2"
proof -
  have "real_of_int (now + halfLife - bs_CompletedAt b) / real_of_int halfLife
      = real_of_int (now - bs_CompletedAt b) / real_of_int halfLife + 1"
    using assms(1) by (simp add: field_simps)
  then have "- ln 2 * Hours (now + halfLife - bs_CompletedAt b) / Hours halfLife
      = - ln 2 * Hours (now - bs_CompletedAt b) / Hours halfLife - ln 2"
    unfolding Hours_ratio by (simp only: distrib_left mult_minus_left mult_1_right)
  then show ?thesis
    using assms by (simp add: Freshness_def Let_def exp_diff)
qed

text \<open>Blending a benchmark score into a judge score moves the quality from the judge score
  towards the benchmark score by the configured weight times the freshness of the benchmark, so a
  blend of two values of the unit interval stays in it; and the freshness halves with every
  half-life that passes.\<close>

theorem blendQuality_convex:
  assumes "0 \<le> w" and "w \<le> 1" and "0 < halfLife" and "bs_CompletedAt b \<le> now"
    and "0 \<le> judge" and "judge \<le> 1" and "0 \<le> bs_AvgScore b" and "bs_AvgScore b \<le> 1"
  shows "0 \<le> blendQuality judge b w halfLife now \<and> blendQuality judge b w halfLife now \<le> 1
    \<and> blendQuality judge b w halfLife now - judge = w * Freshness b halfLife now * (bs_AvgScore b - judge)
    \<and> Freshness b halfLife (now + halfLife) = Freshness b halfLife now / 2"
proof -
  define v where "v = w * Freshness b halfLife now"
  have v: "0 \<le> v" "v \<le> 1"
    using assms(1,2) Freshness_le_1 [of b halfLife now] Freshness_pos [of b halfLife now]
    by (auto simp: v_def intro: mult_le_one)
  have eq: "blendQuality judge b w halfLife now = judge * (1 - v) + bs_AvgScore b * v"
    using blendQuality_Freshness [OF assms(1,2)] by (simp add: v_def algebra_simps)
  have "0 \<le> judge * (1 - v) + bs_AvgScore b * v" using assms v by simp
  moreover have "judge * (1 - v) + bs_AvgScore b * v \<le> 1 * (1 - v) + 1 * v"
    using assms v by (intro add_mono mult_right_mono) simp_all
  ultimately show ?thesis
    using blendQuality_Freshness [OF assms(1,2)] Freshness_half_life [OF assms(3,4)] eq by simp
qed

theorem blendQuality_convex_witness:
  "blendQuality (1 / 2) \<lparr>bs_AvgScore = 1, bs_CompletedAt = 0\<rparr> (1 / 2) time_Hour 0 \<le> 1"
  using blendQuality_convex [of "1 / 2" time_Hour "\<lparr>bs_AvgScore = 1, bs_CompletedAt = 0\<rparr>" 0 "1 / 2"]
  by (simp add: time_Hour_def)

text \<open>A model that has a benchmark but no row of the judge is not passed through: its judge
  score counts as zero, so its quality is only the weighted benchmark score. With the default
  weight of one half even a perfect benchmark leaves the model below the optimistic quality that
  an entirely unknown model is ranked with.\<close>

theorem benchmark_only_model_penalised:
  assumes "cp_primary c = Some primary" and "primary window = Some stats"
    and "cp_bench c = Some (Some [(m, b)])" and "cp_weight c = 1 / 2"
    and "gomap_get stats m = None" and "bs_AvgScore b \<le> 1"
  shows "\<exists>stats'. CombinedProvider_ModelStats c now window = Some stats'
    \<and> model_quality stats' m \<le> 1 / 2 \<and> model_quality stats m = 3 / 4"
proof -
  define q where "q = blendQuality 0 b (1 / 2) (cp_halfLife c) now"
  have "q = 1 / 2 * Freshness b (cp_halfLife c) now * bs_AvgScore b"
    using blendQuality_Freshness [of "1 / 2" 0 b] by (simp add: q_def)
  also have "\<dots> \<le> 1 / 2 * Freshness b (cp_halfLife c) now * 1"
    using assms(6) Freshness_pos [of b "cp_halfLife c" now] by (intro mult_left_mono) simp_all
  also have "\<dots> \<le> 1 / 2" using Freshness_le_1 [of b "cp_halfLife c" now] by simp
  finally have "q \<le> 1 / 2" .
  moreover have "model_quality (blend_row c now (m, b) stats) m = q"
    by (simp add: blend_row_def model_quality_def update_conv' gomap_or_def zero_ModelStats_def Let_def
        effectiveQuality_def q_def assms(4,5))
  ultimately show ?thesis
    using assms(1-5)
    by (simp add: CombinedProvider_ModelStats_def model_quality_def explorationQuality_def)
qed

theorem benchmark_only_model_penalised_witness:
  "\<exists>stats'. CombinedProvider_ModelStats
      (NewCombinedStatsProvider (Some (\<lambda>_. Some [])) (Some (Some [(''m'', \<lparr>bs_AvgScore = 1, bs_CompletedAt = 0\<rparr>)]))
         (1 / 2) 0) 0 time_Hour = Some stats'
    \<and> model_quality stats' ''m'' \<le> 1 / 2 \<and> model_quality [] ''m'' = 3 / 4"
  by (rule benchmark_only_model_penalised
      [where b = "\<lparr>bs_AvgScore = 1, bs_CompletedAt = 0\<rparr>" and primary = "\<lambda>_. Some []"])
    (simp_all add: NewCombinedStatsProvider_def Let_def)

end
