(* ===== verification/Registry.thy ===== *)
theory Registry
  imports Nexus_Prelude
begin

text \<open>
  The provider registry of the gateway (\<open>internal/gateway/provider.go\<close>, \<open>scope.go\<close>) and the
  worker that keeps its model index up to date (\<open>dynamic_provider.go\<close>, \<open>model_sync.go\<close>).

  A provider adapter is a record of what the registry asks of it: its name, the models it advertises
  and, for each optional capability, the models of that capability (\<open>None\<close> when the type does not
  implement the interface). \<open>pv_id\<close> is the identity of the instance, which Go compares when it
  compares two interface values. The calls that go upstream are arguments of the handler's model.
\<close>

section \<open>Scopes\<close>

datatype Scope = ScopeZero | ScopePublic | ScopeOrg | ScopeUser | ScopeOther string

fun scope_string :: "Scope \<Rightarrow> string" where
  "scope_string ScopeZero = ''''"
| "scope_string ScopePublic = ''public''"
| "scope_string ScopeOrg = ''org''"
| "scope_string ScopeUser = ''user''"
| "scope_string (ScopeOther s) = s"

record ScopeHint =
  sh_Scope :: Scope
  sh_OwnerID :: string

definition IsZero :: "ScopeHint \<Rightarrow> bool" where
  "IsZero h \<longleftrightarrow> scope_string (sh_Scope h) = []"

definition publicHint :: ScopeHint where
  "publicHint = \<lparr>sh_Scope = ScopePublic, sh_OwnerID = []\<rparr>"

section \<open>The registry\<close>

record Provider =
  pv_id :: nat
  pv_Name :: string
  pv_Models :: "string list"
  pv_EmbeddingModels :: "string list option"
  pv_ImageModels :: "string list option"
  pv_ModerationModels :: "string list option"

record Registry =
  rg_providers :: "(string, Provider) gomap"
  rg_byModel :: "(string, Provider) gomap"
  rg_modelHints :: "(string, ScopeHint) gomap"
  rg_providerHint :: "(string, ScopeHint) gomap"

definition NewRegistry :: Registry where
  "NewRegistry = \<lparr>rg_providers = [], rg_byModel = [], rg_modelHints = [], rg_providerHint = []\<rparr>"

definition RegisterHint :: "string \<Rightarrow> ScopeHint \<Rightarrow> Provider \<Rightarrow> Registry \<Rightarrow> Registry" where
  "RegisterHint name hint p r =
     (let hint = (if IsZero hint then publicHint else hint) in
      \<lparr>rg_providers = gomap_set name p (rg_providers r),
       rg_byModel = gomap_set_all (pv_Models p) p (rg_byModel r),
       rg_modelHints = gomap_set_all (pv_Models p) hint (rg_modelHints r),
       rg_providerHint = gomap_set name hint (rg_providerHint r)\<rparr>)"

definition Register :: "Provider \<Rightarrow> Registry \<Rightarrow> Registry" where
  "Register p r = RegisterHint (pv_Name p) \<lparr>sh_Scope = ScopeZero, sh_OwnerID = []\<rparr> p r"

definition HintForName :: "Registry \<Rightarrow> string \<Rightarrow> ScopeHint \<times> bool" where
  "HintForName r name =
     (case gomap_get (rg_providerHint r) name of None \<Rightarrow> (publicHint, False) | Some h \<Rightarrow> (h, True))"

definition HintForModel :: "Registry \<Rightarrow> string \<Rightarrow> ScopeHint \<times> bool" where
  "HintForModel r model =
     (case gomap_get (rg_modelHints r) model of None \<Rightarrow> (publicHint, False) | Some h \<Rightarrow> (h, True))"

text \<open>\<open>for id, existing := range r.byModel { if existing == p { delete ... } }\<close>: the ids to delete
  are those of the entries that hold the instance.\<close>

definition UpdateModels :: "string \<Rightarrow> string list \<Rightarrow> Registry \<Rightarrow> Registry \<times> bool" where
  "UpdateModels name models r =
     (case gomap_get (rg_providers r) name of
        None \<Rightarrow> (r, False)
      | Some p \<Rightarrow>
          let hint = gomap_or \<lparr>sh_Scope = ScopeZero, sh_OwnerID = []\<rparr> (rg_providerHint r) name;
              gone = map fst (filter (\<lambda>(m, existing). existing = p) (rg_byModel r)) in
          (r\<lparr>rg_byModel := gomap_set_all models p (fold gomap_del gone (rg_byModel r)),
             rg_modelHints := gomap_set_all models hint (fold gomap_del gone (rg_modelHints r))\<rparr>, True))"

text \<open>\<open>Inl model\<close> is the error \<open>no provider registered for model %q\<close>.\<close>

definition Resolve :: "Registry \<Rightarrow> string \<Rightarrow> string + Provider \<times> string" where
  "Resolve r model =
     (let exact = (case gomap_get (rg_byModel r) model of
                     Some p \<Rightarrow> Inr (p, model) | None \<Rightarrow> Inl model) in
      case strings_Cut (CHR ''/'') model of
        Some (name, rest) \<Rightarrow>
          (case gomap_get (rg_providers r) name of Some p \<Rightarrow> Inr (p, rest) | None \<Rightarrow> exact)
      | None \<Rightarrow> exact)"

definition ProviderFor :: "Registry \<Rightarrow> string \<Rightarrow> Provider option" where
  "ProviderFor r name = gomap_get (rg_providers r) name"

record ProviderCapability =
  pc_Name :: string
  pc_Scope :: string
  pc_Chat :: bool
  pc_Stream :: bool
  pc_Embeddings :: bool
  pc_Images :: bool
  pc_Moderations :: bool
  pc_ChatModels :: "string list"
  pc_EmbeddingModels :: "string list"
  pc_ImageModels :: "string list"
  pc_ModerationModels :: "string list"
  pc_Health :: string

definition provider_capability :: "Registry \<Rightarrow> string \<Rightarrow> Provider \<Rightarrow> ProviderCapability" where
  "provider_capability r name p =
     \<lparr>pc_Name = name,
      pc_Scope = (case gomap_get (rg_providerHint r) name of
                    None \<Rightarrow> [] | Some hint \<Rightarrow> scope_string (sh_Scope hint)),
      pc_Chat = True, pc_Stream = True,
      pc_Embeddings = (pv_EmbeddingModels p \<noteq> None),
      pc_Images = (pv_ImageModels p \<noteq> None),
      pc_Moderations = (pv_ModerationModels p \<noteq> None),
      pc_ChatModels = pv_Models p,
      pc_EmbeddingModels = (case pv_EmbeddingModels p of None \<Rightarrow> [] | Some ms \<Rightarrow> ms),
      pc_ImageModels = (case pv_ImageModels p of None \<Rightarrow> [] | Some ms \<Rightarrow> ms),
      pc_ModerationModels = (case pv_ModerationModels p of None \<Rightarrow> [] | Some ms \<Rightarrow> ms),
      pc_Health = (if pv_Models p = [] then ''empty'' else ''registered'')\<rparr>"

text \<open>The names are the keys of the map, so the lookup of a name always succeeds.\<close>

definition ProviderCapabilities :: "Registry \<Rightarrow> ProviderCapability list" where
  "ProviderCapabilities r =
     List.map_filter (\<lambda>name. map_option (provider_capability r name) (gomap_get (rg_providers r) name))
       (sort (map fst (rg_providers r)))"

definition AllModels :: "Registry \<Rightarrow> string list" where
  "AllModels r = sort (map fst (rg_byModel r))"

text \<open>The three unions collect ids in a set \<open>seen\<close> and sort its elements.\<close>

definition union_sorted :: "(Provider \<Rightarrow> string list option) \<Rightarrow> Registry \<Rightarrow> string list" where
  "union_sorted cap r =
     sort (remdups (concat (map (\<lambda>(_, p). case cap p of None \<Rightarrow> [] | Some ms \<Rightarrow> ms) (rg_providers r))))"

definition AllEmbeddingModels :: "Registry \<Rightarrow> string list" where
  "AllEmbeddingModels = union_sorted pv_EmbeddingModels"

definition AllModerationModels :: "Registry \<Rightarrow> string list" where
  "AllModerationModels = union_sorted pv_ModerationModels"

definition AllImageModels :: "Registry \<Rightarrow> string list" where
  "AllImageModels = union_sorted pv_ImageModels"

definition serves :: "(Provider \<Rightarrow> string list option) \<Rightarrow> string \<Rightarrow> Provider \<Rightarrow> bool" where
  "serves cap model p \<longleftrightarrow> (case cap p of None \<Rightarrow> False | Some ms \<Rightarrow> model \<in> set ms)"

definition ResolveEmbedding :: "Registry \<Rightarrow> string \<Rightarrow> Provider option" where
  "ResolveEmbedding r model =
     (case strings_Cut (CHR ''/'') model of
        Some (name, rest) \<Rightarrow>
          find (\<lambda>p. pv_Name p = name \<and> serves pv_EmbeddingModels rest p) (map snd (rg_providers r))
      | None \<Rightarrow> find (serves pv_EmbeddingModels model) (map snd (rg_providers r)))"

fun resolve_moderation :: "string \<Rightarrow> Provider list \<Rightarrow> (Provider \<times> string) option" where
  "resolve_moderation model [] = None"
| "resolve_moderation model (p # ps) =
     (case pv_ModerationModels p of
        None \<Rightarrow> resolve_moderation model ps
      | Some ms \<Rightarrow>
          (case find (\<lambda>m. model = [] \<or> model = m) ms of
             Some m \<Rightarrow> Some (p, m)
           | None \<Rightarrow>
               (case strings_Cut (CHR ''/'') model of
                  Some (name, rest) \<Rightarrow>
                    if pv_Name p = name \<and> rest \<in> set ms then Some (p, rest)
                    else resolve_moderation model ps
                | None \<Rightarrow> resolve_moderation model ps)))"

definition ResolveModeration :: "Registry \<Rightarrow> string \<Rightarrow> (Provider \<times> string) option" where
  "ResolveModeration r model = resolve_moderation model (map snd (rg_providers r))"

fun resolve_image :: "string \<Rightarrow> Provider list \<Rightarrow> (Provider \<times> string) option" where
  "resolve_image model [] = None"
| "resolve_image model (p # ps) =
     (case pv_ImageModels p of
        None \<Rightarrow> resolve_image model ps
      | Some ms \<Rightarrow>
          if model = [] \<and> ms \<noteq> [] then Some (p, hd ms)
          else if model \<in> set ms then Some (p, model)
          else resolve_image model ps)"

definition ResolveImage :: "Registry \<Rightarrow> string \<Rightarrow> (Provider \<times> string) option" where
  "ResolveImage r model =
     (case strings_Cut (CHR ''/'') model of
        Some (name, rest) \<Rightarrow>
          map_option (\<lambda>p. (p, rest))
            (find (\<lambda>p. pv_Name p = name \<and> serves pv_ImageModels rest p) (map snd (rg_providers r)))
      | None \<Rightarrow> resolve_image model (map snd (rg_providers r)))"

section \<open>The model sync worker\<close>

record DynamicProvider =
  dp_name :: string
  dp_models :: "string list"

definition NewDynamicProvider :: "string \<Rightarrow> DynamicProvider" where
  "NewDynamicProvider name = \<lparr>dp_name = name, dp_models = []\<rparr>"

text \<open>\<open>Set\<close> returns the previous slice.\<close>

definition dp_Set :: "string list \<Rightarrow> DynamicProvider \<Rightarrow> string list \<times> DynamicProvider" where
  "dp_Set models d = (dp_models d, d\<lparr>dp_models := models\<rparr>)"

definition SnapshotLen :: "DynamicProvider \<Rightarrow> nat" where
  "SnapshotLen d = length (dp_models d)"

text \<open>The counters are \<open>uint64\<close>; the two time stamps are not modelled.\<close>

record DynamicSyncCounters =
  sc_success :: nat
  sc_error :: nat

definition countNew :: "string list \<Rightarrow> string list \<Rightarrow> nat" where
  "countNew a b = length (filter (\<lambda>x. x \<notin> set b) a)"

text \<open>Two's complement wrap-around of 64-bit arithmetic.\<close>

definition wrap64 :: "int \<Rightarrow> int" where
  "wrap64 x = (x + 2 ^ 63) mod 2 ^ 64 - 2 ^ 63"

text \<open>The pause after failed attempt number \<open>attempt\<close> before jitter, in nanoseconds.\<close>

definition sync_backoff :: "nat \<Rightarrow> duration" where
  "sync_backoff attempt =
     (let backoff = wrap64 (wrap64 (2 ^ attempt) * 1000000000) in
      if backoff > 60000000000 then 60000000000 else backoff)"

text \<open>What a fetcher returns: the model ids, or an error that is or wraps
  \<open>context.Canceled\<close>, or another error.\<close>

datatype fetch_result = FetchOK "string list" | FetchErr (fetch_canceled: bool)

text \<open>What the HTTP client and the JSON decoder hand to a fetcher: a transport error, or a status
  with the decoded names (\<open>None\<close> when the body does not decode).\<close>

datatype http_answer = TransportErr (transport_canceled: bool) | HttpAnswer nat "string list option"

definition fetchModelList :: "http_answer \<Rightarrow> fetch_result" where
  "fetchModelList answer =
     (case answer of
        TransportErr canceled \<Rightarrow> FetchErr canceled
      | HttpAnswer status body \<Rightarrow>
          if status \<ge> 400 then FetchErr False
          else (case body of
                  None \<Rightarrow> FetchErr False
                | Some data \<Rightarrow>
                    if data = [] then FetchErr False else FetchOK (filter (\<lambda>ID. ID \<noteq> []) data)))"

definition fetchGeminiModelList :: "http_answer \<Rightarrow> fetch_result" where
  "fetchGeminiModelList answer =
     (case answer of
        TransportErr canceled \<Rightarrow> FetchErr canceled
      | HttpAnswer status body \<Rightarrow>
          if status \<ge> 400 then FetchErr False
          else (case body of
                  None \<Rightarrow> FetchErr False
                | Some names \<Rightarrow>
                    if names = [] then FetchErr False
                    else FetchOK (filter (\<lambda>i. i \<noteq> [])
                           (List.map_filter (\<lambda>name. if prefix ''models/'' name
                              then Some (drop (length ''models/'') name) else None) names))))"

datatype sync_outcome =
    SyncOK "string list"
  | SyncKept
  | SyncPanic

text \<open>The retry loop. What the fetcher answers, and whether \<open>ctx\<close> is done before the pause ends,
  are functions of the attempt; the result carries the pauses made. \<open>rand.Int63n\<close> panics on an
  argument that is not positive.\<close>

function sync_loop ::
  "(nat \<Rightarrow> fetch_result) \<Rightarrow> (nat \<Rightarrow> bool) \<Rightarrow> nat \<Rightarrow> nat \<Rightarrow> DynamicSyncCounters \<Rightarrow> duration list \<Rightarrow>
     sync_outcome \<times> DynamicSyncCounters \<times> duration list" where
  "sync_loop fetcher ctxDone maxRetries attempt counters pauses =
     (if attempt > maxRetries then (SyncKept, counters, pauses)
      else case fetcher attempt of
        FetchOK models \<Rightarrow> (SyncOK models, counters, pauses)
      | FetchErr canceled \<Rightarrow>
          let counters = counters\<lparr>sc_error := sc_error counters + 1\<rparr> in
          if canceled then (SyncKept, counters, pauses)
          else if attempt = maxRetries then (SyncKept, counters, pauses)
          else let backoff = sync_backoff attempt in
            if backoff div 4 \<le> 0 then (SyncPanic, counters, pauses)
            else if ctxDone attempt then (SyncKept, counters, pauses)
            else sync_loop fetcher ctxDone maxRetries (attempt + 1) counters (pauses @ [backoff]))"
  by pat_completeness auto
termination
  by (relation "measure (\<lambda>(f, d, maxRetries, attempt, c, ps). Suc maxRetries - attempt)") auto

declare sync_loop.simps [simp del]

record sync_state =
  sy_reg :: Registry
  sy_dp :: DynamicProvider
  sy_counters :: DynamicSyncCounters

text \<open>\<open>None\<close> is a panic. The last component is the pair of counts that the log line reports as
  \<open>added\<close> and \<open>removed\<close>.\<close>

definition runOnce ::
  "(nat \<Rightarrow> fetch_result) \<Rightarrow> (nat \<Rightarrow> bool) \<Rightarrow> nat \<Rightarrow> sync_state \<Rightarrow> (sync_state \<times> (nat \<times> nat) option) option" where
  "runOnce fetcher ctxDone maxRetries s =
     (case sync_loop fetcher ctxDone maxRetries 0 (sy_counters s) [] of (out, counters, _) \<Rightarrow>
        (case out of
           SyncPanic \<Rightarrow> None
         | SyncKept \<Rightarrow> Some (s\<lparr>sy_counters := counters\<rparr>, None)
         | SyncOK models \<Rightarrow>
             (case dp_Set models (sy_dp s) of (prev, dp) \<Rightarrow>
                Some (\<lparr>sy_reg = fst (UpdateModels (dp_name dp) models (sy_reg s)), sy_dp = dp,
                       sy_counters = counters\<lparr>sc_success := sc_success counters + 1\<rparr>\<rparr>,
                      Some (countNew prev models, countNew models prev)))))"

section \<open>The index stays consistent\<close>

text \<open>Every sequence of registrations and catalog refreshes.\<close>

inductive registry_reach :: "Registry \<Rightarrow> bool" where
  new: "registry_reach NewRegistry"
| register: "registry_reach r \<Longrightarrow> registry_reach (RegisterHint name hint p r)"
| update: "registry_reach r \<Longrightarrow> registry_reach (fst (UpdateModels name models r))"

definition registry_wf :: "Registry \<Rightarrow> bool" where
  "registry_wf r \<longleftrightarrow>
     gomap_wf (rg_providers r) \<and> gomap_wf (rg_byModel r)
     \<and> gomap_wf (rg_modelHints r) \<and> gomap_wf (rg_providerHint r)
     \<and> dom (map_of (rg_byModel r)) = dom (map_of (rg_modelHints r))
     \<and> dom (map_of (rg_providers r)) = dom (map_of (rg_providerHint r))
     \<and> (\<forall>h \<in> ran (map_of (rg_modelHints r)) \<union> ran (map_of (rg_providerHint r)). \<not> IsZero h)"

lemma publicHint_not_zero [simp]: "\<not> IsZero publicHint"
  by (simp add: IsZero_def publicHint_def)

lemma NewRegistry_wf: "registry_wf NewRegistry"
  by (simp add: registry_wf_def NewRegistry_def)

lemma RegisterHint_wf:
  assumes "registry_wf r"
  shows "registry_wf (RegisterHint name hint p r)"
proof -
  define h where "h = (if IsZero hint then publicHint else hint)"
  have "\<not> IsZero h" by (simp add: h_def)
  then have "\<forall>g \<in> ran (map_of (gomap_set_all (pv_Models p) h (rg_modelHints r)))
      \<union> ran (map_of (gomap_set name h (rg_providerHint r))). \<not> IsZero g"
    using assms by (auto simp: registry_wf_def ran_def gomap split: if_splits)
  then show ?thesis
    using assms
    by (simp add: registry_wf_def RegisterHint_def Let_def gomap flip: h_def)
qed

lemma UpdateModels_wf:
  assumes "registry_wf r"
  shows "registry_wf (fst (UpdateModels name models r))"
proof (cases "gomap_get (rg_providers r) name")
  case None
  with assms show ?thesis by (simp add: UpdateModels_def)
next
  case (Some p)
  with assms obtain hint where hint: "gomap_get (rg_providerHint r) name = Some hint"
    unfolding registry_wf_def by blast
  have "\<not> IsZero hint" using assms hint by (auto simp: registry_wf_def ran_def)
  then have "\<forall>g \<in> ran (map_of (gomap_set_all models hint (fold gomap_del gone (rg_modelHints r)))). \<not> IsZero g"
    for gone using assms by (auto simp: registry_wf_def ran_def gomap split: if_splits)
  then show ?thesis
    using assms by (simp add: registry_wf_def UpdateModels_def Some hint gomap gomap_or_def Let_def ball_Un)
qed

lemma registry_reach_wf: "registry_reach r \<Longrightarrow> registry_wf r"
  by (induction rule: registry_reach.induct)
    (simp_all add: NewRegistry_wf RegisterHint_wf UpdateModels_wf)

section \<open>Catalog refreshes\<close>

lemma UpdateModels_Some:
  assumes "gomap_wf (rg_byModel r)" and "gomap_get (rg_providers r) name = Some p"
  shows "gomap_get (rg_byModel (fst (UpdateModels name models r))) m =
    (if m \<in> set models then Some p
     else if gomap_get (rg_byModel r) m = Some p then None else gomap_get (rg_byModel r) m)"
proof -
  have "m \<in> set (map fst (filter (\<lambda>(m, existing). existing = p) (rg_byModel r)))
      \<longleftrightarrow> gomap_get (rg_byModel r) m = Some p"
    using gomap_wf_get [OF assms(1)] by force
  then show ?thesis by (simp add: UpdateModels_def assms(2) Let_def gomap)
qed

lemma UpdateModels_providers [simp]:
  "rg_providers (fst (UpdateModels name models r)) = rg_providers r"
  by (simp add: UpdateModels_def Let_def split: option.split)

lemma UpdateModels_hints:
  assumes "gomap_wf (rg_byModel r)" and "gomap_get (rg_providers r) name = Some p"
    and "gomap_get (rg_providerHint r) name = Some h"
  shows "gomap_get (rg_modelHints (fst (UpdateModels name models r))) m =
    (if m \<in> set models then Some h
     else if gomap_get (rg_byModel r) m = Some p then None else gomap_get (rg_modelHints r) m)"
proof -
  have "m \<in> set (map fst (filter (\<lambda>(m, existing). existing = p) (rg_byModel r)))
      \<longleftrightarrow> gomap_get (rg_byModel r) m = Some p"
    using gomap_wf_get [OF assms(1)] by force
  then show ?thesis by (simp add: UpdateModels_def assms Let_def gomap gomap_or_def)
qed

lemma Resolve_exact:
  "CHR ''/'' \<notin> set model \<Longrightarrow>
   Resolve r model = (case gomap_get (rg_byModel r) model of Some p \<Rightarrow> Inr (p, model) | None \<Rightarrow> Inl model)"
  using strings_Cut_None [of "CHR ''/''" model] by (simp add: Resolve_def Let_def)

lemma Resolve_cases:
  "Resolve r model = Inr (p, m) \<longleftrightarrow>
     (\<exists>name. CHR ''/'' \<notin> set name \<and> model = name @ ''/'' @ m \<and> gomap_get (rg_providers r) name = Some p)
   \<or> m = model \<and> gomap_get (rg_byModel r) model = Some p
     \<and> (\<nexists>name rest. CHR ''/'' \<notin> set name \<and> model = name @ ''/'' @ rest
          \<and> gomap_get (rg_providers r) name \<noteq> None)"
proof (cases "strings_Cut (CHR ''/'') model")
  case None
  then have "CHR ''/'' \<notin> set model" by (simp add: strings_Cut_None)
  then show ?thesis
    using Resolve_exact [of model r] by (auto split: option.splits)
next
  case (Some nr)
  obtain name rest where nr: "nr = (name, rest)" by fastforce
  from Some nr have model: "model = name @ CHR ''/'' # rest" "CHR ''/'' \<notin> set name"
    by (simp_all add: strings_Cut_Some)
  have unique: "name' = name \<and> rest' = rest"
    if "CHR ''/'' \<notin> set name'" "model = name' @ ''/'' @ rest'" for name' rest'
    using split_at_first [of name' "CHR ''/''" rest' name rest] that model by simp
  show ?thesis
  proof (cases "gomap_get (rg_providers r) name")
    case None
    then show ?thesis
      using Some nr unique by (auto simp: Resolve_def Let_def split: option.splits)
  next
    case (Some q)
    then have "Resolve r model = Inr (q, rest)"
      using \<open>strings_Cut (CHR ''/'') model = Some nr\<close> nr by (simp add: Resolve_def Let_def)
    moreover have "model = name @ ''/'' @ rest" using model(1) by simp
    ultimately show ?thesis using unique model(2) Some by fastforce
  qed
qed

text \<open>What the registry stands for: the providers by name and the models by id, each with its provider and
  its visibility. The four maps of the code become two, and a refresh replaces exactly the ids of the
  instance it names.\<close>

datatype reg_op =
    OpRegister string ScopeHint Provider
  | OpUpdate string "string list"

fun reg_do :: "reg_op \<Rightarrow> Registry \<Rightarrow> Registry" where
  "reg_do (OpRegister name hint p) r = RegisterHint name hint p r"
| "reg_do (OpUpdate name models) r = fst (UpdateModels name models r)"

type_synonym catalog = "(string \<rightharpoonup> Provider \<times> ScopeHint) \<times> (string \<rightharpoonup> Provider \<times> ScopeHint)"

fun catalog_do :: "reg_op \<Rightarrow> catalog \<Rightarrow> catalog" where
  "catalog_do (OpRegister name hint p) (named, models) =
     (let e = (p, if IsZero hint then publicHint else hint)
      in (named(name \<mapsto> e), \<lambda>m. if m \<in> set (pv_Models p) then Some e else models m))"
| "catalog_do (OpUpdate name ms) (named, models) =
     (case named name of
        None \<Rightarrow> (named, models)
      | Some e \<Rightarrow> (named, \<lambda>m. if m \<in> set ms then Some e
                      else if map_option fst (models m) = Some (fst e) then None else models m))"

definition catalog_of :: "Registry \<Rightarrow> catalog" where
  "catalog_of r =
     (\<lambda>name. Option.bind (gomap_get (rg_providers r) name) (\<lambda>p. map_option (Pair p) (gomap_get (rg_providerHint r) name)),
      \<lambda>m. Option.bind (gomap_get (rg_byModel r) m) (\<lambda>p. map_option (Pair p) (gomap_get (rg_modelHints r) m)))"

lemma catalog_of_sel:
  assumes "registry_wf r"
  shows "map_option fst (fst (catalog_of r) name) = gomap_get (rg_providers r) name"
    "map_option fst (snd (catalog_of r) m) = gomap_get (rg_byModel r) m"
    "map_option snd (fst (catalog_of r) name) = gomap_get (rg_providerHint r) name"
    "map_option snd (snd (catalog_of r) m) = gomap_get (rg_modelHints r) m"
proof -
  have "gomap_get (rg_byModel r) m = None \<longleftrightarrow> gomap_get (rg_modelHints r) m = None"
    and "gomap_get (rg_providers r) name = None \<longleftrightarrow> gomap_get (rg_providerHint r) name = None"
    using assms unfolding registry_wf_def by (metis domIff)+
  then show "map_option fst (fst (catalog_of r) name) = gomap_get (rg_providers r) name"
    "map_option fst (snd (catalog_of r) m) = gomap_get (rg_byModel r) m"
    "map_option snd (fst (catalog_of r) name) = gomap_get (rg_providerHint r) name"
    "map_option snd (snd (catalog_of r) m) = gomap_get (rg_modelHints r) m"
    by (auto simp: catalog_of_def bind_eq_None_conv split: Option.bind_splits)
qed

lemma reg_do_catalog:
  assumes "registry_wf r"
  shows "catalog_of (reg_do op r) = catalog_do op (catalog_of r)"
proof (cases op)
  case (OpRegister name hint p)
  then show ?thesis by (auto simp: catalog_of_def RegisterHint_def Let_def gomap fun_eq_iff)
next
  case (OpUpdate name ms)
  show ?thesis
  proof (cases "gomap_get (rg_providers r) name")
    case None
    then show ?thesis by (simp add: OpUpdate UpdateModels_def catalog_of_def)
  next
    case (Some p)
    with assms obtain h where h: "gomap_get (rg_providerHint r) name = Some h" unfolding registry_wf_def by blast
    have keys: "gomap_wf (rg_byModel r)" using assms by (simp add: registry_wf_def)
    have gone: "m \<in> set (map fst (filter (\<lambda>(m, existing). existing = p) (rg_byModel r))) \<longleftrightarrow> gomap_get (rg_byModel r) m = Some p" for m
      using gomap_wf_get [OF keys] by force
    have own: "map_option fst (snd (catalog_of r) m) = Some p \<longleftrightarrow> gomap_get (rg_byModel r) m = Some p" for m
      using catalog_of_sel(2) [OF assms] by simp
    have "fst (catalog_of r) name = Some (p, h)" by (simp add: catalog_of_def Some h)
    then have "catalog_do op (catalog_of r) = (fst (catalog_of r), \<lambda>m. if m \<in> set ms then Some (p, h)
        else if gomap_get (rg_byModel r) m = Some p then None else snd (catalog_of r) m)"
      using own by (cases "catalog_of r") (simp add: OpUpdate fun_eq_iff)
    also have "\<dots> = catalog_of (reg_do op r)"
      using Some h gone by (auto simp: OpUpdate UpdateModels_def catalog_of_def Let_def gomap gomap_or_def fun_eq_iff)
    finally show ?thesis ..
  qed
qed

lemma reg_run: "registry_wf (fold reg_do ops NewRegistry) \<and> catalog_of (fold reg_do ops NewRegistry) = fold catalog_do ops (Map.empty, Map.empty)"
proof (induction ops rule: rev_induct)
  case Nil
  then show ?case by (simp add: NewRegistry_wf) (simp add: catalog_of_def NewRegistry_def fun_eq_iff)
next
  case (snoc op ops)
  then show ?case using reg_do_catalog [of "fold reg_do ops NewRegistry" op] by (cases op) (simp_all add: RegisterHint_wf UpdateModels_wf)
qed

text \<open>C23. The registry implements its catalog. After any sequence of registrations and catalog refreshes,
  the provider and the visibility of every name and of every model id are those of an abstract
  catalog in which a registration publishes the ids of the provider, and a refresh of a registered
  name gives the fetched ids to its provider and withdraws every other id of that provider, and
  nothing else.\<close>

theorem registry_refines_catalog:
  "let r = fold reg_do ops NewRegistry; (named, models) = fold catalog_do ops (Map.empty, Map.empty) in
     ProviderFor r name = map_option fst (named name)
     \<and> HintForName r name = (case named name of Some e \<Rightarrow> (snd e, True) | None \<Rightarrow> (publicHint, False))
     \<and> gomap_get (rg_byModel r) m = map_option fst (models m)
     \<and> HintForModel r m = (case models m of Some e \<Rightarrow> (snd e, True) | None \<Rightarrow> (publicHint, False))"
proof -
  let ?r = "fold reg_do ops NewRegistry"
  obtain named models where c: "fold catalog_do ops (Map.empty, Map.empty) = (named, models)" by fastforce
  then have cat: "catalog_of ?r = (named, models)" using reg_run by simp
  note sel = catalog_of_sel [OF conjunct1 [OF reg_run], of ops, unfolded cat fst_conv snd_conv]
  show ?thesis
    unfolding c Let_def case_prod_conv ProviderFor_def HintForName_def HintForModel_def sel [symmetric]
    by (simp split: option.split)
qed

definition witness_provider :: "nat \<Rightarrow> string \<Rightarrow> string list \<Rightarrow> Provider" where
  "witness_provider i name models = \<lparr>pv_id = i, pv_Name = name, pv_Models = models,
     pv_EmbeddingModels = None, pv_ImageModels = None, pv_ModerationModels = None\<rparr>"

text \<open>A catalog refresh is exact: afterwards the ids indexed under the refreshed provider are
  precisely the fetched ones, each with the provider's hint, and every other id keeps its provider
  and its hint.\<close>

theorem UpdateModels_exact:
  assumes "registry_reach r" and "gomap_get (rg_providers r) name = Some p"
    and "UpdateModels name models r = (r', ok)"
  shows "ok \<and> (gomap_get (rg_byModel r') m = Some p \<longleftrightarrow> m \<in> set models)
    \<and> (m \<in> set models \<longrightarrow> HintForModel r' m = HintForName r name)
    \<and> (m \<notin> set models \<and> gomap_get (rg_byModel r) m \<noteq> Some p \<longrightarrow>
        gomap_get (rg_byModel r') m = gomap_get (rg_byModel r) m \<and> HintForModel r' m = HintForModel r m)"
proof -
  have wf: "registry_wf r" using assms(1) by (rule registry_reach_wf)
  then have keys: "gomap_wf (rg_byModel r)" by (simp add: registry_wf_def)
  obtain h where h: "gomap_get (rg_providerHint r) name = Some h"
    using wf assms(2) unfolding registry_wf_def by blast
  have "ok" using assms(2,3) by (simp add: UpdateModels_def Let_def)
  moreover have r': "r' = fst (UpdateModels name models r)" using assms(3) by simp
  ultimately show ?thesis
    unfolding r' HintForModel_def HintForName_def UpdateModels_Some [OF keys assms(2)]
      UpdateModels_hints [OF keys assms(2) h]
    using h by auto
qed

theorem UpdateModels_exact_witness:
  "gomap_get (rg_byModel (fst (UpdateModels ''openai'' [''gpt-5'']
      (Register (witness_provider 1 ''openai'' [''gpt-4o'']) NewRegistry)))) ''gpt-5''
    = Some (witness_provider 1 ''openai'' [''gpt-4o''])"
proof -
  let ?r = "Register (witness_provider 1 ''openai'' [''gpt-4o'']) NewRegistry"
  have "registry_reach ?r" unfolding Register_def by (intro registry_reach.intros)
  moreover have "gomap_get (rg_providers ?r) ''openai'' = Some (witness_provider 1 ''openai'' [''gpt-4o''])"
    by (simp add: Register_def RegisterHint_def NewRegistry_def witness_provider_def Let_def)
  ultimately show ?thesis
    using UpdateModels_exact [OF _ _ surjective_pairing, where m = "''gpt-5''" and models = "[''gpt-5'']"]
    by simp
qed

text \<open>Routing by model id: a resolution succeeds exactly when the part before the first slash
  names a registered provider, which then gets the rest of the id, or, when it does not, the whole id
  is indexed, and then the id is forwarded unchanged. In particular a provider registered under a
  name without a slash is reached by prefixing any id with it.\<close>

theorem Resolve_characterised:
  "(Resolve r model = Inr (p, m) \<longleftrightarrow>
     (\<exists>name. CHR ''/'' \<notin> set name \<and> model = name @ ''/'' @ m \<and> ProviderFor r name = Some p)
   \<or> m = model \<and> gomap_get (rg_byModel r) model = Some p
     \<and> (\<nexists>name rest. CHR ''/'' \<notin> set name \<and> model = name @ ''/'' @ rest
          \<and> ProviderFor r name \<noteq> None))
   \<and> (Resolve r model = Inl e \<longleftrightarrow> e = model \<and> (\<nexists>p m. Resolve r model = Inr (p, m)))"
proof -
  have "Resolve r model = Inl e \<Longrightarrow> e = model"
    by (auto simp: Resolve_def Let_def split: option.splits prod.splits)
  moreover have "\<nexists>p m. Resolve r model = Inr (p, m) \<Longrightarrow> Resolve r model = Inl model"
    by (auto simp: Resolve_def Let_def split: option.splits prod.splits)
  ultimately show ?thesis unfolding Resolve_cases [of r model p m] ProviderFor_def by auto
qed

section \<open>The retry loop\<close>

lemma wrap64_id: "- (2 ^ 63) \<le> x \<Longrightarrow> x < 2 ^ 63 \<Longrightarrow> wrap64 x = x"
  by (simp add: wrap64_def)

lemma sync_backoff_small:
  assumes "attempt \<le> 33"
  shows "1000000000 \<le> sync_backoff attempt \<and> sync_backoff attempt \<le> 60000000000"
proof -
  define x :: int where "x = 2 ^ attempt"
  have "x \<le> 2 ^ 33" unfolding x_def using assms by (intro power_increasing) simp_all
  then have x: "x \<le> 8589934592" by simp
  have pos: "1 \<le> x" by (simp add: x_def)
  have "wrap64 x = x" using x pos by (intro wrap64_id) simp_all
  moreover have "wrap64 (x * 1000000000) = x * 1000000000" using x pos by (intro wrap64_id) simp_all
  ultimately show ?thesis using pos by (simp add: sync_backoff_def Let_def flip: x_def)
qed

lemma sync_backoff_34: "sync_backoff 34 div 4 \<le> 0"
  by (simp add: sync_backoff_def Let_def wrap64_def)

definition all_failed :: "(nat \<Rightarrow> fetch_result) \<Rightarrow> nat \<Rightarrow> bool" where
  "all_failed fetcher n \<longleftrightarrow> (\<forall>a < n. \<exists>canceled. fetcher a = FetchErr canceled)"

lemma sync_loop_ok:
  "attempt \<le> maxRetries \<Longrightarrow> fetcher attempt = FetchOK models \<Longrightarrow>
   sync_loop fetcher ctxDone maxRetries attempt counters pauses = (SyncOK models, counters, pauses)"
  by (subst sync_loop.simps) simp

lemma sync_loop_stop:
  "attempt \<le> maxRetries \<Longrightarrow> fetcher attempt = FetchErr canceled \<Longrightarrow>
   canceled \<or> attempt = maxRetries \<or> 0 < sync_backoff attempt div 4 \<and> ctxDone attempt \<Longrightarrow>
   sync_loop fetcher ctxDone maxRetries attempt counters pauses
     = (SyncKept, counters\<lparr>sc_error := sc_error counters + 1\<rparr>, pauses)"
  by (subst sync_loop.simps) (auto simp: Let_def)

lemma sync_loop_panic:
  "attempt < maxRetries \<Longrightarrow> fetcher attempt = FetchErr False \<Longrightarrow> sync_backoff attempt div 4 \<le> 0 \<Longrightarrow>
   fst (sync_loop fetcher ctxDone maxRetries attempt counters pauses) = SyncPanic"
  by (subst sync_loop.simps) (simp add: Let_def)

lemma sync_loop_retry:
  "attempt < maxRetries \<Longrightarrow> fetcher attempt = FetchErr False \<Longrightarrow> 0 < sync_backoff attempt div 4 \<Longrightarrow>
   \<not> ctxDone attempt \<Longrightarrow>
   sync_loop fetcher ctxDone maxRetries attempt counters pauses
     = sync_loop fetcher ctxDone maxRetries (attempt + 1)
         (counters\<lparr>sc_error := sc_error counters + 1\<rparr>) (pauses @ [sync_backoff attempt])"
  by (subst sync_loop.simps) (simp add: Let_def)

text \<open>With at most 34 retries the loop ends without a panic; when it succeeds, it is with the first
  successful fetch; no pause is longer than a minute; each failed attempt is counted once.\<close>

lemma sync_loop_sound:
  assumes "maxRetries \<le> 34" and "attempt \<le> maxRetries" and "all_failed fetcher attempt"
    and "list_all (\<lambda>p. p \<le> 60000000000) pauses"
    and "sync_loop fetcher ctxDone maxRetries attempt counters pauses = (out, counters', pauses')"
  shows "out \<noteq> SyncPanic
    \<and> (\<forall>models. out = SyncOK models \<longrightarrow>
         (\<exists>a \<le> maxRetries. fetcher a = FetchOK models \<and> all_failed fetcher a))
    \<and> list_all (\<lambda>p. p \<le> 60000000000) pauses'
    \<and> sc_error counters' \<le> sc_error counters + (Suc maxRetries - attempt)
    \<and> sc_success counters' = sc_success counters"
  using assms(2-5)
proof (induction "maxRetries - attempt" arbitrary: attempt counters pauses rule: less_induct)
  case less
  show ?case
  proof (cases "fetcher attempt")
    case (FetchOK models)
    with less.prems show ?thesis
      using sync_loop_ok [of attempt maxRetries fetcher, OF less.prems(1) FetchOK] by auto
  next
    case err: (FetchErr canceled)
    show ?thesis
    proof (cases "canceled \<or> attempt = maxRetries \<or> 0 < sync_backoff attempt div 4 \<and> ctxDone attempt")
      case True
      with less.prems show ?thesis
        using sync_loop_stop [of attempt maxRetries fetcher canceled ctxDone, OF less.prems(1) err True]
        by auto
    next
      case False
      then have att: "attempt < maxRetries" "attempt \<le> 33" using assms(1) less.prems(1) by auto
      then have pause: "0 < sync_backoff attempt div 4" "sync_backoff attempt \<le> 60000000000"
        using sync_backoff_small [of attempt] by (simp_all add: pos_imp_zdiv_pos_iff)
      with False err att(1) less.prems(4) have
        "sync_loop fetcher ctxDone maxRetries (attempt + 1)
           (counters\<lparr>sc_error := sc_error counters + 1\<rparr>) (pauses @ [sync_backoff attempt])
         = (out, counters', pauses')"
        using sync_loop_retry [of attempt maxRetries fetcher ctxDone counters pauses] by simp
      moreover have "all_failed fetcher (attempt + 1)"
        using less.prems(2) err by (auto simp: all_failed_def less_Suc_eq)
      moreover have "list_all (\<lambda>p. p \<le> 60000000000) (pauses @ [sync_backoff attempt])"
        using less.prems(3) pause(2) by simp
      ultimately show ?thesis
        using less.hyps [of "attempt + 1"] att(1) by fastforce
    qed
  qed
qed

text \<open>A refresh of the model catalog is safe: with a retry budget of at most 34 it never
  panics, and it either leaves the registry and the cached list as they were or installs the list of
  the first successful fetch, which came within the budget.\<close>

theorem runOnce_keeps_or_installs:
  assumes "maxRetries \<le> 34"
  shows "\<exists>s' log. runOnce fetcher ctxDone maxRetries s = Some (s', log)
    \<and> (sy_reg s' = sy_reg s \<and> sy_dp s' = sy_dp s \<and> log = None
       \<or> (\<exists>a models. a \<le> maxRetries \<and> fetcher a = FetchOK models \<and> all_failed fetcher a
            \<and> dp_models (sy_dp s') = models
            \<and> sy_reg s' = fst (UpdateModels (dp_name (sy_dp s)) models (sy_reg s))))
    \<and> sc_error (sy_counters s') \<le> sc_error (sy_counters s) + maxRetries + 1"
proof -
  obtain out counters pauses where
    run: "sync_loop fetcher ctxDone maxRetries 0 (sy_counters s) [] = (out, counters, pauses)"
    using prod_cases3 by blast
  have "all_failed fetcher 0" by (simp add: all_failed_def)
  then have sound: "out \<noteq> SyncPanic"
    "\<forall>models. out = SyncOK models \<longrightarrow>
         (\<exists>a \<le> maxRetries. fetcher a = FetchOK models \<and> all_failed fetcher a)"
    "sc_error counters \<le> sc_error (sy_counters s) + maxRetries + 1"
    using sync_loop_sound [OF assms _ _ _ run] by simp_all
  then show ?thesis
    by (cases out) (auto simp: runOnce_def run dp_Set_def)
qed

definition witness_sync :: sync_state where
  "witness_sync = \<lparr>sy_reg = Register (witness_provider 1 ''openai'' [''gpt-4o'']) NewRegistry,
     sy_dp = NewDynamicProvider ''openai'', sy_counters = \<lparr>sc_success = 0, sc_error = 0\<rparr>\<rparr>"

theorem runOnce_keeps_or_installs_witness:
  "\<exists>s' log. runOnce (\<lambda>_. FetchErr False) (\<lambda>_. False) 3 witness_sync = Some (s', log)
    \<and> sy_reg s' = sy_reg witness_sync"
  using runOnce_keeps_or_installs [of 3 "\<lambda>_. FetchErr False" "\<lambda>_. False" witness_sync] by auto

text \<open>A large retry budget turns an outage into a crash: if the first 35 fetches fail and the
  budget allows another attempt, the doubled pause has overflowed the 64-bit duration and drawing
  the jitter panics.\<close>

theorem runOnce_panics_on_large_retry_budget:
  assumes "35 \<le> maxRetries" and "\<And>a. a \<le> 34 \<Longrightarrow> fetcher a = FetchErr False" and "\<And>a. \<not> ctxDone a"
  shows "runOnce fetcher ctxDone maxRetries s = None"
proof -
  have "fst (sync_loop fetcher ctxDone maxRetries (34 - k) counters pauses) = SyncPanic"
    if "k \<le> 34" for k counters pauses
    using that
  proof (induction k arbitrary: counters pauses)
    case 0
    then show ?case using sync_loop_panic [of 34] assms sync_backoff_34 by simp
  next
    case (Suc k)
    let ?a = "34 - Suc k"
    have "0 < sync_backoff ?a div 4"
      using sync_backoff_small [of ?a] by (simp add: pos_imp_zdiv_pos_iff)
    then have "sync_loop fetcher ctxDone maxRetries ?a counters pauses =
        sync_loop fetcher ctxDone maxRetries (?a + 1)
          (counters\<lparr>sc_error := sc_error counters + 1\<rparr>) (pauses @ [sync_backoff ?a])"
      using assms by (intro sync_loop_retry) simp_all
    moreover have "?a + 1 = 34 - k" using Suc.prems by simp
    ultimately show ?case using Suc.IH Suc.prems by simp
  qed
  from this [of 34] have "fst (sync_loop fetcher ctxDone maxRetries 0 (sy_counters s) []) = SyncPanic"
    by simp
  then show ?thesis by (auto simp: runOnce_def split: prod.splits)
qed

theorem runOnce_panics_on_large_retry_budget_witness:
  "runOnce (\<lambda>_. FetchErr False) (\<lambda>_. False) 40 witness_sync = None"
  by (rule runOnce_panics_on_large_retry_budget) simp_all

text \<open>The worker can empty the catalog of a provider: an answer of the Gemini endpoint whose
  names all lack the expected prefix is a success with no models, and installing it removes every id
  of the provider from the index. The log line of that refresh reports the removed models as added.\<close>

theorem sync_can_blank_catalog:
  assumes "registry_reach (sy_reg s)"
    and "gomap_get (rg_providers (sy_reg s)) (dp_name (sy_dp s)) = Some p"
    and "fetcher 0 = fetchGeminiModelList (HttpAnswer 200 (Some names))"
    and "names \<noteq> []" and "list_all (\<lambda>n. \<not> prefix ''models/'' n) names"
  shows "\<exists>s'. runOnce fetcher ctxDone maxRetries s = Some (s', Some (length (dp_models (sy_dp s)), 0))
    \<and> gomap_get (rg_byModel (sy_reg s')) m \<noteq> Some p"
proof -
  have "List.map_filter (\<lambda>name. if prefix ''models/'' name
      then Some (drop (length ''models/'') name) else None) names = []"
    using assms(5) by (induction names) (simp_all add: map_filter_simps)
  then have ok: "fetcher 0 = FetchOK []"
    using assms(3,4) by (simp add: fetchGeminiModelList_def)
  have "gomap_wf (rg_byModel (sy_reg s))"
    using registry_reach_wf [OF assms(1)] by (simp add: registry_wf_def)
  then have "gomap_get (rg_byModel (fst (UpdateModels (dp_name (sy_dp s)) [] (sy_reg s)))) m \<noteq> Some p"
    using UpdateModels_Some [OF _ assms(2), of "[]"] by simp
  moreover have "countNew (dp_models (sy_dp s)) [] = length (dp_models (sy_dp s))"
    by (simp add: countNew_def)
  ultimately show ?thesis
    using sync_loop_ok [of 0 maxRetries fetcher, OF _ ok] by (simp add: runOnce_def dp_Set_def countNew_def)
qed

theorem sync_can_blank_catalog_witness:
  "\<exists>s'. runOnce (\<lambda>_. fetchGeminiModelList (HttpAnswer 200 (Some [''tunedModels/a'']))) (\<lambda>_. False) 3 witness_sync
      = Some (s', Some (length (dp_models (sy_dp witness_sync)), 0))
    \<and> gomap_get (rg_byModel (sy_reg s')) ''gpt-4o'' \<noteq> Some (witness_provider 1 ''openai'' [''gpt-4o''])"
proof (rule sync_can_blank_catalog [where names = "[''tunedModels/a'']"])
  show "registry_reach (sy_reg witness_sync)"
    by (simp add: witness_sync_def Register_def registry_reach.intros)
  show "gomap_get (rg_providers (sy_reg witness_sync)) (dp_name (sy_dp witness_sync))
      = Some (witness_provider 1 ''openai'' [''gpt-4o''])"
    by (simp add: witness_sync_def Register_def RegisterHint_def NewRegistry_def witness_provider_def
        NewDynamicProvider_def Let_def)
qed simp_all

end
