(* ===== verification/Limiter.thy ===== *)
theory Limiter
  imports Nexus_Prelude
begin

text \<open>
  The limiters of \<open>internal/limiter\<close>: the per-key request rate and monthly spend of
  \<open>limiter.go\<close> and \<open>memory.go\<close>, the in-flight cap of \<open>concurrency.go\<close> and the token bucket of
  \<open>iplimiter.go\<close>.

  Every method holds the limiter's mutex, so it is one step on the limiter's state. The clock is an
  argument: seconds since 1970 for the calendar windows (the code formats no finer unit),
  nanoseconds for the token bucket.
\<close>

section \<open>Calendar windows\<close>

text \<open>\<open>time.Time.UTC().Format\<close> needs the civil date. \<open>locate len i d\<close> finds the period that
  contains day \<open>d\<close> when the periods \<open>i\<close>, \<open>i + 1\<close>, \<dots> have the given (positive) lengths.\<close>

function locate :: "(nat \<Rightarrow> nat) \<Rightarrow> nat \<Rightarrow> nat \<Rightarrow> nat \<times> nat" where
  "locate len i d = (if d < len i \<or> len i = 0 then (i, d) else locate len (Suc i) (d - len i))"
  by pat_completeness auto
termination
  by (relation "measure (\<lambda>(len, i, d). d)") auto

declare locate.simps [simp del]

definition leap_year :: "nat \<Rightarrow> bool" where
  "leap_year y \<longleftrightarrow> y mod 4 = 0 \<and> (y mod 100 \<noteq> 0 \<or> y mod 400 = 0)"

definition year_days :: "nat \<Rightarrow> nat" where
  "year_days y = (if leap_year y then 366 else 365)"

definition month_days :: "nat \<Rightarrow> nat \<Rightarrow> nat" where
  "month_days y m =
     (if m = 2 then (if leap_year y then 29 else 28)
      else if m = 4 \<or> m = 6 \<or> m = 9 \<or> m = 11 then 30 else 31)"

text \<open>Year, month, day of the month, hour and minute of a time stamp.\<close>

definition civil :: "nat \<Rightarrow> nat \<times> nat \<times> nat \<times> nat \<times> nat" where
  "civil t =
     (case locate year_days 1970 (t div 86400) of (y, doy) \<Rightarrow>
      case locate (month_days y) 1 doy of (m, d) \<Rightarrow>
        (y, m, Suc d, t mod 86400 div 3600, t mod 3600 div 60))"

definition pad :: "nat \<Rightarrow> nat \<Rightarrow> string" where
  "pad w n = (let s = strconv_Itoa n in replicate (w - length s) (CHR ''0'') @ s)"

text \<open>The layouts \<open>200601021504\<close> and \<open>200601\<close>.\<close>

definition minuteWindow :: "nat \<Rightarrow> string" where
  "minuteWindow t = (case civil t of (y, m, d, h, mi) \<Rightarrow> pad 4 y @ pad 2 m @ pad 2 d @ pad 2 h @ pad 2 mi)"

definition monthWindow :: "nat \<Rightarrow> string" where
  "monthWindow t = (case civil t of (y, m, d, h, mi) \<Rightarrow> pad 4 y @ pad 2 m)"

definition rpmKey :: "string \<Rightarrow> string \<Rightarrow> string" where
  "rpmKey keyID win = ''nexus:rpm:'' @ keyID @ '':'' @ win"

definition spendKey :: "string \<Rightarrow> string \<Rightarrow> string" where
  "spendKey keyID win = ''nexus:spend:'' @ keyID @ '':'' @ win"

section \<open>The in-memory limiter\<close>

record Memory =
  mem_rpm :: "(string, int) gomap"
  mem_spend :: "(string, float64) gomap"

definition NewMemory :: Memory where
  "NewMemory = \<lparr>mem_rpm = [], mem_spend = []\<rparr>"

text \<open>The clean-up loop ranges over the keys present when it starts; the bound is checked on the
  map as it shrinks.\<close>

fun drop_buckets :: "string \<Rightarrow> string list \<Rightarrow> (string, int) gomap \<Rightarrow> (string, int) gomap" where
  "drop_buckets k [] rpm = rpm"
| "drop_buckets k (existing # rest) rpm =
     drop_buckets k rest (if existing \<noteq> k \<and> length rpm > 10000 then gomap_del existing rpm else rpm)"

text \<open>The error result of the interface is always nil here.\<close>

definition Memory_Allow :: "Memory \<Rightarrow> nat \<Rightarrow> string \<Rightarrow> int \<Rightarrow> bool \<times> Memory" where
  "Memory_Allow m now keyID rpmLimit =
     (if rpmLimit \<le> 0 then (True, m)
      else let k = rpmKey keyID (minuteWindow now);
               rpm = drop_buckets k (map fst (mem_rpm m)) (mem_rpm m);
               n = gomap_or 0 rpm k + 1 in
        (n \<le> rpmLimit, m\<lparr>mem_rpm := gomap_set k n rpm\<rparr>))"

definition Memory_MonthlySpend :: "Memory \<Rightarrow> nat \<Rightarrow> string \<Rightarrow> float64" where
  "Memory_MonthlySpend m now keyID = gomap_or 0 (mem_spend m) (spendKey keyID (monthWindow now))"

definition Memory_AddSpend :: "Memory \<Rightarrow> nat \<Rightarrow> string \<Rightarrow> float64 \<Rightarrow> Memory" where
  "Memory_AddSpend m now keyID costUSD =
     (if costUSD \<le> 0 then m
      else let k = spendKey keyID (monthWindow now) in
        m\<lparr>mem_spend := gomap_set k (gomap_or 0 (mem_spend m) k + costUSD) (mem_spend m)\<rparr>)"

section \<open>The concurrency cap\<close>

record ConcurrencyCap =
  cap_perKey :: "(string, int) gomap"
  cap_maxPerKey :: int

definition NewConcurrencyCap :: "int \<Rightarrow> ConcurrencyCap" where
  "NewConcurrencyCap maxPerKey = \<lparr>cap_perKey = [], cap_maxPerKey = maxPerKey\<rparr>"

text \<open>The methods accept a nil receiver.\<close>

definition Acquire :: "ConcurrencyCap option \<Rightarrow> string \<Rightarrow> bool \<times> ConcurrencyCap option" where
  "Acquire cap keyID =
     (case cap of
        None \<Rightarrow> (True, cap)
      | Some c \<Rightarrow>
          if cap_maxPerKey c \<le> 0 then (True, cap)
          else if gomap_or 0 (cap_perKey c) keyID \<ge> cap_maxPerKey c then (False, cap)
          else (True, Some (c\<lparr>cap_perKey :=
                  gomap_set keyID (gomap_or 0 (cap_perKey c) keyID + 1) (cap_perKey c)\<rparr>)))"

definition Release :: "ConcurrencyCap option \<Rightarrow> string \<Rightarrow> ConcurrencyCap option" where
  "Release cap keyID =
     (case cap of
        None \<Rightarrow> cap
      | Some c \<Rightarrow>
          if cap_maxPerKey c \<le> 0 then cap
          else let perKey = (if gomap_or 0 (cap_perKey c) keyID > 0
                             then gomap_set keyID (gomap_or 0 (cap_perKey c) keyID - 1) (cap_perKey c)
                             else cap_perKey c);
                   perKey = (if gomap_or 0 perKey keyID = 0 then gomap_del keyID perKey else perKey) in
            Some (c\<lparr>cap_perKey := perKey\<rparr>))"

definition Cap_Max :: "ConcurrencyCap option \<Rightarrow> int" where
  "Cap_Max cap = (case cap of None \<Rightarrow> 0 | Some c \<Rightarrow> cap_maxPerKey c)"

definition Inflight :: "ConcurrencyCap option \<Rightarrow> string \<Rightarrow> int" where
  "Inflight cap keyID = (case cap of None \<Rightarrow> 0 | Some c \<Rightarrow> gomap_or 0 (cap_perKey c) keyID)"

section \<open>The token bucket\<close>

text \<open>\<open>time.Time.Sub\<close> saturates after 292 years; the only difference that large is the one to the
  zero time in the first call, and it is compared with a 64-bit interval only.\<close>

record bucket =
  bk_tokens :: float64
  bk_last :: int

record IPLimiter =
  ip_capacity :: int
  ip_refill :: duration
  ip_gcInterval :: duration
  ip_buckets :: "(string, bucket) gomap"
  ip_lastGC :: int

definition zero_time :: int where "zero_time = - 62135596800000000000"

definition NewIPLimiter :: "int \<Rightarrow> duration \<Rightarrow> IPLimiter" where
  "NewIPLimiter capacity refill =
     \<lparr>ip_capacity = capacity, ip_refill = refill, ip_gcInterval = refill, ip_buckets = [],
      ip_lastGC = zero_time\<rparr>"

definition Seconds :: "duration \<Rightarrow> float64" where
  "Seconds d = real_of_int d / 1000000000"

definition gcLocked :: "int \<Rightarrow> IPLimiter \<Rightarrow> IPLimiter" where
  "gcLocked now l =
     (let cutoff = now - ip_refill l in
      l\<lparr>ip_buckets := filter (\<lambda>(k, b). \<not> bk_last b < cutoff) (ip_buckets l)\<rparr>)"

text \<open>The part of \<open>Allow\<close> after the sweep.\<close>

definition take_token :: "int \<Rightarrow> string \<Rightarrow> IPLimiter \<Rightarrow> bool \<times> IPLimiter" where
  "take_token now key l =
     (let b = (case gomap_get (ip_buckets l) key of
                 None \<Rightarrow> \<lparr>bk_tokens = real_of_int (ip_capacity l), bk_last = now\<rparr> | Some b \<Rightarrow> b);
          elapsed = Seconds (now - bk_last b);
          rate = real_of_int (ip_capacity l) / Seconds (ip_refill l);
          tokens = bk_tokens b + elapsed * rate;
          tokens = (if tokens > real_of_int (ip_capacity l) then real_of_int (ip_capacity l) else tokens) in
      if tokens < 1
      then (False, l\<lparr>ip_buckets := gomap_set key \<lparr>bk_tokens = tokens, bk_last = now\<rparr> (ip_buckets l)\<rparr>)
      else (True, l\<lparr>ip_buckets := gomap_set key \<lparr>bk_tokens = tokens - 1, bk_last = now\<rparr> (ip_buckets l)\<rparr>))"

definition IPLimiter_Allow :: "IPLimiter \<Rightarrow> int \<Rightarrow> string \<Rightarrow> bool \<times> IPLimiter" where
  "IPLimiter_Allow l now key =
     (if ip_capacity l \<le> 0 then (True, l)
      else take_token now key
        (if now - ip_lastGC l \<ge> ip_gcInterval l then (gcLocked now l)\<lparr>ip_lastGC := now\<rparr> else l))"

section \<open>Windows identify minutes and months\<close>

lemma locate_sound:
  assumes pos: "\<And>k. 0 < len k" and "locate len i d = (j, r)"
  shows "i \<le> j \<and> d = sum len {i..<j} + r \<and> r < len j"
  using assms(2)
proof (induction d arbitrary: i rule: less_induct)
  case (less d)
  show ?case
  proof (cases "d < len i")
    case True
    with less.prems show ?thesis by (simp add: locate.simps [of len i d])
  next
    case False
    with less.prems pos [of i] have step: "locate len (Suc i) (d - len i) = (j, r)"
      by (simp add: locate.simps [of len i d])
    have "Suc i \<le> j \<and> d - len i = sum len {Suc i..<j} + r \<and> r < len j"
      using less.IH [OF _ step] pos [of i] False by linarith
    moreover from this have "sum len {i..<j} = len i + sum len {Suc i..<j}"
      by (intro sum.atLeast_Suc_lessThan) simp
    ultimately show ?thesis using False by (intro conjI; linarith)
  qed
qed

lemma year_days_pos: "0 < year_days y"
  by (simp add: year_days_def)

lemma month_days_pos: "0 < month_days y m"
  by (simp add: month_days_def)

lemma year_days_months: "sum (month_days y) {1..<13} = year_days y"
  by (simp add: month_days_def year_days_def eval_nat_numeral sum.atLeast0_lessThan_Suc)

lemma mod_div_nat: "t mod (m * k) div m = t div m mod k" for t m k :: nat
  by (cases "m = 0") (simp_all add: mod_mult2_eq)

lemma minute_of_day: "t mod 86400 div 3600 = t div 60 mod 1440 div 60"
  and minute_of_hour: "t mod 3600 div 60 = t div 60 mod 60"
  and day_of: "t div 86400 = t div 60 div 1440" for t :: nat
proof -
  have "t mod 86400 div 60 = t div 60 mod 1440" using mod_div_nat [of t 60 1440] by simp
  then show "t mod 86400 div 3600 = t div 60 mod 1440 div 60"
    using div_mult2_eq [of "t mod 86400" 60 60] by simp
  show "t mod 3600 div 60 = t div 60 mod 60" using mod_div_nat [of t 60 60] by simp
  show "t div 86400 = t div 60 div 1440" using div_mult2_eq [of t 60 1440] by simp
qed

lemma civil_locate:
  assumes "civil t = (y, m, d, h, mi)"
  obtains doy where "locate year_days 1970 (t div 86400) = (y, doy)"
    and "locate (month_days y) 1 doy = (m, d - 1)" and "0 < d"
    and "h = t mod 86400 div 3600" and "mi = t mod 3600 div 60"
  using assms by (auto simp: civil_def split: prod.splits)

lemma civil_bounds:
  assumes "civil t = (y, m, d, h, mi)"
  shows "m \<le> 12 \<and> d \<le> 31 \<and> h < 24 \<and> mi < 60"
proof -
  obtain doy where y: "locate year_days 1970 (t div 86400) = (y, doy)"
    and m: "locate (month_days y) 1 doy = (m, d - 1)" and d: "0 < d"
    and hm: "h = t mod 86400 div 3600" "mi = t mod 3600 div 60"
    using assms by (rule civil_locate)
  have doy: "doy < year_days y"
    using locate_sound [OF year_days_pos y] by blast
  have ms: "1 \<le> m" "doy = sum (month_days y) {1..<m} + (d - 1)" "d - 1 < month_days y m"
    using locate_sound [OF month_days_pos m] by blast+
  have "m \<le> 12"
  proof (rule ccontr)
    assume "\<not> m \<le> 12"
    then have "sum (month_days y) {1..<13} \<le> sum (month_days y) {1..<m}"
      by (intro sum_mono2) auto
    with doy ms(2) show False unfolding year_days_months by linarith
  qed
  moreover have "month_days y m \<le> 31" by (simp add: month_days_def)
  ultimately show ?thesis using ms(3) d by (auto simp: hm)
qed

lemma div_mod_unique: "a div c = b div c \<Longrightarrow> a mod c = b mod c \<Longrightarrow> a = b" for a b c :: nat
  by (metis div_mult_mod_eq)

lemma civil_minute:
  "civil t = civil t' \<longleftrightarrow> t div 60 = t' div 60"
proof
  assume eq: "civil t = civil t'"
  obtain y m d h mi where c: "civil t = (y, m, d, h, mi)" by (metis prod_cases5)
  have days: "u div 86400 = sum year_days {1970..<y} + (sum (month_days y) {1..<m} + (d - 1))"
    if "civil u = (y, m, d, h, mi)" for u
  proof -
    obtain doy where yd: "locate year_days 1970 (u div 86400) = (y, doy)"
      and md: "locate (month_days y) 1 doy = (m, d - 1)"
      using \<open>civil u = (y, m, d, h, mi)\<close> by (rule civil_locate)
    show ?thesis
      using locate_sound [OF year_days_pos yd] locate_sound [OF month_days_pos md] by linarith
  qed
  have dd: "t div 60 div 1440 = t' div 60 div 1440"
    using days c eq by (simp flip: day_of)
  have hh: "t div 60 mod 1440 div 60 = t' div 60 mod 1440 div 60"
    using eq unfolding minute_of_day [symmetric] by (simp add: civil_def split: prod.splits)
  have mm: "t div 60 mod 1440 mod 60 = t' div 60 mod 1440 mod 60"
    using eq minute_of_hour [of t] minute_of_hour [of t']
    by (simp add: civil_def mod_mod_cancel split: prod.splits)
  have "t div 60 mod 1440 = t' div 60 mod 1440"
    by (rule div_mod_unique [OF hh mm])
  with dd show "t div 60 = t' div 60" by (rule div_mod_unique)
next
  assume "t div 60 = t' div 60"
  then show "civil t = civil t'" by (simp add: civil_def day_of minute_of_day minute_of_hour)
qed

lemma pad_val: "digits_val (pad w n) = n"
  using strconv_Itoa_digits [of n] by (simp add: pad_def Let_def digits_val_zeros)

lemma pad_inj: "pad w m = pad w n \<longleftrightarrow> m = n"
  by (metis pad_val)

lemma pad_length: "n < 100 \<Longrightarrow> length (pad 2 n) = 2"
  using strconv_Itoa_short [of n] by (simp add: pad_def Let_def)

lemma pad_digits: "list_all is_digit (pad w n)"
  using strconv_Itoa_digits [of n]
  by (auto simp: pad_def Let_def list_all_iff is_digit_def)

lemma minuteWindow_eq: "minuteWindow t = minuteWindow t' \<longleftrightarrow> t div 60 = t' div 60"
proof
  assume eq: "minuteWindow t = minuteWindow t'"
  obtain y m d h mi where c: "civil t = (y, m, d, h, mi)" by (metis prod_cases5)
  obtain y' m' d' h' mi' where c': "civil t' = (y', m', d', h', mi')" by (metis prod_cases5)
  note b = civil_bounds [OF c] civil_bounds [OF c']
  have "pad 4 y @ pad 2 m @ pad 2 d @ pad 2 h @ pad 2 mi
      = pad 4 y' @ pad 2 m' @ pad 2 d' @ pad 2 h' @ pad 2 mi'"
    using eq by (simp add: minuteWindow_def c c')
  then have "pad 4 y = pad 4 y' \<and> pad 2 m = pad 2 m' \<and> pad 2 d = pad 2 d' \<and> pad 2 h = pad 2 h' \<and> pad 2 mi = pad 2 mi'"
    using b by (simp add: append_eq_append_conv pad_length)
  then show "t div 60 = t' div 60"
    using c c' by (simp add: pad_inj flip: civil_minute)
next
  assume "t div 60 = t' div 60"
  then show "minuteWindow t = minuteWindow t'" by (simp add: minuteWindow_def flip: civil_minute)
qed

definition same_month :: "nat \<Rightarrow> nat \<Rightarrow> bool" where
  "same_month t t' \<longleftrightarrow> fst (civil t) = fst (civil t') \<and> fst (snd (civil t)) = fst (snd (civil t'))"

lemma monthWindow_eq: "monthWindow t = monthWindow t' \<longleftrightarrow> same_month t t'"
proof -
  obtain y m d h mi where c: "civil t = (y, m, d, h, mi)" by (metis prod_cases5)
  obtain y' m' d' h' mi' where c': "civil t' = (y', m', d', h', mi')" by (metis prod_cases5)
  show ?thesis
    using civil_bounds [OF c] civil_bounds [OF c']
    by (auto simp: monthWindow_def same_month_def c c' append_eq_append_conv pad_length pad_inj)
qed

lemma window_no_colon: "CHR '':'' \<notin> set (minuteWindow t)" "CHR '':'' \<notin> set (monthWindow t)"
proof -
  have "CHR '':'' \<notin> set (pad w n)" for w n
    using pad_digits [of w n] by (auto simp: list_all_iff is_digit_def)
  then show "CHR '':'' \<notin> set (minuteWindow t)" "CHR '':'' \<notin> set (monthWindow t)"
    by (simp_all add: minuteWindow_def monthWindow_def split: prod.split)
qed

lemma colon_key_inj:
  assumes "k @ '':'' @ w = k' @ '':'' @ w'" and "CHR '':'' \<notin> set w" and "CHR '':'' \<notin> set w'"
  shows "k = k' \<and> w = w'"
proof -
  have "rev w @ CHR '':'' # rev k = rev w' @ CHR '':'' # rev k'"
    using arg_cong [OF assms(1), of rev] by simp
  then show ?thesis using split_at_first [of "rev w" "CHR '':''" "rev k" "rev w'" "rev k'"] assms by simp
qed

lemma rpmKey_eq:
  "rpmKey k (minuteWindow t) = rpmKey k' (minuteWindow t') \<longleftrightarrow> k = k' \<and> t div 60 = t' div 60"
  using colon_key_inj [of k "minuteWindow t" k' "minuteWindow t'"] window_no_colon
  by (auto simp: rpmKey_def minuteWindow_eq)

lemma spendKey_eq:
  "spendKey k (monthWindow t) = spendKey k' (monthWindow t') \<longleftrightarrow> k = k' \<and> same_month t t'"
  using colon_key_inj [of k "monthWindow t" k' "monthWindow t'"] window_no_colon
  by (auto simp: spendKey_def monthWindow_eq)

section \<open>Request rates\<close>

lemma drop_buckets_small: "length rpm \<le> 10000 \<Longrightarrow> drop_buckets k ks rpm = rpm"
  by (induction ks) simp_all

text \<open>A history of calls, oldest first: the time, the virtual key and its limit.\<close>

type_synonym allow_call = "nat \<times> string \<times> int"

definition after_calls :: "allow_call list \<Rightarrow> Memory" where
  "after_calls calls = fold (\<lambda>(t, k, l) m. snd (Memory_Allow m t k l)) calls NewMemory"

definition limited :: "allow_call list \<Rightarrow> allow_call list" where
  "limited calls = filter (\<lambda>(t, k, l). 0 < l) calls"

definition calls_in_minute :: "allow_call list \<Rightarrow> string \<Rightarrow> nat \<Rightarrow> nat" where
  "calls_in_minute calls k t =
     length (filter (\<lambda>(t', k', l). k' = k \<and> t' div 60 = t div 60) (limited calls))"

definition minute_buckets :: "allow_call list \<Rightarrow> (string \<times> nat) set" where
  "minute_buckets calls = (\<lambda>(t, k, l). (k, t div 60)) ` set (limited calls)"

definition bucket_key :: "string \<times> nat \<Rightarrow> string" where
  "bucket_key = (\<lambda>(k, minute). rpmKey k (minuteWindow (minute * 60)))"

lemma bucket_key: "bucket_key (k, t div 60) = rpmKey k (minuteWindow t)"
  by (simp add: bucket_key_def rpmKey_eq)

lemma inj_bucket_key: "inj bucket_key"
  by (auto simp: inj_def bucket_key_def rpmKey_eq)

lemma length_gomap: "gomap_wf m \<Longrightarrow> length m = card (dom (map_of m))"
  by (simp add: gomap_wf_def dom_map_of_conv_image_fst distinct_card flip: set_map)

lemma after_calls_counts:
  assumes "card (minute_buckets calls) \<le> 10000"
  shows "gomap_wf (mem_rpm (after_calls calls))
    \<and> dom (map_of (mem_rpm (after_calls calls))) = bucket_key ` minute_buckets calls
    \<and> (\<forall>k t. gomap_or 0 (mem_rpm (after_calls calls)) (rpmKey k (minuteWindow t))
          = int (calls_in_minute calls k t))"
  using assms
proof (induction calls rule: rev_induct)
  case Nil
  then show ?case
    by (simp add: after_calls_def NewMemory_def minute_buckets_def limited_def calls_in_minute_def gomap_or_def)
next
  case (snoc c calls)
  obtain t k l where c: "c = (t, k, l)" by (metis prod_cases3)
  let ?m = "after_calls calls"
  have m': "after_calls (calls @ [c]) = snd (Memory_Allow ?m t k l)"
    by (simp add: after_calls_def c)
  have sub: "minute_buckets calls \<subseteq> minute_buckets (calls @ [c])" and fin: "finite (minute_buckets (calls @ [c]))"
    unfolding minute_buckets_def limited_def filter_append set_append image_Un by (blast, simp)
  have small: "card (minute_buckets calls) \<le> 10000"
    using card_mono [OF fin sub] snoc.prems by (rule order_trans)
  note IH = snoc.IH [OF small]
  have len: "length (mem_rpm ?m) \<le> 10000"
    using IH small card_image [OF inj_on_subset [OF inj_bucket_key subset_UNIV]]
    by (simp add: length_gomap)
  show ?case
  proof (cases "0 < l")
    case False
    then have "limited (calls @ [c]) = limited calls" by (simp add: limited_def c)
    with False IH show ?thesis
      by (simp add: m' Memory_Allow_def minute_buckets_def calls_in_minute_def)
  next
    case True
    let ?k = "rpmKey k (minuteWindow t)"
    have rpm: "mem_rpm (after_calls (calls @ [c])) =
        gomap_set ?k (int (calls_in_minute calls k t) + 1) (mem_rpm ?m)"
      using True IH by (simp add: m' Memory_Allow_def Let_def drop_buckets_small [OF len])
    have buckets: "minute_buckets (calls @ [c]) = insert (k, t div 60) (minute_buckets calls)"
      using True by (auto simp: minute_buckets_def limited_def c)
    have calls: "calls_in_minute (calls @ [c]) k' t' =
        calls_in_minute calls k' t' + (if k = k' \<and> t div 60 = t' div 60 then 1 else 0)" for k' t'
      using True by (simp add: calls_in_minute_def limited_def c)
    have eq: "calls_in_minute calls k t' = calls_in_minute calls k t" if "t' div 60 = t div 60" for t'
      using that by (simp add: calls_in_minute_def)
    have count: "gomap_or 0 (mem_rpm (after_calls (calls @ [c]))) (rpmKey k' (minuteWindow t'))
        = int (calls_in_minute (calls @ [c]) k' t')" for k' t'
    proof (cases "k' = k \<and> t' div 60 = t div 60")
      case True
      then have "rpmKey k' (minuteWindow t') = ?k" by (simp add: rpmKey_eq)
      moreover have "calls_in_minute calls k' t' = calls_in_minute calls k t" using True eq by blast
      ultimately show ?thesis using True by (simp add: rpm calls gomap_or_def gomap)
    next
      case False
      then have "rpmKey k' (minuteWindow t') \<noteq> ?k" and "\<not> (k = k' \<and> t div 60 = t' div 60)"
        by (auto simp: rpmKey_eq)
      then have "gomap_or 0 (mem_rpm (after_calls (calls @ [c]))) (rpmKey k' (minuteWindow t'))
          = gomap_or 0 (mem_rpm ?m) (rpmKey k' (minuteWindow t'))"
        and "calls_in_minute (calls @ [c]) k' t' = calls_in_minute calls k' t'"
        unfolding rpm calls by (simp_all add: gomap_or_def gomap)
      with IH show ?thesis by presburger
    qed
    have "gomap_wf (mem_rpm (after_calls (calls @ [c])))" using IH by (simp add: rpm)
    moreover have "dom (map_of (mem_rpm (after_calls (calls @ [c])))) = bucket_key ` minute_buckets (calls @ [c])"
      using IH unfolding rpm buckets image_insert bucket_key dom_gomap_set by presburger
    ultimately show ?thesis using count by blast
  qed
qed

text \<open>C21. Exact rate limiting: as long as a history touches at most ten thousand buckets (pairs of
  a virtual key and a minute), the in-memory limiter allows a further call exactly when the key is
  unlimited or has made fewer than its limit of calls in that minute, whatever the other keys did.\<close>

theorem Memory_Allow_exact:
  assumes "card (minute_buckets calls) \<le> 10000"
  shows "fst (Memory_Allow (after_calls calls) t k l)
    \<longleftrightarrow> l \<le> 0 \<or> int (calls_in_minute calls k t) < l"
proof -
  note inv = after_calls_counts [OF assms]
  have "length (mem_rpm (after_calls calls)) \<le> 10000"
    using inv assms card_image [OF inj_on_subset [OF inj_bucket_key subset_UNIV]]
    by (simp add: length_gomap)
  then show ?thesis
    using inv by (simp add: Memory_Allow_def Let_def drop_buckets_small) linarith
qed

theorem Memory_Allow_exact_witness:
  "fst (Memory_Allow (after_calls [(0, ''k'', 1)]) 59 ''k'' 1)
    \<longleftrightarrow> (1::int) \<le> 0 \<or> int (calls_in_minute [(0, ''k'', 1)] ''k'' 59) < 1"
proof (rule Memory_Allow_exact)
  show "card (minute_buckets [(0, ''k'', 1)]) \<le> 10000"
    by (simp add: minute_buckets_def limited_def)
qed

text \<open>Beyond ten thousand buckets the limiter forgets counts of the running minute: a call of
  any other key can drop the bucket of a key that has used up its limit, and that key is then allowed
  again.\<close>

theorem Memory_cleanup_resets_current_minute:
  assumes "mem_rpm m = (rpmKey victim (minuteWindow t), n) # rest"
    and "gomap_wf (mem_rpm m)" and "length rest = 10000"
    and "other \<noteq> victim" and "0 < l" and "0 < l'"
  shows "fst (Memory_Allow (snd (Memory_Allow m t other l)) t victim l')"
proof -
  let ?v = "rpmKey victim (minuteWindow t)" and ?o = "rpmKey other (minuteWindow t)"
  have neq: "?v \<noteq> ?o" using assms(4) by (auto simp: rpmKey_eq)
  have notin: "?v \<notin> set (map fst rest)" using assms(1,2) by (simp add: gomap_wf_def)
  then have "gomap_del ?v (mem_rpm m) = rest"
    using assms(1) by (simp add: AList.delete_id)
  then have gc: "drop_buckets ?o (map fst (mem_rpm m)) (mem_rpm m) = rest"
    using neq assms(1,3) by (simp add: drop_buckets_small)
  define r where "r = mem_rpm (snd (Memory_Allow m t other l))"
  have r: "r = gomap_set ?o (gomap_or 0 rest ?o + 1) rest"
    using assms(5) gc by (simp add: r_def Memory_Allow_def Let_def)
  have none: "gomap_get (drop_buckets ?v ks r) ?v = None" for ks
  proof -
    have "gomap_get r ?v = None" using notin neq by (simp add: r gomap map_of_eq_None_iff)
    then show ?thesis by (induction ks arbitrary: r) (simp_all add: gomap)
  qed
  then show ?thesis
    using assms(6) by (simp add: Memory_Allow_def [of "snd (Memory_Allow m t other l)"] Let_def gomap_or_def
        flip: r_def)
qed

definition witness_rpm :: "(string, int) gomap" where
  "witness_rpm = map (\<lambda>i. (replicate i CHR ''x'', 1)) [0..<10000]"

lemma witness_rpm_keys: "gomap_wf witness_rpm" "length witness_rpm = 10000"
  by (auto simp: witness_rpm_def gomap_wf_def distinct_map inj_on_def comp_def)

lemma rpmKey_not_replicate: "rpmKey k w \<noteq> replicate i CHR ''x''"
  by (cases i) (simp_all add: rpmKey_def)

theorem Memory_cleanup_resets_current_minute_witness:
  "fst (Memory_Allow (snd (Memory_Allow
      \<lparr>mem_rpm = (rpmKey ''a'' (minuteWindow 0), 5) # witness_rpm, mem_spend = []\<rparr> 0 ''b'' 1)) 0 ''a'' 5)"
  by (rule Memory_cleanup_resets_current_minute [where rest = witness_rpm and n = 5])
    (use witness_rpm_keys in
      \<open>auto simp: gomap_wf_def witness_rpm_def rpmKey_not_replicate [symmetric] rpmKey_not_replicate\<close>)

section \<open>The limiter interface\<close>

text \<open>What the gateway relies on of a \<open>Limiter\<close>: the interface of \<open>limiter.go\<close>, in which
  \<open>None\<close> is an error. Recording a cost changes the spend of one key in one month; checking a rate
  changes no spend; the spend is the same at any two times of a month.\<close>

locale rate_limiter =
  fixes allow :: "'s \<Rightarrow> nat \<Rightarrow> string \<Rightarrow> int \<Rightarrow> bool option \<times> 's"
    and monthlySpend :: "'s \<Rightarrow> nat \<Rightarrow> string \<Rightarrow> float64 option"
    and addSpend :: "'s \<Rightarrow> nat \<Rightarrow> string \<Rightarrow> float64 \<Rightarrow> 's"
  assumes spend_add: "monthlySpend s t' k' = Some v \<Longrightarrow>
      monthlySpend (addSpend s t k c) t' k'
        = Some (v + (if 0 < c \<and> k' = k \<and> same_month t t' then c else 0))"
    and spend_allow: "monthlySpend (snd (allow s t k l)) t' k' = monthlySpend s t' k'"
    and spend_month: "same_month t t' \<Longrightarrow> monthlySpend s t k = monthlySpend s t' k"

datatype limiter_op = AllowOp nat string int | AddOp nat string float64

fun recorded :: "nat \<Rightarrow> string \<Rightarrow> limiter_op \<Rightarrow> float64" where
  "recorded t' k' (AllowOp t k l) = 0"
| "recorded t' k' (AddOp t k c) = (if 0 < c \<and> k' = k \<and> same_month t t' then c else 0)"

fun limiter_do ::
  "('s \<Rightarrow> nat \<Rightarrow> string \<Rightarrow> int \<Rightarrow> bool option \<times> 's) \<Rightarrow> ('s \<Rightarrow> nat \<Rightarrow> string \<Rightarrow> float64 \<Rightarrow> 's) \<Rightarrow>
     limiter_op \<Rightarrow> 's \<Rightarrow> 's" where
  "limiter_do allow addSpend (AllowOp t k l) s = snd (allow s t k l)"
| "limiter_do allow addSpend (AddOp t k c) s = addSpend s t k c"

context rate_limiter
begin

lemma spend_do:
  assumes "monthlySpend s t k = Some v"
  shows "monthlySpend (limiter_do allow addSpend op s) t k = Some (v + recorded t k op)"
  using assms by (cases op) (simp_all add: spend_add spend_allow)

lemma spend_run:
  assumes "monthlySpend s t k = Some v"
  shows "monthlySpend (fold (limiter_do allow addSpend) ops s) t k
    = Some (v + sum_list (map (recorded t k) ops))"
  using assms
proof (induction ops arbitrary: s v)
  case (Cons op ops)
  then show ?case using Cons.IH [OF spend_do [OF Cons.prems, of op]] by (simp add: add.assoc)
qed simp

end

text \<open>The in-memory limiter as the interface sees it.\<close>

definition mem_allow :: "Memory \<Rightarrow> nat \<Rightarrow> string \<Rightarrow> int \<Rightarrow> bool option \<times> Memory" where
  "mem_allow m t k l = map_prod Some id (Memory_Allow m t k l)"

definition mem_monthlySpend :: "Memory \<Rightarrow> nat \<Rightarrow> string \<Rightarrow> float64 option" where
  "mem_monthlySpend m t k = Some (Memory_MonthlySpend m t k)"

lemma Memory_AddSpend_spend:
  "Memory_MonthlySpend (Memory_AddSpend m t k c) t' k' =
     Memory_MonthlySpend m t' k' + (if 0 < c \<and> k' = k \<and> same_month t t' then c else 0)"
proof (cases "k' = k \<and> same_month t t'")
  case True
  then have "spendKey k' (monthWindow t') = spendKey k (monthWindow t)"
    by (simp add: spendKey_eq same_month_def)
  with True show ?thesis
    by (simp add: Memory_MonthlySpend_def Memory_AddSpend_def Let_def gomap_or_def gomap)
next
  case False
  then have "spendKey k' (monthWindow t') \<noteq> spendKey k (monthWindow t)"
    by (auto simp: spendKey_eq same_month_def)
  with False show ?thesis
    by (simp add: Memory_MonthlySpend_def Memory_AddSpend_def Let_def gomap_or_def gomap)
qed

lemma Memory_Allow_spend: "mem_spend (snd (Memory_Allow m t k l)) = mem_spend m"
  by (simp add: Memory_Allow_def Let_def)

interpretation mem: rate_limiter mem_allow mem_monthlySpend Memory_AddSpend
  by unfold_locales
    (simp_all add: mem_allow_def mem_monthlySpend_def Memory_AddSpend_spend,
     simp_all add: Memory_MonthlySpend_def Memory_Allow_spend monthWindow_eq [THEN iffD2])

text \<open>The spend ledger is exact and isolated: after any sequence of rate checks and recorded
  costs, the spend of a virtual key in a month is the sum of the positive costs recorded for that key
  in that calendar month, and nothing recorded for other keys or months enters it.\<close>

theorem Memory_spend_ledger:
  "Memory_MonthlySpend (fold (limiter_do mem_allow Memory_AddSpend) ops NewMemory) t k
     = sum_list (map (recorded t k) ops)"
  using mem.spend_run [of NewMemory t k 0 ops]
  by (simp add: mem_monthlySpend_def Memory_MonthlySpend_def NewMemory_def gomap_or_def)

section \<open>The cap interface\<close>

text \<open>What the concurrency middleware relies on: a counter per key that a successful \<open>Acquire\<close>
  raises by one, within the bound, and a \<open>Release\<close> lowers by one, not below zero.\<close>

locale concurrency_cap =
  fixes invar :: "'c \<Rightarrow> bool" and bound :: "'c \<Rightarrow> int" and inflight :: "'c \<Rightarrow> string \<Rightarrow> int"
    and acquire :: "'c \<Rightarrow> string \<Rightarrow> bool \<times> 'c" and release :: "'c \<Rightarrow> string \<Rightarrow> 'c"
  assumes inflight_nonneg: "invar c \<Longrightarrow> 0 \<le> inflight c k"
    and acquire_invar: "invar c \<Longrightarrow> invar (snd (acquire c k)) \<and> bound (snd (acquire c k)) = bound c"
    and acquire_iff: "invar c \<Longrightarrow> fst (acquire c k) \<longleftrightarrow> inflight c k < bound c"
    and acquire_count: "invar c \<Longrightarrow> inflight (snd (acquire c k)) k'
        = inflight c k' + (if k' = k \<and> fst (acquire c k) then 1 else 0)"
    and release_invar: "invar c \<Longrightarrow> invar (release c k) \<and> bound (release c k) = bound c"
    and release_count: "invar c \<Longrightarrow> inflight (release c k) k'
        = inflight c k' - (if k' = k \<and> 0 < inflight c k then 1 else 0)"

definition cap_wf :: "ConcurrencyCap option \<Rightarrow> bool" where
  "cap_wf cap \<longleftrightarrow> (\<exists>c. cap = Some c \<and> 0 < cap_maxPerKey c
     \<and> (\<forall>k n. gomap_get (cap_perKey c) k = Some n \<longrightarrow> 0 < n))"

lemma NewConcurrencyCap_wf: "0 < maxPerKey \<Longrightarrow> cap_wf (Some (NewConcurrencyCap maxPerKey))"
  by (simp add: cap_wf_def NewConcurrencyCap_def)

lemma cap_wf_cases:
  assumes "cap_wf cap"
  obtains c where "cap = Some c" "0 < cap_maxPerKey c"
    "\<forall>k n. gomap_get (cap_perKey c) k = Some n \<longrightarrow> 0 < n" "\<forall>k. 0 \<le> gomap_or 0 (cap_perKey c) k"
proof -
  from assms obtain c where c: "cap = Some c" "0 < cap_maxPerKey c"
    "\<forall>k n. gomap_get (cap_perKey c) k = Some n \<longrightarrow> 0 < n"
    unfolding cap_wf_def by blast
  moreover have "\<forall>k. 0 \<le> gomap_or 0 (cap_perKey c) k"
    using c(3) by (auto simp: gomap_or_def split: option.split intro: less_imp_le)
  ultimately show ?thesis using that by blast
qed

lemma Acquire_wf:
  assumes "cap_wf cap"
  shows "cap_wf (snd (Acquire cap k)) \<and> Cap_Max (snd (Acquire cap k)) = Cap_Max cap"
proof -
  obtain c where c: "cap = Some c" "0 < cap_maxPerKey c"
    "\<forall>k n. gomap_get (cap_perKey c) k = Some n \<longrightarrow> 0 < n" "\<forall>k. 0 \<le> gomap_or 0 (cap_perKey c) k"
    using assms by (rule cap_wf_cases)
  have "gomap_or 0 (cap_perKey c) k + 1 > 0" using c(4) by (simp add: add_nonneg_pos)
  with c show ?thesis by (simp add: Acquire_def cap_wf_def Cap_Max_def gomap)
qed

lemma Acquire_count:
  assumes "cap_wf cap"
  shows "Inflight (snd (Acquire cap k)) k' = Inflight cap k' + (if k' = k \<and> fst (Acquire cap k) then 1 else 0)"
    and "fst (Acquire cap k) \<longleftrightarrow> Inflight cap k < Cap_Max cap"
proof -
  obtain c where c: "cap = Some c" "0 < cap_maxPerKey c" using assms by (rule cap_wf_cases)
  then show "Inflight (snd (Acquire cap k)) k' = Inflight cap k' + (if k' = k \<and> fst (Acquire cap k) then 1 else 0)"
    and "fst (Acquire cap k) \<longleftrightarrow> Inflight cap k < Cap_Max cap"
    by (simp_all add: Acquire_def Inflight_def Cap_Max_def gomap)
qed

lemma Release_wf:
  assumes "cap_wf cap"
  shows "cap_wf (Release cap k) \<and> Cap_Max (Release cap k) = Cap_Max cap"
proof -
  obtain c where c: "cap = Some c" "0 < cap_maxPerKey c"
    "\<forall>k n. gomap_get (cap_perKey c) k = Some n \<longrightarrow> 0 < n" "\<forall>k. 0 \<le> gomap_or 0 (cap_perKey c) k"
    using assms by (rule cap_wf_cases)
  show ?thesis
    using c(2,3) by (auto simp: c(1) Release_def cap_wf_def Cap_Max_def gomap Let_def)
qed

lemma Release_count:
  assumes "cap_wf cap"
  shows "Inflight (Release cap k) k' = Inflight cap k' - (if k' = k \<and> 0 < Inflight cap k then 1 else 0)"
proof -
  obtain c where c: "cap = Some c" "0 < cap_maxPerKey c"
    "\<forall>k n. gomap_get (cap_perKey c) k = Some n \<longrightarrow> 0 < n" "\<forall>k. 0 \<le> gomap_or 0 (cap_perKey c) k"
    using assms by (rule cap_wf_cases)
  show ?thesis
    using c(2) by (auto simp: c(1) Release_def Inflight_def gomap Let_def)
qed

lemma Inflight_nonneg: "cap_wf cap \<Longrightarrow> 0 \<le> Inflight cap k"
  by (elim cap_wf_cases) (simp add: Inflight_def)

interpretation cap: concurrency_cap cap_wf Cap_Max Inflight Acquire Release
  by unfold_locales (simp_all add: Inflight_nonneg Acquire_wf Acquire_count Release_wf Release_count)

section \<open>The token bucket\<close>

text \<open>\<open>avail l key now\<close>: the tokens of a key at a time, after the refill, as \<open>take_token\<close> sees them.\<close>

definition ip_rate :: "IPLimiter \<Rightarrow> float64" where
  "ip_rate l = real_of_int (ip_capacity l) / Seconds (ip_refill l)"

definition avail :: "IPLimiter \<Rightarrow> string \<Rightarrow> int \<Rightarrow> float64" where
  "avail l key now =
     (case gomap_get (ip_buckets l) key of
        None \<Rightarrow> real_of_int (ip_capacity l)
      | Some b \<Rightarrow> min (real_of_int (ip_capacity l)) (bk_tokens b + Seconds (now - bk_last b) * ip_rate l))"

lemma Seconds_0 [simp]: "Seconds 0 = 0"
  by (simp add: Seconds_def)

lemma Seconds_nonneg: "0 \<le> d \<Longrightarrow> 0 \<le> Seconds d"
  by (simp add: Seconds_def)

lemma Seconds_diff: "Seconds (a - c) = Seconds (a - b) + Seconds (b - c)"
  by (simp add: Seconds_def diff_divide_distrib)

lemma take_token_eq:
  "take_token now key l =
     (1 \<le> avail l key now,
      l\<lparr>ip_buckets := gomap_set key
          \<lparr>bk_tokens = avail l key now - (if 1 \<le> avail l key now then 1 else 0), bk_last = now\<rparr> (ip_buckets l)\<rparr>)"
proof -
  have clamp: "(if x > c then c else x) = min c x" for x c :: real by simp
  show ?thesis
    unfolding take_token_def Let_def clamp
    by (cases "gomap_get (ip_buckets l) key") (simp_all add: avail_def ip_rate_def not_le not_less)
qed

definition ip_wf :: "int \<Rightarrow> IPLimiter \<Rightarrow> bool" where
  "ip_wf now l \<longleftrightarrow> 0 < ip_capacity l \<and> 0 < ip_refill l
     \<and> (\<forall>k b. gomap_get (ip_buckets l) k = Some b \<longrightarrow> 0 \<le> bk_tokens b \<and> bk_last b \<le> now)"

lemma ip_rate_nonneg: "ip_wf now l \<Longrightarrow> 0 \<le> ip_rate l"
  by (simp add: ip_wf_def ip_rate_def Seconds_def)

lemma ip_wf_mono: "ip_wf now l \<Longrightarrow> now \<le> t \<Longrightarrow> ip_wf t l"
  unfolding ip_wf_def by (meson order_trans)

lemma avail_nonneg:
  assumes "ip_wf t l"
  shows "0 \<le> avail l k t"
proof (cases "gomap_get (ip_buckets l) k")
  case None
  with assms show ?thesis by (simp add: avail_def ip_wf_def)
next
  case (Some b)
  with assms have "0 \<le> bk_tokens b" "0 \<le> Seconds (t - bk_last b)" "0 < ip_capacity l"
    by (auto simp: ip_wf_def intro!: Seconds_nonneg)
  with Some ip_rate_nonneg [OF assms] show ?thesis by (simp add: avail_def)
qed

lemma take_token_wf:
  assumes "ip_wf t l"
  shows "ip_wf t (snd (take_token t k l))"
proof -
  have "0 \<le> avail l k t - (if 1 \<le> avail l k t then 1 else 0)"
    using avail_nonneg [OF assms, of k] by simp
  then show ?thesis
    using assms by (auto simp: ip_wf_def take_token_eq gomap)
qed

lemma take_token_params [simp]:
  "ip_capacity (snd (take_token t k l)) = ip_capacity l"
  "ip_refill (snd (take_token t k l)) = ip_refill l"
  "ip_gcInterval (snd (take_token t k l)) = ip_gcInterval l"
  "ip_lastGC (snd (take_token t k l)) = ip_lastGC l"
  "ip_rate (snd (take_token t k l)) = ip_rate l"
  by (simp_all add: take_token_eq ip_rate_def)

subsection \<open>The sweep is invisible\<close>

text \<open>The reference limiter never sweeps.\<close>

definition Allow_no_sweep :: "IPLimiter \<Rightarrow> int \<Rightarrow> string \<Rightarrow> bool \<times> IPLimiter" where
  "Allow_no_sweep l now key = (if ip_capacity l \<le> 0 then (True, l) else take_token now key l)"

fun ip_run :: "(IPLimiter \<Rightarrow> int \<Rightarrow> string \<Rightarrow> bool \<times> IPLimiter) \<Rightarrow> IPLimiter \<Rightarrow> (int \<times> string) list \<Rightarrow> bool list" where
  "ip_run allow l [] = []"
| "ip_run allow l ((t, k) # calls) = fst (allow l t k) # ip_run allow (snd (allow l t k)) calls"

text \<open>The two states agree on every key, except that the sweeping one may lack a bucket that has
  had the time to fill up completely.\<close>

definition swept :: "int \<Rightarrow> IPLimiter \<Rightarrow> IPLimiter \<Rightarrow> bool" where
  "swept now l l' \<longleftrightarrow>
     ip_capacity l = ip_capacity l' \<and> ip_refill l = ip_refill l'
     \<and> (\<forall>k. gomap_get (ip_buckets l) k = gomap_get (ip_buckets l') k
          \<or> gomap_get (ip_buckets l) k = None
            \<and> (\<exists>b. gomap_get (ip_buckets l') k = Some b \<and> bk_last b + ip_refill l' \<le> now))"

lemma stale_bucket_full:
  assumes "ip_wf now l" and "gomap_get (ip_buckets l) k = Some b" and "bk_last b + ip_refill l \<le> t"
  shows "avail l k t = real_of_int (ip_capacity l)"
proof -
  have pos: "0 < ip_refill l" "0 < ip_capacity l" "0 \<le> bk_tokens b"
    using assms(1,2) by (auto simp: ip_wf_def)
  have "Seconds (ip_refill l) \<le> Seconds (t - bk_last b)"
    using assms(3) by (simp add: Seconds_def divide_right_mono)
  then have "Seconds (ip_refill l) * ip_rate l \<le> Seconds (t - bk_last b) * ip_rate l"
    using ip_rate_nonneg [OF assms(1)] by (rule mult_right_mono)
  moreover have "Seconds (ip_refill l) * ip_rate l = real_of_int (ip_capacity l)"
    using pos(1) by (simp add: ip_rate_def Seconds_def)
  ultimately show ?thesis using assms(2) pos(3) by (simp add: avail_def)
qed

lemma swept_mono: "swept now l l' \<Longrightarrow> now \<le> t \<Longrightarrow> swept t l l'"
  unfolding swept_def by (meson order_trans)

lemma swept_avail:
  assumes "swept t l l'" and "ip_wf t l'"
  shows "avail l k t = avail l' k t"
proof (cases "gomap_get (ip_buckets l) k = gomap_get (ip_buckets l') k")
  case True
  moreover have "ip_capacity l = ip_capacity l'" "ip_rate l = ip_rate l'"
    using assms(1) by (simp_all add: swept_def ip_rate_def)
  ultimately show ?thesis by (simp add: avail_def split: option.split)
next
  case False
  with assms(1) obtain b where "gomap_get (ip_buckets l) k = None"
    and b: "gomap_get (ip_buckets l') k = Some b" "bk_last b + ip_refill l' \<le> t"
    unfolding swept_def by blast
  then have "avail l k t = real_of_int (ip_capacity l')"
    using assms(1) by (simp add: avail_def swept_def)
  then show ?thesis using stale_bucket_full [OF assms(2) b] by simp
qed

lemma swept_take:
  assumes "swept t l l'" and "ip_wf t l'"
  shows "fst (take_token t k l) = fst (take_token t k l')"
    and "swept t (snd (take_token t k l)) (snd (take_token t k l'))"
proof -
  note avail = swept_avail [OF assms, of k]
  show "fst (take_token t k l) = fst (take_token t k l')" by (simp add: take_token_eq avail)
  show "swept t (snd (take_token t k l)) (snd (take_token t k l'))"
    using assms(1) unfolding swept_def take_token_eq avail by (simp add: gomap)
qed

lemma gcLocked_get:
  assumes "gomap_wf (ip_buckets l)"
  shows "gomap_get (ip_buckets (gcLocked t l)) k =
    (case gomap_get (ip_buckets l) k of
       None \<Rightarrow> None | Some b \<Rightarrow> if bk_last b < t - ip_refill l then None else Some b)"
proof -
  have "gomap_get (filter (\<lambda>(k, b). \<not> bk_last b < c) bs) k =
      (case gomap_get bs k of None \<Rightarrow> None | Some b \<Rightarrow> if bk_last b < c then None else Some b)"
    if "gomap_wf bs" for bs c
    using that by (induction bs) (auto simp: gomap_wf_def map_of_eq_None_iff split: option.splits)
  with assms show ?thesis by (simp add: gcLocked_def Let_def)
qed

lemma gcLocked_swept:
  assumes "swept t l l'" and "gomap_wf (ip_buckets l)"
  shows "swept t ((gcLocked t l)\<lparr>ip_lastGC := g\<rparr>) l'"
  unfolding swept_def
proof (intro conjI allI)
  fix k
  have same: "gomap_get (ip_buckets l) k = gomap_get (ip_buckets l') k
          \<or> gomap_get (ip_buckets l) k = None
            \<and> (\<exists>b. gomap_get (ip_buckets l') k = Some b \<and> bk_last b + ip_refill l' \<le> t)"
    and refill: "ip_refill l = ip_refill l'"
    using assms(1) by (simp_all add: swept_def)
  have "gomap_get (ip_buckets (gcLocked t l)) k = gomap_get (ip_buckets l') k
      \<or> gomap_get (ip_buckets (gcLocked t l)) k = None
        \<and> (\<exists>b. gomap_get (ip_buckets l') k = Some b \<and> bk_last b + ip_refill l' \<le> t)"
  proof (cases "gomap_get (ip_buckets l) k")
    case None
    with same show ?thesis by (simp add: gcLocked_get [OF assms(2)])
  next
    case (Some b)
    with same have "gomap_get (ip_buckets l') k = Some b" by auto
    with Some refill show ?thesis by (simp add: gcLocked_get [OF assms(2)])
  qed
  then show "gomap_get (ip_buckets ((gcLocked t l)\<lparr>ip_lastGC := g\<rparr>)) k = gomap_get (ip_buckets l') k
      \<or> gomap_get (ip_buckets ((gcLocked t l)\<lparr>ip_lastGC := g\<rparr>)) k = None
        \<and> (\<exists>b. gomap_get (ip_buckets l') k = Some b \<and> bk_last b + ip_refill l' \<le> t)"
    by simp
qed (use assms(1) in \<open>simp_all add: swept_def gcLocked_def Let_def\<close>)

lemma gcLocked_wf: "gomap_wf (ip_buckets l) \<Longrightarrow> gomap_wf (ip_buckets (gcLocked t l))"
  by (simp add: gcLocked_def Let_def gomap_wf_def distinct_map_filter)

lemma ip_run_swept:
  assumes "swept now l l'" and "ip_wf now l'" and "gomap_wf (ip_buckets l)"
    and "sorted (now # map fst calls)"
  shows "ip_run IPLimiter_Allow l calls = ip_run Allow_no_sweep l' calls"
  using assms
proof (induction calls arbitrary: now l l')
  case (Cons c calls)
  obtain t k where c: "c = (t, k)" by fastforce
  with Cons.prems(4) have t: "now \<le> t" "sorted (t # map fst calls)" by simp_all
  have sw: "swept t l l'" and wf: "ip_wf t l'"
    using swept_mono [OF Cons.prems(1) t(1)] ip_wf_mono [OF Cons.prems(2) t(1)] by simp_all
  define l0 where "l0 = (if t - ip_lastGC l \<ge> ip_gcInterval l then (gcLocked t l)\<lparr>ip_lastGC := t\<rparr> else l)"
  have sw0: "swept t l0 l'" using sw gcLocked_swept [OF sw Cons.prems(3)] by (simp add: l0_def)
  have wf0: "gomap_wf (ip_buckets l0)" using Cons.prems(3) gcLocked_wf by (simp add: l0_def)
  have cap: "\<not> ip_capacity l \<le> 0" "\<not> ip_capacity l' \<le> 0"
    using sw wf by (auto simp: swept_def ip_wf_def)
  have step: "IPLimiter_Allow l t k = take_token t k l0" "Allow_no_sweep l' t k = take_token t k l'"
    using cap by (simp_all add: IPLimiter_Allow_def Allow_no_sweep_def l0_def)
  have "gomap_wf (ip_buckets (snd (take_token t k l0)))"
    using wf0 by (simp add: take_token_eq)
  then have "ip_run IPLimiter_Allow (snd (take_token t k l0)) calls
      = ip_run Allow_no_sweep (snd (take_token t k l')) calls"
    using Cons.IH [OF swept_take(2) [OF sw0 wf] take_token_wf [OF wf] _ t(2)] by simp
  then show ?case using swept_take(1) [OF sw0 wf] by (simp add: c step)
qed simp

text \<open>Sweeping stale buckets never changes a decision: on any sequence of calls with a clock
  that does not run backwards, the token bucket answers exactly as one that keeps every bucket for
  ever, because a bucket old enough to be dropped is one that has refilled completely.\<close>

theorem IPLimiter_sweep_invisible:
  assumes "0 < capacity" and "0 < refill" and "sorted (map fst calls)"
  shows "ip_run IPLimiter_Allow (NewIPLimiter capacity refill) calls
    = ip_run Allow_no_sweep (NewIPLimiter capacity refill) calls"
proof (cases calls)
  case (Cons c cs)
  have sorted: "sorted (fst c # map fst calls)" using assms(3) by (simp add: Cons)
  have wf: "ip_wf (fst c) (NewIPLimiter capacity refill)"
    using assms(1,2) by (simp add: ip_wf_def NewIPLimiter_def)
  have "swept (fst c) (NewIPLimiter capacity refill) (NewIPLimiter capacity refill)"
    by (simp add: swept_def)
  from ip_run_swept [OF this wf _ sorted] show ?thesis by (simp add: NewIPLimiter_def)
qed simp

theorem IPLimiter_sweep_invisible_witness:
  "ip_run IPLimiter_Allow (NewIPLimiter 2 1000) [(0, ''a''), (5000, ''b''), (5001, ''a'')]
    = ip_run Allow_no_sweep (NewIPLimiter 2 1000) [(0, ''a''), (5000, ''b''), (5001, ''a'')]"
  by (rule IPLimiter_sweep_invisible) simp_all

subsection \<open>The rate bound\<close>

lemma avail_later:
  assumes "ip_wf t l" and "t \<le> t'"
  shows "avail l k t' \<le> avail l k t + Seconds (t' - t) * ip_rate l"
proof -
  have pos: "0 \<le> Seconds (t' - t) * ip_rate l"
    using ip_rate_nonneg [OF assms(1)] Seconds_nonneg assms(2) by simp
  show ?thesis
  proof (cases "gomap_get (ip_buckets l) k")
    case None
    with pos show ?thesis by (simp add: avail_def)
  next
    case (Some b)
    have "Seconds (t' - bk_last b) * ip_rate l
        = Seconds (t' - t) * ip_rate l + Seconds (t - bk_last b) * ip_rate l"
      using Seconds_diff [of t' "bk_last b" t] by (simp add: distrib_right)
    with Some pos show ?thesis by (simp add: avail_def)
  qed
qed

lemma avail_take:
  assumes "ip_wf t l"
  shows "avail (snd (take_token t k l)) k' t
    = avail l k' t - (if k' = k \<and> fst (take_token t k l) then 1 else 0)"
proof (cases "k' = k")
  case True
  have "avail l k t \<le> real_of_int (ip_capacity l)"
    by (simp add: avail_def split: option.split)
  then have "avail (l\<lparr>ip_buckets := gomap_set k \<lparr>bk_tokens = avail l k t - d, bk_last = t\<rparr> (ip_buckets l)\<rparr>) k t
      = avail l k t - d" if "0 \<le> d" for d
    using that unfolding avail_def [of "l\<lparr>ip_buckets := b\<rparr>" for b] by (simp add: gomap)
  from this [of "if 1 \<le> avail l k t then 1 else 0"] True show ?thesis by (simp add: take_token_eq)
next
  case False
  then show ?thesis by (simp add: avail_def take_token_eq gomap ip_rate_def split: option.split)
qed

definition allowed_for :: "string \<Rightarrow> (int \<times> string) list \<Rightarrow> bool list \<Rightarrow> nat" where
  "allowed_for k calls verdicts = length (filter (\<lambda>((t, k'), ok). k' = k \<and> ok) (zip calls verdicts))"

lemma allowed_for_Cons:
  "allowed_for k ((t, k') # calls) (ok # oks) = (if k' = k \<and> ok then 1 else 0) + allowed_for k calls oks"
  by (simp add: allowed_for_def)

lemma no_sweep_bound:
  assumes "ip_wf now l" and "sorted (now # map fst calls)" and "list_all (\<lambda>(t, k). t \<le> t1) calls" and "now \<le> t1"
  shows "real (allowed_for k calls (ip_run Allow_no_sweep l calls))
    \<le> avail l k now + Seconds (t1 - now) * ip_rate l"
  using assms
proof (induction calls arbitrary: now l)
  case Nil
  then show ?case
    using avail_nonneg [OF Nil.prems(1), of k] ip_rate_nonneg [OF Nil.prems(1)] Seconds_nonneg [of "t1 - now"]
    by (simp add: allowed_for_def)
next
  case (Cons c calls)
  obtain t k' where c: "c = (t, k')" by fastforce
  with Cons.prems have t: "now \<le> t" "sorted (t # map fst calls)" "t \<le> t1" "list_all (\<lambda>(t, k). t \<le> t1) calls"
    by simp_all
  have wf: "ip_wf t l" using Cons.prems(1) t(1) by (rule ip_wf_mono)
  define hit where "hit = (if k' = k \<and> fst (take_token t k' l) then 1 else 0 :: real)"
  have step: "Allow_no_sweep l t k' = take_token t k' l"
    using wf by (simp add: Allow_no_sweep_def ip_wf_def)
  have "real (allowed_for k calls (ip_run Allow_no_sweep (snd (take_token t k' l)) calls))
      \<le> avail l k t - hit + Seconds (t1 - t) * ip_rate l"
    using Cons.IH [OF take_token_wf [OF wf, of k'] t(2,4,3)] avail_take [OF wf, of k' k]
    by (simp only: hit_def eq_commute [of k k'] take_token_params)
  moreover have "avail l k t \<le> avail l k now + Seconds (t - now) * ip_rate l"
    by (rule avail_later [OF Cons.prems(1) t(1)])
  moreover have "Seconds (t1 - now) * ip_rate l = Seconds (t1 - t) * ip_rate l + Seconds (t - now) * ip_rate l"
    using Seconds_diff [of t1 now t] by (simp add: distrib_right)
  moreover have "real (allowed_for k (c # calls) (ip_run Allow_no_sweep l (c # calls)))
      = hit + real (allowed_for k calls (ip_run Allow_no_sweep (snd (take_token t k' l)) calls))"
    by (auto simp: c step allowed_for_Cons hit_def)
  ultimately show ?case by linarith
qed

text \<open>The state after some calls, and the bound on the tokens that the clamp of the refill gives.\<close>

fun ip_after :: "(IPLimiter \<Rightarrow> int \<Rightarrow> string \<Rightarrow> bool \<times> IPLimiter) \<Rightarrow> IPLimiter \<Rightarrow> (int \<times> string) list \<Rightarrow> IPLimiter" where
  "ip_after allow l [] = l"
| "ip_after allow l ((t, k) # calls) = ip_after allow (snd (allow l t k)) calls"

lemma ip_run_append: "ip_run allow l (xs @ ys) = ip_run allow l xs @ ip_run allow (ip_after allow l xs) ys"
  by (induction xs arbitrary: l) auto

lemma length_ip_run [simp]: "length (ip_run allow l calls) = length calls"
  by (induction calls arbitrary: l) auto

lemma avail_capacity: "avail l k t \<le> real_of_int (ip_capacity l)"
  by (simp add: avail_def split: option.split)

lemma no_sweep_after:
  assumes "ip_wf now l" and "sorted (now # map fst calls)" and "list_all (\<lambda>(t, k). t \<le> t0) calls" and "now \<le> t0"
  shows "ip_wf t0 (ip_after Allow_no_sweep l calls) \<and> ip_capacity (ip_after Allow_no_sweep l calls) = ip_capacity l
    \<and> ip_rate (ip_after Allow_no_sweep l calls) = ip_rate l"
  using assms
proof (induction calls arbitrary: now l)
  case Nil
  then show ?case using ip_wf_mono by simp
next
  case (Cons c calls)
  obtain t k where c: "c = (t, k)" by fastforce
  with Cons.prems have t: "now \<le> t" "sorted (t # map fst calls)" "t \<le> t0" "list_all (\<lambda>(t, k). t \<le> t0) calls" by simp_all
  have wf: "ip_wf t l" using Cons.prems(1) t(1) by (rule ip_wf_mono)
  then have "Allow_no_sweep l t k = take_token t k l" by (simp add: Allow_no_sweep_def ip_wf_def)
  then show ?case using Cons.IH [OF take_token_wf [OF wf, of k] t(2,4,3)] by (simp add: c)
qed

text \<open>C20. The token bucket bounds the rate in every window: whatever calls came \<open>before\<close>, of the calls from
  \<open>t0\<close> to \<open>t1\<close> one key is granted at most the capacity plus the share of the capacity that refills
  between \<open>t0\<close> and \<open>t1\<close>. A key that was idle before \<open>t0\<close> has saved up no more than one bucket.\<close>

theorem IPLimiter_rate_bound:
  assumes "0 < capacity" and "0 < refill" and "sorted (map fst before @ t0 # map fst calls)"
    and "list_all (\<lambda>(t, k). t \<le> t1) calls" and "t0 \<le> t1"
  shows "real (allowed_for k calls (drop (length before) (ip_run IPLimiter_Allow (NewIPLimiter capacity refill) (before @ calls))))
    \<le> real_of_int capacity + real_of_int (t1 - t0) / real_of_int refill * real_of_int capacity"
proof -
  let ?l = "NewIPLimiter capacity refill" and ?first = "case before of [] \<Rightarrow> t0 | c # _ \<Rightarrow> fst c"
  let ?l' = "ip_after Allow_no_sweep ?l before"
  have sorted: "sorted (?first # map fst before)" "sorted (?first # map fst (before @ calls))" "?first \<le> t0" "list_all (\<lambda>(t, k). t \<le> t0) before"
    using assms(3) by (cases before; force simp: sorted_append list_all_iff)+
  have wf: "ip_wf ?first ?l" using assms(1,2) by (simp add: ip_wf_def NewIPLimiter_def)
  have "swept ?first ?l ?l" by (simp add: swept_def)
  then have "drop (length before) (ip_run IPLimiter_Allow ?l (before @ calls)) = ip_run Allow_no_sweep ?l' calls"
    using ip_run_swept [OF _ wf _ sorted(2)] by (simp add: NewIPLimiter_def ip_run_append)
  moreover have after: "ip_wf t0 ?l'" "ip_capacity ?l' = ip_capacity ?l" "ip_rate ?l' = ip_rate ?l"
    using no_sweep_after [OF wf sorted(1,4,3)] by simp_all
  moreover have "real (allowed_for k calls (ip_run Allow_no_sweep ?l' calls)) \<le> avail ?l' k t0 + Seconds (t1 - t0) * ip_rate ?l'"
    using no_sweep_bound [OF after(1) _ assms(4,5)] assms(3) by (simp add: sorted_append)
  moreover have "ip_rate ?l * Seconds (t1 - t0) = real_of_int (t1 - t0) / real_of_int refill * real_of_int capacity"
    using assms(2) by (simp add: ip_rate_def NewIPLimiter_def Seconds_def)
  ultimately show ?thesis
    using avail_capacity [of ?l' k t0] by (simp add: NewIPLimiter_def mult.commute)
qed

theorem IPLimiter_rate_bound_witness:
  "real (allowed_for ''a'' [(100000, ''a''), (100001, ''a'')]
      (drop 2 (ip_run IPLimiter_Allow (NewIPLimiter 2 1000) ([(1, ''a''), (2, ''b'')] @ [(100000, ''a''), (100001, ''a'')]))))
    \<le> real_of_int 2 + real_of_int (100010 - 100000) / real_of_int 1000 * real_of_int 2"
  using IPLimiter_rate_bound [of 2 1000 "[(1, ''a''), (2, ''b'')]" 100000 "[(100000, ''a''), (100001, ''a'')]" 100010 "''a''"] by simp

end
