(* ===== verification/Wire.thy ===== *)
theory Wire
  imports Nexus_Prelude
begin

text \<open>
  The canonical request and response schema of \<open>internal/gateway/types.go\<close>. A \<open>json.RawMessage\<close>
  is the string of its bytes; a pointer is an option.
\<close>

section \<open>Messages and requests\<close>

record FunctionCall =
  fc_Name :: string
  fc_Arguments :: string

record CustomCall =
  cc_Name :: string
  cc_Input :: string

record ToolCall =
  tc_Index :: "int option"
  tc_ID :: string
  tc_Type :: string
  tc_Function :: FunctionCall
  tc_Custom :: CustomCall

record Message =
  msg_Role :: string
  msg_Content :: string
  msg_Name :: string
  msg_ToolCalls :: "ToolCall list"
  msg_ToolCallID :: string

definition plain_message :: "string \<Rightarrow> string \<Rightarrow> Message" where
  "plain_message role content =
     \<lparr>msg_Role = role, msg_Content = content, msg_Name = [], msg_ToolCalls = [], msg_ToolCallID = []\<rparr>"

record Tool =
  tool_Type :: string
  tool_Function :: string
  tool_Custom :: string

record JSONSchemaSpec =
  js_Name :: string
  js_Schema :: string
  js_Strict :: bool

record ResponseFormat =
  rf_Type :: string
  rf_JSONSchema :: "JSONSchemaSpec option"

record NexusEvalContext =
  ne_Contexts :: "string list"
  ne_Reference :: string

record ChatCompletionRequest =
  req_Model :: string
  req_Messages :: "Message list"
  req_Temperature :: "float64 option"
  req_TopP :: "float64 option"
  req_MaxTokens :: "int option"
  req_Stream :: bool
  req_Stop :: "string list"
  req_Tools :: "Tool list"
  req_User :: string
  req_ReasoningEffort :: string
  req_StreamOptions :: string
  req_ToolChoice :: string
  req_ParallelToolCalls :: "bool option"
  req_ResponseFormat :: "ResponseFormat option"
  req_NexusEval :: "NexusEvalContext option"
  req_Extra :: "(string, string) gomap"

definition ForProvider :: "ChatCompletionRequest \<Rightarrow> ChatCompletionRequest" where
  "ForProvider r = r\<lparr>req_NexusEval := None\<rparr>"

definition WantsJSON :: "ResponseFormat option \<Rightarrow> bool" where
  "WantsJSON r =
     (case r of None \<Rightarrow> False | Some r \<Rightarrow> rf_Type r = ''json_object'' \<or> rf_Type r = ''json_schema'')"

text \<open>The empty string stands for the nil slice.\<close>

definition SchemaBytes :: "ResponseFormat option \<Rightarrow> string" where
  "SchemaBytes r =
     (case r of None \<Rightarrow> []
      | Some r \<Rightarrow> (case rf_JSONSchema r of None \<Rightarrow> [] | Some s \<Rightarrow> js_Schema s))"

text \<open>\<open>MarshalJSON\<close> splices the extra keys into the object of the canonical fields; a canonical key
  wins. The object is given as the map of its keys to raw values.\<close>

fun splice_extra :: "(string, string) gomap \<Rightarrow> (string, string) gomap \<Rightarrow> (string, string) gomap" where
  "splice_extra [] m = m"
| "splice_extra ((k, v) # extra) m =
     splice_extra extra (case gomap_get m k of Some _ \<Rightarrow> m | None \<Rightarrow> gomap_set k v m)"

section \<open>Usage and responses\<close>

record PromptTokenDetails =
  pd_CachedTokens :: int
  pd_TextTokens :: int
  pd_AudioTokens :: int
  pd_ImageTokens :: int

record CompletionTokenDetails =
  cd_ReasoningTokens :: int
  cd_TextTokens :: int
  cd_AudioTokens :: int
  cd_AcceptedPredictionTokens :: int
  cd_RejectedPredictionTokens :: int

definition Prompt_HasDetail :: "PromptTokenDetails option \<Rightarrow> bool" where
  "Prompt_HasDetail d =
     (case d of None \<Rightarrow> False
      | Some d \<Rightarrow> pd_CachedTokens d \<noteq> 0 \<or> pd_TextTokens d \<noteq> 0 \<or> pd_AudioTokens d \<noteq> 0 \<or> pd_ImageTokens d \<noteq> 0)"

definition Completion_HasDetail :: "CompletionTokenDetails option \<Rightarrow> bool" where
  "Completion_HasDetail d =
     (case d of None \<Rightarrow> False
      | Some d \<Rightarrow> cd_ReasoningTokens d \<noteq> 0 \<or> cd_TextTokens d \<noteq> 0 \<or> cd_AudioTokens d \<noteq> 0
          \<or> cd_AcceptedPredictionTokens d \<noteq> 0 \<or> cd_RejectedPredictionTokens d \<noteq> 0)"

record Usage =
  us_PromptTokens :: int
  us_CompletionTokens :: int
  us_TotalTokens :: int
  us_EstimatedCost :: float64
  us_CostUSD :: float64
  us_PromptTokenDetails :: "PromptTokenDetails option"
  us_CompletionTokenDetails :: "CompletionTokenDetails option"

definition zero_Usage :: Usage where
  "zero_Usage = \<lparr>us_PromptTokens = 0, us_CompletionTokens = 0, us_TotalTokens = 0, us_EstimatedCost = 0,
     us_CostUSD = 0, us_PromptTokenDetails = None, us_CompletionTokenDetails = None\<rparr>"

record Choice =
  ch_Index :: int
  ch_Message :: Message
  ch_FinishReason :: string

record ChatCompletionResponse =
  resp_ID :: string
  resp_Object :: string
  resp_Created :: int
  resp_Model :: string
  resp_Choices :: "Choice list"
  resp_Usage :: Usage

record Delta =
  dl_Role :: string
  dl_Content :: string
  dl_ToolCalls :: "ToolCall list"

record ChunkChoice =
  ck_Index :: int
  ck_Delta :: Delta
  ck_FinishReason :: string

record ChatCompletionChunk =
  chunk_ID :: string
  chunk_Object :: string
  chunk_Created :: int
  chunk_Model :: string
  chunk_Choices :: "ChunkChoice list"
  chunk_Usage :: "Usage option"

section \<open>Facts\<close>

lemma splice_extra_get:
  "gomap_get (splice_extra extra m) k =
     (case gomap_get m k of Some v \<Rightarrow> Some v | None \<Rightarrow> gomap_get extra k)"
proof (induction extra m rule: splice_extra.induct)
  case (2 k' v extra m)
  then show ?case by (cases "gomap_get m k'") (auto simp: gomap split: option.splits)
qed (simp split: option.split)

end
