(* ===== verification/Pricing.thy ===== *)
theory Pricing
  imports Wire
begin

text \<open>
  Cost attribution (\<open>internal/gateway/pricing.go\<close>) and the comparison of the price table with a
  published catalog (\<open>internal/gateway/pricing_check.go\<close>). Prices are US dollars per million tokens,
  kept exact; \<open>1e6\<close> is one million.
\<close>

section \<open>The tables\<close>

record price =
  inPerM :: float64
  outPerM :: float64

definition per_m :: "float64 \<Rightarrow> float64 \<Rightarrow> price" where
  "per_m i out = \<lparr>inPerM = i, outPerM = out\<rparr>"

record detailedPrice =
  dp_price :: price
  dp_cachedInPerM :: float64
  dp_reasoningOutPerM :: float64

definition detailed_per_m :: "float64 \<Rightarrow> float64 \<Rightarrow> float64 \<Rightarrow> float64 \<Rightarrow> detailedPrice" where
  "detailed_per_m i out cached reasoning =
     \<lparr>dp_price = per_m i out, dp_cachedInPerM = cached, dp_reasoningOutPerM = reasoning\<rparr>"

definition pricingTable :: "(string, price) gomap" where
  "pricingTable =
     [(''gpt-4o'', per_m (5 / 2) (10)),
      (''gpt-4o-mini'', per_m (3 / 20) (3 / 5)),
      (''gpt-4.1'', per_m (2) (8)),
      (''gpt-4.1-mini'', per_m (2 / 5) (8 / 5)),
      (''gpt-4.1-nano'', per_m (1 / 10) (2 / 5)),
      (''o3'', per_m (2) (8)),
      (''o4-mini'', per_m (11 / 10) (22 / 5)),
      (''claude-opus-4-1'', per_m (15) (75)),
      (''claude-sonnet-4-5'', per_m (3) (15)),
      (''claude-haiku-4-5'', per_m (1) (5)),
      (''claude-3-7-sonnet-latest'', per_m (3) (15)),
      (''claude-3-5-haiku-latest'', per_m (4 / 5) (4)),
      (''gemini-2.5-pro'', per_m (5 / 4) (10)),
      (''gemini-2.5-flash'', per_m (3 / 10) (5 / 2)),
      (''gemini-2.0-flash'', per_m (1 / 10) (2 / 5)),
      (''groq/llama-3.3-70b-versatile'', per_m (59 / 100) (79 / 100)),
      (''groq/llama-3.3-70b-specdec'', per_m (59 / 100) (79 / 100)),
      (''groq/llama-3.1-8b-instant'', per_m (1 / 20) (2 / 25)),
      (''groq/llama-3.1-70b-versatile'', per_m (59 / 100) (79 / 100)),
      (''groq/llama3-8b-8192'', per_m (1 / 20) (2 / 25)),
      (''groq/llama3-70b-8192'', per_m (59 / 100) (79 / 100)),
      (''groq/mixtral-8x7b-32768'', per_m (27 / 100) (27 / 100)),
      (''groq/gemma2-9b-it'', per_m (1 / 5) (1 / 5)),
      (''groq/llama-guard-3-8b'', per_m (1 / 5) (1 / 5)),
      (''mistral/mistral-large-latest'', per_m (2) (6)),
      (''mistral/mistral-medium-latest'', per_m (2 / 5) (2)),
      (''mistral/mistral-small-latest'', per_m (1 / 5) (3 / 5)),
      (''mistral/mistral-small-2409'', per_m (1 / 5) (3 / 5)),
      (''mistral/codestral-latest'', per_m (3 / 10) (9 / 10)),
      (''mistral/codestral-2405'', per_m (3 / 10) (9 / 10)),
      (''mistral/open-mistral-7b'', per_m (1 / 4) (1 / 4)),
      (''mistral/open-mixtral-8x7b'', per_m (27 / 100) (27 / 100)),
      (''mistral/ministral-8b-latest'', per_m (1 / 10) (1 / 10)),
      (''mistral/ministral-3b-latest'', per_m (1 / 25) (1 / 25)),
      (''mistral/pixtral-12b-2409'', per_m (3 / 20) (3 / 20)),
      (''grid/text-standard'', per_m (1 / 5) (1 / 2)),
      (''grid/text-prime'', per_m (1 / 2) (3 / 2)),
      (''grid/text-max'', per_m (3 / 2) (9 / 2)),
      (''grid/code-standard'', per_m (3 / 10) (9 / 10)),
      (''grid/code-prime'', per_m (7 / 10) (21 / 10)),
      (''grid/code-max'', per_m (21 / 10) (63 / 10)),
      (''grid/agent-standard'', per_m (2 / 5) (6 / 5)),
      (''grid/agent-prime'', per_m (1) (3)),
      (''grid/agent-max'', per_m (3) (9))]"

definition detailedPricingTable :: "(string, detailedPrice) gomap" where
  "detailedPricingTable =
     [(''claude-opus-4-1'', detailed_per_m (15) (75) (3 / 2) (0)),
      (''claude-sonnet-4-5'', detailed_per_m (3) (15) (3 / 10) (0)),
      (''claude-haiku-4-5'', detailed_per_m (1) (5) (1 / 10) (0)),
      (''claude-3-7-sonnet-latest'', detailed_per_m (3) (15) (3 / 10) (0)),
      (''claude-3-5-haiku-latest'', detailed_per_m (4 / 5) (4) (2 / 25) (0)),
      (''o3'', detailed_per_m (2) (8) (0) (8)),
      (''o4-mini'', detailed_per_m (11 / 10) (22 / 5) (0) (22 / 5))]"

definition familyAliases :: "(string \<times> string) list" where
  "familyAliases =
     [(''gpt-4o-mini'', ''gpt-4o-mini''),
      (''gpt-4o'', ''gpt-4o''),
      (''gpt-4.1-mini'', ''gpt-4.1-mini''),
      (''gpt-4.1-nano'', ''gpt-4.1-nano''),
      (''gpt-4.1'', ''gpt-4.1''),
      (''o4-mini'', ''o4-mini''),
      (''o3'', ''o3''),
      (''claude-3-7-sonnet'', ''claude-3-7-sonnet-latest''),
      (''claude-3-5-haiku'', ''claude-3-5-haiku-latest''),
      (''claude-opus'', ''claude-opus-4-1''),
      (''claude-sonnet'', ''claude-sonnet-4-5''),
      (''claude-haiku'', ''claude-haiku-4-5''),
      (''gemini-2.5-pro'', ''gemini-2.5-pro''),
      (''gemini-2.5-flash'', ''gemini-2.5-flash''),
      (''gemini-2.0-flash'', ''gemini-2.0-flash''),
      (''text-standard'', ''grid/text-standard''),
      (''text-prime'', ''grid/text-prime''),
      (''text-max'', ''grid/text-max''),
      (''code-standard'', ''grid/code-standard''),
      (''code-prime'', ''grid/code-prime''),
      (''code-max'', ''grid/code-max''),
      (''agent-standard'', ''grid/agent-standard''),
      (''agent-prime'', ''grid/agent-prime''),
      (''agent-max'', ''grid/agent-max'')]"

section \<open>Resolving a model id to a price\<close>

text \<open>The two branches of \<open>matchAlias\<close>, for an id equal to the alias and for an id that extends it,
  both return the family's price when the table has one and go on with the next alias otherwise.\<close>

fun match_alias :: "(string, 'p) gomap \<Rightarrow> (string \<times> string) list \<Rightarrow> string \<Rightarrow> 'p option" where
  "match_alias table [] model = None"
| "match_alias table ((pre, family) # aliases) model =
     (if pre = model \<or> prefix pre model then
        (case gomap_get table family of Some p \<Rightarrow> Some p | None \<Rightarrow> match_alias table aliases model)
      else match_alias table aliases model)"

definition matchAlias :: "string \<Rightarrow> price option" where
  "matchAlias = match_alias pricingTable familyAliases"

definition matchAliasDetail :: "string \<Rightarrow> detailedPrice option" where
  "matchAliasDetail = match_alias detailedPricingTable familyAliases"

text \<open>The chain that \<open>matchPrice\<close> and \<open>matchDetailed\<close> share: the exact id, the id without its
  provider prefix, the aliases of the stripped id, the aliases of the id.\<close>

definition match_chain :: "(string, 'p) gomap \<Rightarrow> (string \<Rightarrow> 'p option) \<Rightarrow> string \<Rightarrow> 'p option" where
  "match_chain table alias model =
     (if model = [] then None
      else case gomap_get table model of
        Some p \<Rightarrow> Some p
      | None \<Rightarrow>
          (let raw = alias model in
           case strings_Cut (CHR ''/'') model of
             Some (_, rest) \<Rightarrow>
               (case gomap_get table rest of
                  Some p \<Rightarrow> Some p
                | None \<Rightarrow> (case alias rest of Some p \<Rightarrow> Some p | None \<Rightarrow> raw))
           | None \<Rightarrow> raw))"

definition matchPrice :: "string \<Rightarrow> price option" where
  "matchPrice = match_chain pricingTable matchAlias"

definition matchDetailed :: "string \<Rightarrow> detailedPrice option" where
  "matchDetailed = match_chain detailedPricingTable matchAliasDetail"

definition applyBasic :: "price \<Rightarrow> int \<Rightarrow> int \<Rightarrow> float64" where
  "applyBasic p inTokens outTokens =
     (real_of_int inTokens / 1000000) * inPerM p + (real_of_int outTokens / 1000000) * outPerM p"

text \<open>The cached share of the prompt and the reasoning share of the completion, clamped to the
  headline counts.\<close>

definition cachedIn :: "Usage option \<Rightarrow> int \<Rightarrow> int" where
  "cachedIn usage inTokens =
     (case usage of None \<Rightarrow> 0
      | Some u \<Rightarrow> (case us_PromptTokenDetails u of None \<Rightarrow> 0
          | Some d \<Rightarrow> if pd_CachedTokens d > 0
              then (if pd_CachedTokens d > inTokens then inTokens else pd_CachedTokens d) else 0))"

definition reasoningOut :: "Usage option \<Rightarrow> int \<Rightarrow> int" where
  "reasoningOut usage outTokens =
     (case usage of None \<Rightarrow> 0
      | Some u \<Rightarrow> (case us_CompletionTokenDetails u of None \<Rightarrow> 0
          | Some d \<Rightarrow> if cd_ReasoningTokens d > 0
              then (if cd_ReasoningTokens d > outTokens then outTokens else cd_ReasoningTokens d) else 0))"

definition applyDetailed :: "detailedPrice \<Rightarrow> int \<Rightarrow> int \<Rightarrow> Usage option \<Rightarrow> float64" where
  "applyDetailed dp inTokens outTokens usage =
     (let cachedInRate = (if dp_cachedInPerM dp = 0 then inPerM (dp_price dp) else dp_cachedInPerM dp);
          reasoningOutRate =
            (if dp_reasoningOutPerM dp = 0 then outPerM (dp_price dp) else dp_reasoningOutPerM dp);
          cached = cachedIn usage inTokens;
          reasoning = reasoningOut usage outTokens;
          regularOut = outTokens - reasoning;
          uncached = inTokens - cached;
          uncached = (if uncached < 0 then 0 else uncached);
          regularOut = (if regularOut < 0 then outTokens else regularOut) in
      (real_of_int uncached / 1000000) * inPerM (dp_price dp)
      + (real_of_int cached / 1000000) * cachedInRate
      + (real_of_int regularOut / 1000000) * outPerM (dp_price dp)
      + (real_of_int reasoning / 1000000) * reasoningOutRate)"

text \<open>\<open>costForModel\<close>: the request model first, then a different non-empty response model.\<close>

definition request_then_response :: "(string \<Rightarrow> 'p option) \<Rightarrow> string \<Rightarrow> string \<Rightarrow> 'p option" where
  "request_then_response look requestModel responseModel =
     (case look requestModel of
        Some p \<Rightarrow> Some p
      | None \<Rightarrow> if responseModel \<noteq> [] \<and> responseModel \<noteq> requestModel then look responseModel else None)"

definition costForModel :: "string \<Rightarrow> string \<Rightarrow> int \<Rightarrow> int \<Rightarrow> bool \<Rightarrow> Usage option \<Rightarrow> float64" where
  "costForModel requestModel responseModel inTokens outTokens useDetail usage =
     (let basic = (case request_then_response matchPrice requestModel responseModel of
                     Some p \<Rightarrow> applyBasic p inTokens outTokens | None \<Rightarrow> 0) in
      if useDetail then
        (case request_then_response matchDetailed requestModel responseModel of
           Some dp \<Rightarrow> applyDetailed dp inTokens outTokens usage
         | None \<Rightarrow> basic)
      else basic)"

definition lookupDetailedFamily :: "string \<Rightarrow> string \<Rightarrow> string" where
  "lookupDetailedFamily requestModel responseModel =
     (if matchDetailed requestModel \<noteq> None then requestModel
      else if responseModel \<noteq> [] \<and> responseModel \<noteq> requestModel \<and> matchDetailed responseModel \<noteq> None
      then responseModel else [])"

definition CostUSD :: "string \<Rightarrow> string \<Rightarrow> int \<Rightarrow> int \<Rightarrow> float64" where
  "CostUSD requestModel responseModel inTokens outTokens =
     costForModel requestModel responseModel inTokens outTokens False None"

definition usage_has_detail :: "Usage \<Rightarrow> bool" where
  "usage_has_detail u \<longleftrightarrow>
     Prompt_HasDetail (us_PromptTokenDetails u) \<or> Completion_HasDetail (us_CompletionTokenDetails u)"

definition ResolveCostUSD :: "float64 \<Rightarrow> string \<Rightarrow> string \<Rightarrow> Usage option \<Rightarrow> float64" where
  "ResolveCostUSD upstreamReported requestModel responseModel usage =
     (if upstreamReported > 0 then upstreamReported
      else case usage of
        None \<Rightarrow> CostUSD requestModel responseModel 0 0
      | Some u \<Rightarrow>
          if usage_has_detail u \<and> lookupDetailedFamily requestModel responseModel \<noteq> []
          then costForModel requestModel responseModel (us_PromptTokens u) (us_CompletionTokens u) True (Some u)
          else CostUSD requestModel responseModel (us_PromptTokens u) (us_CompletionTokens u))"

definition CostUSAGECost :: "string \<Rightarrow> string \<Rightarrow> Usage option \<Rightarrow> float64" where
  "CostUSAGECost requestModel responseModel usage =
     (case usage of
        None \<Rightarrow> CostUSD requestModel responseModel 0 0
      | Some u \<Rightarrow>
          if usage_has_detail u \<and> lookupDetailedFamily requestModel responseModel \<noteq> []
          then costForModel requestModel responseModel (us_PromptTokens u) (us_CompletionTokens u) True (Some u)
          else costForModel requestModel responseModel (us_PromptTokens u) (us_CompletionTokens u) False None)"

section \<open>Comparing the table with a published catalog\<close>

definition catalogKeys :: "(string, string list) gomap" where
  "catalogKeys =
     [(''gpt-4o'', [''gpt-4o'', ''openai/gpt-4o'']),
      (''gpt-4o-mini'', [''gpt-4o-mini'', ''openai/gpt-4o-mini'']),
      (''gpt-4.1'', [''gpt-4.1'', ''openai/gpt-4.1'']),
      (''gpt-4.1-mini'', [''gpt-4.1-mini'', ''openai/gpt-4.1-mini'']),
      (''gpt-4.1-nano'', [''gpt-4.1-nano'', ''openai/gpt-4.1-nano'']),
      (''o3'', [''o3'', ''openai/o3'']),
      (''o4-mini'', [''o4-mini'', ''openai/o4-mini'']),
      (''claude-opus-4-1'', [''claude-opus-4-1'', ''anthropic/claude-opus-4-1'']),
      (''claude-sonnet-4-5'', [''claude-sonnet-4-5'', ''anthropic/claude-sonnet-4-5'']),
      (''claude-haiku-4-5'', [''claude-haiku-4-5'', ''anthropic/claude-haiku-4-5'']),
      (''claude-3-7-sonnet-latest'', [''claude-3-7-sonnet-latest'', ''anthropic/claude-3-7-sonnet-latest'']),
      (''claude-3-5-haiku-latest'', [''claude-3-5-haiku-latest'', ''anthropic/claude-3-5-haiku-latest'']),
      (''gemini-2.5-pro'', [''gemini-2.5-pro'', ''gemini/gemini-2.5-pro'']),
      (''gemini-2.5-flash'', [''gemini-2.5-flash'', ''gemini/gemini-2.5-flash'']),
      (''gemini-2.0-flash'', [''gemini-2.0-flash'', ''gemini/gemini-2.0-flash'']),
      (''groq/llama-3.3-70b-versatile'', [''groq/llama-3.3-70b-versatile'', ''llama-3.3-70b-versatile'']),
      (''groq/llama-3.3-70b-specdec'', [''groq/llama-3.3-70b-specdec'', ''llama-3.3-70b-specdec'']),
      (''groq/llama-3.1-8b-instant'', [''groq/llama-3.1-8b-instant'', ''llama-3.1-8b-instant'']),
      (''groq/llama-3.1-70b-versatile'', [''groq/llama-3.1-70b-versatile'', ''llama-3.1-70b-versatile'']),
      (''groq/llama3-8b-8192'', [''groq/llama3-8b-8192'', ''llama3-8b-8192'']),
      (''groq/llama3-70b-8192'', [''groq/llama3-70b-8192'', ''llama3-70b-8192'']),
      (''groq/mixtral-8x7b-32768'', [''groq/mixtral-8x7b-32768'', ''mixtral-8x7b-32768'']),
      (''groq/gemma2-9b-it'', [''groq/gemma2-9b-it'', ''gemma2-9b-it'']),
      (''groq/llama-guard-3-8b'', [''groq/llama-guard-3-8b'', ''llama-guard-3-8b'']),
      (''mistral/mistral-large-latest'', [''mistral/mistral-large-latest'', ''mistral-large-latest'']),
      (''mistral/mistral-medium-latest'', [''mistral/mistral-medium-latest'', ''mistral-medium-latest'']),
      (''mistral/mistral-small-latest'', [''mistral/mistral-small-latest'', ''mistral-small-latest'']),
      (''mistral/mistral-small-2409'', [''mistral/mistral-small-2409'', ''mistral-small-2409'']),
      (''mistral/codestral-latest'', [''mistral/codestral-latest'', ''codestral-latest'']),
      (''mistral/codestral-2405'', [''mistral/codestral-2405'', ''codestral-2405'']),
      (''mistral/open-mistral-7b'', [''mistral/open-mistral-7b'', ''open-mistral-7b'']),
      (''mistral/open-mixtral-8x7b'', [''mistral/open-mixtral-8x7b'', ''open-mixtral-8x7b'']),
      (''mistral/ministral-8b-latest'', [''mistral/ministral-8b-latest'', ''ministral-8b-latest'']),
      (''mistral/ministral-3b-latest'', [''mistral/ministral-3b-latest'', ''ministral-3b-latest'']),
      (''mistral/pixtral-12b-2409'', [''mistral/pixtral-12b-2409'', ''pixtral-12b-2409''])]"

record PricingDrift =
  pdr_Model :: string
  pdr_OursIn :: float64
  pdr_OursOut :: float64
  pdr_CatalogIn :: float64
  pdr_CatalogOut :: float64

record catalogPrice =
  cp_InputCostPerToken :: float64
  cp_OutputCostPerToken :: float64

definition pricingDriftAbsFloor :: float64 where "pricingDriftAbsFloor = 1 / 100"
definition pricingDriftRelTol :: float64 where "pricingDriftRelTol = 1 / 100"

text \<open>The catalog is the map of the decoded entries; an entry that does not decode is absent.\<close>

definition usable_price :: "catalogPrice \<Rightarrow> bool" where
  "usable_price p \<longleftrightarrow> \<not> (cp_InputCostPerToken p \<le> 0 \<or> cp_OutputCostPerToken p \<le> 0)"

fun first_usable :: "(string, catalogPrice) gomap \<Rightarrow> string list \<Rightarrow> catalogPrice option" where
  "first_usable raw [] = None"
| "first_usable raw (alias # aliases) =
     (case gomap_get raw alias of
        None \<Rightarrow> first_usable raw aliases
      | Some p \<Rightarrow> if usable_price p then Some p else first_usable raw aliases)"

definition pickCatalogPrices :: "(string, catalogPrice) gomap \<Rightarrow> (string, catalogPrice) gomap" where
  "pickCatalogPrices raw =
     List.map_filter (\<lambda>(model, aliases). map_option (\<lambda>p. (model, p)) (first_usable raw aliases)) catalogKeys"

definition priceDrifted :: "float64 \<Rightarrow> float64 \<Rightarrow> bool" where
  "priceDrifted ours catalog =
     (let delta = \<bar>ours - catalog\<bar> in
      if delta \<le> pricingDriftAbsFloor then False
      else let denom = max \<bar>ours\<bar> \<bar>catalog\<bar> in
        if denom = 0 then delta > 0 else delta / denom > pricingDriftRelTol)"

definition drift_row :: "(string, catalogPrice) gomap \<Rightarrow> string \<times> price \<Rightarrow> PricingDrift option" where
  "drift_row catalog mp =
     (case mp of (model, ours) \<Rightarrow>
        if prefix ''grid/'' model then None
        else case gomap_get catalog model of
          None \<Rightarrow> None
        | Some p \<Rightarrow>
            let catIn = cp_InputCostPerToken p * 1000000; catOut = cp_OutputCostPerToken p * 1000000 in
            if \<not> priceDrifted (inPerM ours) catIn \<and> \<not> priceDrifted (outPerM ours) catOut then None
            else Some \<lparr>pdr_Model = model, pdr_OursIn = inPerM ours, pdr_OursOut = outPerM ours,
                       pdr_CatalogIn = catIn, pdr_CatalogOut = catOut\<rparr>)"

definition driftAgainstTable :: "(string, catalogPrice) gomap \<Rightarrow> PricingDrift list" where
  "driftAgainstTable catalog = List.map_filter (drift_row catalog) pricingTable"

record PricingCheckSnapshot =
  ps_Enabled :: bool
  ps_CheckedAt :: int
  ps_Source :: string
  ps_Drifts :: "PricingDrift list"
  ps_LastError :: string
  ps_BillingUnchanged :: bool
  ps_ErrorsTotal :: nat

text \<open>What the HTTP client delivers: an error text, or a status and a body, which the JSON decoder
  turns into a catalog or an error text.\<close>

datatype catalog_answer =
    CatalogErr string
  | CatalogBody nat nat "string + (string, catalogPrice) gomap"

definition fetchAndCompare :: "string \<Rightarrow> nat \<Rightarrow> catalog_answer \<Rightarrow> string + PricingDrift list" where
  "fetchAndCompare url maxBytes answer =
     (case answer of
        CatalogErr e \<Rightarrow> Inl e
      | CatalogBody status len decoded \<Rightarrow>
          if status < 200 \<or> status \<ge> 300
          then Inl (''catalog GET '' @ url @ '': status '' @ strconv_Itoa status)
          else if len > maxBytes then Inl (''catalog body exceeds '' @ strconv_Itoa maxBytes @ '' bytes'')
          else case decoded of
            Inl e \<Rightarrow> Inl (''catalog json: '' @ e)
          | Inr raw \<Rightarrow> Inr (driftAgainstTable (pickCatalogPrices raw)))"

definition RunOnce ::
  "string \<Rightarrow> int \<Rightarrow> string + PricingDrift list \<Rightarrow> PricingCheckSnapshot \<Rightarrow> PricingCheckSnapshot" where
  "RunOnce url now result snap =
     (let snap = snap\<lparr>ps_Enabled := True, ps_Source := url, ps_BillingUnchanged := True, ps_CheckedAt := now\<rparr> in
      case result of
        Inl e \<Rightarrow> snap\<lparr>ps_LastError := e, ps_ErrorsTotal := ps_ErrorsTotal snap + 1\<rparr>
      | Inr drifts \<Rightarrow> snap\<lparr>ps_LastError := [], ps_Drifts := drifts\<rparr>)"

section \<open>Aliases are longest-prefix matches\<close>

fun specific_first :: "(string \<times> string) list \<Rightarrow> bool" where
  "specific_first [] = True"
| "specific_first ((pre, _) # aliases) \<longleftrightarrow>
     list_all (\<lambda>(pre', _). \<not> prefix pre pre') aliases \<and> specific_first aliases"

definition families_priced :: "(string, 'p) gomap \<Rightarrow> (string \<times> string) list \<Rightarrow> bool" where
  "families_priced table aliases \<longleftrightarrow> list_all (\<lambda>(_, family). gomap_get table family \<noteq> None) aliases"

definition longest_alias :: "(string \<times> string) list \<Rightarrow> string \<Rightarrow> string \<Rightarrow> string \<Rightarrow> bool" where
  "longest_alias aliases model pre family \<longleftrightarrow>
     (pre, family) \<in> set aliases \<and> prefix pre model
     \<and> list_all (\<lambda>(pre', _). prefix pre' model \<longrightarrow> length pre' \<le> length pre) aliases"

lemma match_alias_None:
  "families_priced table aliases \<Longrightarrow>
   match_alias table aliases model = None \<longleftrightarrow> list_all (\<lambda>(pre, _). \<not> prefix pre model) aliases"
  by (induction table aliases model rule: match_alias.induct) (auto simp: families_priced_def)

lemma match_alias_longest:
  assumes "specific_first aliases" and "families_priced table aliases"
    and "match_alias table aliases model = Some p"
  shows "\<exists>pre family. longest_alias aliases model pre family \<and> gomap_get table family = Some p"
  using assms
proof (induction aliases)
  case (Cons a aliases)
  obtain pre family where a: "a = (pre, family)" by fastforce
  obtain q where q: "gomap_get table family = Some q"
    using Cons.prems(2) by (auto simp: families_priced_def a)
  show ?case
  proof (cases "prefix pre model")
    case True
    have "length pre' \<le> length pre" if "(pre', f) \<in> set aliases" "prefix pre' model" for pre' f
    proof -
      have "\<not> prefix pre pre'" using Cons.prems(1) that(1) by (auto simp: a list_all_iff)
      then have "prefix pre' pre" using prefix_same_cases [OF True that(2)] by blast
      then show ?thesis by (rule prefix_length_le)
    qed
    then have "longest_alias (a # aliases) model pre family"
      using True by (auto simp: longest_alias_def a list_all_iff)
    with True q Cons.prems(3) show ?thesis by (auto simp: a)
  next
    case False
    then have "match_alias table aliases model = Some p"
      using Cons.prems(3) by (auto simp: a split: if_splits)
    then obtain pre' family' where "longest_alias aliases model pre' family'" "gomap_get table family' = Some p"
      using Cons.IH Cons.prems(1,2) by (auto simp: a families_priced_def)
    moreover from this False have "longest_alias (a # aliases) model pre' family'"
      by (simp add: longest_alias_def a)
    ultimately show ?thesis by blast
  qed
qed simp

lemma familyAliases_specific: "specific_first familyAliases"
  by (simp add: familyAliases_def)

lemma familyAliases_priced: "families_priced pricingTable familyAliases"
  by (simp add: families_priced_def familyAliases_def pricingTable_def)

section \<open>Component rates\<close>

text \<open>Every row of the detail table has the base price of the basic table, a cached rate that is not
  above the input rate and a reasoning rate that is not above the output rate.\<close>

definition sane_detail :: "detailedPrice \<Rightarrow> bool" where
  "sane_detail dp \<longleftrightarrow>
     0 \<le> inPerM (dp_price dp) \<and> 0 \<le> outPerM (dp_price dp)
     \<and> 0 \<le> dp_cachedInPerM dp \<and> dp_cachedInPerM dp \<le> inPerM (dp_price dp)
     \<and> 0 \<le> dp_reasoningOutPerM dp \<and> dp_reasoningOutPerM dp \<le> outPerM (dp_price dp)"

lemma detail_rows_sane: "list_all (\<lambda>(m, dp). sane_detail dp) detailedPricingTable"
  by (simp add: detailedPricingTable_def sane_detail_def detailed_per_m_def per_m_def)

lemma price_rows_nonneg: "list_all (\<lambda>(m, p). 0 \<le> inPerM p \<and> 0 \<le> outPerM p) pricingTable"
  by (simp add: pricingTable_def per_m_def)

lemma match_alias_in: "match_alias table aliases model = Some p \<Longrightarrow> \<exists>f. gomap_get table f = Some p"
  by (induction table aliases model rule: match_alias.induct)
    (auto split: if_splits option.splits)

lemma match_chain_in:
  "match_chain table (match_alias table aliases) model = Some p \<Longrightarrow> \<exists>f. gomap_get table f = Some p"
  by (auto simp: match_chain_def Let_def split: if_splits option.splits prod.splits dest: match_alias_in)

lemma matchDetailed_sane: "matchDetailed model = Some dp \<Longrightarrow> sane_detail dp"
  using match_chain_in [of detailedPricingTable familyAliases model dp] detail_rows_sane
  by (auto simp: matchDetailed_def matchAliasDetail_def list_all_iff dest: map_of_SomeD)

lemma matchPrice_nonneg: "matchPrice model = Some p \<Longrightarrow> 0 \<le> inPerM p \<and> 0 \<le> outPerM p"
  using match_chain_in [of pricingTable familyAliases model p] price_rows_nonneg
  by (auto simp: matchPrice_def matchAlias_def list_all_iff dest!: map_of_SomeD)

lemma cachedIn_bounds: "0 \<le> i \<Longrightarrow> 0 \<le> cachedIn u i \<and> cachedIn u i \<le> i"
  by (simp add: cachedIn_def split: option.split)

lemma reasoningOut_bounds: "0 \<le> n \<Longrightarrow> 0 \<le> reasoningOut u n \<and> reasoningOut u n \<le> n"
  by (simp add: reasoningOut_def split: option.split)

text \<open>The cost of a call priced by component, against the cost at the base rates.\<close>

lemma applyDetailed_saving:
  assumes "0 \<le> i" and "0 \<le> n"
  shows "applyDetailed dp i n u = applyBasic (dp_price dp) i n
    - (if dp_cachedInPerM dp = 0 then 0
       else real_of_int (cachedIn u i) / 1000000 * (inPerM (dp_price dp) - dp_cachedInPerM dp))
    - (if dp_reasoningOutPerM dp = 0 then 0
       else real_of_int (reasoningOut u n) / 1000000 * (outPerM (dp_price dp) - dp_reasoningOutPerM dp))"
proof -
  have "\<not> i - cachedIn u i < 0" "\<not> n - reasoningOut u n < 0"
    using cachedIn_bounds [OF assms(1), of u] reasoningOut_bounds [OF assms(2), of u] by simp_all
  then show ?thesis by (simp add: applyDetailed_def applyBasic_def Let_def field_simps)
qed

lemma applyDetailed_range:
  assumes "sane_detail dp" and "0 \<le> i" and "0 \<le> n"
  shows "0 \<le> applyDetailed dp i n u \<and> applyDetailed dp i n u \<le> applyBasic (dp_price dp) i n"
proof
  note b = cachedIn_bounds [OF assms(2), of u] reasoningOut_bounds [OF assms(3), of u]
  show "0 \<le> applyDetailed dp i n u"
    using assms b unfolding applyDetailed_def Let_def sane_detail_def by (intro add_nonneg_nonneg) simp_all
  have "0 \<le> real_of_int (cachedIn u i) / 1000000 * (inPerM (dp_price dp) - dp_cachedInPerM dp)"
    and "0 \<le> real_of_int (reasoningOut u n) / 1000000 * (outPerM (dp_price dp) - dp_reasoningOutPerM dp)"
    using assms(1) b by (simp_all add: sane_detail_def)
  then show "applyDetailed dp i n u \<le> applyBasic (dp_price dp) i n"
    unfolding applyDetailed_saving [OF assms(2,3)] by simp
qed

lemma lookupDetailedFamily_iff:
  "lookupDetailedFamily req resp \<noteq> [] \<longleftrightarrow> request_then_response matchDetailed req resp \<noteq> None"
proof -
  have "matchDetailed [] = None" by (simp add: matchDetailed_def match_chain_def)
  then show ?thesis
    by (auto simp: lookupDetailedFamily_def request_then_response_def split: option.splits)
qed

lemma request_then_response_in:
  "request_then_response look req resp = Some p \<Longrightarrow> look req = Some p \<or> look resp = Some p"
  by (auto simp: request_then_response_def split: option.splits if_splits)

lemma CostUSD_nonneg: "0 \<le> i \<Longrightarrow> 0 \<le> n \<Longrightarrow> 0 \<le> CostUSD req resp i n"
  by (auto simp: CostUSD_def costForModel_def Let_def applyBasic_def split: option.split
      dest!: request_then_response_in matchPrice_nonneg)

section \<open>Properties\<close>

text \<open>C25. How the cost of a call with non-negative token counts is found, in exact arithmetic. A positive
  cost reported by the upstream is taken verbatim, whatever its size. Otherwise, when the usage is broken
  down and a component price is known for the requested model (or else the answering one), the cost is
  the cost at the base rates of that price less the discounts of the cached prompt tokens and of the
  reasoning tokens, and lies between zero and that base cost. In every other case it is the cost at the
  headline price of the requested model, or else of the answering one, and zero when neither is priced;
  this is not negative either.\<close>

theorem ResolveCostUSD_bounds:
  assumes "0 \<le> us_PromptTokens u" and "0 \<le> us_CompletionTokens u"
  shows "if 0 < reported then ResolveCostUSD reported req resp (Some u) = reported
    else case (if usage_has_detail u then request_then_response matchDetailed req resp else None) of
      Some dp \<Rightarrow>
        ResolveCostUSD reported req resp (Some u) = applyBasic (dp_price dp) (us_PromptTokens u) (us_CompletionTokens u)
          - (if dp_cachedInPerM dp = 0 then 0
             else real_of_int (cachedIn (Some u) (us_PromptTokens u)) / 1000000 * (inPerM (dp_price dp) - dp_cachedInPerM dp))
          - (if dp_reasoningOutPerM dp = 0 then 0
             else real_of_int (reasoningOut (Some u) (us_CompletionTokens u)) / 1000000 * (outPerM (dp_price dp) - dp_reasoningOutPerM dp))
        \<and> 0 \<le> ResolveCostUSD reported req resp (Some u)
        \<and> ResolveCostUSD reported req resp (Some u) \<le> applyBasic (dp_price dp) (us_PromptTokens u) (us_CompletionTokens u)
    | None \<Rightarrow>
        ResolveCostUSD reported req resp (Some u) =
          (case request_then_response matchPrice req resp of Some p \<Rightarrow> applyBasic p (us_PromptTokens u) (us_CompletionTokens u) | None \<Rightarrow> 0)
        \<and> 0 \<le> ResolveCostUSD reported req resp (Some u)"
proof (cases "0 < reported \<or> \<not> usage_has_detail u \<or> request_then_response matchDetailed req resp = None")
  case True
  then show ?thesis
    using CostUSD_nonneg [OF assms(1,2), of req resp]
    by (auto simp: ResolveCostUSD_def lookupDetailedFamily_iff CostUSD_def costForModel_def Let_def)
next
  case False
  then obtain dp where dp: "request_then_response matchDetailed req resp = Some dp" by auto
  then have "sane_detail dp" using request_then_response_in matchDetailed_sane by metis
  note range = applyDetailed_range [OF this assms(1,2), of "Some u"]
  have "ResolveCostUSD reported req resp (Some u) = applyDetailed dp (us_PromptTokens u) (us_CompletionTokens u) (Some u)"
    using False dp by (simp add: ResolveCostUSD_def lookupDetailedFamily_iff costForModel_def Let_def)
  with False dp range applyDetailed_saving [OF assms(1,2), of dp "Some u"] show ?thesis
    by simp
qed

theorem ResolveCostUSD_bounds_witness:
  "ResolveCostUSD 0 ''claude-sonnet-4-5'' []
      (Some (zero_Usage\<lparr>us_PromptTokens := 10, us_CompletionTokens := 3, us_PromptTokenDetails :=
        Some \<lparr>pd_CachedTokens = 4, pd_TextTokens = 0, pd_AudioTokens = 0, pd_ImageTokens = 0\<rparr>\<rparr>))
    = applyBasic (per_m 3 15) 10 3 - 4 / 1000000 * (3 - 3 / 10)
    \<and> 0 < applyBasic (per_m 3 15) 10 3 - 4 / 1000000 * (3 - 3 / 10)"
proof -
  have "request_then_response matchDetailed ''claude-sonnet-4-5'' [] = Some (detailed_per_m 3 15 (3 / 10) 0)"
    by (simp add: request_then_response_def matchDetailed_def match_chain_def detailedPricingTable_def)
  then show ?thesis
    using ResolveCostUSD_bounds [of "zero_Usage\<lparr>us_PromptTokens := 10, us_CompletionTokens := 3, us_PromptTokenDetails :=
        Some \<lparr>pd_CachedTokens = 4, pd_TextTokens = 0, pd_AudioTokens = 0, pd_ImageTokens = 0\<rparr>\<rparr>" 0 "''claude-sonnet-4-5''" "[]"]
    by (simp add: zero_Usage_def usage_has_detail_def Prompt_HasDetail_def cachedIn_def detailed_per_m_def per_m_def applyBasic_def)
qed

text \<open>Pricing by component is not bounded below by the base rates: with a published cache
  discount, every cached prompt token makes the call cheaper than the base rate would.\<close>

theorem applyDetailed_below_basic:
  assumes "0 \<le> i" and "0 \<le> n" and "0 < cachedIn u i"
    and "0 < dp_cachedInPerM dp" and "dp_cachedInPerM dp < inPerM (dp_price dp)"
    and "dp_reasoningOutPerM dp = 0"
  shows "applyDetailed dp i n u < applyBasic (dp_price dp) i n"
  using assms by (simp add: applyDetailed_saving)

theorem applyDetailed_below_basic_witness:
  "applyDetailed (the (matchDetailed ''claude-sonnet-4-5'')) 10 0
      (Some (zero_Usage\<lparr>us_PromptTokenDetails :=
        Some \<lparr>pd_CachedTokens = 4, pd_TextTokens = 0, pd_AudioTokens = 0, pd_ImageTokens = 0\<rparr>\<rparr>))
    < applyBasic (dp_price (the (matchDetailed ''claude-sonnet-4-5''))) 10 0"
  by (rule applyDetailed_below_basic)
    (simp_all add: cachedIn_def matchDetailed_def match_chain_def detailedPricingTable_def
      detailed_per_m_def per_m_def)

text \<open>Alias resolution is a longest-prefix match: a model id gets the price of the family of the
  longest alias it starts with, so a cheaper variant is never billed at the rate of the family whose
  name it extends, and it gets no price only if it starts with no alias.\<close>

theorem matchAlias_longest_prefix:
  "(matchAlias model = None \<longleftrightarrow> list_all (\<lambda>(pre, _). \<not> prefix pre model) familyAliases)
    \<and> (\<forall>p. matchAlias model = Some p \<longrightarrow>
        (\<exists>pre family. longest_alias familyAliases model pre family
           \<and> gomap_get pricingTable family = Some p))"
  unfolding matchAlias_def
  using match_alias_None [OF familyAliases_priced]
    match_alias_longest [OF familyAliases_specific familyAliases_priced]
  by blast

theorem matchAlias_longest_prefix_witness:
  "\<exists>pre family. longest_alias familyAliases ''gpt-4.1-nano-2025'' pre family
     \<and> gomap_get pricingTable family = Some (per_m (1 / 10) (2 / 5))"
proof -
  have "matchAlias ''gpt-4.1-nano-2025'' = Some (per_m (1 / 10) (2 / 5))"
    by (simp add: matchAlias_def familyAliases_def pricingTable_def)
  then show ?thesis using matchAlias_longest_prefix by blast
qed

section \<open>The catalog check\<close>

definition deviates :: "float64 \<Rightarrow> float64 \<Rightarrow> bool" where
  "deviates a b \<longleftrightarrow> 1 / 100 < \<bar>a - b\<bar> \<and> max \<bar>a\<bar> \<bar>b\<bar> < 100 * \<bar>a - b\<bar>"

lemma priceDrifted_iff: "priceDrifted a b \<longleftrightarrow> deviates a b"
proof (cases "max \<bar>a\<bar> \<bar>b\<bar> = 0")
  case True
  then have "a = 0" "b = 0" by linarith+
  then show ?thesis by (simp add: priceDrifted_def deviates_def pricingDriftAbsFloor_def Let_def)
next
  case False
  then have "0 < max \<bar>a\<bar> \<bar>b\<bar>" by linarith
  then have "\<bar>a - b\<bar> / max \<bar>a\<bar> \<bar>b\<bar> > 1 / 100 \<longleftrightarrow> max \<bar>a\<bar> \<bar>b\<bar> < 100 * \<bar>a - b\<bar>"
    by (simp add: less_divide_eq mult.commute)
  with False show ?thesis
    by (auto simp: priceDrifted_def deviates_def pricingDriftAbsFloor_def pricingDriftRelTol_def Let_def)
qed

lemma map_filter_set: "y \<in> set (List.map_filter f xs) \<longleftrightarrow> (\<exists>x \<in> set xs. f x = Some y)"
  by (induction xs) (auto simp: map_filter_simps split: option.splits)

lemma drift_row_iff:
  "drift_row catalog (m, ours) = Some d \<longleftrightarrow> \<not> prefix ''grid/'' m
      \<and> (\<exists>p. gomap_get catalog m = Some p
          \<and> (deviates (inPerM ours) (cp_InputCostPerToken p * 1000000)
             \<or> deviates (outPerM ours) (cp_OutputCostPerToken p * 1000000))
          \<and> d = \<lparr>pdr_Model = m, pdr_OursIn = inPerM ours, pdr_OursOut = outPerM ours,
                pdr_CatalogIn = cp_InputCostPerToken p * 1000000,
                pdr_CatalogOut = cp_OutputCostPerToken p * 1000000\<rparr>)"
  by (auto simp: drift_row_def priceDrifted_iff Let_def split: option.splits if_splits)

text \<open>The catalog check reports exactly the deviations: a row is reported if and only if it
  belongs to a model that is not a spot-market instrument, the catalog has a price for it, and the
  input or the output price deviates by more than a cent and by more than one per cent of the larger
  one. A failed check keeps the previous rows and counts the error.\<close>

theorem RunOnce_reports_deviations:
  "ps_Drifts (RunOnce url now (fetchAndCompare url maxBytes (CatalogErr e)) snap) = ps_Drifts snap
   \<and> ps_ErrorsTotal (RunOnce url now (fetchAndCompare url maxBytes (CatalogErr e)) snap) = ps_ErrorsTotal snap + 1
   \<and> (d \<in> set (driftAgainstTable catalog) \<longleftrightarrow>
       (\<exists>m ours p. (m, ours) \<in> set pricingTable \<and> \<not> prefix ''grid/'' m
          \<and> gomap_get catalog m = Some p
          \<and> (deviates (inPerM ours) (cp_InputCostPerToken p * 1000000)
             \<or> deviates (outPerM ours) (cp_OutputCostPerToken p * 1000000))
          \<and> d = \<lparr>pdr_Model = m, pdr_OursIn = inPerM ours, pdr_OursOut = outPerM ours,
                pdr_CatalogIn = cp_InputCostPerToken p * 1000000,
                pdr_CatalogOut = cp_OutputCostPerToken p * 1000000\<rparr>))"
proof -
  have "d \<in> set (driftAgainstTable catalog) \<longleftrightarrow>
      (\<exists>m ours. (m, ours) \<in> set pricingTable \<and> drift_row catalog (m, ours) = Some d)"
    unfolding driftAgainstTable_def map_filter_set by force
  then show ?thesis
    unfolding drift_row_iff by (auto simp: RunOnce_def fetchAndCompare_def Let_def)
qed

end
