(* ===== verification/Credentials.thy ===== *)
theory Credentials
  imports Nexus_Prelude
begin

text \<open>
  Per-caller provider keys: the cached lookup of \<open>internal/gateway/credential_resolver.go\<close> and the
  override that \<open>credential_ctx.go\<close> carries in the request context. The credential store is an
  argument: a function from organisation, user and provider to a credential and a found flag, or
  \<open>None\<close> for an error.
\<close>

section \<open>The resolver\<close>

record ResolvedCredential =
  rc_Secret :: string
  rc_BaseURL :: string
  rc_Source :: string
  rc_ID :: string

definition zero_credential :: ResolvedCredential where
  "zero_credential = \<lparr>rc_Secret = [], rc_BaseURL = [], rc_Source = [], rc_ID = []\<rparr>"

type_synonym CredentialSource = "string \<Rightarrow> string \<Rightarrow> string \<Rightarrow> (ResolvedCredential \<times> bool) option"

datatype KeyMode = KeyModeShared | KeyModeBYOK | KeyModeStrictBYOK

definition ParseKeyMode :: "string \<Rightarrow> KeyMode" where
  "ParseKeyMode s =
     (if s = ''byok'' then KeyModeBYOK
      else if s = ''strict_byok'' \<or> s = ''strict-byok'' then KeyModeStrictBYOK
      else KeyModeShared)"

record cacheEntry =
  ce_cred :: ResolvedCredential
  ce_found :: bool
  ce_expires :: int

record CredentialResolver =
  cr_ttl :: duration
  cr_cache :: "(string, cacheEntry) gomap"

definition NewCredentialResolver :: "duration \<Rightarrow> CredentialResolver" where
  "NewCredentialResolver ttl = \<lparr>cr_ttl = ttl, cr_cache = []\<rparr>"

definition cred_key :: "string \<Rightarrow> string \<Rightarrow> string \<Rightarrow> string" where
  "cred_key orgID userID provider = orgID @ [CHR 0x00] @ userID @ [CHR 0x00] @ provider"

text \<open>The two critical sections of \<open>Resolve\<close>: the lookup under the read lock and the insertion
  under the write lock. The store is asked between them, without a lock.\<close>

definition cache_lookup :: "CredentialResolver \<Rightarrow> int \<Rightarrow> string \<Rightarrow> (ResolvedCredential \<times> bool) option" where
  "cache_lookup cr now key =
     (if cr_ttl cr > 0 then
        (case gomap_get (cr_cache cr) key of
           None \<Rightarrow> None
         | Some e \<Rightarrow> if now < ce_expires e then Some (ce_cred e, ce_found e) else None)
      else None)"

definition cache_insert ::
  "CredentialResolver \<Rightarrow> int \<Rightarrow> string \<Rightarrow> ResolvedCredential \<Rightarrow> bool \<Rightarrow> CredentialResolver" where
  "cache_insert cr now key cred found =
     (if cr_ttl cr > 0
      then cr\<lparr>cr_cache := gomap_set key
               \<lparr>ce_cred = cred, ce_found = found, ce_expires = now + cr_ttl cr\<rparr> (cr_cache cr)\<rparr>
      else cr)"

text \<open>A whole call that nothing interrupts: \<open>now\<close> at the lookup, \<open>now'\<close> at the insertion. A nil
  resolver or a nil store is \<open>None\<close>; the result \<open>None\<close> is an error.\<close>

definition Resolve_credential ::
  "CredentialSource option \<Rightarrow> CredentialResolver option \<Rightarrow> int \<Rightarrow> int \<Rightarrow> string \<Rightarrow> string \<Rightarrow> string \<Rightarrow>
     (ResolvedCredential \<times> bool) option \<times> CredentialResolver option" where
  "Resolve_credential src cr now now' orgID userID provider =
     (case (src, cr) of
        (Some src, Some cr) \<Rightarrow>
          let key = cred_key orgID userID provider in
          (case cache_lookup cr now key of
             Some r \<Rightarrow> (Some r, Some cr)
           | None \<Rightarrow>
               (case src orgID userID provider of
                  None \<Rightarrow> (None, Some cr)
                | Some (cred, found) \<Rightarrow> (Some (cred, found), Some (cache_insert cr now' key cred found))))
      | _ \<Rightarrow> (Some (zero_credential, False), cr))"

definition Invalidate :: "CredentialResolver \<Rightarrow> CredentialResolver" where
  "Invalidate cr = cr\<lparr>cr_cache := []\<rparr>"

section \<open>The override in the request context\<close>

record CallerCredential =
  call_Secret :: string
  call_BaseURL :: string
  call_Source :: string

text \<open>The context is modelled by the one value under the package's key.\<close>

definition WithCallerCredential :: "CallerCredential \<Rightarrow> CallerCredential option \<Rightarrow> CallerCredential option" where
  "WithCallerCredential c ctx = Some c"

definition CallerCredentialFrom :: "CallerCredential option \<Rightarrow> CallerCredential option" where
  "CallerCredentialFrom ctx =
     (case ctx of None \<Rightarrow> None | Some c \<Rightarrow> if call_Secret c = [] then None else Some c)"

section \<open>Isolation and freshness\<close>

lemma cred_key_inj:
  assumes "cred_key o1 u1 p1 = cred_key o2 u2 p2"
    and "CHR 0x00 \<notin> set o1 \<union> set u1 \<union> set o2 \<union> set u2"
  shows "o1 = o2 \<and> u1 = u2 \<and> p1 = p2"
  using assms split_at_first [of o1 "CHR 0x00" "u1 @ [CHR 0x00] @ p1" o2 "u2 @ [CHR 0x00] @ p2"]
    split_at_first [of u1 "CHR 0x00" p1 u2 p2]
  by (simp add: cred_key_def)

text \<open>Every cache a process can have, under any interleaving of requests: what a request inserts is
  an answer the store gave for the same caller at an earlier time. \<open>src t\<close> is what the store holds at
  time \<open>t\<close>. The log \<open>lg\<close> has the insertions since the last invalidation: when the store was asked, when
  the answer was inserted, and for whom.\<close>

type_synonym cred_log = "(int \<times> int \<times> string \<times> string \<times> string) list"

inductive resolver_reach :: "(int \<Rightarrow> CredentialSource) \<Rightarrow> duration \<Rightarrow> cred_log \<Rightarrow> CredentialResolver \<Rightarrow> bool"
  for src :: "int \<Rightarrow> CredentialSource" and ttl :: duration where
  new: "resolver_reach src ttl [] (NewCredentialResolver ttl)"
| insert: "resolver_reach src ttl lg cr \<Longrightarrow> src t org user provider = Some (cred, found) \<Longrightarrow> t \<le> now \<Longrightarrow>
    CHR 0x00 \<notin> set org \<union> set user \<Longrightarrow>
    resolver_reach src ttl ((t, now, org, user, provider) # lg) (cache_insert cr now (cred_key org user provider) cred found)"
| invalidate: "resolver_reach src ttl lg cr \<Longrightarrow> resolver_reach src ttl [] (Invalidate cr)"

text \<open>An answer of the log that was inserted less than \<open>ttl\<close> ago.\<close>

definition cached_answer ::
  "(int \<Rightarrow> CredentialSource) \<Rightarrow> duration \<Rightarrow> cred_log \<Rightarrow> int \<Rightarrow> string \<Rightarrow> string \<Rightarrow> string \<Rightarrow> ResolvedCredential \<times> bool \<Rightarrow> bool" where
  "cached_answer src ttl lg now org user provider r \<longleftrightarrow>
     (\<exists>t t'. (t, t', org, user, provider) \<in> set lg \<and> t \<le> t' \<and> now < t' + ttl \<and> src t org user provider = Some r)"

definition entry_ok :: "(int \<Rightarrow> CredentialSource) \<Rightarrow> duration \<Rightarrow> cred_log \<Rightarrow> string \<Rightarrow> cacheEntry \<Rightarrow> bool" where
  "entry_ok src ttl lg key e \<longleftrightarrow>
     (\<exists>t now org user provider. (t, now, org, user, provider) \<in> set lg \<and> t \<le> now \<and> CHR 0x00 \<notin> set org \<union> set user
        \<and> key = cred_key org user provider
        \<and> src t org user provider = Some (ce_cred e, ce_found e) \<and> ce_expires e = now + ttl)"

lemma entry_ok_Cons: "entry_ok src ttl lg key e \<Longrightarrow> entry_ok src ttl (x # lg) key e"
  unfolding entry_ok_def set_simps by blast

lemma resolver_reach_ok:
  assumes "resolver_reach src ttl lg cr"
  shows "cr_ttl cr = ttl \<and> (\<forall>key e. gomap_get (cr_cache cr) key = Some e \<longrightarrow> entry_ok src ttl lg key e)"
  using assms
proof (induction rule: resolver_reach.induct)
  case (insert lg cr t org user provider cred found now)
  have "entry_ok src ttl ((t, now, org, user, provider) # lg) (cred_key org user provider)
      \<lparr>ce_cred = cred, ce_found = found, ce_expires = now + ttl\<rparr>"
    unfolding entry_ok_def
    by (rule exI [of _ t], rule exI [of _ now], rule exI [of _ org], rule exI [of _ user],
        rule exI [of _ provider]) (use insert.hyps in simp)
  with insert.IH show ?case by (auto simp: cache_insert_def gomap intro: entry_ok_Cons)
qed (simp_all add: NewCredentialResolver_def Invalidate_def)

lemma cache_lookup_sound:
  assumes "resolver_reach src ttl lg cr" and "CHR 0x00 \<notin> set org \<union> set user"
    and "cache_lookup cr now (cred_key org user provider) = Some (cred, found)"
  shows "cached_answer src ttl lg now org user provider (cred, found)"
proof -
  obtain e where e: "gomap_get (cr_cache cr) (cred_key org user provider) = Some e"
    "now < ce_expires e" "cred = ce_cred e" "found = ce_found e"
    using assms(3) by (auto simp: cache_lookup_def split: if_splits option.splits)
  then have "entry_ok src ttl lg (cred_key org user provider) e"
    using resolver_reach_ok [OF assms(1)] by blast
  then obtain t t' o1 u1 p1 where ok: "(t, t', o1, u1, p1) \<in> set lg" "t \<le> t'" "CHR 0x00 \<notin> set o1 \<union> set u1"
    "cred_key org user provider = cred_key o1 u1 p1"
    "src t o1 u1 p1 = Some (cred, found)" "ce_expires e = t' + ttl"
    using e(3,4) unfolding entry_ok_def by blast
  have "org = o1 \<and> user = u1 \<and> provider = p1"
    using cred_key_inj [OF ok(4)] ok(3) assms(2) by simp
  with ok e(2) show ?thesis by (auto simp: cached_answer_def)
qed

lemma Resolve_credential_sound:
  assumes "resolver_reach src ttl lg cr" and "CHR 0x00 \<notin> set org \<union> set user" and "now \<le> now'"
    and "Resolve_credential (Some (src now)) (Some cr) now now' org user provider = (Some (cred, found), cr')"
  shows "(src now org user provider = Some (cred, found) \<or> cached_answer src ttl lg now org user provider (cred, found))
    \<and> (\<exists>c. cr' = Some c \<and> (resolver_reach src ttl lg c \<or> resolver_reach src ttl ((now, now', org, user, provider) # lg) c))"
proof (cases "cache_lookup cr now (cred_key org user provider)")
  case None
  with assms(4) have src: "src now org user provider = Some (cred, found)"
    and "cr' = Some (cache_insert cr now' (cred_key org user provider) cred found)"
    by (auto simp: Resolve_credential_def Let_def split: option.splits)
  with resolver_reach.insert [of src ttl lg cr now org user provider cred found now'] assms(1-3)
  show ?thesis by blast
next
  case (Some r)
  with assms(4) have "r = (cred, found)" "cr' = Some cr"
    by (auto simp: Resolve_credential_def Let_def)
  with Some cache_lookup_sound [OF assms(1,2)] assms(1) show ?thesis by blast
qed

text \<open>C22. A caller only ever gets their own credential, and not an old one: whatever requests and
  invalidations interleave, a resolution for an organisation, a user and a provider returns what the
  credential store answers for exactly this triple now, or what it answered to a request whose result
  was cached after the last invalidation and less than the configured time ago; and the resolver
  stays in that state. Identifiers must not contain a NUL byte, which the cache key uses as its
  separator.\<close>

theorem Resolve_credential_isolated:
  assumes "resolver_reach src ttl lg cr" and "CHR 0x00 \<notin> set org \<union> set user" and "now \<le> now'"
    and "Resolve_credential (Some (src now)) (Some cr) now now' org user provider = (Some (cred, found), cr')"
  shows "(src now org user provider = Some (cred, found)
      \<or> (\<exists>t t'. (t, t', org, user, provider) \<in> set lg \<and> t \<le> t' \<and> now < t' + ttl \<and> src t org user provider = Some (cred, found)))
    \<and> (\<exists>c. cr' = Some c \<and> (resolver_reach src ttl lg c \<or> resolver_reach src ttl ((now, now', org, user, provider) # lg) c))"
  using Resolve_credential_sound [OF assms] unfolding cached_answer_def .

text \<open>A store that gives out a new secret every ten seconds; the answer of second 1 is served in second 15.\<close>

definition witness_source :: CredentialSource where
  "witness_source org user provider = Some (zero_credential\<lparr>rc_Secret := user\<rparr>, True)"

definition rotating_source :: "int \<Rightarrow> CredentialSource" where
  "rotating_source t org user provider = Some (zero_credential\<lparr>rc_Secret := (if t < 10 then ''old'' else ''new'')\<rparr>, True)"

definition warm_resolver :: CredentialResolver where
  "warm_resolver = cache_insert (NewCredentialResolver 60) 1 (cred_key ''org'' ''ann'' ''openai'') (zero_credential\<lparr>rc_Secret := ''old''\<rparr>) True"

theorem Resolve_credential_isolated_witness:
  "fst (Resolve_credential (Some (rotating_source 15)) (Some warm_resolver) 15 15 ''org'' ''ann'' ''openai'') = Some (zero_credential\<lparr>rc_Secret := ''old''\<rparr>, True)
   \<and> rotating_source 15 ''org'' ''ann'' ''openai'' \<noteq> Some (zero_credential\<lparr>rc_Secret := ''old''\<rparr>, True)
   \<and> (\<exists>t t'. (t, t', ''org'', ''ann'', ''openai'') \<in> set [(1, 1, ''org'', ''ann'', ''openai'')] \<and> t \<le> t' \<and> 15 < t' + 60
        \<and> rotating_source t ''org'' ''ann'' ''openai'' = Some (zero_credential\<lparr>rc_Secret := ''old''\<rparr>, True))"
proof -
  have reach: "resolver_reach rotating_source 60 [(1, 1, ''org'', ''ann'', ''openai'')] warm_resolver"
    unfolding warm_resolver_def by (rule resolver_reach.insert [OF resolver_reach.new]) (simp_all add: rotating_source_def)
  have run: "Resolve_credential (Some (rotating_source 15)) (Some warm_resolver) 15 15 ''org'' ''ann'' ''openai''
      = (Some (zero_credential\<lparr>rc_Secret := ''old''\<rparr>, True), Some warm_resolver)"
    by (simp add: Resolve_credential_def warm_resolver_def cache_lookup_def cache_insert_def NewCredentialResolver_def gomap Let_def)
  have new: "rotating_source 15 ''org'' ''ann'' ''openai'' \<noteq> Some (zero_credential\<lparr>rc_Secret := ''old''\<rparr>, True)"
    by (simp add: rotating_source_def zero_credential_def)
  show ?thesis using Resolve_credential_isolated [OF reach _ _ run] run new by simp
qed

text \<open>An invalidation can be lost: a request that asked the store before a key was rotated and
  inserts its answer after the invalidation puts the old secret back, and the resolver serves it for
  the full caching time.\<close>

theorem Invalidate_lost:
  assumes "0 < cr_ttl cr" and "now' \<le> now" and "now < now' + cr_ttl cr"
  shows "Resolve_credential (Some newSrc) (Some (cache_insert (Invalidate cr) now' (cred_key org user provider) old True))
      now now org user provider
    = (Some (old, True), Some (cache_insert (Invalidate cr) now' (cred_key org user provider) old True))"
  using assms
  by (simp add: Resolve_credential_def Let_def cache_lookup_def cache_insert_def Invalidate_def gomap)

theorem Invalidate_lost_witness:
  "fst (Resolve_credential (Some witness_source)
      (Some (cache_insert (Invalidate (NewCredentialResolver 60)) 1 (cred_key ''org'' ''ann'' ''openai'')
         (zero_credential\<lparr>rc_Secret := ''old''\<rparr>) True)) 2 2 ''org'' ''ann'' ''openai'')
    = Some (zero_credential\<lparr>rc_Secret := ''old''\<rparr>, True)"
  using Invalidate_lost [of "NewCredentialResolver 60" 1 2] by (simp add: NewCredentialResolver_def)

end
