(* ===== verification/TurnKey.thy ===== *)
theory TurnKey
  imports Wire
begin

text \<open>
  Grouping the calls of one agent turn (\<open>internal/gateway/turnkey.go\<close>). The digest
  \<open>sha256\<close> is an argument of the key.
\<close>

section \<open>The turn an agent is in\<close>

text \<open>\<open>None\<close> is the index -1.\<close>

fun lastUserIndexBefore :: "Message list \<Rightarrow> nat \<Rightarrow> nat option" where
  "lastUserIndexBefore msgs 0 = None"
| "lastUserIndexBefore msgs (Suc i) =
     (if i < length msgs \<and> msg_Role (msgs ! i) = ''user'' then Some i else lastUserIndexBefore msgs i)"

definition agentWasMidWork :: "Message \<Rightarrow> bool" where
  "agentWasMidWork m \<longleftrightarrow>
     msg_Role m = ''tool'' \<or> msg_Role m = ''assistant'' \<and> length (msg_ToolCalls m) > 0"

lemma lastUserIndexBefore_less: "lastUserIndexBefore msgs i = Some j \<Longrightarrow> j < i"
  by (induction i) (auto split: if_splits intro: less_SucI)

text \<open>The loop of \<open>turnRootUserIndex\<close>, from the index of a user message.\<close>

function turn_walk :: "Message list \<Rightarrow> nat \<Rightarrow> nat" where
  "turn_walk msgs i =
     (if i > 0 \<and> agentWasMidWork (msgs ! (i - 1)) then
        (case lastUserIndexBefore msgs i of None \<Rightarrow> i | Some prev \<Rightarrow> turn_walk msgs prev)
      else i)"
  by pat_completeness auto
termination
  by (relation "measure (\<lambda>(msgs, i). i)") (auto dest: lastUserIndexBefore_less)

declare turn_walk.simps [simp del]

definition turnRootUserIndex :: "Message list \<Rightarrow> nat option" where
  "turnRootUserIndex msgs = map_option (turn_walk msgs) (lastUserIndexBefore msgs (length msgs))"

text \<open>The first system message, in either spelling of the role.\<close>

definition system_prompt :: "Message list \<Rightarrow> string" where
  "system_prompt msgs =
     (case find (\<lambda>m. msg_Role m = ''system'' \<or> msg_Role m = ''developer'') msgs of
        None \<Rightarrow> [] | Some m \<Rightarrow> msg_Content m)"

definition turn_preimage :: "string \<Rightarrow> string \<Rightarrow> string \<Rightarrow> string" where
  "turn_preimage userID system lastUser =
     userID @ [CHR 0x00] @ system @ [CHR 0x00] @ strings_TrimSpace lastUser"

definition deriveTurnKey :: "(string \<Rightarrow> string) \<Rightarrow> string \<Rightarrow> Message list \<Rightarrow> string" where
  "deriveTurnKey sha256 userID msgs =
     (case turnRootUserIndex msgs of
        None \<Rightarrow> []
      | Some rootUser \<Rightarrow>
          take 16 (hex_EncodeToString
            (sha256 (turn_preimage userID (system_prompt msgs) (msg_Content (msgs ! rootUser))))))"

section \<open>Which calls share a turn\<close>

abbreviation is_user :: "Message \<Rightarrow> bool" where
  "is_user m \<equiv> msg_Role m = ''user''"

lemma lastUser_append:
  "i \<le> length msgs \<Longrightarrow> lastUserIndexBefore (msgs @ ext) i = lastUserIndexBefore msgs i"
  by (induction i) (simp_all add: nth_append)

lemma lastUser_skip:
  assumes "list_all (\<lambda>m. \<not> is_user m) ext"
  shows "lastUserIndexBefore (msgs @ ext) (length msgs + k) = lastUserIndexBefore msgs (length msgs)"
proof (induction k)
  case 0
  then show ?case by (simp add: lastUser_append)
next
  case (Suc k)
  have "\<not> is_user ((msgs @ ext) ! (length msgs + k))" if "k < length ext"
    using assms that by (simp add: nth_append list_all_length)
  with Suc show ?case by auto
qed

lemma turn_walk_append:
  "i < length msgs \<Longrightarrow> turn_walk (msgs @ ext) i = turn_walk msgs i"
proof (induction i rule: less_induct)
  case (less i)
  have "(msgs @ ext) ! (i - 1) = msgs ! (i - 1)" using less.prems by (simp add: nth_append)
  moreover have "lastUserIndexBefore (msgs @ ext) i = lastUserIndexBefore msgs i"
    using less.prems by (intro lastUser_append) simp
  moreover have "turn_walk (msgs @ ext) j = turn_walk msgs j"
    if "lastUserIndexBefore msgs i = Some j" for j
    using less that lastUserIndexBefore_less by fastforce
  ultimately show ?case
    by (simp add: turn_walk.simps [of "msgs @ ext" i] turn_walk.simps [of msgs i] split: option.split)
qed

lemma lastUser_bound: "lastUserIndexBefore msgs i = Some j \<Longrightarrow> j < length msgs \<and> is_user (msgs ! j)"
  by (induction i) (auto split: if_splits)

lemma turn_walk_bound: "turn_walk msgs i \<le> i"
proof (induction i rule: less_induct)
  case (less i)
  show ?case
    using less lastUserIndexBefore_less [of msgs i]
    by (subst turn_walk.simps) (force split: option.split)
qed

lemma root_work:
  assumes "list_all (\<lambda>m. \<not> is_user m) ext"
  shows "turnRootUserIndex (msgs @ ext) = turnRootUserIndex msgs"
  using lastUser_skip [OF assms, of msgs "length ext"] lastUser_bound [of msgs "length msgs"]
  by (cases "lastUserIndexBefore msgs (length msgs)")
    (simp_all add: turnRootUserIndex_def turn_walk_append)

lemma root_user:
  assumes "is_user m"
  shows "turnRootUserIndex (msgs @ [m]) =
    (if msgs \<noteq> [] \<and> agentWasMidWork (last msgs) \<and> turnRootUserIndex msgs \<noteq> None
     then turnRootUserIndex msgs else Some (length msgs))"
proof -
  have last: "lastUserIndexBefore (msgs @ [m]) (length (msgs @ [m])) = Some (length msgs)"
    using assms by simp
  have mid: "(msgs @ [m]) ! (length msgs - 1) = last msgs" if "msgs \<noteq> []"
    using that by (simp add: nth_append last_conv_nth)
  have "turn_walk (msgs @ [m]) (length msgs) =
      (if msgs \<noteq> [] \<and> agentWasMidWork (last msgs)
       then (case lastUserIndexBefore msgs (length msgs) of
               None \<Rightarrow> length msgs | Some j \<Rightarrow> turn_walk (msgs @ [m]) j)
       else length msgs)"
    using mid by (subst turn_walk.simps) (auto simp: lastUser_append)
  moreover have "turn_walk (msgs @ [m]) j = turn_walk msgs j"
    if "lastUserIndexBefore msgs (length msgs) = Some j" for j
    using that lastUserIndexBefore_less by (intro turn_walk_append) blast
  ultimately show ?thesis
    unfolding turnRootUserIndex_def last
    by (cases "lastUserIndexBefore msgs (length msgs)") auto
qed

lemma system_append:
  "list_all (\<lambda>m. msg_Role m \<noteq> ''system'' \<and> msg_Role m \<noteq> ''developer'') ext \<Longrightarrow>
   system_prompt (msgs @ ext) = system_prompt msgs"
proof -
  assume "list_all (\<lambda>m. msg_Role m \<noteq> ''system'' \<and> msg_Role m \<noteq> ''developer'') ext"
  then have "find (\<lambda>m. msg_Role m = ''system'' \<or> msg_Role m = ''developer'') (msgs @ ext)
      = find (\<lambda>m. msg_Role m = ''system'' \<or> msg_Role m = ''developer'') msgs"
    by (induction msgs) (auto simp: find_None_iff list_all_iff)
  then show ?thesis by (simp add: system_prompt_def)
qed

lemma root_index: "turnRootUserIndex msgs = Some i \<Longrightarrow> i < length msgs"
  using turn_walk_bound lastUserIndexBefore_less [of msgs "length msgs"]
  by (auto simp: turnRootUserIndex_def) (meson le_less_trans)

lemma deriveTurnKey_extend:
  assumes "turnRootUserIndex (msgs @ ext) = turnRootUserIndex msgs"
    and "list_all (\<lambda>m. msg_Role m \<noteq> ''system'' \<and> msg_Role m \<noteq> ''developer'') ext"
  shows "deriveTurnKey sha256 user (msgs @ ext) = deriveTurnKey sha256 user msgs"
  using root_index [of msgs]
  by (cases "turnRootUserIndex msgs")
    (simp_all add: deriveTurnKey_def assms(1) system_append [OF assms(2)] nth_append)

text \<open>C26. All calls of an agent turn get the same key. Appending the agent's own work, assistant and
  tool messages, does not change the key; neither does a message of the operator that arrives while
  the agent is in the middle of its work, that is, right after a tool result or an assistant message
  with tool calls. A message of the operator that follows a finished answer opens a new turn, keyed
  on that message alone.\<close>

theorem turn_key_groups_agent_work:
  assumes "list_all (\<lambda>m. msg_Role m = ''assistant'' \<or> msg_Role m = ''tool'') work"
    and "is_user interruption" and "agentWasMidWork (last (msgs @ work))"
    and "list_ex is_user msgs" and "is_user question" and "\<not> agentWasMidWork (last answered)"
  shows "deriveTurnKey sha256 user (msgs @ work) = deriveTurnKey sha256 user msgs
    \<and> deriveTurnKey sha256 user ((msgs @ work) @ [interruption]) = deriveTurnKey sha256 user msgs
    \<and> turnRootUserIndex (answered @ [question]) = Some (length answered)"
proof -
  have nouser: "list_all (\<lambda>m. \<not> is_user m) work"
    and nosys: "list_all (\<lambda>m. msg_Role m \<noteq> ''system'' \<and> msg_Role m \<noteq> ''developer'') work"
    using assms(1) by (auto simp: list_all_iff)
  have root: "turnRootUserIndex (msgs @ work) = turnRootUserIndex msgs" by (rule root_work [OF nouser])
  have some: "turnRootUserIndex msgs \<noteq> None"
  proof -
    have "lastUserIndexBefore msgs i \<noteq> None" if "j < i" "i \<le> length msgs" "is_user (msgs ! j)" for i j
      using that by (induction i) (auto simp: less_Suc_eq)
    then show ?thesis
      using assms(4) by (auto simp: turnRootUserIndex_def list_ex_length)
  qed
  have "turnRootUserIndex ((msgs @ work) @ [interruption]) = turnRootUserIndex msgs"
    using root some assms(3) root_user [OF assms(2), of "msgs @ work"] assms(4) by auto
  then have "turnRootUserIndex (msgs @ (work @ [interruption])) = turnRootUserIndex msgs" by simp
  then have "deriveTurnKey sha256 user (msgs @ (work @ [interruption])) = deriveTurnKey sha256 user msgs"
    by (rule deriveTurnKey_extend) (use nosys assms(2) in simp)
  moreover have "turnRootUserIndex (answered @ [question]) = Some (length answered)"
    using root_user [OF assms(5), of answered] assms(6) by simp
  ultimately show ?thesis using deriveTurnKey_extend [OF root nosys] by simp
qed

theorem turn_key_groups_agent_work_witness:
  "deriveTurnKey (\<lambda>s. s) ''u'' (([plain_message ''user'' ''q''] @ [plain_message ''tool'' ''r''])
      @ [plain_message ''user'' ''wait''])
    = deriveTurnKey (\<lambda>s. s) ''u'' [plain_message ''user'' ''q'']"
proof -
  let ?work = "[plain_message ''tool'' ''r'']" and ?msgs = "[plain_message ''user'' ''q'']"
  let ?answered = "?msgs @ [plain_message ''assistant'' ''a'']"
  have "list_all (\<lambda>m. msg_Role m = ''assistant'' \<or> msg_Role m = ''tool'') ?work"
    and "is_user (plain_message ''user'' ''wait'')" and "agentWasMidWork (last (?msgs @ ?work))"
    and "list_ex is_user ?msgs" and "\<not> agentWasMidWork (last ?answered)"
    by (simp_all add: plain_message_def agentWasMidWork_def)
  then show ?thesis
    using turn_key_groups_agent_work [of ?work "plain_message ''user'' ''wait''" ?msgs
        "plain_message ''user'' ''wait''" ?answered "\<lambda>s. s" "''u''"] by blast
qed

end
