(* ===== verification/Regex.thy ===== *)
theory Regex
  imports Nexus_Prelude
begin

text \<open>
  The fragment of Go's \<open>regexp\<close> that the guardrails use: byte classes, sequences and greedy
  repetition, optionally between two ASCII word boundaries. A match is the leftmost one and, among
  those, the one a backtracking search finds first, as the package documents. All classes contain
  ASCII bytes only, so matching bytes and matching runes agree.
\<close>

section \<open>Matching\<close>

datatype regex =
    Cls "char \<Rightarrow> bool"
  | Seq regex regex
  | Rep nat "nat option" regex

abbreviation Opt :: "regex \<Rightarrow> regex" where
  "Opt r \<equiv> Rep 0 (Some 1) r"

text \<open>The lengths of the prefixes matched, in the order a backtracking search tries them. In a
  repetition another round is preferred to stopping; \<open>k\<close> bounds the rounds.\<close>

fun rep_lens :: "(string \<Rightarrow> nat list) \<Rightarrow> nat \<Rightarrow> nat \<Rightarrow> string \<Rightarrow> nat list" where
  "rep_lens m lo 0 t = (if lo = 0 then [0] else [])"
| "rep_lens m lo (Suc k) t =
     concat (map (\<lambda>n. map (\<lambda>i. n + i) (rep_lens m (lo - 1) k (drop n t))) (m t))
     @ (if lo = 0 then [0] else [])"

text \<open>An unbounded repetition makes at most one round per byte, since no class matches the empty
  string.\<close>

primrec match_lens :: "regex \<Rightarrow> string \<Rightarrow> nat list" where
  "match_lens (Cls P) t = (case t of [] \<Rightarrow> [] | c # _ \<Rightarrow> if P c then [1] else [])"
| "match_lens (Seq a b) t =
     concat (map (\<lambda>n. map (\<lambda>i. n + i) (match_lens b (drop n t))) (match_lens a t))"
| "match_lens (Rep lo hi a) t =
     rep_lens (match_lens a) lo (case hi of None \<Rightarrow> length t | Some h \<Rightarrow> h) t"

definition is_word :: "char \<Rightarrow> bool" where
  "is_word c \<longleftrightarrow> is_digit c \<or> 65 \<le> (of_char c :: nat) \<and> (of_char c :: nat) \<le> 90
     \<or> 97 \<le> (of_char c :: nat) \<and> (of_char c :: nat) \<le> 122 \<or> c = CHR ''_''"

definition word_opt :: "char option \<Rightarrow> bool" where
  "word_opt c = (case c of None \<Rightarrow> False | Some c \<Rightarrow> is_word c)"

definition head :: "string \<Rightarrow> char option" where
  "head t = (case t of [] \<Rightarrow> None | c # _ \<Rightarrow> Some c)"

text \<open>The byte before the suffix that follows \<open>w\<close>, when \<open>p\<close> is the byte before \<open>w\<close>.\<close>

definition before :: "char option \<Rightarrow> string \<Rightarrow> char option" where
  "before p w = (if w = [] then p else Some (last w))"

definition boundary :: "char option \<Rightarrow> string \<Rightarrow> bool" where
  "boundary p t \<longleftrightarrow> word_opt p \<noteq> word_opt (head t)"

text \<open>A pattern: a regular expression, with \<open>\b\<close> on both sides if the flag is set.\<close>

record pattern =
  pt_bounded :: bool
  pt_body :: regex

text \<open>The matches that start here: \<open>p\<close> is the byte before, \<open>t\<close> the rest of the text.\<close>

definition matches_here :: "pattern \<Rightarrow> char option \<Rightarrow> string \<Rightarrow> nat list" where
  "matches_here pt p t =
     (if pt_bounded pt \<and> \<not> boundary p t then []
      else filter (\<lambda>n. \<not> pt_bounded pt \<or> boundary (before p (take n t)) (drop n t)) (match_lens (pt_body pt) t))"

fun match_from :: "pattern \<Rightarrow> char option \<Rightarrow> string \<Rightarrow> bool" where
  "match_from pt p [] \<longleftrightarrow> matches_here pt p [] \<noteq> []"
| "match_from pt p (c # t) \<longleftrightarrow> matches_here pt p (c # t) \<noteq> [] \<or> match_from pt (Some c) t"

definition MatchString :: "pattern \<Rightarrow> string \<Rightarrow> bool" where
  "MatchString pt s = match_from pt None s"

text \<open>\<open>ReplaceAllString\<close> for a pattern that does not match the empty string and a replacement
  without \<open>$\<close>: replace the match that starts here and go on behind it, or keep one byte.\<close>

function replace_from :: "pattern \<Rightarrow> string \<Rightarrow> char option \<Rightarrow> string \<Rightarrow> string" where
  "replace_from pt repl p [] = []"
| "replace_from pt repl p (c # t) =
     (case matches_here pt p (c # t) of
        Suc n # _ \<Rightarrow> repl @ replace_from pt repl (before p (take (Suc n) (c # t))) (drop n t)
      | _ \<Rightarrow> c # replace_from pt repl (Some c) t)"
  by pat_completeness auto
termination
  by (relation "measure (\<lambda>(pt, repl, p, t). length t)") auto

definition ReplaceAllString :: "pattern \<Rightarrow> string \<Rightarrow> string \<Rightarrow> string" where
  "ReplaceAllString pt s repl = replace_from pt repl None s"

section \<open>Languages\<close>

fun lang_pow :: "string set \<Rightarrow> nat \<Rightarrow> string set" where
  "lang_pow L 0 = {[]}"
| "lang_pow L (Suc k) = {u @ v |u v. u \<in> L \<and> v \<in> lang_pow L k}"

primrec lang :: "regex \<Rightarrow> string set" where
  "lang (Cls P) = {[c] |c. P c}"
| "lang (Seq a b) = {u @ v |u v. u \<in> lang a \<and> v \<in> lang b}"
| "lang (Rep lo hi a) = (\<Union>k \<in> {k. lo \<le> k \<and> (case hi of None \<Rightarrow> True | Some h \<Rightarrow> k \<le> h)}. lang_pow (lang a) k)"

text \<open>Only expressions that do not match the empty string are repeated without a bound.\<close>

primrec wf_regex :: "regex \<Rightarrow> bool" where
  "wf_regex (Cls P) \<longleftrightarrow> True"
| "wf_regex (Seq a b) \<longleftrightarrow> wf_regex a \<and> wf_regex b"
| "wf_regex (Rep lo hi a) \<longleftrightarrow> wf_regex a \<and> (hi = None \<longrightarrow> [] \<notin> lang a)"

lemma lang_pow_length: "[] \<notin> L \<Longrightarrow> w \<in> lang_pow L k \<Longrightarrow> k \<le> length w"
proof (induction k arbitrary: w)
  case (Suc k)
  then obtain u v where "w = u @ v" "u \<in> L" "v \<in> lang_pow L k" by auto
  moreover have "0 < length u" using Suc.prems(1) \<open>u \<in> L\<close> by (cases u) auto
  moreover have "k \<le> length v" using Suc.IH [OF Suc.prems(1)] \<open>v \<in> lang_pow L k\<close> by blast
  ultimately show ?case unfolding \<open>w = u @ v\<close> length_append by linarith
qed simp

lemma seq_lens:
  assumes "\<And>t n. n \<in> set (ma t) \<longleftrightarrow> n \<le> length t \<and> take n t \<in> A"
    and "\<And>t n. n \<in> set (mb t) \<longleftrightarrow> n \<le> length t \<and> take n t \<in> B"
  shows "n \<in> set (concat (map (\<lambda>n. map (\<lambda>i. n + i) (mb (drop n t))) (ma t))) \<longleftrightarrow>
    n \<le> length t \<and> (\<exists>u v. take n t = u @ v \<and> u \<in> A \<and> v \<in> B)"
proof
  assume "n \<in> set (concat (map (\<lambda>n. map (\<lambda>i. n + i) (mb (drop n t))) (ma t)))"
  then obtain a b where ab: "n = a + b" "a \<in> set (ma t)" "b \<in> set (mb (drop a t))" by auto
  with assms have "a + b \<le> length t" "take a t \<in> A" "take b (drop a t) \<in> B" by auto
  then show "n \<le> length t \<and> (\<exists>u v. take n t = u @ v \<and> u \<in> A \<and> v \<in> B)"
    unfolding ab(1) take_add by blast
next
  assume "n \<le> length t \<and> (\<exists>u v. take n t = u @ v \<and> u \<in> A \<and> v \<in> B)"
  then obtain u v where uv: "n \<le> length t" "take n t = u @ v" "u \<in> A" "v \<in> B" by blast
  define a where "a = length u"
  have n: "n = a + length v" using uv(1) arg_cong [OF uv(2), of length] by (simp add: a_def)
  have u: "take a t = u"
    using arg_cong [OF uv(2), of "take a"] n by (simp add: a_def min_def)
  have v: "take (length v) (drop a t) = v"
    using arg_cong [OF uv(2), of "drop a"] n by (simp add: a_def drop_take)
  have "a \<in> set (ma t)" using assms(1) uv(1,3) u n by simp
  moreover have "length v \<in> set (mb (drop a t))" using assms(2) uv(1,4) v n by simp
  ultimately show "n \<in> set (concat (map (\<lambda>n. map (\<lambda>i. n + i) (mb (drop n t))) (ma t)))"
    using n by auto
qed

lemma rep_lens_lang:
  assumes "\<And>t n. n \<in> set (m t) \<longleftrightarrow> n \<le> length t \<and> take n t \<in> L"
  shows "n \<in> set (rep_lens m lo k t) \<longleftrightarrow> n \<le> length t \<and> (\<exists>i. lo \<le> i \<and> i \<le> k \<and> take n t \<in> lang_pow L i)"
proof (induction k arbitrary: lo t n)
  case 0
  show ?case by auto
next
  case (Suc k)
  have "n \<in> set (concat (map (\<lambda>n. map (\<lambda>i. n + i) (rep_lens m (lo - 1) k (drop n t))) (m t))) \<longleftrightarrow>
      n \<le> length t \<and> (\<exists>u v. take n t = u @ v \<and> u \<in> L \<and> v \<in> (\<Union>i \<in> {lo - 1..k}. lang_pow L i))"
    by (rule seq_lens [OF assms]) (auto simp: Suc)
  also have "(\<exists>u v. take n t = u @ v \<and> u \<in> L \<and> v \<in> (\<Union>i \<in> {lo - 1..k}. lang_pow L i)) \<longleftrightarrow>
      (\<exists>i. lo \<le> Suc i \<and> Suc i \<le> Suc k \<and> take n t \<in> lang_pow L (Suc i))"
  proof
    assume "\<exists>u v. take n t = u @ v \<and> u \<in> L \<and> v \<in> (\<Union>i \<in> {lo - 1..k}. lang_pow L i)"
    then obtain u v i where "take n t = u @ v" "u \<in> L" "v \<in> lang_pow L i" "lo - 1 \<le> i" "i \<le> k"
      by auto
    then have "take n t \<in> lang_pow L (Suc i)" "lo \<le> Suc i" "Suc i \<le> Suc k" by auto
    then show "\<exists>i. lo \<le> Suc i \<and> Suc i \<le> Suc k \<and> take n t \<in> lang_pow L (Suc i)" by blast
  next
    assume "\<exists>i. lo \<le> Suc i \<and> Suc i \<le> Suc k \<and> take n t \<in> lang_pow L (Suc i)"
    then obtain u v i where "take n t = u @ v" "u \<in> L" "v \<in> lang_pow L i" "lo \<le> Suc i" "i \<le> k"
      by auto
    then have "u \<in> L" "v \<in> (\<Union>i \<in> {lo - 1..k}. lang_pow L i)" "take n t = u @ v" by auto
    then show "\<exists>u v. take n t = u @ v \<and> u \<in> L \<and> v \<in> (\<Union>i \<in> {lo - 1..k}. lang_pow L i)" by blast
  qed
  finally have step: "n \<in> set (concat (map (\<lambda>n. map (\<lambda>i. n + i) (rep_lens m (lo - 1) k (drop n t))) (m t))) \<longleftrightarrow>
      n \<le> length t \<and> (\<exists>i. lo \<le> Suc i \<and> Suc i \<le> Suc k \<and> take n t \<in> lang_pow L (Suc i))" .
  have "(\<exists>i. lo \<le> i \<and> i \<le> Suc k \<and> take n t \<in> lang_pow L i) \<longleftrightarrow>
      lo = 0 \<and> take n t = [] \<or> (\<exists>i. lo \<le> Suc i \<and> Suc i \<le> Suc k \<and> take n t \<in> lang_pow L (Suc i))"
    (is "?l \<longleftrightarrow> ?r")
  proof
    assume ?l
    then obtain i where "lo \<le> i" "i \<le> Suc k" "take n t \<in> lang_pow L i" by blast
    then show ?r by (cases i) auto
  next
    assume ?r
    then show ?l
    proof
      assume "lo = 0 \<and> take n t = []"
      then have "lo \<le> 0 \<and> 0 \<le> Suc k \<and> take n t \<in> lang_pow L 0" by simp
      then show ?l by blast
    qed blast
  qed
  then show ?case using step by (auto simp del: lang_pow.simps(2))
qed

lemma match_lens_lang: "wf_regex r \<Longrightarrow> n \<in> set (match_lens r t) \<longleftrightarrow> n \<le> length t \<and> take n t \<in> lang r"
proof (induction r arbitrary: t n)
  case (Cls P)
  show ?case by (cases t; cases n) (auto split: if_splits)
next
  case (Seq a b)
  have "n \<in> set (match_lens (Seq a b) t) \<longleftrightarrow>
      n \<le> length t \<and> (\<exists>u v. take n t = u @ v \<and> u \<in> lang a \<and> v \<in> lang b)"
    unfolding match_lens.simps using Seq by (intro seq_lens) simp_all
  then show ?case by simp
next
  case (Rep lo hi a)
  have "n \<in> set (match_lens (Rep lo hi a) t) \<longleftrightarrow> n \<le> length t \<and>
      (\<exists>i. lo \<le> i \<and> i \<le> (case hi of None \<Rightarrow> length t | Some h \<Rightarrow> h) \<and> take n t \<in> lang_pow (lang a) i)"
    unfolding match_lens.simps using Rep by (intro rep_lens_lang) simp_all
  moreover have "i \<le> length t" if "hi = None" "take n t \<in> lang_pow (lang a) i" for i
    using lang_pow_length [of "lang a" "take n t" i] that Rep.prems by simp
  ultimately show ?case by (cases hi) auto
qed

section \<open>Occurrences\<close>

definition here :: "pattern \<Rightarrow> char option \<Rightarrow> string \<Rightarrow> bool" where
  "here pt p t \<longleftrightarrow> (\<exists>w v. t = w @ v \<and> w \<in> lang (pt_body pt)
     \<and> (pt_bounded pt \<longrightarrow> boundary p t \<and> boundary (before p w) v))"

definition occurs :: "pattern \<Rightarrow> char option \<Rightarrow> string \<Rightarrow> bool" where
  "occurs pt p t \<longleftrightarrow> (\<exists>z r. t = z @ r \<and> here pt (before p z) r)"

lemma before_Cons [simp]: "before p (c # z) = before (Some c) z"
  by (simp add: before_def)

lemma before_append [simp]: "before p (u @ v) = before (before p u) v"
  by (simp add: before_def)

lemma before_Nil [simp]: "before p [] = p"
  by (simp add: before_def)

lemma matches_here_set:
  assumes "wf_regex (pt_body pt)"
  shows "n \<in> set (matches_here pt p t) \<longleftrightarrow> n \<le> length t \<and> take n t \<in> lang (pt_body pt)
    \<and> (pt_bounded pt \<longrightarrow> boundary p t \<and> boundary (before p (take n t)) (drop n t))"
  by (auto simp: matches_here_def match_lens_lang [OF assms])

lemma matches_here_iff:
  assumes "wf_regex (pt_body pt)"
  shows "matches_here pt p t \<noteq> [] \<longleftrightarrow> here pt p t"
proof
  assume "matches_here pt p t \<noteq> []"
  then obtain n where "n \<in> set (matches_here pt p t)" by (cases "matches_here pt p t") auto
  then show "here pt p t"
    unfolding matches_here_set [OF assms] here_def by (metis append_take_drop_id)
next
  assume "here pt p t"
  then obtain w v where "t = w @ v" "w \<in> lang (pt_body pt)"
    "pt_bounded pt \<longrightarrow> boundary p t \<and> boundary (before p w) v" unfolding here_def by blast
  then have "length w \<in> set (matches_here pt p t)" by (simp add: matches_here_set [OF assms])
  then show "matches_here pt p t \<noteq> []" by auto
qed

lemma occurs_Nil: "occurs pt p [] \<longleftrightarrow> here pt p []"
  by (simp add: occurs_def)

lemma occurs_Cons: "occurs pt p (c # t) \<longleftrightarrow> here pt p (c # t) \<or> occurs pt (Some c) t"
proof
  assume "occurs pt p (c # t)"
  then obtain z r where zr: "c # t = z @ r" "here pt (before p z) r" unfolding occurs_def by blast
  then show "here pt p (c # t) \<or> occurs pt (Some c) t"
    by (cases z) (auto simp: occurs_def)
next
  assume "here pt p (c # t) \<or> occurs pt (Some c) t"
  then show "occurs pt p (c # t)"
    unfolding occurs_def by (metis append_Cons append_Nil before_Cons before_Nil)
qed

lemma occurs_append: "occurs pt (before p u) t \<Longrightarrow> occurs pt p (u @ t)"
  unfolding occurs_def by (metis append.assoc before_append)

lemma match_from_occurs: "wf_regex (pt_body pt) \<Longrightarrow> match_from pt p t \<longleftrightarrow> occurs pt p t"
  by (induction pt p t rule: match_from.induct)
    (simp_all add: occurs_Nil occurs_Cons matches_here_iff)

section \<open>Redaction\<close>

text \<open>The conditions under which replacing with a mask \<open>a # mid @ [b]\<close> cannot create occurrences:
  no match is empty, contains a delimiter, or lies inside the mask.\<close>

definition mask_safe :: "char \<Rightarrow> string \<Rightarrow> char \<Rightarrow> pattern \<Rightarrow> bool" where
  "mask_safe a mid b pt \<longleftrightarrow> wf_regex (pt_body pt)
     \<and> (\<forall>w \<in> lang (pt_body pt). w \<noteq> [] \<and> a \<notin> set w \<and> b \<notin> set w \<and> \<not> sublist w mid)"

lemma replace_keep:
  assumes "mask_safe a mid b pt" and "\<not> here pt p (c # t)"
  shows "replace_from pt repl p (c # t) = c # replace_from pt repl (Some c) t"
  using assms matches_here_iff [of pt p "c # t"] by (simp add: mask_safe_def)

lemma replace_hit:
  assumes "mask_safe a mid b pt" and "here pt p (c # t)"
  obtains w v where "c # t = w @ v" "w \<noteq> []" "pt_bounded pt \<longrightarrow> boundary p (c # t) \<and> boundary (before p w) v"
    "replace_from pt repl p (c # t) = repl @ replace_from pt repl (before p w) v"
proof -
  have wf: "wf_regex (pt_body pt)" using assms(1) by (simp add: mask_safe_def)
  obtain n ns where n: "matches_here pt p (c # t) = n # ns"
    using assms(2) matches_here_iff [OF wf] by (cases "matches_here pt p (c # t)") auto
  then have "n \<in> set (matches_here pt p (c # t))" by simp
  then have "n \<le> length (c # t)" "take n (c # t) \<in> lang (pt_body pt)"
    "pt_bounded pt \<longrightarrow> boundary p (c # t) \<and> boundary (before p (take n (c # t))) (drop n (c # t))"
    unfolding matches_here_set [OF wf] by blast+
  moreover from this obtain k where k: "n = Suc k"
    using assms(1) by (cases n) (auto simp: mask_safe_def)
  moreover have "replace_from pt repl p (c # t) = repl @ replace_from pt repl (before p (take n (c # t))) (drop n (c # t))"
    using n k by simp
  ultimately show ?thesis using that [of "take n (c # t)" "drop n (c # t)"] by simp
qed

lemma gap_prefix:
  assumes "mask_safe a mid b pt" and "replace_from pt (a # mid') p t = w @ v" and "a \<notin> set w"
  shows "\<exists>v'. t = w @ v' \<and> (head v = head v' \<or> (pt_bounded pt \<longrightarrow> boundary (before p w) v'))"
  using assms(2,3)
proof (induction w arbitrary: p t)
  case Nil
  show ?case
  proof (cases t)
    case (Cons c t')
    show ?thesis
    proof (cases "here pt p t")
      case True
      then have "pt_bounded pt \<longrightarrow> boundary p t" by (auto simp: here_def)
      then show ?thesis by simp
    next
      case False
      with replace_keep [OF assms(1), of p c t' "a # mid'"] Nil.prems(1)
      have "v = c # replace_from pt (a # mid') (Some c) t'" unfolding Cons by simp
      then have "head v = head t" by (simp add: Cons head_def)
      then show ?thesis by simp
    qed
  qed (use Nil.prems in simp)
next
  case (Cons x w)
  then obtain c t' where t: "t = c # t'" by (cases t) auto
  have "\<not> here pt p t"
  proof
    assume "here pt p t"
    then obtain out where "replace_from pt (a # mid') p t = (a # mid') @ out"
      using replace_hit [OF assms(1)] t by metis
    with Cons.prems show False by simp
  qed
  then have "replace_from pt (a # mid') p t = c # replace_from pt (a # mid') (Some c) t'"
    unfolding t by (rule replace_keep [OF assms(1)])
  with Cons.prems have "x = c" "replace_from pt (a # mid') (Some c) t' = w @ v"
    by auto
  with Cons.IH [of "Some c" t'] Cons.prems(2) show ?case by (auto simp: t)
qed

lemma after_mask:
  assumes "z @ w @ v = (a # mid @ [b]) @ out" and "w \<noteq> []" and "a \<notin> set w" and "b \<notin> set w" and "\<not> sublist w mid"
  shows "\<exists>z'. z = (a # mid @ [b]) @ z' \<and> out = z' @ w @ v"
proof -
  from assms(1) consider (after) z' where "z = (a # mid @ [b]) @ z'" "out = z' @ w @ v"
    | (inside) u where "a # mid @ [b] = z @ u" "w @ v = u @ out"
    using append_eq_append_conv2 [of z "w @ v" "a # mid @ [b]" out] by (metis (no_types))
  then show ?thesis
  proof cases
    case inside
    show ?thesis
    proof (cases "u = []")
      case True
      with inside show ?thesis by auto
    next
      case False
      have "last u = b" using arg_cong [OF inside(1), of last] False by simp
      then obtain x where x: "u = x @ [b]" using append_butlast_last_id [OF False] by metis
      have "prefix w x"
      proof -
        have "prefix w (w @ v)" "prefix u (w @ v)" unfolding inside(2) by simp_all (metis inside(2) prefixI)
        then have "prefix w u \<or> prefix u w" by (rule prefix_same_cases)
        moreover have "\<not> prefix u w" using x assms(4) by (auto dest: set_mono_prefix)
        moreover have "w \<noteq> u" using x assms(4) by auto
        ultimately show ?thesis using x by (auto simp: prefix_snoc)
      qed
      moreover have "z \<noteq> []"
      proof
        assume "z = []"
        with inside(1) x have "x = a # mid" by simp
        with \<open>prefix w x\<close> assms(2,3) show False by (cases w) auto
      qed
      with inside(1) x have "suffix x mid"
        by (cases z) (auto simp: suffix_def)
      ultimately show ?thesis using assms(5) by (meson prefix_imp_sublist suffix_imp_sublist sublist_order.order_trans)
    qed
  qed blast
qed

lemma occurs_behind_mask:
  assumes "mask_safe a mid b pt" and "occurs pt q ((a # mid @ [b]) @ out)"
  shows "occurs pt (Some b) out"
proof -
  obtain z r where zr: "(a # mid @ [b]) @ out = z @ r" "here pt (before q z) r"
    using assms(2) unfolding occurs_def by blast
  then obtain w v where r: "r = w @ v" "w \<in> lang (pt_body pt)" unfolding here_def by blast
  then have "w \<noteq> []" "a \<notin> set w" "b \<notin> set w" "\<not> sublist w mid"
    using assms(1) by (auto simp: mask_safe_def)
  with after_mask [of z w v a mid b out] zr(1) r(1) obtain z' where
    z': "z = (a # mid @ [b]) @ z'" "out = z' @ w @ v" by metis
  have "before q z = before (Some b) z'" by (simp add: z'(1))
  with zr(2) z'(2) r(1) show ?thesis unfolding occurs_def by auto
qed

text \<open>A pass removes every occurrence of its own pattern. \<open>p\<close> is the byte before the text and
  \<open>q\<close> the byte before the result; they differ only right behind a mask.\<close>

lemma replace_removes:
  assumes "mask_safe a mid b pt"
    and "q = p \<or> q = Some b \<and> (pt_bounded pt \<longrightarrow> boundary p t)"
  shows "\<not> occurs pt q (replace_from pt (a # mid @ [b]) p t)"
  using assms(2)
proof (induction "length t" arbitrary: p q t rule: less_induct)
  case less
  let ?rep = "replace_from pt (a # mid @ [b])"
  have safe: "w \<noteq> []" "a \<notin> set w" "b \<notin> set w" "\<not> sublist w mid" if "w \<in> lang (pt_body pt)" for w
    using assms(1) that by (auto simp: mask_safe_def)
  show ?case
  proof (cases t)
    case Nil
    then show ?thesis using safe by (auto simp: occurs_Nil here_def)
  next
    case (Cons c t')
    show ?thesis
    proof (cases "here pt p t")
      case True
      then obtain w v where hit: "t = w @ v" "w \<noteq> []"
        "pt_bounded pt \<longrightarrow> boundary p t \<and> boundary (before p w) v" "?rep p t = (a # mid @ [b]) @ ?rep (before p w) v"
        using replace_hit [OF assms(1)] Cons by metis
      have "\<not> occurs pt (Some b) (?rep (before p w) v)"
        using less.hyps [of v "Some b" "before p w"] hit(1-3) by (simp add: length_greater_0_conv [symmetric] del: length_greater_0_conv)
      then show ?thesis unfolding hit(4) using occurs_behind_mask [OF assms(1)] by blast
    next
      case False
      have keep: "?rep p t = c # ?rep (Some c) t'"
        using replace_keep [OF assms(1)] False Cons by blast
      have "\<not> here pt q (c # ?rep (Some c) t')"
      proof
        assume "here pt q (c # ?rep (Some c) t')"
        then obtain w v where w: "?rep p t = w @ v" "w \<in> lang (pt_body pt)"
          "pt_bounded pt \<longrightarrow> boundary q (?rep p t) \<and> boundary (before q w) v"
          unfolding here_def keep by metis
        obtain v' where v': "t = w @ v'" "head v = head v' \<or> (pt_bounded pt \<longrightarrow> boundary (before p w) v')"
          using gap_prefix [OF assms(1) w(1) safe(2) [OF w(2)]] by blast
        have "head (?rep p t) = head t" unfolding keep by (simp add: Cons head_def)
        then have "pt_bounded pt \<longrightarrow> boundary p t" using less.prems w(3) by (auto simp: boundary_def)
        moreover have "before q w = before p w" using safe(1) [OF w(2)] by (simp add: before_def)
        then have "pt_bounded pt \<longrightarrow> boundary (before p w) v'" using v'(2) w(3) by (auto simp: boundary_def)
        ultimately show False using False v'(1) w(2) by (auto simp: here_def)
      qed
      moreover have "\<not> occurs pt (Some c) (?rep (Some c) t')"
        using less.hyps [of t' "Some c" "Some c"] by (simp add: Cons)
      ultimately show ?thesis by (simp add: keep occurs_Cons)
    qed
  qed
qed

text \<open>A pass with a bounded pattern creates no occurrence of another pattern: at both ends of
  what it replaces there was a word boundary before, and there is none it could add.\<close>

lemma replace_keeps_out:
  assumes "mask_safe a mid b pt" and "pt_bounded pt" and "mask_safe a mid b pt'"
    and "\<not> occurs pt' p t" and "q = p \<or> q = Some b \<and> boundary p t"
  shows "\<not> occurs pt' q (replace_from pt (a # mid @ [b]) p t)"
  using assms(4,5)
proof (induction "length t" arbitrary: p q t rule: less_induct)
  case less
  let ?rep = "replace_from pt (a # mid @ [b])"
  have safe: "w \<noteq> []" "a \<notin> set w" if "w \<in> lang (pt_body pt')" for w
    using assms(3) that by (auto simp: mask_safe_def)
  show ?case
  proof (cases t)
    case Nil
    then show ?thesis using safe by (auto simp: occurs_Nil here_def)
  next
    case (Cons c t')
    show ?thesis
    proof (cases "here pt p t")
      case True
      then obtain w v where hit: "t = w @ v" "w \<noteq> []"
        "boundary (before p w) v" "?rep p t = (a # mid @ [b]) @ ?rep (before p w) v"
        using replace_hit [OF assms(1)] Cons assms(2) by metis
      have "length v < length t" using hit(1,2) by (cases w) simp_all
      moreover have "\<not> occurs pt' (before p w) v" using less.prems(1) occurs_append unfolding hit(1) by blast
      ultimately have "\<not> occurs pt' (Some b) (?rep (before p w) v)" using less.hyps hit(3) by blast
      then show ?thesis unfolding hit(4) using occurs_behind_mask [OF assms(3)] by blast
    next
      case False
      have keep: "?rep p t = c # ?rep (Some c) t'"
        using replace_keep [OF assms(1)] False Cons by blast
      have "\<not> here pt' q (c # ?rep (Some c) t')"
      proof
        assume "here pt' q (c # ?rep (Some c) t')"
        then obtain w v where w: "?rep p t = w @ v" "w \<in> lang (pt_body pt')"
          "pt_bounded pt' \<longrightarrow> boundary q (?rep p t) \<and> boundary (before q w) v"
          unfolding here_def keep by metis
        obtain v' where v': "t = w @ v'" "head v = head v' \<or> boundary (before p w) v'"
          using gap_prefix [OF assms(1) w(1) safe(2) [OF w(2)]] assms(2) by blast
        have "head (?rep p t) = head t" unfolding keep by (simp add: Cons head_def)
        then have "pt_bounded pt' \<longrightarrow> boundary p t" using less.prems(2) w(3) by (auto simp: boundary_def)
        moreover have "before q w = before p w" using safe(1) [OF w(2)] by (simp add: before_def)
        then have "pt_bounded pt' \<longrightarrow> boundary (before p w) v'" using v'(2) w(3) by (auto simp: boundary_def)
        ultimately have "here pt' p t" using v'(1) w(2) by (auto simp: here_def)
        then show False using less.prems(1) by (simp add: Cons occurs_Cons)
      qed
      moreover have "\<not> occurs pt' (Some c) t'" using less.prems(1) by (simp add: Cons occurs_Cons)
      then have "\<not> occurs pt' (Some c) (?rep (Some c) t')"
        using less.hyps [of t' "Some c" "Some c"] by (simp add: Cons)
      ultimately show ?thesis by (simp add: keep occurs_Cons)
    qed
  qed
qed

lemma ReplaceAllString_removes:
  "mask_safe a mid b pt \<Longrightarrow> \<not> MatchString pt (ReplaceAllString pt s (a # mid @ [b]))"
  using replace_removes [of a mid b pt None None s]
  by (simp add: MatchString_def ReplaceAllString_def match_from_occurs mask_safe_def)

lemma ReplaceAllString_keeps_out:
  "mask_safe a mid b pt \<Longrightarrow> pt_bounded pt \<Longrightarrow> mask_safe a mid b pt' \<Longrightarrow> \<not> MatchString pt' s \<Longrightarrow>
   \<not> MatchString pt' (ReplaceAllString pt s (a # mid @ [b]))"
  using replace_keeps_out [of a mid b pt pt' None s None]
  by (simp add: MatchString_def ReplaceAllString_def match_from_occurs mask_safe_def)

end
