(* ===== verification/Guardrails.thy ===== *)
theory Guardrails
  imports Regex
begin

text \<open>
  The inline guardrails of \<open>internal/guardrails\<close>: the input checks and the output redaction of
  \<open>guardrails.go\<close>, the JSON output check and the local repair of \<open>schema.go\<close>.

  The patterns an operator configures are arguments: what \<open>regexp.Compile\<close> makes of a pattern
  (\<open>'re\<close>) and when it matches. So are the JSON decoder (a document \<open>'doc\<close> or an error text) and the
  third-party schema validator (\<open>'schema\<close>).
\<close>

section \<open>The built-in patterns\<close>

definition is_alpha :: "char \<Rightarrow> bool" where
  "is_alpha c \<longleftrightarrow> 65 \<le> (of_char c :: nat) \<and> (of_char c :: nat) \<le> 90
     \<or> 97 \<le> (of_char c :: nat) \<and> (of_char c :: nat) \<le> 122"

definition local_char :: "char \<Rightarrow> bool" where
  "local_char c \<longleftrightarrow> is_alpha c \<or> is_digit c \<or> c \<in> set ''._%+-''"

definition domain_char :: "char \<Rightarrow> bool" where
  "domain_char c \<longleftrightarrow> is_alpha c \<or> is_digit c \<or> c \<in> set ''.-''"

definition sep_char :: "char \<Rightarrow> bool" where
  "sep_char c \<longleftrightarrow> c \<in> {CHR 0x09, CHR 0x0A, CHR 0x0C, CHR 0x0D, CHR '' '', CHR ''.'', CHR ''-''}"

definition card_sep :: "char \<Rightarrow> bool" where
  "card_sep c \<longleftrightarrow> c = CHR '' '' \<or> c = CHR ''-''"

abbreviation lit :: "char \<Rightarrow> regex" where
  "lit c \<equiv> Cls (\<lambda>x. x = c)"

abbreviation digits :: "nat \<Rightarrow> nat \<Rightarrow> regex" where
  "digits lo hi \<equiv> Rep lo (Some hi) (Cls is_digit)"

definition reEmail :: pattern where
  "reEmail = \<lparr>pt_bounded = False, pt_body =
     Seq (Rep 1 None (Cls local_char)) (Seq (lit CHR ''@'')
       (Seq (Rep 1 None (Cls domain_char)) (Seq (lit CHR ''.'') (Rep 2 None (Cls is_alpha)))))\<rparr>"

definition rePhone :: pattern where
  "rePhone = \<lparr>pt_bounded = True, pt_body =
     Seq (Opt (Seq (Opt (lit CHR ''+'')) (Seq (digits 1 3) (Opt (Cls sep_char)))))
       (Seq (Seq (Opt (lit CHR ''('')) (Seq (digits 3 3) (Seq (Opt (lit CHR '')'')) (Opt (Cls sep_char)))))
         (Seq (digits 3 3) (Seq (Opt (Cls sep_char)) (digits 4 4))))\<rparr>"

definition reSSN :: pattern where
  "reSSN = \<lparr>pt_bounded = True, pt_body =
     Seq (digits 3 3) (Seq (lit CHR ''-'') (Seq (digits 2 2) (Seq (lit CHR ''-'') (digits 4 4))))\<rparr>"

definition reCard :: pattern where
  "reCard = \<lparr>pt_bounded = True, pt_body =
     Rep 13 (Some 16) (Seq (Cls is_digit) (Opt (Cls card_sep)))\<rparr>"

definition redactionMask :: string where
  "redactionMask = ''[REDACTED]''"

section \<open>The guard\<close>

record Config =
  cfg_Enabled :: bool
  cfg_BlockPIIInput :: bool
  cfg_RedactPIIOutput :: bool
  cfg_MaxInputChars :: int
  cfg_DenyPatterns :: "string list"
  cfg_ValidateJSONOutput :: bool

record Finding =
  fi_Blocked :: bool
  fi_Rule :: string
  fi_Reason :: string

definition allow :: Finding where
  "allow = \<lparr>fi_Blocked = False, fi_Rule = [], fi_Reason = []\<rparr>"

text \<open>A compiled pattern is kept with its source, which \<open>String\<close> returns.\<close>

record 're Guard =
  gd_cfg :: Config
  gd_denyCompiled :: "(string \<times> 're) list"

definition NewGuard :: "(string \<Rightarrow> 're option) \<Rightarrow> Config \<Rightarrow> 're Guard option" where
  "NewGuard compile cfg =
     (if \<not> cfg_Enabled cfg then None
      else Some \<lparr>gd_cfg = cfg,
        gd_denyCompiled =
          List.map_filter
            (\<lambda>p. let p = strings_TrimSpace p in
                 if p = [] then None else map_option (\<lambda>re. (p, re)) (compile p))
            (cfg_DenyPatterns cfg)\<rparr>)"

definition Active :: "'re Guard option \<Rightarrow> bool" where
  "Active g =
     (case g of None \<Rightarrow> False
      | Some g \<Rightarrow> cfg_BlockPIIInput (gd_cfg g) \<or> cfg_RedactPIIOutput (gd_cfg g)
          \<or> cfg_MaxInputChars (gd_cfg g) > 0 \<or> length (gd_denyCompiled g) > 0
          \<or> cfg_ValidateJSONOutput (gd_cfg g))"

definition piiHits :: "string \<Rightarrow> string list" where
  "piiHits text =
     (if MatchString reEmail text then [''email''] else [])
     @ (if MatchString reSSN text then [''ssn''] else [])
     @ (if MatchString rePhone text then [''phone''] else [])
     @ (if MatchString reCard text then [''card''] else [])"

definition CheckInput :: "('re \<Rightarrow> string \<Rightarrow> bool) \<Rightarrow> 're Guard option \<Rightarrow> string \<Rightarrow> Finding" where
  "CheckInput matchRe g prompt =
     (case g of
        None \<Rightarrow> allow
      | Some g \<Rightarrow>
          if cfg_MaxInputChars (gd_cfg g) > 0 \<and> int (length prompt) > cfg_MaxInputChars (gd_cfg g)
          then \<lparr>fi_Blocked = True, fi_Rule = ''max_input_chars'',
                fi_Reason = ''request prompt exceeds the configured maximum length''\<rparr>
          else if cfg_BlockPIIInput (gd_cfg g) \<and> length (piiHits prompt) > 0
          then \<lparr>fi_Blocked = True, fi_Rule = ''pii_input'',
                fi_Reason = ''request prompt contains disallowed PII: '' @ strings_Join '', '' (piiHits prompt)\<rparr>
          else case find (\<lambda>(_, re). matchRe re prompt) (gd_denyCompiled g) of
            Some (src, _) \<Rightarrow> \<lparr>fi_Blocked = True, fi_Rule = ''deny_pattern'',
                fi_Reason = ''request prompt matches a blocked pattern: '' @ src\<rparr>
          | None \<Rightarrow> allow)"

definition redact_pii :: "string \<Rightarrow> string" where
  "redact_pii text =
     foldl (\<lambda>s re. ReplaceAllString re s redactionMask) text [reEmail, reSSN, rePhone, reCard]"

definition RedactOutput :: "'re Guard option \<Rightarrow> string \<Rightarrow> string \<times> bool" where
  "RedactOutput g text =
     (case g of
        None \<Rightarrow> (text, False)
      | Some g \<Rightarrow>
          if \<not> cfg_RedactPIIOutput (gd_cfg g) \<or> text = [] then (text, False)
          else let redacted = redact_pii text in (redacted, redacted \<noteq> text))"

section \<open>JSON output\<close>

definition summarizeSchemaErr :: "string \<Rightarrow> string" where
  "summarizeSchemaErr msg = (if length msg > 300 then take 300 msg @ ''...'' else msg)"

definition CheckJSONOutput ::
  "(string \<Rightarrow> string + 'doc) \<Rightarrow> (string \<Rightarrow> 'schema option) \<Rightarrow> ('schema \<Rightarrow> 'doc \<Rightarrow> string option) \<Rightarrow>
     're Guard option \<Rightarrow> string \<Rightarrow> string \<Rightarrow> Finding" where
  "CheckJSONOutput unmarshal compileSchema validate g output schema =
     (case g of
        None \<Rightarrow> allow
      | Some g \<Rightarrow>
          if \<not> cfg_ValidateJSONOutput (gd_cfg g) then allow
          else if output = [] then \<lparr>fi_Blocked = True, fi_Rule = ''json_output'',
                 fi_Reason = ''response is empty but a JSON response_format was requested''\<rparr>
          else case unmarshal output of
            Inl e \<Rightarrow> \<lparr>fi_Blocked = True, fi_Rule = ''json_output'',
                     fi_Reason = ''response is not valid JSON: '' @ e\<rparr>
          | Inr doc \<Rightarrow>
              if schema = [] then allow
              else case compileSchema schema of
                None \<Rightarrow> allow
              | Some compiled \<Rightarrow>
                  (case validate compiled doc of
                     None \<Rightarrow> allow
                   | Some e \<Rightarrow> \<lparr>fi_Blocked = True, fi_Rule = ''json_schema'',
                       fi_Reason = ''response does not conform to the requested JSON schema: ''
                         @ summarizeSchemaErr e\<rparr>))"

subsection \<open>Repairing wrapped JSON\<close>

text \<open>\<open>strings.LastIndex(s, sub)\<close>: the text before the last occurrence.\<close>

fun before_last :: "string \<Rightarrow> string \<Rightarrow> string option" where
  "before_last sub [] = (if sub = [] then Some [] else None)"
| "before_last sub (c # s) =
     (case before_last sub s of
        Some pre \<Rightarrow> Some (c # pre)
      | None \<Rightarrow> if prefix sub (c # s) then Some [] else None)"

abbreviation fence :: string where
  "fence \<equiv> [CHR 0x60, CHR 0x60, CHR 0x60]"

definition stripCodeFence :: "string \<Rightarrow> string" where
  "stripCodeFence s =
     (if \<not> prefix fence s then s
      else case strings_Cut (CHR 0x0A) s of
        None \<Rightarrow> s
      | Some (_, s) \<Rightarrow> strings_TrimSpace (case before_last fence s of Some pre \<Rightarrow> pre | None \<Rightarrow> s))"

text \<open>The second loop of \<open>extractBracketed\<close>: the number of bytes up to and including the matching
  close.\<close>

fun scan_close :: "char \<Rightarrow> char \<Rightarrow> nat \<Rightarrow> bool \<Rightarrow> bool \<Rightarrow> string \<Rightarrow> nat option" where
  "scan_close opn cls depth inStr esc [] = None"
| "scan_close opn cls depth inStr esc (c # s) =
     (if inStr then
        map_option Suc
          (if esc then scan_close opn cls depth True False s
           else if c = CHR 0x5C then scan_close opn cls depth True True s
           else if c = CHR 0x22 then scan_close opn cls depth False False s
           else scan_close opn cls depth True False s)
      else if c = CHR 0x22 then map_option Suc (scan_close opn cls depth True esc s)
      else if c = opn then map_option Suc (scan_close opn cls (depth + 1) False esc s)
      else if c = cls then
        (if depth - 1 = 0 then Some 1 else map_option Suc (scan_close opn cls (depth - 1) False esc s))
      else map_option Suc (scan_close opn cls depth False esc s))"

definition extractBracketed :: "string \<Rightarrow> string option" where
  "extractBracketed s =
     (let rest = dropWhile (\<lambda>c. c \<noteq> CHR ''{'' \<and> c \<noteq> CHR ''['') s in
      case rest of
        [] \<Rightarrow> None
      | c # _ \<Rightarrow>
          map_option (\<lambda>n. take n rest)
            (scan_close c (if c = CHR ''{'' then CHR ''}'' else CHR '']'') 0 False False rest))"

definition RepairJSON :: "string \<Rightarrow> string \<times> bool" where
  "RepairJSON s =
     (let trimmed = strings_TrimSpace s;
          candidate = stripCodeFence trimmed;
          candidate = (case extractBracketed candidate of Some ext \<Rightarrow> ext | None \<Rightarrow> candidate);
          candidate = strings_TrimSpace candidate in
      if candidate = [] \<or> candidate = trimmed then (s, False) else (candidate, True))"

section \<open>Redaction\<close>

text \<open>What the classes of an expression allow, and how short a match can be.\<close>

primrec only_chars :: "(char \<Rightarrow> bool) \<Rightarrow> regex \<Rightarrow> bool" where
  "only_chars Q (Cls P) \<longleftrightarrow> (\<forall>c. P c \<longrightarrow> Q c)"
| "only_chars Q (Seq a b) \<longleftrightarrow> only_chars Q a \<and> only_chars Q b"
| "only_chars Q (Rep lo hi a) \<longleftrightarrow> only_chars Q a"

primrec min_len :: "regex \<Rightarrow> nat" where
  "min_len (Cls P) = 1"
| "min_len (Seq a b) = min_len a + min_len b"
| "min_len (Rep lo hi a) = lo * min_len a"

lemma lang_pow_chars: "w \<in> lang_pow L k \<Longrightarrow> (\<And>u. u \<in> L \<Longrightarrow> \<forall>c \<in> set u. Q c) \<Longrightarrow> \<forall>c \<in> set w. Q c"
  by (induction k arbitrary: w) auto

lemma lang_only_chars: "only_chars Q r \<Longrightarrow> w \<in> lang r \<Longrightarrow> \<forall>c \<in> set w. Q c"
proof (induction r arbitrary: w)
  case (Rep lo hi a)
  then obtain k where "w \<in> lang_pow (lang a) k" by auto
  then show ?case using Rep.IH Rep.prems(1) by (intro lang_pow_chars [of w "lang a" k Q]) simp_all
qed auto

lemma lang_pow_min: "w \<in> lang_pow L k \<Longrightarrow> (\<And>u. u \<in> L \<Longrightarrow> m \<le> length u) \<Longrightarrow> k * m \<le> length w"
proof (induction k arbitrary: w)
  case (Suc k)
  then obtain u v where "w = u @ v" "u \<in> L" "v \<in> lang_pow L k" by auto
  moreover from this have "k * m \<le> length v" "m \<le> length u" using Suc.IH [of v] Suc.prems(2) by auto
  ultimately show ?case by simp
qed simp

lemma lang_min_len: "w \<in> lang r \<Longrightarrow> min_len r \<le> length w"
proof (induction r arbitrary: w)
  case (Rep lo hi a)
  then obtain k where "lo \<le> k" "w \<in> lang_pow (lang a) k" by auto
  moreover from this(2) have "k * min_len a \<le> length w" by (rule lang_pow_min) (rule Rep.IH)
  ultimately show ?case by (simp add: order_trans [OF mult_le_mono1])
qed (auto simp: add_mono)

lemma no_match_empty: "mask_safe a mid b pt \<Longrightarrow> \<not> MatchString pt []"
  using match_from_occurs [of pt None "[]"]
  by (auto simp: MatchString_def mask_safe_def occurs_def here_def simp del: match_from.simps)

lemma mask_safeI:
  assumes "wf_regex (pt_body pt)" "0 < min_len (pt_body pt)"
    and "only_chars (\<lambda>c. c \<noteq> a \<and> c \<noteq> b) (pt_body pt)"
    and "\<And>w. w \<in> lang (pt_body pt) \<Longrightarrow> \<not> sublist w mid"
  shows "mask_safe a mid b pt"
  unfolding mask_safe_def
proof (intro conjI ballI)
  fix w assume w: "w \<in> lang (pt_body pt)"
  show "w \<noteq> []" using lang_min_len [OF w] assms(2) by auto
  show "a \<notin> set w" "b \<notin> set w" using lang_only_chars [OF assms(3) w] by auto
  show "\<not> sublist w mid" by (rule assms(4) [OF w])
qed (rule assms(1))

text \<open>The numeric patterns have no letter in a match, and the mask has nothing else.\<close>

lemma mask_safe_numeric:
  assumes "wf_regex (pt_body pt)" "0 < min_len (pt_body pt)"
    and "only_chars (\<lambda>c. c \<noteq> a \<and> c \<noteq> b \<and> \<not> is_alpha c) (pt_body pt)" "\<forall>c \<in> set mid. is_alpha c"
  shows "mask_safe a mid b pt"
proof (rule mask_safeI)
  have weaken: "only_chars (\<lambda>c. c \<noteq> a \<and> c \<noteq> b \<and> \<not> is_alpha c) r \<Longrightarrow> only_chars (\<lambda>c. c \<noteq> a \<and> c \<noteq> b) r" for r
    by (induction r) auto
  show "only_chars (\<lambda>c. c \<noteq> a \<and> c \<noteq> b) (pt_body pt)" by (rule weaken [OF assms(3)])
  fix w assume w: "w \<in> lang (pt_body pt)"
  then obtain c w' where "w = c # w'" using lang_min_len [OF w] assms(2) by (cases w) auto
  then have "c \<in> set w" by simp
  moreover from this have "\<not> is_alpha c" using lang_only_chars [OF assms(3) w] by blast
  ultimately show "\<not> sublist w mid" using assms(4) set_mono_sublist by blast
qed (rule assms)+

abbreviation masked :: "pattern \<Rightarrow> bool" where
  "masked pt \<equiv> mask_safe CHR ''['' ''REDACTED'' CHR '']'' pt"

lemma email_masked: "masked reEmail"
proof (rule mask_safeI)
  fix w assume "w \<in> lang (pt_body reEmail)"
  then have "CHR ''@'' \<in> set w" by (auto simp: reEmail_def simp del: lang.simps(3))
  moreover have "CHR ''@'' \<notin> set ''REDACTED''" by simp
  ultimately show "\<not> sublist w ''REDACTED''" using set_mono_sublist by blast
qed (auto simp: reEmail_def local_char_def domain_char_def is_alpha_def is_digit_def)

lemmas numeric_char_defs = is_alpha_def is_digit_def sep_char_def card_sep_def

lemma ssn_masked: "masked reSSN"
  by (rule mask_safe_numeric) (auto simp: reSSN_def numeric_char_defs)

lemma phone_masked: "masked rePhone"
  by (rule mask_safe_numeric) (auto simp: rePhone_def numeric_char_defs)

lemma card_masked: "masked reCard"
  by (rule mask_safe_numeric) (auto simp: reCard_def numeric_char_defs)

lemma redactionMask_parts: "redactionMask = CHR ''['' # ''REDACTED'' @ [CHR '']'']"
  by (simp add: redactionMask_def)

lemma numeric_bounded: "pt_bounded reSSN" "pt_bounded rePhone" "pt_bounded reCard"
  by (simp_all add: reSSN_def rePhone_def reCard_def)

lemma RedactOutput_clean:
  "cfg_RedactPIIOutput (gd_cfg g) \<Longrightarrow> piiHits (fst (RedactOutput (Some g) text)) = []"
proof -
  assume on: "cfg_RedactPIIOutput (gd_cfg g)"
  define s1 where "s1 = ReplaceAllString reEmail text redactionMask"
  define s2 where "s2 = ReplaceAllString reSSN s1 redactionMask"
  define s3 where "s3 = ReplaceAllString rePhone s2 redactionMask"
  define s4 where "s4 = ReplaceAllString reCard s3 redactionMask"
  note removes = ReplaceAllString_removes [where a = "CHR ''[''" and b = "CHR '']''" and mid = "''REDACTED''", folded redactionMask_parts]
  note keeps = ReplaceAllString_keeps_out [where a = "CHR ''[''" and b = "CHR '']''" and mid = "''REDACTED''", folded redactionMask_parts]
  have 1: "\<not> MatchString reEmail s1" unfolding s1_def by (rule removes [OF email_masked])
  have 2: "\<not> MatchString reEmail s2" "\<not> MatchString reSSN s2" unfolding s2_def
    by (rule keeps [OF ssn_masked numeric_bounded(1) email_masked 1], rule removes [OF ssn_masked])
  have 3: "\<not> MatchString reEmail s3" "\<not> MatchString reSSN s3" "\<not> MatchString rePhone s3" unfolding s3_def
    by (rule keeps [OF phone_masked numeric_bounded(2) email_masked 2(1)],
        rule keeps [OF phone_masked numeric_bounded(2) ssn_masked 2(2)], rule removes [OF phone_masked])
  have 4: "\<not> MatchString reEmail s4" "\<not> MatchString reSSN s4" "\<not> MatchString rePhone s4" "\<not> MatchString reCard s4"
    unfolding s4_def
    by (rule keeps [OF card_masked numeric_bounded(3) email_masked 3(1)],
        rule keeps [OF card_masked numeric_bounded(3) ssn_masked 3(2)],
        rule keeps [OF card_masked numeric_bounded(3) phone_masked 3(3)], rule removes [OF card_masked])
  have "redact_pii text = s4" by (simp add: redact_pii_def s1_def s2_def s3_def s4_def)
  moreover have "piiHits [] = []"
    by (simp add: piiHits_def no_match_empty [OF email_masked] no_match_empty [OF ssn_masked]
        no_match_empty [OF phone_masked] no_match_empty [OF card_masked])
  moreover have "piiHits s4 = []" using 4 by (simp add: piiHits_def)
  ultimately show ?thesis using on by (simp add: RedactOutput_def Let_def)
qed

text \<open>
  C16. Redaction is complete: when output redaction is on, the text \<open>RedactOutput\<close> returns has no
  email, social-security, phone or card number that the detector of the same package would report,
  whatever the response was - no pass leaves an occurrence of its own pattern, and no later pass
  creates one by joining the text around a mask.
\<close>

theorem RedactOutput_complete:
  "cfg_RedactPIIOutput (gd_cfg g) \<Longrightarrow> piiHits (fst (RedactOutput (Some g) text)) = []"
  by (rule RedactOutput_clean)

theorem RedactOutput_complete_witness:
  "piiHits (fst (RedactOutput (Some \<lparr>gd_cfg = \<lparr>cfg_Enabled = True, cfg_BlockPIIInput = False,
      cfg_RedactPIIOutput = True, cfg_MaxInputChars = 0, cfg_DenyPatterns = [],
      cfg_ValidateJSONOutput = False\<rparr>, gd_denyCompiled = [] :: (string \<times> unit) list\<rparr>)
      ''a@b.co 123-45-6789'')) = []"
  by (rule RedactOutput_complete) simp

section \<open>Repair\<close>

subsection \<open>Trimming around a core\<close>

lemma trim_front_stop:
  assumes "\<forall>w \<in> set ws. x \<notin> set w"
  shows "\<exists>a'. suffix a' a \<and> trim_front ws (a @ x # b) = a' @ x # b"
proof (induction "length a" arbitrary: a rule: less_induct)
  case less
  show ?case
  proof (cases "find (\<lambda>w. w \<noteq> [] \<and> prefix w (a @ x # b)) ws")
    case None
    then show ?thesis by (subst trim_front.simps) auto
  next
    case (Some w)
    then have w: "w \<noteq> []" "prefix w (a @ x # b)" "w \<in> set ws" by (auto simp: find_Some_iff)
    have "prefix w a"
    proof (rule ccontr)
      assume "\<not> prefix w a"
      with w(2) obtain u where "w = a @ u" "prefix u (x # b)" "u \<noteq> []" by (auto simp: prefix_append)
      then have "x \<in> set w" by (cases u) auto
      with assms w(3) show False by blast
    qed
    then obtain a1 where a1: "a = w @ a1" by (auto simp: prefix_def)
    then obtain a' where "suffix a' a1" "trim_front ws (a1 @ x # b) = a' @ x # b"
      using less [of a1] w(1) by auto
    with Some a1 show ?thesis
      by (intro exI [of _ a']) (subst trim_front.simps, auto simp: suffix_appendI)
  qed
qed

text \<open>The ASCII bytes that are not white space are in no white-space rune.\<close>

definition solid :: "char \<Rightarrow> bool" where
  "solid c \<longleftrightarrow> (\<forall>w \<in> set space_runes. c \<notin> set w)"

lemma TrimSpace_core:
  assumes "solid x" "solid y"
  obtains pre' post' where "suffix pre' pre" "prefix post' post"
    "strings_TrimSpace (pre @ (x # mid @ [y]) @ post) = pre' @ (x # mid @ [y]) @ post'"
proof -
  obtain pre' where p: "suffix pre' pre"
    "trim_front space_runes (pre @ x # mid @ y # post) = pre' @ x # mid @ y # post"
    using trim_front_stop [of space_runes x pre "mid @ y # post"] assms(1) by (auto simp: solid_def)
  obtain q where q: "suffix q (rev post)"
    "trim_front (map rev space_runes) (rev post @ y # rev (pre' @ x # mid)) = q @ y # rev (pre' @ x # mid)"
    using trim_front_stop [of "map rev space_runes" y "rev post" "rev (pre' @ x # mid)"] assms(2)
    by (auto simp: solid_def)
  have "prefix (rev q) post" using q(1) by (metis rev_rev_ident suffix_to_prefix)
  then show thesis using p q(2) that [of pre' "rev q"] by (simp add: strings_TrimSpace_def)
qed

lemma TrimSpace_solid: "solid x \<Longrightarrow> solid y \<Longrightarrow> strings_TrimSpace (x # mid @ [y]) = x # mid @ [y]"
  by (rule TrimSpace_core [of x y "[]" "[]" mid]) auto

subsection \<open>JSON texts\<close>

text \<open>The grammar of JSON values (RFC 8259). Numbers and the escapes of a string are taken with
  fewer restrictions than the grammar has, which only adds texts.\<close>

inductive str_body :: "string \<Rightarrow> bool" where
  str_end: "str_body []"
| str_plain: "c \<noteq> CHR 0x22 \<Longrightarrow> c \<noteq> CHR 0x5C \<Longrightarrow> str_body s \<Longrightarrow> str_body (c # s)"
| str_escape: "str_body s \<Longrightarrow> str_body (CHR 0x5C # c # s)"

definition json_ws :: "string \<Rightarrow> bool" where
  "json_ws s \<longleftrightarrow> set s \<subseteq> {CHR '' '', CHR 0x09, CHR 0x0A, CHR 0x0D}"

definition json_number :: "string \<Rightarrow> bool" where
  "json_number s \<longleftrightarrow> s \<noteq> [] \<and> set s \<subseteq> set ''0123456789+-.eE''"

inductive json_value and json_items and json_members where
  json_word: "s \<in> {''true'', ''false'', ''null''} \<Longrightarrow> json_value s"
| json_num: "json_number s \<Longrightarrow> json_value s"
| json_str: "str_body b \<Longrightarrow> json_value (CHR 0x22 # b @ [CHR 0x22])"
| json_arr0: "json_ws w \<Longrightarrow> json_value (CHR ''['' # w @ [CHR '']''])"
| json_arr: "json_items s \<Longrightarrow> json_value (CHR ''['' # s @ [CHR '']''])"
| json_obj0: "json_ws w \<Longrightarrow> json_value (CHR ''{'' # w @ [CHR ''}''])"
| json_obj: "json_members s \<Longrightarrow> json_value (CHR ''{'' # s @ [CHR ''}''])"
| json_item: "json_ws w1 \<Longrightarrow> json_value v \<Longrightarrow> json_ws w2 \<Longrightarrow> json_items (w1 @ v @ w2)"
| json_item_more: "json_ws w1 \<Longrightarrow> json_value v \<Longrightarrow> json_ws w2 \<Longrightarrow> json_items s \<Longrightarrow>
    json_items (w1 @ v @ w2 @ CHR '','' # s)"
| json_member: "json_ws w1 \<Longrightarrow> str_body k \<Longrightarrow> json_ws w2 \<Longrightarrow> json_ws w3 \<Longrightarrow> json_value v \<Longrightarrow>
    json_ws w4 \<Longrightarrow> json_members (w1 @ CHR 0x22 # k @ CHR 0x22 # w2 @ CHR '':'' # w3 @ v @ w4)"
| json_member_more: "json_ws w1 \<Longrightarrow> str_body k \<Longrightarrow> json_ws w2 \<Longrightarrow> json_ws w3 \<Longrightarrow> json_value v \<Longrightarrow>
    json_ws w4 \<Longrightarrow> json_members s \<Longrightarrow>
    json_members (w1 @ CHR 0x22 # k @ CHR 0x22 # w2 @ CHR '':'' # w3 @ v @ w4 @ CHR '','' # s)"

text \<open>What the scanner relies on: strings closed, brackets of both kinds nested.\<close>

inductive balanced :: "string \<Rightarrow> bool" where
  bal_nil: "balanced []"
| bal_char: "c \<notin> {CHR 0x22, CHR ''{'', CHR ''}'', CHR ''['', CHR '']''} \<Longrightarrow> balanced [c]"
| bal_str: "str_body b \<Longrightarrow> balanced (CHR 0x22 # b @ [CHR 0x22])"
| bal_obj: "balanced a \<Longrightarrow> balanced (CHR ''{'' # a @ [CHR ''}''])"
| bal_arr: "balanced a \<Longrightarrow> balanced (CHR ''['' # a @ [CHR '']''])"
| bal_app: "balanced a \<Longrightarrow> balanced b \<Longrightarrow> balanced (a @ b)"

lemma balanced_Cons: "c \<notin> {CHR 0x22, CHR ''{'', CHR ''}'', CHR ''['', CHR '']''} \<Longrightarrow> balanced s \<Longrightarrow> balanced (c # s)"
  using bal_app [OF bal_char, of c s] by simp

lemma balanced_plain: "set s \<inter> {CHR 0x22, CHR ''{'', CHR ''}'', CHR ''['', CHR '']''} = {} \<Longrightarrow> balanced s"
  by (induction s) (auto intro: bal_nil balanced_Cons)

lemma balanced_ws: "json_ws w \<Longrightarrow> balanced w"
  by (rule balanced_plain) (auto simp: json_ws_def)

lemma balanced_str: "str_body k \<Longrightarrow> balanced s \<Longrightarrow> balanced (CHR 0x22 # k @ CHR 0x22 # s)"
  using bal_app [OF bal_str] by fastforce

lemma balanced_member:
  assumes "json_ws w1" "str_body k" "json_ws w2" "balanced s"
  shows "balanced (w1 @ CHR 0x22 # k @ CHR 0x22 # w2 @ CHR '':'' # s)"
  by (rule bal_app [OF balanced_ws [OF assms(1)] balanced_str [OF assms(2)
        bal_app [OF balanced_ws [OF assms(3)] balanced_Cons [OF _ assms(4)]]]]) simp

lemma json_balanced:
  "json_value v \<Longrightarrow> balanced v" "json_items s \<Longrightarrow> balanced s" "json_members t \<Longrightarrow> balanced t"
proof (induction rule: json_value_json_items_json_members.inducts)
  case (json_word s)
  then show ?case by (intro balanced_plain) auto
next
  case (json_num s)
  then show ?case by (intro balanced_plain) (auto simp: json_number_def)
next
  case (json_item_more w1 v w2 s)
  then show ?case by (auto intro!: bal_app balanced_Cons intro: balanced_ws)
next
  case (json_member w1 k w2 w3 v w4)
  then show ?case by (intro balanced_member) (auto intro: bal_app balanced_ws)
next
  case (json_member_more w1 k w2 w3 v w4 s)
  then show ?case by (intro balanced_member) (auto intro!: bal_app balanced_Cons intro: balanced_ws)
qed (auto intro: bal_str bal_obj bal_arr bal_app balanced_ws)

lemma container_parts:
  assumes "json_value v" "hd v = CHR ''{'' \<or> hd v = CHR ''[''"
  obtains a where "v = hd v # a @ [if hd v = CHR ''{'' then CHR ''}'' else CHR '']'']" "balanced a"
  using assms
proof (cases rule: json_value.cases)
  case json_num
  with assms(2) show ?thesis by (cases v) (auto simp: json_number_def)
qed (use assms(2) in \<open>auto intro: that dest: json_balanced balanced_ws\<close>)

subsection \<open>The scanner\<close>

abbreviation bracket_pair :: "char \<Rightarrow> char \<Rightarrow> bool" where
  "bracket_pair opn cls \<equiv> opn = CHR ''{'' \<and> cls = CHR ''}'' \<or> opn = CHR ''['' \<and> cls = CHR '']''"

lemma scan_close_str:
  "str_body b \<Longrightarrow>
   scan_close opn cls d True False (b @ CHR 0x22 # s)
     = map_option (\<lambda>n. n + Suc (length b)) (scan_close opn cls d False False s)"
  by (induction arbitrary: s rule: str_body.induct) (simp_all add: option.map_comp comp_def)

lemma scan_close_balanced:
  assumes "balanced a" "0 < d" "bracket_pair opn cls"
  shows "scan_close opn cls d False False (a @ s)
    = map_option (\<lambda>n. n + length a) (scan_close opn cls d False False s)"
  using assms
proof (induction arbitrary: d s rule: balanced.induct)
  case (bal_str b)
  then show ?case using scan_close_str [OF bal_str(1), of opn cls d s]
    by (auto simp: option.map_comp comp_def)
next
  case (bal_app a b)
  then show ?case by (simp add: option.map_comp comp_def ac_simps)
qed (auto simp: option.map_comp comp_def option.map_ident)

lemma extractBracketed_container:
  assumes "\<forall>c \<in> set pre. c \<noteq> CHR ''{'' \<and> c \<noteq> CHR ''[''" "balanced a" "bracket_pair x y"
  shows "extractBracketed (pre @ (x # a @ [y]) @ post) = Some (x # a @ [y])"
proof -
  have "dropWhile (\<lambda>c. c \<noteq> CHR ''{'' \<and> c \<noteq> CHR ''['') (pre @ (x # a @ [y]) @ post) = x # a @ y # post"
    using assms(1,3) by (subst dropWhile_append2) auto
  moreover have "scan_close x y 0 False False (x # a @ y # post) = Some (Suc (Suc (length a)))"
    using assms(3) scan_close_balanced [OF assms(2), of 1 x y "y # post"] by auto
  ultimately show ?thesis using assms(3) by (auto simp: extractBracketed_def Let_def)
qed

lemma before_last_found:
  assumes "sub \<noteq> []"
  obtains r where "before_last sub (a @ sub @ b) = Some (a @ r)"
proof -
  have "\<exists>r. before_last sub (a @ sub @ b) = Some (a @ r)"
  proof (induction a)
    case Nil
    from assms show ?case by (cases sub) (auto split: option.split)
  qed auto
  then show thesis using that by blast
qed

text \<open>The candidate is a container with text around it that has no bracket in front.\<close>

lemma RepairJSON_candidate:
  assumes "balanced a" "bracket_pair x y" "\<forall>c \<in> set pre. c \<noteq> CHR ''{'' \<and> c \<noteq> CHR ''[''"
    and v: "v = x # a @ [y]"
    and strip: "stripCodeFence (strings_TrimSpace s) = strings_TrimSpace (pre @ v @ post)"
  shows "RepairJSON s = (if strings_TrimSpace s = v then (s, False) else (v, True))"
proof -
  have solid: "solid x" "solid y" using assms(2) by (auto simp: solid_def space_runes_def)
  obtain pre' post' where t: "suffix pre' pre"
    "strings_TrimSpace (pre @ (x # a @ [y]) @ post) = pre' @ (x # a @ [y]) @ post'"
    by (rule TrimSpace_core [OF solid, of pre post a])
  have "\<forall>c \<in> set pre'. c \<noteq> CHR ''{'' \<and> c \<noteq> CHR ''[''" using assms(3) set_mono_suffix [OF t(1)] by blast
  note ext = extractBracketed_container [OF this assms(1,2), of post']
  have "extractBracketed (stripCodeFence (strings_TrimSpace s)) = Some v" unfolding strip v t(2) by (rule ext)
  moreover have "strings_TrimSpace v = v" "v \<noteq> []" using TrimSpace_solid [OF solid] v by simp_all
  ultimately show ?thesis by (auto simp: RepairJSON_def Let_def)
qed

lemma stripCodeFence_fenced:
  assumes "CHR 0x0A \<notin> set info" "solid (CHR 0x60)"
  obtains r where "stripCodeFence (strings_TrimSpace (fence @ info @ CHR 0x0A # body @ fence @ rest))
      = strings_TrimSpace (body @ r)"
proof -
  let ?mid = "[CHR 0x60, CHR 0x60] @ info @ CHR 0x0A # body @ [CHR 0x60, CHR 0x60]"
  obtain pre' post' where "suffix pre' []"
    "strings_TrimSpace ([] @ (CHR 0x60 # ?mid @ [CHR 0x60]) @ rest) = pre' @ (CHR 0x60 # ?mid @ [CHR 0x60]) @ post'"
    by (rule TrimSpace_core [OF assms(2) assms(2)])
  then have t: "strings_TrimSpace (fence @ info @ CHR 0x0A # body @ fence @ rest)
      = (fence @ info) @ CHR 0x0A # (body @ fence @ post')" by simp
  obtain r where "before_last fence (body @ fence @ post') = Some (body @ r)"
    by (rule before_last_found [of fence body post']) auto
  moreover have "strings_Cut (CHR 0x0A) ((fence @ info) @ CHR 0x0A # (body @ fence @ post'))
      = Some (fence @ info, body @ fence @ post')"
    by (rule strings_Cut_append) (use assms(1) in auto)
  ultimately show thesis using that [of r] unfolding t by (simp add: stripCodeFence_def)
qed

text \<open>
  C24. Local repair recovers the JSON a model wrapped. If a response is a JSON object or array with
  text around it, the text before it has no opening bracket, and either that text has no backquote
  (prose) or it is the opening line of a code fence that is closed after the value, then
  \<open>RepairJSON\<close> returns exactly that JSON text - or reports that there is nothing to repair when
  only white space was around it. Brackets, quotes and fences inside the strings of the value do not
  mislead it.
\<close>

theorem RepairJSON_recovers:
  assumes "json_value v" "hd v = CHR ''{'' \<or> hd v = CHR ''[''"
    and "\<forall>c \<in> set pre. c \<noteq> CHR ''{'' \<and> c \<noteq> CHR ''[''"
    and "CHR 0x60 \<notin> set pre
      \<or> (\<exists>info. pre = fence @ info @ [CHR 0x0A] \<and> CHR 0x0A \<notin> set info \<and> sublist fence post)"
  shows "RepairJSON (pre @ v @ post)
    = (if strings_TrimSpace (pre @ v @ post) = v then (pre @ v @ post, False) else (v, True))"
proof -
  define x y where "x = hd v" and "y = (if x = CHR ''{'' then CHR ''}'' else CHR '']'')"
  have xy: "bracket_pair x y" using assms(2) by (auto simp: x_def y_def)
  obtain a where v: "v = x # a @ [y]" and a: "balanced a"
    using container_parts [OF assms(1,2)] unfolding x_def y_def by blast
  have solid: "solid x" "solid y" "solid (CHR 0x60)" using xy by (auto simp: solid_def space_runes_def)
  from assms(4) show ?thesis
  proof
    assume "CHR 0x60 \<notin> set pre"
    moreover obtain pre' post' where t: "suffix pre' pre"
      "strings_TrimSpace (pre @ v @ post) = pre' @ v @ post'"
      unfolding v by (rule TrimSpace_core [OF solid(1,2), of pre post a])
    ultimately have "\<not> prefix fence (strings_TrimSpace (pre @ v @ post))"
      using xy by (cases pre') (auto simp: v suffix_def)
    then have "stripCodeFence (strings_TrimSpace (pre @ v @ post)) = strings_TrimSpace (pre @ v @ post)"
      by (simp only: stripCodeFence_def) simp
    then show ?thesis by (rule RepairJSON_candidate [OF a xy assms(3) v])
  next
    assume "\<exists>info. pre = fence @ info @ [CHR 0x0A] \<and> CHR 0x0A \<notin> set info \<and> sublist fence post"
    then obtain info p q where p: "pre @ v @ post = fence @ info @ CHR 0x0A # (v @ p) @ fence @ q"
      "CHR 0x0A \<notin> set info" by (auto simp: sublist_def)
    obtain r where r: "stripCodeFence (strings_TrimSpace (pre @ v @ post)) = strings_TrimSpace ((v @ p) @ r)"
      unfolding p(1) by (rule stripCodeFence_fenced [OF p(2) solid(3), of "v @ p" q])
    from r(1) have "stripCodeFence (strings_TrimSpace (pre @ v @ post)) = strings_TrimSpace ([] @ v @ p @ r)"
      by (simp only: append_assoc append_Nil)
    from RepairJSON_candidate [OF a xy _ v this] show ?thesis by simp
  qed
qed

definition sample_object :: string where
  "sample_object = CHR ''{'' # CHR 0x22 # ''a'' @ CHR 0x22 # '':'' @ (''['' @ ''1'' @ '']'') @ ''}''"

lemma sample_object_json: "json_value sample_object"
proof -
  have ws: "json_ws []" by (simp add: json_ws_def)
  have "json_value (CHR ''['' # ([] @ ''1'' @ []) @ [CHR '']''])"
    by (intro json_arr json_item json_num ws) (simp add: json_number_def)
  then have "json_members ([] @ CHR 0x22 # ''a'' @ CHR 0x22 # [] @ CHR '':'' # [] @ (''['' @ ''1'' @ '']'') @ [])"
    by (intro json_member ws) (auto intro: str_body.intros)
  from json_obj [OF this] show ?thesis by (simp add: sample_object_def)
qed

theorem RepairJSON_recovers_witness:
  "RepairJSON (''Sure: '' @ sample_object @ ''!'')
    = (if strings_TrimSpace (''Sure: '' @ sample_object @ ''!'') = sample_object
       then (''Sure: '' @ sample_object @ ''!'', False) else (sample_object, True))"
  by (rule RepairJSON_recovers [OF sample_object_json]) (simp_all add: sample_object_def)

section \<open>Repair does not undo redaction\<close>

text \<open>Repair cuts a piece out of the text. A cut could create an occurrence of a pattern that looks at
  word boundaries: cutting a digit off a longer number can leave a card number. The cuts of \<open>RepairJSON\<close> do
  not: each end is at a byte that is not part of a word, or at a bracket, which no pattern matches.\<close>

definition edge :: "char \<Rightarrow> bool" where
  "edge c \<longleftrightarrow> c \<in> {CHR ''{'', CHR ''}'', CHR ''['', CHR '']''}"

definition safe_cut :: "string \<Rightarrow> string \<Rightarrow> bool" where
  "safe_cut s c \<longleftrightarrow> (\<exists>a b. s = a @ c @ b
     \<and> (\<not> word_opt (before None a) \<or> (\<exists>x c'. c = x # c' \<and> edge x))
     \<and> (\<not> word_opt (head b) \<or> (\<exists>x c'. c = c' @ [x] \<and> edge x)))"

lemma safe_cut_occurs:
  assumes "safe_cut s c" "\<forall>w \<in> lang (pt_body pt). w \<noteq> [] \<and> (\<forall>x \<in> set w. \<not> edge x)" "occurs pt None c"
  shows "occurs pt None s"
proof -
  obtain a b where s: "s = a @ c @ b" and l: "\<not> word_opt (before None a) \<or> (\<exists>x c'. c = x # c' \<and> edge x)"
    and r: "\<not> word_opt (head b) \<or> (\<exists>x c'. c = c' @ [x] \<and> edge x)" using assms(1) by (auto simp: safe_cut_def)
  obtain z w v where c: "c = z @ w @ v" and w: "w \<in> lang (pt_body pt)"
    and bd: "pt_bounded pt \<longrightarrow> boundary (before None z) (w @ v) \<and> boundary (before (before None z) w) v"
    using assms(3) by (auto simp: occurs_def here_def)
  have ne: "w \<noteq> []" and chars: "\<forall>x \<in> set w. \<not> edge x" using assms(2) w by auto
  have left: "word_opt (before None (a @ z)) = word_opt (before None z)"
  proof (cases z)
    case Nil
    then have "\<not> (\<exists>x c'. c = x # c' \<and> edge x)" using c ne chars by (cases w) auto
    then have "\<not> word_opt (before None a)" using l by blast
    then show ?thesis using Nil by (simp add: word_opt_def)
  qed (simp add: before_def)
  have right: "word_opt (head (v @ b)) = word_opt (head v)"
  proof (cases v)
    case Nil
    then have "\<not> (\<exists>x c'. c = c' @ [x] \<and> edge x)" using c ne chars by (cases w rule: rev_cases) auto
    then have "\<not> word_opt (head b)" using r by blast
    then show ?thesis using Nil by (simp add: word_opt_def head_def)
  qed (simp add: head_def)
  have "here pt (before None (a @ z)) (w @ v @ b)"
    unfolding here_def
  proof (intro exI conjI impI)
    show "w @ v @ b = w @ (v @ b)" by simp
    assume "pt_bounded pt"
    then have "boundary (before None z) (w @ v)" "boundary (before (before None z) w) v" using bd by auto
    moreover have "head (w @ v @ b) = head (w @ v)" using ne by (cases w) (simp_all add: head_def)
    moreover have "before (before None (a @ z)) w = before (before None z) w" using ne by (simp add: before_def)
    ultimately show "boundary (before None (a @ z)) (w @ v @ b)" "boundary (before (before None (a @ z)) w) (v @ b)"
      using left right by (simp_all add: boundary_def)
  qed (rule w)
  then show ?thesis unfolding s c occurs_def by (intro exI [of _ "a @ z"] exI [of _ "w @ v @ b"]) simp
qed

lemma only_chars_mono: "only_chars P r \<Longrightarrow> (\<And>c. P c \<Longrightarrow> Q c) \<Longrightarrow> only_chars Q r"
  by (induction r) auto

lemma no_edges:
  assumes "only_chars (\<lambda>c. \<not> edge c) (pt_body pt)" "0 < min_len (pt_body pt)"
  shows "\<forall>w \<in> lang (pt_body pt). w \<noteq> [] \<and> (\<forall>x \<in> set w. \<not> edge x)"
  using lang_only_chars [OF assms(1)] lang_min_len assms(2) by fastforce

lemma pii_no_edges:
  assumes "pt \<in> {reEmail, reSSN, rePhone, reCard}"
  shows "\<forall>w \<in> lang (pt_body pt). w \<noteq> [] \<and> (\<forall>x \<in> set w. \<not> edge x)"
  by (rule no_edges) (use assms in \<open>auto simp: reEmail_def reSSN_def rePhone_def reCard_def edge_def local_char_def domain_char_def
      numeric_char_defs\<close>)

lemma safe_cut_MatchString:
  assumes "safe_cut s c" "pt \<in> {reEmail, reSSN, rePhone, reCard}" "MatchString pt c"
  shows "MatchString pt s"
proof -
  have "wf_regex (pt_body pt)"
    using assms(2) email_masked ssn_masked phone_masked card_masked by (auto simp: mask_safe_def)
  then show ?thesis
    using assms(3) safe_cut_occurs [OF assms(1) pii_no_edges [OF assms(2)]] by (simp add: MatchString_def match_from_occurs)
qed

lemma safe_cut_clean: "safe_cut s c \<Longrightarrow> piiHits s = [] \<Longrightarrow> piiHits c = []"
  using safe_cut_MatchString by (auto simp: piiHits_def split: if_splits)

lemma space_not_word: "w \<in> set space_runes \<Longrightarrow> x \<in> set w \<Longrightarrow> \<not> is_word x"
  by (auto simp: space_runes_def is_word_def is_digit_def)

lemma trim_front_cut:
  assumes "\<forall>w \<in> set ws. \<forall>x \<in> set w. \<not> is_word x"
  shows "\<exists>a. s = a @ trim_front ws s \<and> (\<forall>x \<in> set a. \<not> is_word x)"
proof (induction "length s" arbitrary: s rule: less_induct)
  case less
  show ?case
  proof (cases "find (\<lambda>w. w \<noteq> [] \<and> prefix w s) ws")
    case None
    then show ?thesis by (subst trim_front.simps) simp
  next
    case (Some w)
    then have w: "w \<noteq> []" "prefix w s" "w \<in> set ws" by (auto simp: find_Some_iff)
    then obtain s' where s': "s = w @ s'" by (auto simp: prefix_def)
    then obtain a where "s' = a @ trim_front ws s'" "\<forall>x \<in> set a. \<not> is_word x" using less [of s'] w(1) by auto
    then show ?thesis using Some s' w(3) assms by (intro exI [of _ "w @ a"]) (subst trim_front.simps, auto)
  qed
qed

lemma TrimSpace_cut: "safe_cut s (strings_TrimSpace s)"
proof -
  obtain a where a: "s = a @ trim_front space_runes s" "\<forall>x \<in> set a. \<not> is_word x"
    using trim_front_cut [of space_runes s] space_not_word by blast
  obtain b where b: "rev (trim_front space_runes s) = b @ trim_front (map rev space_runes) (rev (trim_front space_runes s))"
      "\<forall>x \<in> set b. \<not> is_word x"
    using trim_front_cut [of "map rev space_runes" "rev (trim_front space_runes s)"] space_not_word by fastforce
  have "trim_front space_runes s = strings_TrimSpace s @ rev b"
    using arg_cong [OF b(1), of rev] by (simp add: strings_TrimSpace_def)
  with a(1) have "s = a @ strings_TrimSpace s @ rev b" by simp
  moreover have "\<not> word_opt (before None a)" using a(2) by (cases a rule: rev_cases) (simp_all add: before_def word_opt_def)
  moreover have "\<not> word_opt (head (rev b))" using b(2) by (cases b rule: rev_cases) (simp_all add: head_def word_opt_def)
  ultimately show ?thesis unfolding safe_cut_def by blast
qed

lemma before_last_cut: "before_last sub s = Some pre \<Longrightarrow> \<exists>b. s = pre @ sub @ b"
proof (induction s arbitrary: pre)
  case (Cons c s)
  show ?case
  proof (cases "before_last sub s")
    case None
    then show ?thesis using Cons.prems by (auto simp: prefix_def split: if_splits)
  next
    case (Some pre')
    then show ?thesis using Cons by auto
  qed
qed (simp split: if_splits)

lemma stripCodeFence_clean:
  assumes "piiHits s = []"
  shows "piiHits (stripCodeFence s) = []"
proof (cases "prefix fence s \<and> strings_Cut (CHR 0x0A) s \<noteq> None")
  case True
  then obtain line rest where cut: "strings_Cut (CHR 0x0A) s = Some (line, rest)" by auto
  then have s: "s = line @ CHR 0x0A # rest" by (simp add: strings_Cut_Some)
  have "safe_cut s rest" unfolding safe_cut_def s
    by (intro exI [of _ "line @ [CHR 0x0A]"] exI [of _ "[]"]) (simp add: before_def word_opt_def head_def is_word_def is_digit_def)
  then have rest: "piiHits rest = []" using assms by (rule safe_cut_clean)
  define pre where "pre = (case before_last fence rest of Some pre \<Rightarrow> pre | None \<Rightarrow> rest)"
  have "piiHits pre = []"
  proof (cases "before_last fence rest")
    case (Some p)
    then obtain b where "rest = p @ fence @ b" using before_last_cut by blast
    then have "safe_cut rest p" unfolding safe_cut_def
      by (intro exI [of _ "[]"] exI [of _ "fence @ b"]) (simp add: before_def word_opt_def head_def is_word_def is_digit_def)
    then show ?thesis using rest Some by (simp add: pre_def safe_cut_clean)
  qed (simp add: pre_def rest)
  then have "piiHits (strings_TrimSpace pre) = []" by (rule safe_cut_clean [OF TrimSpace_cut])
  then show ?thesis using True cut by (simp add: stripCodeFence_def pre_def)
qed (use assms in \<open>auto simp: stripCodeFence_def split: option.split\<close>)

lemma scan_close_last:
  "scan_close opn cls depth inStr esc s = Some n \<Longrightarrow> \<exists>u v. s = u @ cls # v \<and> n = Suc (length u)"
proof (induction s arbitrary: depth inStr esc n)
  case (Cons c s)
  have "(c = cls \<and> n = 1) \<or> (\<exists>d i e m. scan_close opn cls d i e s = Some m \<and> n = Suc m)"
    using Cons.prems by (auto split: if_splits)
  then show ?case
  proof
    assume "c = cls \<and> n = 1"
    then show ?thesis by (intro exI [of _ "[]"] exI [of _ s]) simp
  next
    assume "\<exists>d i e m. scan_close opn cls d i e s = Some m \<and> n = Suc m"
    then obtain u v where "s = u @ cls # v" "n = Suc (Suc (length u))" using Cons.IH by blast
    then show ?thesis by (intro exI [of _ "c # u"] exI [of _ v]) simp
  qed
qed simp

lemma extractBracketed_cut:
  assumes "extractBracketed s = Some e"
  shows "safe_cut s e"
proof -
  define rest where "rest = dropWhile (\<lambda>c. c \<noteq> CHR ''{'' \<and> c \<noteq> CHR ''['') s"
  obtain c t n where rest: "rest = c # t" and e: "e = take n rest"
      and sc: "scan_close c (if c = CHR ''{'' then CHR ''}'' else CHR '']'') 0 False False rest = Some n"
    using assms unfolding extractBracketed_def rest_def [symmetric] Let_def by (auto split: list.splits)
  have "edge c" using rest hd_dropWhile [of "\<lambda>c. c \<noteq> CHR ''{'' \<and> c \<noteq> CHR ''[''" s] by (auto simp: rest_def [symmetric] edge_def)
  obtain u v x where uv: "rest = u @ x # v" "n = Suc (length u)" "edge x"
    using scan_close_last [OF sc] by (auto simp: edge_def split: if_splits)
  then have ex: "e = u @ [x]" by (simp add: e)
  then have "\<exists>e'. e = c # e'" using rest uv(1) by (cases u) auto
  moreover have "s = takeWhile (\<lambda>c. c \<noteq> CHR ''{'' \<and> c \<noteq> CHR ''['') s @ e @ v"
    unfolding ex using uv(1) unfolding rest_def by (metis append.assoc append_Cons append_Nil takeWhile_dropWhile_id)
  ultimately show ?thesis using \<open>edge c\<close> uv(3) ex unfolding safe_cut_def by blast
qed

lemma RepairJSON_clean:
  assumes "piiHits s = []"
  shows "piiHits (fst (RepairJSON s)) = []"
proof -
  have 1: "piiHits (strings_TrimSpace t) = []" if "piiHits t = []" for t using safe_cut_clean [OF TrimSpace_cut that] .
  define c where "c = stripCodeFence (strings_TrimSpace s)"
  have c: "piiHits c = []" unfolding c_def by (intro stripCodeFence_clean 1 assms)
  define d where "d = (case extractBracketed c of Some ext \<Rightarrow> ext | None \<Rightarrow> c)"
  have "piiHits d = []" using c safe_cut_clean extractBracketed_cut by (auto simp: d_def split: option.split)
  from 1 [OF this] assms show ?thesis unfolding RepairJSON_def Let_def c_def [symmetric] d_def [symmetric] by simp
qed

end
