(* ===== verification/SemCache.thy ===== *)
theory SemCache
  imports Nexus_Prelude
begin

text \<open>
  The semantic response cache (\<open>internal/semcache\<close>): the entry scan, the in-process backend, the
  Redis backend over the list commands it sends, and the service in front of a backend.

  Times are nanoseconds, as \<open>time.Time\<close> has them; \<open>Unix\<close> gives the seconds the entries keep. A
  byte slice that may be nil is an option, since the scan tells a nil response from an empty one.
  SHA-256, the embedder, the JSON codec of an entry and the Redis client are arguments.
\<close>

type_synonym vec = "float64 list"
type_synonym gobytes = "string option"

section \<open>Configuration and entries\<close>

record semcache_Config =
  sc_Enabled :: bool
  sc_TTL :: duration
  sc_Threshold :: float64
  sc_MaxEntriesPerModel :: int
  sc_EmbeddingsURL :: string
  sc_EmbeddingsModel :: string
  sc_EmbeddingsAPIKey :: string
  sc_Timeout :: duration
  sc_ExactMatch :: bool

record Hit =
  hit_ResponseJSON :: gobytes
  hit_Similarity :: float64

record storedEntry =
  se_Embedding :: vec
  se_Response :: gobytes
  se_ExpiresAt :: int
  se_PromptHash :: string

definition Unix :: "int \<Rightarrow> int" where
  "Unix t = t div 1000000000"

definition promptHash :: "(string \<Rightarrow> string) \<Rightarrow> string \<Rightarrow> string" where
  "promptHash sha256 prompt = hex_EncodeToString (sha256 prompt)"

definition redisKey :: "string \<Rightarrow> string \<Rightarrow> string" where
  "redisKey scope model = ''nexus:sem:'' @ strconv_Itoa (length scope) @ '':'' @ scope @ '':'' @ model"

definition effectiveConfig :: "semcache_Config \<Rightarrow> semcache_Config" where
  "effectiveConfig cfg =
     (let cfg = (if sc_TTL cfg \<le> 0 then cfg\<lparr>sc_TTL := 24 * 3600 * 1000000000\<rparr> else cfg);
          cfg = (if sc_Threshold cfg \<le> 0 then cfg\<lparr>sc_Threshold := 92 / 100\<rparr> else cfg);
          cfg = (if sc_MaxEntriesPerModel cfg \<le> 0 then cfg\<lparr>sc_MaxEntriesPerModel := 500\<rparr> else cfg)
      in if sc_Timeout cfg \<le> 0 then cfg\<lparr>sc_Timeout := 5 * 1000000000\<rparr> else cfg)"

section \<open>The scans\<close>

text \<open>The loop of \<open>cosineSimilarity\<close>: the three sums.\<close>

fun cosine_sums :: "vec \<Rightarrow> vec \<Rightarrow> float64 \<times> float64 \<times> float64 \<Rightarrow> float64 \<times> float64 \<times> float64" where
  "cosine_sums (x # a) (y # b) (dot, na, nb) = cosine_sums a b (dot + x * y, na + x * x, nb + y * y)"
| "cosine_sums _ _ s = s"

definition cosineSimilarity :: "vec \<Rightarrow> vec \<Rightarrow> float64" where
  "cosineSimilarity a b =
     (if length a = 0 \<or> length a \<noteq> length b then 0
      else case cosine_sums a b (0, 0, 0) of
        (dot, na, nb) \<Rightarrow> if na = 0 \<or> nb = 0 then 0 else dot / (sqrt na * sqrt nb))"

definition entry_expired :: "int \<Rightarrow> storedEntry \<Rightarrow> bool" where
  "entry_expired now e \<longleftrightarrow> se_ExpiresAt e > 0 \<and> se_ExpiresAt e < now"

fun find_exact :: "string \<Rightarrow> storedEntry list \<Rightarrow> int \<Rightarrow> Hit option" where
  "find_exact hash [] now = None"
| "find_exact hash (e # entries) now =
     (if entry_expired now e then find_exact hash entries now
      else if se_PromptHash e \<noteq> [] \<and> se_PromptHash e = hash
      then Some \<lparr>hit_ResponseJSON = se_Response e, hit_Similarity = 1\<rparr>
      else find_exact hash entries now)"

definition findExact :: "string \<Rightarrow> storedEntry list \<Rightarrow> int \<Rightarrow> Hit option" where
  "findExact hash entries now = (if hash = [] then None else find_exact hash entries now)"

text \<open>The loop of \<open>findBest\<close> carries \<open>bestSim\<close> and \<open>bestResp\<close>.\<close>

fun best_scan ::
  "vec \<Rightarrow> float64 \<Rightarrow> int \<Rightarrow> storedEntry list \<Rightarrow> float64 \<times> gobytes \<Rightarrow> float64 \<times> gobytes" where
  "best_scan v threshold now [] best = best"
| "best_scan v threshold now (e # entries) (bestSim, bestResp) =
     (if entry_expired now e then best_scan v threshold now entries (bestSim, bestResp)
      else let sim = cosineSimilarity v (se_Embedding e) in
        if sim \<ge> threshold \<and> sim > bestSim then best_scan v threshold now entries (sim, se_Response e)
        else best_scan v threshold now entries (bestSim, bestResp))"

definition findBest :: "vec \<Rightarrow> storedEntry list \<Rightarrow> float64 \<Rightarrow> int \<Rightarrow> Hit option" where
  "findBest v entries threshold now =
     (case best_scan v threshold now entries (0, None) of
        (_, None) \<Rightarrow> None
      | (bestSim, Some r) \<Rightarrow> Some \<lparr>hit_ResponseJSON = Some r, hit_Similarity = bestSim\<rparr>)"

text \<open>What both backends do with the entries of a key.\<close>

definition scan_entries ::
  "(string \<Rightarrow> string) \<Rightarrow> semcache_Config \<Rightarrow> string \<Rightarrow> vec \<Rightarrow> int \<Rightarrow> storedEntry list \<Rightarrow> Hit option" where
  "scan_entries sha256 cfg prompt v now entries =
     (case (if sc_ExactMatch cfg then findExact (promptHash sha256 prompt) entries now else None) of
        Some hit \<Rightarrow> Some hit
      | None \<Rightarrow>
          if sc_ExactMatch cfg \<and> length v = 0 then None
          else findBest v entries (sc_Threshold cfg) now)"

section \<open>The in-process backend\<close>

record semcache_Memory =
  cm_cfg :: semcache_Config
  cm_data :: "(string, storedEntry list) gomap"

definition NewMemoryCache :: "semcache_Config \<Rightarrow> semcache_Memory" where
  "NewMemoryCache cfg = \<lparr>cm_cfg = effectiveConfig cfg, cm_data = []\<rparr>"

definition Memory_Lookup ::
  "(string \<Rightarrow> string) \<Rightarrow> semcache_Memory \<Rightarrow> int \<Rightarrow> string \<Rightarrow> string \<Rightarrow> string \<Rightarrow> vec \<Rightarrow> Hit option" where
  "Memory_Lookup sha256 m t scope model prompt v =
     scan_entries sha256 (cm_cfg m) prompt v (Unix t) (gomap_or [] (cm_data m) (redisKey scope model))"

text \<open>\<open>append([]byte(nil), responseJSON...)\<close> of an empty slice is nil.\<close>

definition copy_bytes :: "gobytes \<Rightarrow> gobytes" where
  "copy_bytes b = (if b = Some [] then None else b)"

definition Memory_Store ::
  "(string \<Rightarrow> string) \<Rightarrow> semcache_Memory \<Rightarrow> int \<Rightarrow> string \<Rightarrow> string \<Rightarrow> string \<Rightarrow> vec \<Rightarrow> gobytes \<Rightarrow> semcache_Memory" where
  "Memory_Store sha256 m t scope model prompt v responseJSON =
     (let key = redisKey scope model;
          e = \<lparr>se_Embedding = v, se_Response = copy_bytes responseJSON,
               se_ExpiresAt = Unix (t + sc_TTL (cm_cfg m)), se_PromptHash = promptHash sha256 prompt\<rparr>;
          entries = e # gomap_or [] (cm_data m) key;
          entries = (if int (length entries) > sc_MaxEntriesPerModel (cm_cfg m)
                     then take (nat (sc_MaxEntriesPerModel (cm_cfg m))) entries else entries)
      in m\<lparr>cm_data := gomap_set key entries (cm_data m)\<rparr>)"

definition Memory_UpdateConfig :: "semcache_Config \<Rightarrow> semcache_Memory \<Rightarrow> semcache_Memory" where
  "Memory_UpdateConfig cfg m = m\<lparr>cm_cfg := effectiveConfig cfg\<rparr>"

section \<open>The Redis backend\<close>

text \<open>\<open>lrange\<close> is the client's answer (\<open>Inl\<close> an error); \<open>push_trim\<close> is the transaction that pushes
  an entry and trims the list, with the new state or the error of the execution.\<close>

definition Redis_Lookup ::
  "(string \<Rightarrow> string) \<Rightarrow> (string \<Rightarrow> storedEntry option) \<Rightarrow> ('db \<Rightarrow> string \<Rightarrow> int \<Rightarrow> int \<Rightarrow> string + string list) \<Rightarrow>
     semcache_Config \<Rightarrow> 'db \<Rightarrow> int \<Rightarrow> string \<Rightarrow> string \<Rightarrow> string \<Rightarrow> vec \<Rightarrow> string + Hit option" where
  "Redis_Lookup sha256 unmarshal lrange cfg db t scope model prompt v =
     (case lrange db (redisKey scope model) 0 (sc_MaxEntriesPerModel cfg - 1) of
        Inl err \<Rightarrow> Inl err
      | Inr raws \<Rightarrow> Inr (scan_entries sha256 cfg prompt v (Unix t) (List.map_filter unmarshal raws)))"

definition Redis_Store ::
  "(string \<Rightarrow> string) \<Rightarrow> (storedEntry \<Rightarrow> string + string) \<Rightarrow> ('db \<Rightarrow> string \<Rightarrow> string \<Rightarrow> int \<Rightarrow> int \<Rightarrow> string option \<times> 'db) \<Rightarrow>
     semcache_Config \<Rightarrow> 'db \<Rightarrow> int \<Rightarrow> string \<Rightarrow> string \<Rightarrow> string \<Rightarrow> vec \<Rightarrow> gobytes \<Rightarrow> string option \<times> 'db" where
  "Redis_Store sha256 marshal push_trim cfg db t scope model prompt v responseJSON =
     (case marshal \<lparr>se_Embedding = v, se_Response = responseJSON, se_ExpiresAt = Unix (t + sc_TTL cfg),
                    se_PromptHash = promptHash sha256 prompt\<rparr> of
        Inl err \<Rightarrow> (Some err, db)
      | Inr raw \<Rightarrow> push_trim db (redisKey scope model) raw 0 (sc_MaxEntriesPerModel cfg - 1))"

section \<open>The service\<close>

text \<open>The embedder is an optional function from a prompt to a vector or an error; the backend is
  given by its two operations.\<close>

record 'c Service =
  sv_cache :: 'c
  sv_embedder :: "(string \<Rightarrow> string + vec) option"
  sv_cfg :: semcache_Config

definition NewService ::
  "'c option \<Rightarrow> (string \<Rightarrow> string + vec) option \<Rightarrow> semcache_Config \<Rightarrow> 'c Service option" where
  "NewService cache embedder cfg =
     (case cache of
        None \<Rightarrow> None
      | Some c \<Rightarrow>
          if \<not> sc_Enabled cfg then None
          else if embedder = None \<and> \<not> sc_ExactMatch cfg then None
          else Some \<lparr>sv_cache = c, sv_embedder = embedder, sv_cfg = effectiveConfig cfg\<rparr>)"

type_synonym 'c cache_lookup = "'c \<Rightarrow> int \<Rightarrow> string \<Rightarrow> string \<Rightarrow> string \<Rightarrow> vec \<Rightarrow> string + Hit option"
type_synonym 'c cache_store = "'c \<Rightarrow> int \<Rightarrow> string \<Rightarrow> string \<Rightarrow> string \<Rightarrow> vec \<Rightarrow> gobytes \<Rightarrow> string option \<times> 'c"

text \<open>\<open>None\<close> as the outcome is the panic of calling a nil embedder: a service that was built in
  exact mode without an embedder and then switched to cosine mode by \<open>UpdateConfig\<close>.\<close>

definition Service_Lookup ::
  "'c cache_lookup \<Rightarrow> 'c Service \<Rightarrow> int \<Rightarrow> string \<Rightarrow> string \<Rightarrow> string \<Rightarrow> (string + Hit option \<times> vec) option" where
  "Service_Lookup lookup s t scope model prompt =
     (let exact = (if sc_ExactMatch (sv_cfg s) then lookup (sv_cache s) t scope model prompt [] else Inr None) in
      case exact of
        Inl err \<Rightarrow> Some (Inl err)
      | Inr (Some hit) \<Rightarrow> Some (Inr (Some hit, []))
      | Inr None \<Rightarrow>
          (case sv_embedder s of
             None \<Rightarrow> if sc_ExactMatch (sv_cfg s) then Some (Inr (None, [])) else None
           | Some emb \<Rightarrow>
               (case emb prompt of
                  Inl err \<Rightarrow> Some (Inl err)
                | Inr v \<Rightarrow>
                    (case lookup (sv_cache s) t scope model prompt v of
                       Inl err \<Rightarrow> Some (Inl err)
                     | Inr hit \<Rightarrow> Some (Inr (hit, v))))))"

definition Service_Store ::
  "'c cache_store \<Rightarrow> 'c Service \<Rightarrow> int \<Rightarrow> string \<Rightarrow> string \<Rightarrow> string \<Rightarrow> vec \<Rightarrow> gobytes \<Rightarrow> string option \<times> 'c Service" where
  "Service_Store store s t scope model prompt v responseJSON =
     (let put = (\<lambda>v. case store (sv_cache s) t scope model prompt v responseJSON of
                       (err, c) \<Rightarrow> (err, s\<lparr>sv_cache := c\<rparr>)) in
      if length v = 0 then
        (case sv_embedder s of
           None \<Rightarrow> put []
         | Some emb \<Rightarrow> (case emb prompt of Inl err \<Rightarrow> (Some err, s) | Inr v \<Rightarrow> put v))
      else put v)"

text \<open>\<open>UpdateConfig\<close> with the backend's own \<open>UpdateConfig\<close>.\<close>

definition Service_UpdateConfig ::
  "(semcache_Config \<Rightarrow> 'c \<Rightarrow> 'c) \<Rightarrow> semcache_Config \<Rightarrow> 'c Service \<Rightarrow> 'c Service" where
  "Service_UpdateConfig update cfg s = s\<lparr>sv_cfg := effectiveConfig cfg, sv_cache := update cfg (sv_cache s)\<rparr>"

section \<open>Keys\<close>

lemma Itoa_no_colon: "CHR '':'' \<notin> set (strconv_Itoa n)"
proof
  assume "CHR '':'' \<in> set (strconv_Itoa n)"
  with strconv_Itoa_digits [of n] have "is_digit (CHR '':'')" by (auto simp: list_all_iff)
  then show False by (simp add: is_digit_def)
qed

text \<open>The length prefix makes the key of a tenant and a model unique.\<close>

lemma redisKey_inj: "redisKey s m = redisKey s' m' \<longleftrightarrow> s = s' \<and> m = m'"
proof
  assume "redisKey s m = redisKey s' m'"
  then have "strconv_Itoa (length s) @ CHR '':'' # s @ CHR '':'' # m
      = strconv_Itoa (length s') @ CHR '':'' # s' @ CHR '':'' # m'"
    by (simp add: redisKey_def)
  from split_at_first [OF this Itoa_no_colon Itoa_no_colon]
  have "length s = length s'" "s @ CHR '':'' # m = s' @ CHR '':'' # m'" by (auto simp: strconv_Itoa_inj)
  then show "s = s' \<and> m = m'" by simp
qed simp

section \<open>What a scan returns\<close>

lemma find_exact_hit:
  "find_exact hash es now = Some h \<Longrightarrow>
   \<exists>e \<in> set es. \<not> entry_expired now e \<and> se_PromptHash e = hash
     \<and> h = \<lparr>hit_ResponseJSON = se_Response e, hit_Similarity = 1\<rparr>"
  by (induction es) (auto split: if_splits)

lemma best_scan_hit:
  "best_scan v th now es (s0, r0) = (s, r) \<Longrightarrow>
   s0 \<le> s \<and> ((s, r) = (s0, r0)
     \<or> (\<exists>e \<in> set es. \<not> entry_expired now e \<and> s = cosineSimilarity v (se_Embedding e) \<and> th \<le> s \<and> r = se_Response e))"
proof (induction es arbitrary: s0 r0)
  case (Cons e es)
  from Cons.prems Cons.IH show ?case
    by (auto simp: Let_def split: if_splits; fastforce)
qed simp

lemma best_scan_best:
  "best_scan v th now es (s0, r0) = (s, r) \<Longrightarrow> e \<in> set es \<Longrightarrow> \<not> entry_expired now e \<Longrightarrow>
   th \<le> cosineSimilarity v (se_Embedding e) \<Longrightarrow> cosineSimilarity v (se_Embedding e) \<le> s"
proof (induction es arbitrary: s0 r0)
  case (Cons x es)
  let ?c = "cosineSimilarity v (se_Embedding e)"
  have "\<exists>s1 r1. best_scan v th now es (s1, r1) = (s, r) \<and> (x = e \<longrightarrow> ?c \<le> s1)"
    using Cons.prems by (auto simp: Let_def split: if_splits)
  then obtain s1 r1 where rest: "best_scan v th now es (s1, r1) = (s, r)" and head: "x = e \<longrightarrow> ?c \<le> s1" by blast
  show ?case
  proof (cases "x = e")
    case True
    with head best_scan_hit [OF rest] show ?thesis by simp
  next
    case False
    with Cons.prems(2) have "e \<in> set es" by simp
    from Cons.IH [OF rest this Cons.prems(3,4)] show ?thesis .
  qed
qed simp

text \<open>A hit by similarity is the best live entry of the key.\<close>

lemma scan_entries_best:
  assumes "scan_entries sha256 cfg prompt v now es = Some h"
  shows "\<exists>e \<in> set es. \<not> entry_expired now e \<and> hit_ResponseJSON h = se_Response e
    \<and> (sc_ExactMatch cfg \<and> se_PromptHash e = promptHash sha256 prompt \<and> hit_Similarity h = 1
       \<or> hit_Similarity h = cosineSimilarity v (se_Embedding e) \<and> sc_Threshold cfg \<le> hit_Similarity h
         \<and> (\<forall>x \<in> set es. entry_expired now x \<or> cosineSimilarity v (se_Embedding x) < sc_Threshold cfg
              \<or> cosineSimilarity v (se_Embedding x) \<le> hit_Similarity h))"
proof (cases "if sc_ExactMatch cfg then findExact (promptHash sha256 prompt) es now else None")
  case None
  with assms have "findBest v es (sc_Threshold cfg) now = Some h"
    by (auto simp: scan_entries_def split: if_splits)
  then obtain s r where scan: "best_scan v (sc_Threshold cfg) now es (0, None) = (s, Some r)"
    "h = \<lparr>hit_ResponseJSON = Some r, hit_Similarity = s\<rparr>"
    by (auto simp: findBest_def split: prod.splits option.splits)
  with best_scan_hit [OF scan(1)] best_scan_best [OF scan(1)] show ?thesis by force
next
  case (Some h')
  with assms find_exact_hit [of "promptHash sha256 prompt" es now h'] show ?thesis
    by (auto simp: scan_entries_def findExact_def split: if_splits)
qed

lemma scan_entries_hit:
  assumes "scan_entries sha256 cfg prompt v now es = Some h"
  shows "\<exists>e \<in> set es. \<not> entry_expired now e \<and> hit_ResponseJSON h = se_Response e
    \<and> (sc_ExactMatch cfg \<and> se_PromptHash e = promptHash sha256 prompt \<and> hit_Similarity h = 1
       \<or> hit_Similarity h = cosineSimilarity v (se_Embedding e) \<and> sc_Threshold cfg \<le> hit_Similarity h)"
  using scan_entries_best [OF assms] by blast

section \<open>The interface and its clients\<close>

text \<open>What the service relies on. \<open>holds c scope model b\<close> says that the backend may answer a
  lookup of the tenant \<open>scope\<close> for \<open>model\<close> with the bytes \<open>b\<close>; \<open>kept\<close> is what a backend keeps
  of a response.\<close>

locale semantic_cache =
  fixes lookup :: "'c cache_lookup"
    and store :: "'c cache_store"
    and update :: "semcache_Config \<Rightarrow> 'c \<Rightarrow> 'c"
    and kept :: "gobytes \<Rightarrow> gobytes"
    and holds :: "'c \<Rightarrow> string \<Rightarrow> string \<Rightarrow> gobytes \<Rightarrow> bool"
  assumes lookup_holds: "lookup c t scope model prompt v = Inr (Some h) \<Longrightarrow> holds c scope model (hit_ResponseJSON h)"
    and store_holds: "holds (snd (store c t scope model prompt v r)) scope' model' b \<Longrightarrow>
      holds c scope' model' b \<or> scope' = scope \<and> model' = model \<and> b = kept r"
    and update_holds: "holds (update cfg c) scope model b \<Longrightarrow> holds c scope model b"

text \<open>The calls of a service that change its state: a store, and a change of the configuration.\<close>

datatype service_op =
    SStore int string string string vec gobytes
  | SConfig semcache_Config

fun service_do :: "'c cache_store \<Rightarrow> (semcache_Config \<Rightarrow> 'c \<Rightarrow> 'c) \<Rightarrow> service_op \<Rightarrow> 'c Service \<Rightarrow> 'c Service" where
  "service_do store update (SStore t scope model prompt v r) s = snd (Service_Store store s t scope model prompt v r)"
| "service_do store update (SConfig cfg) s = Service_UpdateConfig update cfg s"

context semantic_cache
begin

lemma Service_Store_holds:
  assumes "holds (sv_cache (snd (Service_Store store s t scope model prompt v r))) scope' model' b"
  shows "holds (sv_cache s) scope' model' b \<or> scope' = scope \<and> model' = model \<and> b = kept r"
proof -
  have "\<exists>v'. sv_cache (snd (Service_Store store s t scope model prompt v r))
      \<in> {sv_cache s, snd (store (sv_cache s) t scope model prompt v' r)}"
    by (auto simp: Service_Store_def Let_def case_prod_beta split: option.splits sum.splits)
  with assms show ?thesis by (auto dest: store_holds)
qed

lemma run_holds:
  "holds (sv_cache (fold (service_do store update) ops s)) scope model b \<Longrightarrow>
   holds (sv_cache s) scope model b \<or> (\<exists>t prompt v r. SStore t scope model prompt v r \<in> set ops \<and> b = kept r)"
proof (induction ops arbitrary: s)
  case (Cons op ops)
  then have "holds (sv_cache (service_do store update op s)) scope model b
      \<or> (\<exists>t prompt v r. SStore t scope model prompt v r \<in> set ops \<and> b = kept r)" by simp
  moreover have "holds (sv_cache (service_do store update op s)) scope model b \<Longrightarrow>
      holds (sv_cache s) scope model b \<or> (\<exists>t prompt v r. op = SStore t scope model prompt v r \<and> b = kept r)"
    by (cases op) (auto dest!: Service_Store_holds dest: update_holds simp: Service_UpdateConfig_def)
  ultimately show ?case by auto
qed simp

lemma Service_Lookup_holds:
  "Service_Lookup lookup s t scope model prompt = Some (Inr (Some h, v)) \<Longrightarrow>
   holds (sv_cache s) scope model (hit_ResponseJSON h)"
  by (auto simp: Service_Lookup_def Let_def dest!: lookup_holds split: if_splits option.splits sum.splits)

lemma service_isolated:
  assumes "Service_Lookup lookup (fold (service_do store update) ops s) t scope model prompt = Some (Inr (Some h, v))"
    and "\<And>scope model b. \<not> holds (sv_cache s) scope model b"
  shows "\<exists>t0 prompt0 v0 r. SStore t0 scope model prompt0 v0 r \<in> set ops \<and> hit_ResponseJSON h = kept r"
  using run_holds [OF Service_Lookup_holds [OF assms(1)]] assms(2) by blast

end

subsection \<open>The in-process backend meets the interface\<close>

definition mem_cache_lookup :: "(string \<Rightarrow> string) \<Rightarrow> semcache_Memory cache_lookup" where
  "mem_cache_lookup sha256 m t scope model prompt v = Inr (Memory_Lookup sha256 m t scope model prompt v)"

definition mem_cache_store :: "(string \<Rightarrow> string) \<Rightarrow> semcache_Memory cache_store" where
  "mem_cache_store sha256 m t scope model prompt v r = (None, Memory_Store sha256 m t scope model prompt v r)"

abbreviation entries_of :: "semcache_Memory \<Rightarrow> string \<Rightarrow> string \<Rightarrow> storedEntry list" where
  "entries_of m scope model \<equiv> gomap_or [] (cm_data m) (redisKey scope model)"

definition mem_holds :: "semcache_Memory \<Rightarrow> string \<Rightarrow> string \<Rightarrow> gobytes \<Rightarrow> bool" where
  "mem_holds m scope model b \<longleftrightarrow> b \<in> se_Response ` set (entries_of m scope model)"

definition new_entry :: "(string \<Rightarrow> string) \<Rightarrow> duration \<Rightarrow> int \<Rightarrow> string \<Rightarrow> vec \<Rightarrow> gobytes \<Rightarrow> storedEntry" where
  "new_entry sha256 ttl t prompt v b =
     \<lparr>se_Embedding = v, se_Response = b, se_ExpiresAt = Unix (t + ttl), se_PromptHash = promptHash sha256 prompt\<rparr>"

text \<open>A store puts one entry in front of its own list and cuts it to the configured size.\<close>

lemma entries_of_store:
  "entries_of (Memory_Store sha256 m t scope model prompt v r) scope' model'
    = (if scope' = scope \<and> model' = model
       then (let es = new_entry sha256 (sc_TTL (cm_cfg m)) t prompt v (copy_bytes r) # entries_of m scope model
             in if int (length es) > sc_MaxEntriesPerModel (cm_cfg m)
                then take (nat (sc_MaxEntriesPerModel (cm_cfg m))) es else es)
       else entries_of m scope' model')"
  by (auto simp: Memory_Store_def Let_def new_entry_def gomap_or_def update_conv redisKey_inj)

lemma entries_of_store_subset:
  "set (entries_of (Memory_Store sha256 m t scope model prompt v r) scope' model')
    \<subseteq> set (entries_of m scope' model')
      \<union> (if scope' = scope \<and> model' = model then {new_entry sha256 (sc_TTL (cm_cfg m)) t prompt v (copy_bytes r)} else {})"
  unfolding entries_of_store by (auto simp: Let_def dest: in_set_takeD split: if_splits)

interpretation mem_cache: semantic_cache "mem_cache_lookup sha256" "mem_cache_store sha256" Memory_UpdateConfig copy_bytes mem_holds
  for sha256
proof
  fix c t scope model prompt v h
  assume "mem_cache_lookup sha256 c t scope model prompt v = Inr (Some h)"
  then have "Memory_Lookup sha256 c t scope model prompt v = Some h" by (simp add: mem_cache_lookup_def)
  from scan_entries_hit [OF this [unfolded Memory_Lookup_def]]
  show "mem_holds c scope model (hit_ResponseJSON h)" by (auto simp: mem_holds_def)
next
  fix c t scope model prompt v r scope' model' b
  assume "mem_holds (snd (mem_cache_store sha256 c t scope model prompt v r)) scope' model' b"
  then show "mem_holds c scope' model' b \<or> scope' = scope \<and> model' = model \<and> b = copy_bytes r"
    using entries_of_store_subset [of sha256 c t scope model prompt v r scope' model']
    by (auto simp: mem_holds_def mem_cache_store_def new_entry_def split: if_splits)
next
  fix cfg c scope model b
  assume "mem_holds (Memory_UpdateConfig cfg c) scope model b"
  then show "mem_holds c scope model b" by (simp add: mem_holds_def Memory_UpdateConfig_def)
qed

text \<open>
  The cache never crosses tenants. Start a service on an empty in-process cache and let it see
  any sequence of stores and configuration changes; if a lookup for a tenant and a model then
  answers with a hit, the bytes of the hit are the response of an earlier store for exactly that
  tenant and that model. Two tenants cannot meet in one key, whatever characters the tenant id and
  the model name in the request have.
\<close>

theorem service_cache_isolated:
  assumes "NewService (Some (NewMemoryCache cfg0)) embedder cfg = Some s"
    and "Service_Lookup (mem_cache_lookup sha256)
           (fold (service_do (mem_cache_store sha256) Memory_UpdateConfig) ops s) t scope model prompt
         = Some (Inr (Some h, v))"
  shows "\<exists>t0 prompt0 v0 r. SStore t0 scope model prompt0 v0 r \<in> set ops \<and> hit_ResponseJSON h = copy_bytes r"
proof (rule mem_cache.service_isolated [OF assms(2)])
  fix scope model b
  show "\<not> mem_holds (sv_cache s) scope model b"
    using assms(1) by (auto simp: NewService_def NewMemoryCache_def mem_holds_def gomap_or_def split: if_splits)
qed

definition exact_cfg :: semcache_Config where
  "exact_cfg = \<lparr>sc_Enabled = True, sc_TTL = 0, sc_Threshold = 0, sc_MaxEntriesPerModel = 0,
     sc_EmbeddingsURL = [], sc_EmbeddingsModel = [], sc_EmbeddingsAPIKey = [], sc_Timeout = 0,
     sc_ExactMatch = True\<rparr>"

theorem service_cache_isolated_witness:
  "\<exists>t0 prompt0 v0 r. SStore t0 ''org'' ''gpt'' prompt0 v0 r \<in> {SStore 5 ''org'' ''gpt'' ''hi'' [] (Some ''R'')}
     \<and> Some ''R'' = copy_bytes r"
proof -
  obtain s where s: "NewService (Some (NewMemoryCache exact_cfg)) None exact_cfg = Some s"
    by (simp add: NewService_def exact_cfg_def)
  have "Service_Lookup (mem_cache_lookup id)
      (fold (service_do (mem_cache_store id) Memory_UpdateConfig) [SStore 5 ''org'' ''gpt'' ''hi'' [] (Some ''R'')] s)
      6 ''org'' ''gpt'' ''hi'' = Some (Inr (Some \<lparr>hit_ResponseJSON = Some ''R'', hit_Similarity = 1\<rparr>, []))"
    using s
    by (auto simp: NewService_def exact_cfg_def effectiveConfig_def Let_def Service_Lookup_def Service_Store_def
        mem_cache_lookup_def mem_cache_store_def Memory_Lookup_def Memory_Store_def NewMemoryCache_def gomap_or_def
        scan_entries_def findExact_def promptHash_def hex_EncodeToString_def copy_bytes_def entry_expired_def Unix_def)
  from service_cache_isolated [OF s this] show ?thesis by simp
qed

section \<open>What a hit may be\<close>

text \<open>The calls of the in-process cache.\<close>

datatype cache_op =
    CStore int string string string vec gobytes
  | CConfig semcache_Config

fun cache_do :: "(string \<Rightarrow> string) \<Rightarrow> cache_op \<Rightarrow> semcache_Memory \<Rightarrow> semcache_Memory" where
  "cache_do sha256 (CStore t scope model prompt v r) m = Memory_Store sha256 m t scope model prompt v r"
| "cache_do sha256 (CConfig cfg) m = Memory_UpdateConfig cfg m"

lemma Memory_Store_cfg [simp]: "cm_cfg (Memory_Store sha256 m t scope model prompt v r) = cm_cfg m"
  by (simp add: Memory_Store_def Let_def)

lemma Memory_UpdateConfig_sel [simp]:
  "cm_cfg (Memory_UpdateConfig cfg m) = effectiveConfig cfg" "cm_data (Memory_UpdateConfig cfg m) = cm_data m"
  by (simp_all add: Memory_UpdateConfig_def)

text \<open>Every entry was stored for its own tenant and model, with the time to live in force at that call.\<close>

lemma run_entries:
  "e \<in> set (entries_of (fold (cache_do sha256) ops (NewMemoryCache cfg0)) scope model) \<Longrightarrow>
   \<exists>ops1 t prompt v r ops2. ops = ops1 @ CStore t scope model prompt v r # ops2
     \<and> e = new_entry sha256 (sc_TTL (cm_cfg (fold (cache_do sha256) ops1 (NewMemoryCache cfg0)))) t prompt v (copy_bytes r)"
proof (induction ops rule: rev_induct)
  case Nil
  then show ?case by (simp add: NewMemoryCache_def gomap_or_def)
next
  case (snoc op ops)
  let ?m = "fold (cache_do sha256) ops (NewMemoryCache cfg0)"
  show ?case
  proof (cases "e \<in> set (entries_of ?m scope model)")
    case True
    from snoc.IH [OF this] show ?thesis by (metis append_Cons append_assoc)
  next
    case False
    with snoc.prems obtain t scope' model' prompt v r where op: "op = CStore t scope' model' prompt v r"
      by (cases op) auto
    from snoc.prems have "e \<in> set (entries_of (Memory_Store sha256 ?m t scope' model' prompt v r) scope model)"
      by (simp add: op)
    with False entries_of_store_subset [of sha256 ?m t scope' model' prompt v r scope model]
    have "scope' = scope \<and> model' = model" "e = new_entry sha256 (sc_TTL (cm_cfg ?m)) t prompt v (copy_bytes r)"
      by (auto split: if_splits)
    with op show ?thesis
      by (intro exI [of _ ops] exI [of _ t] exI [of _ prompt] exI [of _ v] exI [of _ r] exI [of _ "[]"]) simp
  qed
qed

lemma threshold_pos: "0 < sc_Threshold (effectiveConfig cfg)"
  by (simp add: effectiveConfig_def Let_def)

text \<open>
  C19. A hit is fresh and the best match. Whatever stores and configuration changes an in-process cache
  has seen, a hit is the response of a store for the same tenant and model, and the time to live that
  was configured at that store has not passed, in whole seconds. Either exact matching is on and the
  stored prompt has the same digest, or the reported similarity is the one \<open>cosineSimilarity\<close> gives for
  the two vectors, at least the threshold in force, and no live entry of the tenant and model that
  reaches the threshold is more similar.
\<close>

theorem Memory_Lookup_sound:
  assumes "Memory_Lookup sha256 (fold (cache_do sha256) ops (NewMemoryCache cfg0)) now scope model prompt v = Some h"
    and "m = fold (cache_do sha256) ops (NewMemoryCache cfg0)"
  shows "\<exists>ops1 t0 prompt0 v0 r ops2 ttl. ops = ops1 @ CStore t0 scope model prompt0 v0 r # ops2
    \<and> ttl = sc_TTL (cm_cfg (fold (cache_do sha256) ops1 (NewMemoryCache cfg0)))
    \<and> hit_ResponseJSON h = copy_bytes r \<and> (0 < Unix (t0 + ttl) \<longrightarrow> Unix now \<le> Unix (t0 + ttl))
    \<and> (sc_ExactMatch (cm_cfg m) \<and> promptHash sha256 prompt0 = promptHash sha256 prompt \<and> hit_Similarity h = 1
       \<or> hit_Similarity h = cosineSimilarity v v0 \<and> sc_Threshold (cm_cfg m) \<le> hit_Similarity h
         \<and> (\<forall>x \<in> set (entries_of m scope model). entry_expired (Unix now) x \<or> cosineSimilarity v (se_Embedding x) < sc_Threshold (cm_cfg m)
              \<or> cosineSimilarity v (se_Embedding x) \<le> hit_Similarity h))"
proof -
  obtain e where e: "e \<in> set (entries_of m scope model)" "\<not> entry_expired (Unix now) e" "hit_ResponseJSON h = se_Response e"
    and sim: "sc_ExactMatch (cm_cfg m) \<and> se_PromptHash e = promptHash sha256 prompt \<and> hit_Similarity h = 1
       \<or> hit_Similarity h = cosineSimilarity v (se_Embedding e) \<and> sc_Threshold (cm_cfg m) \<le> hit_Similarity h
         \<and> (\<forall>x \<in> set (entries_of m scope model). entry_expired (Unix now) x \<or> cosineSimilarity v (se_Embedding x) < sc_Threshold (cm_cfg m)
              \<or> cosineSimilarity v (se_Embedding x) \<le> hit_Similarity h)"
    using scan_entries_best [OF assms(1) [unfolded Memory_Lookup_def]] assms(2) by blast
  obtain ops1 t0 prompt0 v0 r ops2 where st: "ops = ops1 @ CStore t0 scope model prompt0 v0 r # ops2"
    and ne: "e = new_entry sha256 (sc_TTL (cm_cfg (fold (cache_do sha256) ops1 (NewMemoryCache cfg0)))) t0 prompt0 v0 (copy_bytes r)"
    using run_entries e(1) unfolding assms(2) by blast
  show ?thesis
    by (rule exI [of _ ops1], rule exI [of _ t0], rule exI [of _ prompt0], rule exI [of _ v0], rule exI [of _ r], rule exI [of _ ops2],
        rule exI, intro conjI, rule st, rule refl)
      (use e sim in \<open>auto simp: ne new_entry_def entry_expired_def\<close>)
qed

theorem Memory_Lookup_sound_witness:
  "\<exists>ops1 t0 prompt0 v0 r ops2 ttl. [CStore 5 ''org'' ''gpt'' ''hi'' [1] (Some ''R'')] = ops1 @ CStore t0 ''org'' ''gpt'' prompt0 v0 r # ops2
    \<and> ttl = sc_TTL (cm_cfg (fold (cache_do id) ops1 (NewMemoryCache exact_cfg)))
    \<and> Some ''R'' = copy_bytes r \<and> (0 < Unix (t0 + ttl) \<longrightarrow> Unix 6 \<le> Unix (t0 + ttl))"
proof -
  have "Memory_Lookup id (fold (cache_do id) [CStore 5 ''org'' ''gpt'' ''hi'' [1] (Some ''R'')] (NewMemoryCache exact_cfg))
      6 ''org'' ''gpt'' ''hi'' [1] = Some \<lparr>hit_ResponseJSON = Some ''R'', hit_Similarity = 1\<rparr>"
    by (simp add: exact_cfg_def effectiveConfig_def Let_def Memory_Lookup_def Memory_Store_def NewMemoryCache_def
        gomap_or_def scan_entries_def findExact_def promptHash_def hex_EncodeToString_def copy_bytes_def
        entry_expired_def Unix_def)
  from Memory_Lookup_sound [OF this refl] show ?thesis by fastforce
qed

section \<open>The Redis backend answers as the in-process one\<close>

text \<open>The list commands as Redis documents them: \<open>content\<close> is what \<open>LRANGE key 0 -1\<close> would show.\<close>

definition redis_lists ::
  "('db \<Rightarrow> string \<Rightarrow> string list) \<Rightarrow> ('db \<Rightarrow> string \<Rightarrow> int \<Rightarrow> int \<Rightarrow> string + string list) \<Rightarrow>
   ('db \<Rightarrow> string \<Rightarrow> string \<Rightarrow> int \<Rightarrow> int \<Rightarrow> string option \<times> 'db) \<Rightarrow> bool" where
  "redis_lists content lrange push_trim \<longleftrightarrow>
     (\<forall>db key n. 0 \<le> n \<longrightarrow> lrange db key 0 n = Inr (take (nat n + 1) (content db key)))
   \<and> (\<forall>db key raw n. 0 \<le> n \<longrightarrow> fst (push_trim db key raw 0 n) = None
        \<and> content (snd (push_trim db key raw 0 n)) = (content db)(key := take (nat n + 1) (raw # content db key)))"

text \<open>One sequence of stores, applied to both backends under one configuration.\<close>

type_synonym store_call = "int \<times> string \<times> string \<times> string \<times> vec \<times> gobytes"

definition memory_after :: "(string \<Rightarrow> string) \<Rightarrow> semcache_Config \<Rightarrow> store_call list \<Rightarrow> semcache_Memory" where
  "memory_after sha256 cfg calls =
     fold (\<lambda>(t, scope, model, prompt, v, r) m. Memory_Store sha256 m t scope model prompt v r) calls (NewMemoryCache cfg)"

definition redis_after ::
  "(string \<Rightarrow> string) \<Rightarrow> (storedEntry \<Rightarrow> string + string) \<Rightarrow> ('db \<Rightarrow> string \<Rightarrow> string \<Rightarrow> int \<Rightarrow> int \<Rightarrow> string option \<times> 'db) \<Rightarrow>
     semcache_Config \<Rightarrow> store_call list \<Rightarrow> 'db \<Rightarrow> 'db" where
  "redis_after sha256 marshal push_trim cfg calls db =
     fold (\<lambda>(t, scope, model, prompt, v, r) db.
        snd (Redis_Store sha256 marshal push_trim (effectiveConfig cfg) db t scope model prompt v r)) calls db"

text \<open>The codec reads back the entry of a call.\<close>

definition reads_back ::
  "(string \<Rightarrow> string) \<Rightarrow> (storedEntry \<Rightarrow> string + string) \<Rightarrow> (string \<Rightarrow> storedEntry option) \<Rightarrow> semcache_Config \<Rightarrow> store_call \<Rightarrow> bool" where
  "reads_back sha256 marshal unmarshal cfg c =
     (case c of (t, scope, model, prompt, v, r) \<Rightarrow>
        case marshal (new_entry sha256 (sc_TTL (effectiveConfig cfg)) t prompt v r) of
          Inl _ \<Rightarrow> False
        | Inr raw \<Rightarrow> unmarshal raw = Some (new_entry sha256 (sc_TTL (effectiveConfig cfg)) t prompt v r))"

lemma max_pos: "1 \<le> sc_MaxEntriesPerModel (effectiveConfig cfg)"
  by (simp add: effectiveConfig_def Let_def)

lemma memory_after_cfg [simp]: "cm_cfg (memory_after sha256 cfg calls) = effectiveConfig cfg"
  unfolding memory_after_def by (induction calls rule: rev_induct) (auto simp: NewMemoryCache_def)

lemma redis_content:
  assumes laws: "redis_lists content lrange push_trim"
    and codec: "\<forall>c \<in> set calls. reads_back sha256 marshal unmarshal cfg c"
    and nonempty: "\<forall>(t, scope, model, prompt, v, r) \<in> set calls. r \<noteq> Some []"
    and fresh: "content db = (\<lambda>_. [])"
  shows "map unmarshal (content (redis_after sha256 marshal push_trim cfg calls db) (redisKey scope model))
    = map Some (entries_of (memory_after sha256 cfg calls) scope model)"
  using nonempty codec
proof (induction calls arbitrary: scope model rule: rev_induct)
  case Nil
  then show ?case by (simp add: redis_after_def memory_after_def NewMemoryCache_def gomap_or_def fresh)
next
  case (snoc c calls)
  obtain t s' m' prompt v r where c: "c = (t, s', m', prompt, v, r)" by (cases c)
  define n where "n = sc_MaxEntriesPerModel (effectiveConfig cfg)"
  define db' where "db' = redis_after sha256 marshal push_trim cfg calls db"
  define m where "m = memory_after sha256 cfg calls"
  define e where "e = new_entry sha256 (sc_TTL (effectiveConfig cfg)) t prompt v r"
  have n: "1 \<le> n" unfolding n_def by (rule max_pos)
  have IH: "map unmarshal (content db' (redisKey s'' m'')) = map Some (entries_of m s'' m'')" for s'' m''
    using snoc by (simp add: db'_def m_def)
  obtain raw where raw: "marshal e = Inr raw" "unmarshal raw = Some e"
    using snoc.prems(2) by (auto simp: c reads_back_def e_def split: sum.splits)
  have "snd (Redis_Store sha256 marshal push_trim (effectiveConfig cfg) db' t s' m' prompt v r)
      = snd (push_trim db' (redisKey s' m') raw 0 (n - 1))"
    using raw(1) by (simp add: Redis_Store_def e_def new_entry_def n_def)
  moreover have "content (snd (push_trim db' (redisKey s' m') raw 0 (n - 1)))
      = (content db') (redisKey s' m' := take (nat n) (raw # content db' (redisKey s' m')))"
  proof -
    have "0 \<le> n - 1" "nat (n - 1) + 1 = nat n" using n by simp_all
    with laws show ?thesis unfolding redis_lists_def by metis
  qed
  ultimately have redis: "content (redis_after sha256 marshal push_trim cfg (calls @ [c]) db) (redisKey scope model)
      = (if scope = s' \<and> model = m' then take (nat n) (raw # content db' (redisKey s' m')) else content db' (redisKey scope model))"
    by (simp add: redis_after_def c db'_def redisKey_inj)
  have "copy_bytes r = r" using snoc.prems(1) by (auto simp: c copy_bytes_def)
  moreover have "memory_after sha256 cfg (calls @ [c]) = Memory_Store sha256 m t s' m' prompt v r"
    by (simp add: memory_after_def m_def c)
  ultimately have mem: "entries_of (memory_after sha256 cfg (calls @ [c])) scope model
      = (if scope = s' \<and> model = m' then take (nat n) (e # entries_of m s' m') else entries_of m scope model)"
    using n by (auto simp: entries_of_store Let_def m_def n_def e_def)
  show ?case unfolding redis mem using IH raw(2) by (auto simp: take_map [symmetric] take_Cons')
qed

lemma map_filter_Some: "map f xs = map Some ys \<Longrightarrow> List.map_filter f xs = ys"
  by (induction xs arbitrary: ys) (auto simp: map_filter_simps)

lemma memory_after_bounded:
  "int (length (entries_of (memory_after sha256 cfg calls) scope model)) \<le> sc_MaxEntriesPerModel (effectiveConfig cfg)"
proof (induction calls rule: rev_induct)
  case Nil
  then show ?case using max_pos [of cfg] by (simp add: memory_after_def NewMemoryCache_def gomap_or_def)
next
  case (snoc c calls)
  obtain t s' m' prompt v r where c: "c = (t, s', m', prompt, v, r)" by (cases c)
  have "memory_after sha256 cfg (calls @ [c]) = Memory_Store sha256 (memory_after sha256 cfg calls) t s' m' prompt v r"
    by (simp add: memory_after_def c)
  with snoc max_pos [of cfg] show ?case by (auto simp: entries_of_store Let_def)
qed

text \<open>
  C18. The two backends are interchangeable. Given the documented behaviour of the Redis list
  commands and a codec that reads back the entries it wrote, the Redis cache answers every lookup exactly
  as the in-process cache that saw the same stores under the same configuration - the same hit with
  the same similarity, or the same miss - as long as no stored response is the empty slice (which
  the in-process cache turns into nil).
\<close>

theorem Redis_answers_as_Memory:
  assumes "redis_lists content lrange push_trim"
    and "\<forall>c \<in> set calls. reads_back sha256 marshal unmarshal cfg c"
    and "\<forall>(t, scope, model, prompt, v, r) \<in> set calls. r \<noteq> Some []"
    and "content db = (\<lambda>_. [])"
  shows "Redis_Lookup sha256 unmarshal lrange (effectiveConfig cfg)
      (redis_after sha256 marshal push_trim cfg calls db) now scope model prompt v
    = Inr (Memory_Lookup sha256 (memory_after sha256 cfg calls) now scope model prompt v)"
proof -
  define db' where "db' = redis_after sha256 marshal push_trim cfg calls db"
  define n where "n = sc_MaxEntriesPerModel (effectiveConfig cfg)"
  define es where "es = entries_of (memory_after sha256 cfg calls) scope model"
  have content: "map unmarshal (content db' (redisKey scope model)) = map Some es"
    unfolding db'_def es_def by (rule redis_content [OF assms])
  then have decoded: "List.map_filter unmarshal (content db' (redisKey scope model)) = es"
    by (rule map_filter_Some)
  have "length (content db' (redisKey scope model)) = length es" using content by (rule map_eq_imp_length_eq)
  also have "int (length es) \<le> n" unfolding es_def n_def by (rule memory_after_bounded)
  finally have "take (nat (n - 1) + 1) (content db' (redisKey scope model)) = content db' (redisKey scope model)"
    by simp
  moreover have "0 \<le> n - 1" using max_pos [of cfg] by (simp add: n_def)
  ultimately have "lrange db' (redisKey scope model) 0 (n - 1) = Inr (content db' (redisKey scope model))"
    using assms(1) unfolding redis_lists_def by metis
  then show ?thesis
    by (simp add: Redis_Lookup_def Memory_Lookup_def decoded es_def [symmetric] db'_def [symmetric] n_def [symmetric])
qed

definition one_call :: store_call where
  "one_call = (5, ''org'', ''gpt'', ''hi'', [1], Some ''R'')"

theorem Redis_answers_as_Memory_witness:
  "Redis_Lookup id (\<lambda>_. Some (new_entry id (24 * 3600 * 1000000000) 5 ''hi'' [1] (Some ''R'')))
      (\<lambda>db key _ n. Inr (take (nat n + 1) (db key))) (effectiveConfig exact_cfg)
      (redis_after id (\<lambda>_. Inr ''e'') (\<lambda>db key raw _ n. (None, db(key := take (nat n + 1) (raw # db key))))
        exact_cfg [one_call] (\<lambda>_. [])) 6 ''org'' ''gpt'' ''hi'' [1]
    = Inr (Memory_Lookup id (memory_after id exact_cfg [one_call]) 6 ''org'' ''gpt'' ''hi'' [1])"
  by (rule Redis_answers_as_Memory [where content = "\<lambda>db. db"])
     (simp_all add: redis_lists_def reads_back_def one_call_def exact_cfg_def effectiveConfig_def)

text \<open>
  A configuration change can break every cacheable request. A service that was built for exact
  matching needs no embedder; once exact matching is switched off at run time, each lookup calls the
  embedder that is not there, which panics.
\<close>

theorem exact_off_without_embedder_panics:
  assumes "NewService (Some cache) None cfg0 = Some s" and "\<not> sc_ExactMatch cfg"
  shows "Service_Lookup lookup (Service_UpdateConfig update cfg s) t scope model prompt = None"
  using assms
  by (auto simp: NewService_def Service_Lookup_def Service_UpdateConfig_def effectiveConfig_def Let_def split: if_splits)

theorem exact_off_without_embedder_panics_witness:
  "Service_Lookup (mem_cache_lookup id)
     (Service_UpdateConfig Memory_UpdateConfig (exact_cfg\<lparr>sc_ExactMatch := False\<rparr>)
       \<lparr>sv_cache = NewMemoryCache exact_cfg, sv_embedder = None, sv_cfg = effectiveConfig exact_cfg\<rparr>)
     6 ''org'' ''gpt'' ''hi'' = None"
proof -
  have "NewService (Some (NewMemoryCache exact_cfg)) None exact_cfg
      = Some \<lparr>sv_cache = NewMemoryCache exact_cfg, sv_embedder = None, sv_cfg = effectiveConfig exact_cfg\<rparr>"
    by (simp add: NewService_def exact_cfg_def)
  from exact_off_without_embedder_panics [OF this, of "exact_cfg\<lparr>sc_ExactMatch := False\<rparr>"] show ?thesis by simp
qed

end
