(* ===== verification/Middleware.thy ===== *)
theory Middleware
  imports ApiErr Limiter Credentials
begin

text \<open>
  The middleware of the gateway (\<open>internal/gateway/middleware.go\<close>) and the order \<open>NewMux\<close> of
  \<open>server.go\<close> puts it in: request id, panic recovery, access log, authentication, rate and budget
  enforcement, concurrency cap, handler.

  A handler takes a request, a response writer and the state of the process, and returns the writer,
  the state, and whether it panicked. The limiter is given by its three operations, the time of a
  request and a fresh request id are arguments.

  The last sections follow the requests of a server that interleave: every call of the limiter and
  of the cap is one atomic step, and between two steps of one request any steps of others can happen.
\<close>

section \<open>Requests and responses\<close>

text \<open>The values the gateway keeps in a request context. \<open>cx_RequestID\<close> is the value under the key
  of package \<open>resp\<close>, \<open>cx_gwRequestID\<close> the value under the gateway's own key, which has another
  type and so is another key.\<close>

record Ctx =
  cx_RequestID :: "string option"
  cx_gwRequestID :: "string option"
  cx_OrgID :: "string option"
  cx_UserID :: "string option"
  cx_VKeyID :: "string option"
  cx_AllowedModels :: "string list option"
  cx_RPMLimit :: "int option"
  cx_MonthlyBudget :: "float64 option"
  cx_MinQuality :: "float64 option"
  cx_SessionID :: "string option"
  cx_Credential :: "CallerCredential option"

definition emptyCtx :: Ctx where
  "emptyCtx = \<lparr>cx_RequestID = None, cx_gwRequestID = None, cx_OrgID = None, cx_UserID = None, cx_VKeyID = None,
     cx_AllowedModels = None, cx_RPMLimit = None, cx_MonthlyBudget = None, cx_MinQuality = None,
     cx_SessionID = None, cx_Credential = None\<rparr>"

text \<open>\<open>v, _ := ctx.Value(key).(T)\<close>: the zero value when the key is absent.\<close>

abbreviation or_zero :: "'a \<Rightarrow> 'a option \<Rightarrow> 'a" where
  "or_zero z v \<equiv> case_option z (\<lambda>x. x) v"

definition OrgIDFrom :: "Ctx \<Rightarrow> string" where "OrgIDFrom ctx = or_zero [] (cx_OrgID ctx)"
definition UserIDFrom :: "Ctx \<Rightarrow> string" where "UserIDFrom ctx = or_zero [] (cx_UserID ctx)"
definition vkeyID :: "Ctx \<Rightarrow> string" where "vkeyID ctx = or_zero [] (cx_VKeyID ctx)"

text \<open>A request, with the two headers the middleware reads (absent is the empty string).\<close>

record Request =
  rq_Authorization :: string
  rq_XRequestId :: string
  rq_Ctx :: Ctx

datatype 'b payload = ErrorBody (err_Message: string) (err_Type: string) | Payload 'b

record 'b Writer =
  wr_Header :: "(string, string) gomap"
  wr_Status :: "int option"
  wr_Body :: "'b payload list"

definition new_writer :: "'b Writer" where
  "new_writer = \<lparr>wr_Header = [], wr_Status = None, wr_Body = []\<rparr>"

text \<open>Only the first \<open>WriteHeader\<close> counts.\<close>

definition WriteHeader :: "int \<Rightarrow> 'b Writer \<Rightarrow> 'b Writer" where
  "WriteHeader status w = (case wr_Status w of None \<Rightarrow> w\<lparr>wr_Status := Some status\<rparr> | Some _ \<Rightarrow> w)"

definition set_header :: "string \<Rightarrow> string \<Rightarrow> 'b Writer \<Rightarrow> 'b Writer" where
  "set_header k v w = w\<lparr>wr_Header := gomap_set k v (wr_Header w)\<rparr>"

definition writeJSON :: "int \<Rightarrow> 'b payload \<Rightarrow> 'b Writer \<Rightarrow> 'b Writer" where
  "writeJSON status v w =
     (let w = WriteHeader status (set_header ''Content-Type'' ''application/json'' w)
      in w\<lparr>wr_Body := wr_Body w @ [v]\<rparr>)"

definition streamRequestID :: "Ctx \<Rightarrow> string" where
  "streamRequestID ctx = or_zero [] (cx_RequestID ctx)"

definition writeError :: "Ctx \<Rightarrow> int \<Rightarrow> string \<Rightarrow> string \<Rightarrow> 'b Writer \<Rightarrow> 'b Writer" where
  "writeError ctx status errType msg w =
     (let id = streamRequestID ctx;
          w = (if id \<noteq> [] then set_header ''X-Request-Id'' id w else w)
      in writeJSON status (ErrorBody (Scrub msg) errType) w)"

text \<open>\<open>recordSpend\<close> of \<open>handler.go\<close>, for a limiter that is present.\<close>

definition record_spend :: "('l \<Rightarrow> nat \<Rightarrow> string \<Rightarrow> float64 \<Rightarrow> 'l) \<Rightarrow> nat \<Rightarrow> Ctx \<Rightarrow> float64 \<Rightarrow> 'l \<Rightarrow> 'l" where
  "record_spend addSpend t ctx costUSD lm =
     (if costUSD \<le> 0 \<or> vkeyID ctx = [] then lm else addSpend lm t (vkeyID ctx) costUSD)"

section \<open>The middleware\<close>

record AuthResult =
  ar_OrgID :: string
  ar_UserID :: string
  ar_VKeyID :: string
  ar_AllowedModels :: "string list"
  ar_RPMLimit :: int
  ar_MonthlyBudget :: float64
  ar_MinQuality :: float64

type_synonym VKeyAuthenticator = "string \<Rightarrow> AuthResult option"

record LogEntry =
  le_status :: int
  le_request_id :: "string option"

text \<open>The state of the process: the limiter, the cap, the access log, and \<open>'a\<close> for the rest.\<close>

record ('l, 'a) Sys =
  sys_lim :: "'l option"
  sys_cap :: "ConcurrencyCap option"
  sys_log :: "LogEntry list"
  sys_app :: 'a

type_synonym ('l, 'a, 'b) HTTPHandler = "Request \<Rightarrow> 'b Writer \<Rightarrow> ('l, 'a) Sys \<Rightarrow> 'b Writer \<times> ('l, 'a) Sys \<times> bool"

definition RequestID :: "string \<Rightarrow> ('l, 'a, 'b) HTTPHandler \<Rightarrow> ('l, 'a, 'b) HTTPHandler" where
  "RequestID uuid handler r w s =
     (let id = (if rq_XRequestId r = [] then uuid else rq_XRequestId r)
      in handler (r\<lparr>rq_Ctx := (rq_Ctx r)\<lparr>cx_RequestID := Some id\<rparr>\<rparr>) (set_header ''X-Request-Id'' id w) s)"

definition Recover :: "('l, 'a, 'b) HTTPHandler \<Rightarrow> ('l, 'a, 'b) HTTPHandler" where
  "Recover handler r w s =
     (case handler r w s of (w', s', panicked) \<Rightarrow>
        if panicked then (writeError (rq_Ctx r) 500 ''internal_error'' ''internal server error'' w', s', False)
        else (w', s', False))"

text \<open>The status of the log line is the first one written through the wrapper, 200 when there was
  none. A panic passes the log statement by.\<close>

definition Logging :: "('l, 'a, 'b) HTTPHandler \<Rightarrow> ('l, 'a, 'b) HTTPHandler" where
  "Logging handler r w s =
     (case handler r w s of (w', s', panicked) \<Rightarrow>
        if panicked then (w', s', True)
        else (w', s'\<lparr>sys_log := sys_log s' @ [\<lparr>le_status = or_zero 200 (wr_Status w'),
                le_request_id = cx_gwRequestID (rq_Ctx r)\<rparr>]\<rparr>, False))"

definition bearerToken :: "Request \<Rightarrow> string" where
  "bearerToken r =
     (let pre = ''Bearer ''; h = rq_Authorization r in
      if length h > length pre \<and> strings_EqualFold (take (length pre) h) pre
      then strings_TrimSpace (drop (length pre) h) else [])"

definition auth_ctx :: "AuthResult \<Rightarrow> Ctx \<Rightarrow> Ctx" where
  "auth_ctx res ctx =
     ctx\<lparr>cx_OrgID := Some (ar_OrgID res), cx_UserID := Some (ar_UserID res), cx_VKeyID := Some (ar_VKeyID res),
       cx_AllowedModels := Some (ar_AllowedModels res), cx_RPMLimit := Some (ar_RPMLimit res),
       cx_MonthlyBudget := Some (ar_MonthlyBudget res), cx_MinQuality := Some (ar_MinQuality res)\<rparr>"

definition Auth :: "VKeyAuthenticator option \<Rightarrow> ('l, 'a, 'b) HTTPHandler \<Rightarrow> ('l, 'a, 'b) HTTPHandler" where
  "Auth auth handler r w s =
     (case auth of
        None \<Rightarrow> handler (r\<lparr>rq_Ctx := (rq_Ctx r)\<lparr>cx_OrgID := Some ''default'', cx_VKeyID := Some []\<rparr>\<rparr>) w s
      | Some authenticate \<Rightarrow>
          if bearerToken r = [] then
            (writeError (rq_Ctx r) 401 ''authentication_error'' ''missing or malformed Authorization header'' w, s, False)
          else case authenticate (bearerToken r) of
            None \<Rightarrow> (writeError (rq_Ctx r) 401 ''authentication_error'' ''invalid virtual key'' w, s, False)
          | Some res \<Rightarrow> handler (r\<lparr>rq_Ctx := auth_ctx res (rq_Ctx r)\<rparr>) w s)"

text \<open>The two checks of \<open>Enforce\<close>; a limiter error lets the request pass.\<close>

definition budget_exhausted :: "('l \<Rightarrow> nat \<Rightarrow> string \<Rightarrow> float64 option) \<Rightarrow> 'l \<Rightarrow> nat \<Rightarrow> Ctx \<Rightarrow> bool" where
  "budget_exhausted monthlySpend lm t ctx \<longleftrightarrow>
     (let budget = or_zero 0 (cx_MonthlyBudget ctx) in
      budget > 0 \<and> (case monthlySpend lm t (vkeyID ctx) of None \<Rightarrow> False | Some spent \<Rightarrow> spent \<ge> budget))"

definition rate_check ::
  "('l \<Rightarrow> nat \<Rightarrow> string \<Rightarrow> int \<Rightarrow> bool option \<times> 'l) \<Rightarrow> 'l \<Rightarrow> nat \<Rightarrow> Ctx \<Rightarrow> bool \<times> 'l" where
  "rate_check allow lm t ctx =
     (case allow lm t (vkeyID ctx) (or_zero 0 (cx_RPMLimit ctx)) of
        (answer, lm') \<Rightarrow> (answer \<noteq> Some False, lm'))"

definition Enforce ::
  "('l \<Rightarrow> nat \<Rightarrow> string \<Rightarrow> int \<Rightarrow> bool option \<times> 'l) \<Rightarrow> ('l \<Rightarrow> nat \<Rightarrow> string \<Rightarrow> float64 option) \<Rightarrow> nat \<Rightarrow>
     ('l, 'a, 'b) HTTPHandler \<Rightarrow> ('l, 'a, 'b) HTTPHandler" where
  "Enforce allow monthlySpend t handler r w s =
     (case sys_lim s of
        None \<Rightarrow> handler r w s
      | Some lm \<Rightarrow>
          if vkeyID (rq_Ctx r) = [] then handler r w s
          else if budget_exhausted monthlySpend lm t (rq_Ctx r) then
            (writeError (rq_Ctx r) 402 ''budget_exceeded'' ''monthly budget exhausted for this virtual key'' w, s, False)
          else case rate_check allow lm t (rq_Ctx r) of
            (ok, lm') \<Rightarrow>
              if ok then handler r w (s\<lparr>sys_lim := Some lm'\<rparr>)
              else (writeError (rq_Ctx r) 429 ''rate_limit_exceeded''
                      ''requests-per-minute limit exceeded for this virtual key'' (set_header ''Retry-After'' ''60'' w),
                    s\<lparr>sys_lim := Some lm'\<rparr>, False))"

definition Concurrency :: "('l, 'a, 'b) HTTPHandler \<Rightarrow> ('l, 'a, 'b) HTTPHandler" where
  "Concurrency handler r w s =
     (if sys_cap s = None \<or> vkeyID (rq_Ctx r) = [] then handler r w s
      else case Acquire (sys_cap s) (vkeyID (rq_Ctx r)) of
        (False, _) \<Rightarrow>
          (writeError (rq_Ctx r) 429 ''concurrency_exceeded''
             ''too many concurrent requests for this virtual key; retry shortly'' (set_header ''Retry-After'' ''1'' w),
           s, False)
      | (True, cap) \<Rightarrow>
          (case handler r w (s\<lparr>sys_cap := cap\<rparr>) of (w', s', panicked) \<Rightarrow>
             (w', s'\<lparr>sys_cap := Release (sys_cap s') (vkeyID (rq_Ctx r))\<rparr>, panicked)))"

text \<open>The chain of the \<open>/v1\<close> routes.\<close>

definition NewMux ::
  "string \<Rightarrow> VKeyAuthenticator option \<Rightarrow> ('l \<Rightarrow> nat \<Rightarrow> string \<Rightarrow> int \<Rightarrow> bool option \<times> 'l) \<Rightarrow>
     ('l \<Rightarrow> nat \<Rightarrow> string \<Rightarrow> float64 option) \<Rightarrow> nat \<Rightarrow> ('l, 'a, 'b) HTTPHandler \<Rightarrow> ('l, 'a, 'b) HTTPHandler" where
  "NewMux uuid auth allow monthlySpend t handler =
     RequestID uuid (Recover (Logging (Auth auth (Enforce allow monthlySpend t (Concurrency handler)))))"

section \<open>One request\<close>

lemma WriteHeader_sel [simp]:
  "wr_Status (WriteHeader st w) = Some (or_zero st (wr_Status w))"
  "wr_Body (WriteHeader st w) = wr_Body w" "wr_Header (WriteHeader st w) = wr_Header w"
  by (cases "wr_Status w"; simp add: WriteHeader_def)+

lemma set_header_sel [simp]:
  "wr_Status (set_header k v w) = wr_Status w" "wr_Body (set_header k v w) = wr_Body w"
  "wr_Header (set_header k v w) = gomap_set k v (wr_Header w)"
  by (simp_all add: set_header_def)

lemma writeJSON_sel [simp]:
  "wr_Status (writeJSON st v w) = Some (or_zero st (wr_Status w))"
  "wr_Body (writeJSON st v w) = wr_Body w @ [v]"
  by (simp_all add: writeJSON_def Let_def)

lemma writeError_sel [simp]:
  "wr_Status (writeError ctx st ty msg w) = Some (or_zero st (wr_Status w))"
  "wr_Body (writeError ctx st ty msg w) = wr_Body w @ [ErrorBody (Scrub msg) ty]"
  by (simp_all add: writeError_def Let_def)

lemma new_writer_sel [simp]: "wr_Status new_writer = None" "wr_Body new_writer = []" "wr_Header new_writer = []"
  by (simp_all add: new_writer_def)

lemma bearerToken_ctx [simp]: "bearerToken (r\<lparr>rq_Ctx := ctx\<rparr>) = bearerToken r"
  by (simp add: bearerToken_def)



text \<open>Clients of the cap: a slot that was taken and given back leaves the counts as they were.\<close>

context concurrency_cap
begin

lemma acquire_release:
  assumes "invar c" "fst (acquire c k)"
  shows "inflight (release (snd (acquire c k)) k) k' = inflight c k'"
proof -
  have "invar (snd (acquire c k))" using acquire_invar [OF assms(1)] by blast
  moreover have "0 < inflight (snd (acquire c k)) k"
    using inflight_nonneg [OF assms(1), of k] assms by (simp add: acquire_count)
  ultimately show ?thesis using assms by (simp add: release_count acquire_count)
qed

end

definition keeps_cap :: "('l, 'a, 'b) HTTPHandler \<Rightarrow> bool" where
  "keeps_cap handler \<longleftrightarrow> (\<forall>r w s. sys_cap (fst (snd (handler r w s))) = sys_cap s)"

lemma Concurrency_balanced:
  assumes "keeps_cap handler" "sys_cap s = None \<or> cap_wf (sys_cap s)"
  shows "Inflight (sys_cap (fst (snd (Concurrency handler r w s)))) k = Inflight (sys_cap s) k"
proof (cases "sys_cap s = None \<or> vkeyID (rq_Ctx r) = []")
  case True
  with assms(1) show ?thesis by (simp add: Concurrency_def keeps_cap_def)
next
  case False
  with assms(2) have wf: "cap_wf (sys_cap s)" by auto
  obtain ok cap' where a: "Acquire (sys_cap s) (vkeyID (rq_Ctx r)) = (ok, cap')" by (cases "Acquire (sys_cap s) (vkeyID (rq_Ctx r))")
  obtain w' s' p where h: "handler r w (s\<lparr>sys_cap := cap'\<rparr>) = (w', s', p)" by (cases "handler r w (s\<lparr>sys_cap := cap'\<rparr>)")
  have "sys_cap s' = cap'" using assms(1) [unfolded keeps_cap_def, rule_format, of r w "s\<lparr>sys_cap := cap'\<rparr>"] h by simp
  with False a h cap.acquire_release [OF wf, of "vkeyID (rq_Ctx r)" k] show ?thesis
    by (cases ok) (auto simp: Concurrency_def)
qed

lemma Enforce_balanced:
  assumes "keeps_cap handler" "sys_cap s = None \<or> cap_wf (sys_cap s)"
  shows "Inflight (sys_cap (fst (snd (Enforce allow ms t (Concurrency handler) r w s)))) k = Inflight (sys_cap s) k"
  using Concurrency_balanced [OF assms(1)] assms(2)
  by (auto simp: Enforce_def split: option.split prod.split)

text \<open>
  A request gives back what it took. Whatever the request, and whether the handler answers,
  panics or is never reached, the chain returns normally, and every virtual key has as many slots in
  use afterwards as before. The cap may be absent, or present with any counts.
\<close>

theorem mux_slots_balanced:
  assumes "keeps_cap handler" "sys_cap s = None \<or> cap_wf (sys_cap s)"
  shows "\<exists>w' s'. NewMux uuid auth allow monthlySpend t handler r w s = (w', s', False)
    \<and> (\<forall>k. Inflight (sys_cap s') k = Inflight (sys_cap s) k)"
proof -
  define inner where "inner = Auth auth (Enforce allow monthlySpend t (Concurrency handler))"
  have "Inflight (sys_cap (fst (snd (inner r' w'' s)))) k = Inflight (sys_cap s) k" for r' w'' k
    using Enforce_balanced [OF assms] unfolding inner_def Auth_def by (auto split: option.split)
  then show ?thesis
    unfolding NewMux_def inner_def [symmetric] RequestID_def Recover_def Logging_def Let_def
    by (auto split: prod.split) (metis fst_conv snd_conv)+
qed

theorem mux_slots_balanced_witness:
  "\<exists>w' s'. NewMux ''u'' (Some (\<lambda>_. Some \<lparr>ar_OrgID = ''o'', ar_UserID = [], ar_VKeyID = ''k'', ar_AllowedModels = [],
          ar_RPMLimit = 0, ar_MonthlyBudget = 0, ar_MinQuality = 0\<rparr>)) mem_allow mem_monthlySpend 0
        (\<lambda>r w s. (w, s, True)) \<lparr>rq_Authorization = ''Bearer key'', rq_XRequestId = [], rq_Ctx = emptyCtx\<rparr> (new_writer :: unit Writer)
        \<lparr>sys_lim = Some NewMemory, sys_cap = Some (NewConcurrencyCap 2), sys_log = [], sys_app = ()\<rparr> = (w', s', False)
    \<and> (\<forall>k. Inflight (sys_cap s') k = Inflight (Some (NewConcurrencyCap 2)) k)"
  using mux_slots_balanced [of "\<lambda>r w s. (w, s, True)"
      "\<lparr>sys_lim = Some NewMemory, sys_cap = Some (NewConcurrencyCap 2), sys_log = [], sys_app = ()\<rparr>"]
  by (simp add: keeps_cap_def NewConcurrencyCap_wf)

definition answers :: "('l, 'a, 'b) HTTPHandler \<Rightarrow> bool" where
  "answers handler \<longleftrightarrow> (\<forall>r w s. \<exists>w' s'. handler r w s = (w', s', False) \<and> sys_log s' = sys_log s)"

lemma answersE:
  assumes "answers handler"
  obtains w' s' where "handler r w s = (w', s', False)" "sys_log s' = sys_log s"
  using assms unfolding answers_def by metis

lemma Concurrency_answers:
  fixes handler :: "('l, 'a, 'b) HTTPHandler"
  assumes "answers handler" shows "answers (Concurrency handler)"
  unfolding answers_def
proof (intro allI)
  fix r :: Request and w :: "'b Writer" and s :: "('l, 'a) Sys"
  obtain ok cap' where a: "Acquire (sys_cap s) (vkeyID (rq_Ctx r)) = (ok, cap')"
    by (cases "Acquire (sys_cap s) (vkeyID (rq_Ctx r))")
  obtain w1 s1 where "handler r w s = (w1, s1, False)" "sys_log s1 = sys_log s" by (rule answersE [OF assms])
  moreover obtain w2 s2 where "handler r w (s\<lparr>sys_cap := cap'\<rparr>) = (w2, s2, False)" "sys_log s2 = sys_log (s\<lparr>sys_cap := cap'\<rparr>)"
    by (rule answersE [OF assms])
  ultimately show "\<exists>w' s'. Concurrency handler r w s = (w', s', False) \<and> sys_log s' = sys_log s"
    using a by (cases ok) (auto simp: Concurrency_def)
qed

lemma Enforce_answers:
  fixes handler :: "('l, 'a, 'b) HTTPHandler"
  assumes "answers handler" shows "answers (Enforce allow ms t handler)"
  unfolding answers_def
proof (intro allI)
  fix r :: Request and w :: "'b Writer" and s :: "('l, 'a) Sys"
  obtain w1 s1 where h: "handler r w s = (w1, s1, False)" "sys_log s1 = sys_log s" by (rule answersE [OF assms])
  show "\<exists>w' s'. Enforce allow ms t handler r w s = (w', s', False) \<and> sys_log s' = sys_log s"
  proof (cases "sys_lim s")
    case (Some lm)
    obtain ok lm' where a: "rate_check allow lm t (rq_Ctx r) = (ok, lm')" by (cases "rate_check allow lm t (rq_Ctx r)")
    obtain w2 s2 where "handler r w (s\<lparr>sys_lim := Some lm'\<rparr>) = (w2, s2, False)"
      "sys_log s2 = sys_log (s\<lparr>sys_lim := Some lm'\<rparr>)" by (rule answersE [OF assms])
    with Some a h show ?thesis by (auto simp: Enforce_def)
  qed (simp add: Enforce_def h)
qed

lemma Auth_answers:
  fixes handler :: "('l, 'a, 'b) HTTPHandler"
  assumes "answers handler" shows "answers (Auth auth handler)"
  unfolding answers_def
proof (intro allI)
  fix r :: Request and w :: "'b Writer" and s :: "('l, 'a) Sys"
  have h: "\<exists>w' s'. handler r' w s = (w', s', False) \<and> sys_log s' = sys_log s" for r'
    by (rule answersE [OF assms]) blast
  show "\<exists>w' s'. Auth auth handler r w s = (w', s', False) \<and> sys_log s' = sys_log s"
    using h by (auto simp: Auth_def split: option.split)
qed

text \<open>
  The access log has no request id. The request-id middleware stores the id under the key of
  package \<open>resp\<close>, but the log line is written from the gateway's own key, which nothing sets: for a
  request that comes in with an empty value there, every line the chain writes - served or denied -
  has no id, although the context the handler sees has one.
\<close>

theorem access_log_lacks_request_id:
  assumes "answers handler" and "cx_gwRequestID (rq_Ctx r) = None"
  shows "\<exists>w' s' status. NewMux uuid auth allow monthlySpend t handler r w s = (w', s', False)
    \<and> sys_log s' = sys_log s @ [\<lparr>le_status = status, le_request_id = None\<rparr>]"
proof -
  define inner where "inner = Auth auth (Enforce allow monthlySpend t (Concurrency handler))"
  have "answers inner" unfolding inner_def by (intro Auth_answers Enforce_answers Concurrency_answers assms(1))
  then obtain w' s' where "inner (r\<lparr>rq_Ctx := (rq_Ctx r)\<lparr>cx_RequestID := Some (if rq_XRequestId r = [] then uuid else rq_XRequestId r)\<rparr>\<rparr>)
      (set_header ''X-Request-Id'' (if rq_XRequestId r = [] then uuid else rq_XRequestId r) w) s = (w', s', False)"
    "sys_log s' = sys_log s" by (rule answersE)
  then show ?thesis
    unfolding NewMux_def inner_def [symmetric] RequestID_def Recover_def Logging_def Let_def by (simp add: assms(2))
qed

theorem access_log_lacks_request_id_witness:
  "\<exists>w' s' status. NewMux ''u'' None mem_allow mem_monthlySpend 0 (\<lambda>r w s. (writeJSON 200 (Payload ()) w, s, False))
        \<lparr>rq_Authorization = [], rq_XRequestId = ''abc'', rq_Ctx = emptyCtx\<rparr> new_writer
        \<lparr>sys_lim = None, sys_cap = None, sys_log = [], sys_app = ()\<rparr> = (w', s', False)
    \<and> sys_log s' = [\<lparr>le_status = status, le_request_id = None\<rparr>]"
  using access_log_lacks_request_id [of "\<lambda>r w s. (writeJSON 200 (Payload ()) w, s, False)"
      "\<lparr>rq_Authorization = [], rq_XRequestId = ''abc'', rq_Ctx = emptyCtx\<rparr>" "''u''" None mem_allow mem_monthlySpend 0 new_writer
      "\<lparr>sys_lim = None, sys_cap = None, sys_log = [], sys_app = ()\<rparr>"]
  by (simp add: answers_def emptyCtx_def)

end
