(* ===== verification/ServerRuns.thy ===== *)
theory ServerRuns
  imports Middleware
begin

text \<open>
  Many requests at once. A request of the gateway's \<open>/v1\<close> routes goes through the middleware of
  \<open>middleware.go\<close> in steps: the budget check and the rate check of \<open>Enforce\<close>, the \<open>Acquire\<close> of
  \<open>Concurrency\<close>, the handler with its \<open>recordSpend\<close>, and the deferred \<open>Release\<close>. Each step calls
  the limiter or the cap once, under its lock; between two steps of a request, steps of others happen
  in any order. The relation below has one rule per step; a run is a sequence of labelled steps.
\<close>

section \<open>Steps\<close>

datatype phase = PBudget Ctx | PRate Ctx | PAcquire Ctx | PServe Ctx | PReturn Ctx

record ('l, 'c) conf =
  cf_lim :: 'l
  cf_cap :: 'c
  cf_req :: "nat \<Rightarrow> phase option"

datatype event =
    Arrive nat Ctx
  | BudgetCheck nat nat
  | RateCheck nat nat
  | TakeSlot nat
  | RecordSpend nat nat float64
  | Leave nat

inductive mux_step ::
  "('l \<Rightarrow> nat \<Rightarrow> string \<Rightarrow> int \<Rightarrow> bool option \<times> 'l) \<Rightarrow> ('l \<Rightarrow> nat \<Rightarrow> string \<Rightarrow> float64 option) \<Rightarrow>
   ('l \<Rightarrow> nat \<Rightarrow> string \<Rightarrow> float64 \<Rightarrow> 'l) \<Rightarrow> ('c \<Rightarrow> string \<Rightarrow> bool \<times> 'c) \<Rightarrow> ('c \<Rightarrow> string \<Rightarrow> 'c) \<Rightarrow>
   ('l, 'c) conf \<Rightarrow> event \<Rightarrow> ('l, 'c) conf \<Rightarrow> bool"
  for allow monthlySpend addSpend acquire release where
  step_arrive:
    "cf_req c i = None \<Longrightarrow>
     mux_step allow monthlySpend addSpend acquire release c (Arrive i ctx)
       (c\<lparr>cf_req := (cf_req c)(i := Some (PBudget ctx))\<rparr>)"
| step_budget:
    "cf_req c i = Some (PBudget ctx) \<Longrightarrow>
     mux_step allow monthlySpend addSpend acquire release c (BudgetCheck i t)
       (c\<lparr>cf_req := (cf_req c)(i :=
          if vkeyID ctx \<noteq> [] \<and> budget_exhausted monthlySpend (cf_lim c) t ctx then None else Some (PRate ctx))\<rparr>)"
| step_rate:
    "cf_req c i = Some (PRate ctx) \<Longrightarrow> vkeyID ctx \<noteq> [] \<Longrightarrow> rate_check allow (cf_lim c) t ctx = (ok, lm) \<Longrightarrow>
     mux_step allow monthlySpend addSpend acquire release c (RateCheck i t)
       (c\<lparr>cf_lim := lm, cf_req := (cf_req c)(i := if ok then Some (PAcquire ctx) else None)\<rparr>)"
| step_rate_skip:
    "cf_req c i = Some (PRate ctx) \<Longrightarrow> vkeyID ctx = [] \<Longrightarrow>
     mux_step allow monthlySpend addSpend acquire release c (RateCheck i t)
       (c\<lparr>cf_req := (cf_req c)(i := Some (PAcquire ctx))\<rparr>)"
| step_take:
    "cf_req c i = Some (PAcquire ctx) \<Longrightarrow> vkeyID ctx \<noteq> [] \<Longrightarrow> acquire (cf_cap c) (vkeyID ctx) = (ok, cap) \<Longrightarrow>
     mux_step allow monthlySpend addSpend acquire release c (TakeSlot i)
       (c\<lparr>cf_cap := cap, cf_req := (cf_req c)(i := if ok then Some (PServe ctx) else None)\<rparr>)"
| step_take_skip:
    "cf_req c i = Some (PAcquire ctx) \<Longrightarrow> vkeyID ctx = [] \<Longrightarrow>
     mux_step allow monthlySpend addSpend acquire release c (TakeSlot i)
       (c\<lparr>cf_req := (cf_req c)(i := Some (PServe ctx))\<rparr>)"
| step_spend:
    "cf_req c i = Some (PServe ctx) \<Longrightarrow>
     mux_step allow monthlySpend addSpend acquire release c (RecordSpend i t costUSD)
       (c\<lparr>cf_lim := record_spend addSpend t ctx costUSD (cf_lim c), cf_req := (cf_req c)(i := Some (PReturn ctx))\<rparr>)"
| step_leave:
    "cf_req c i = Some (PServe ctx) \<or> cf_req c i = Some (PReturn ctx) \<Longrightarrow>
     mux_step allow monthlySpend addSpend acquire release c (Leave i)
       (c\<lparr>cf_cap := (if vkeyID ctx = [] then cf_cap c else release (cf_cap c) (vkeyID ctx)),
          cf_req := (cf_req c)(i := None)\<rparr>)"

inductive mux_run ::
  "('l \<Rightarrow> nat \<Rightarrow> string \<Rightarrow> int \<Rightarrow> bool option \<times> 'l) \<Rightarrow> ('l \<Rightarrow> nat \<Rightarrow> string \<Rightarrow> float64 option) \<Rightarrow>
   ('l \<Rightarrow> nat \<Rightarrow> string \<Rightarrow> float64 \<Rightarrow> 'l) \<Rightarrow> ('c \<Rightarrow> string \<Rightarrow> bool \<times> 'c) \<Rightarrow> ('c \<Rightarrow> string \<Rightarrow> 'c) \<Rightarrow>
   ('l, 'c) conf \<Rightarrow> event list \<Rightarrow> ('l, 'c) conf \<Rightarrow> bool"
  for allow monthlySpend addSpend acquire release where
  run_nil: "mux_run allow monthlySpend addSpend acquire release c [] c"
| run_snoc:
    "mux_run allow monthlySpend addSpend acquire release c es c' \<Longrightarrow>
     mux_step allow monthlySpend addSpend acquire release c' e c'' \<Longrightarrow>
     mux_run allow monthlySpend addSpend acquire release c (es @ [e]) c''"

section \<open>Counting requests by phase\<close>

lemma card_fun_upd:
  assumes "finite {j. P (f j)}"
  shows "int (card {j. P ((f(i := x)) j)}) = int (card {j. P (f j)}) - of_bool (P (f i)) + of_bool (P x)"
proof -
  have "{j. P ((f(i := x)) j)} = (if P x then insert i ({j. P (f j)} - {i}) else {j. P (f j)} - {i})" by auto
  moreover have "int (card ({j. P (f j)} - {i})) = int (card {j. P (f j)}) - of_bool (P (f i))"
  proof (cases "P (f i)")
    case True
    then have "1 \<le> card {j. P (f j)}" using assms card_gt_0_iff [of "{j. P (f j)}"] by (auto simp: Suc_le_eq)
    with True assms show ?thesis by (simp add: card_Diff_singleton)
  next
    case False
    then have "{j. P (f j)} - {i} = {j. P (f j)}" by auto
    with False show ?thesis by simp
  qed
  moreover have "card (insert i ({j. P (f j)} - {i})) = Suc (card ({j. P (f j)} - {i}))"
    using assms by (simp del: insert_Diff_single)
  ultimately show ?thesis by (simp del: insert_Diff_single)
qed

lemma finite_fun_upd:
  "finite {j. P (f j)} \<Longrightarrow> finite {j. P ((f(i := x)) j)}"
  by (rule finite_subset [of _ "insert i {j. P (f j)}"]) auto

text \<open>The requests of a key that a handler is serving, and those that are past the budget check and
  have not recorded their cost.\<close>

fun is_serving :: "string \<Rightarrow> phase option \<Rightarrow> bool" where
  "is_serving k (Some (PServe ctx)) \<longleftrightarrow> vkeyID ctx = k"
| "is_serving k (Some (PReturn ctx)) \<longleftrightarrow> vkeyID ctx = k"
| "is_serving k _ \<longleftrightarrow> False"

fun is_unpaid :: "string \<Rightarrow> phase option \<Rightarrow> bool" where
  "is_unpaid k (Some (PRate ctx)) \<longleftrightarrow> vkeyID ctx = k"
| "is_unpaid k (Some (PAcquire ctx)) \<longleftrightarrow> vkeyID ctx = k"
| "is_unpaid k (Some (PServe ctx)) \<longleftrightarrow> vkeyID ctx = k"
| "is_unpaid k _ \<longleftrightarrow> False"

definition serving :: "('l, 'c) conf \<Rightarrow> string \<Rightarrow> nat" where
  "serving c k = card {i. is_serving k (cf_req c i)}"

definition unpaid :: "('l, 'c) conf \<Rightarrow> string \<Rightarrow> nat" where
  "unpaid c k = card {i. is_unpaid k (cf_req c i)}"

section \<open>The concurrency cap holds\<close>

definition start :: "'l \<Rightarrow> 'c \<Rightarrow> ('l, 'c) conf" where
  "start lm cap = \<lparr>cf_lim = lm, cf_cap = cap, cf_req = (\<lambda>_. None)\<rparr>"

context concurrency_cap
begin

definition cap_ok :: "int \<Rightarrow> ('l, 'c) conf \<Rightarrow> bool" where
  "cap_ok n c \<longleftrightarrow> invar (cf_cap c) \<and> bound (cf_cap c) = n \<and> finite {i. cf_req c i \<noteq> None}
     \<and> (\<forall>k. k \<noteq> [] \<longrightarrow> int (serving c k) = inflight (cf_cap c) k \<and> inflight (cf_cap c) k \<le> n)"

lemma finite_serving: "cap_ok n c \<Longrightarrow> finite {i. is_serving k (cf_req c i)}"
  unfolding cap_ok_def by (elim conjE, erule rev_finite_subset) (auto elim: is_serving.elims)

lemma serving_upd:
  assumes "cap_ok n c"
  shows "int (serving (c\<lparr>cf_req := (cf_req c)(i := x)\<rparr>) k)
    = int (serving c k) - of_bool (is_serving k (cf_req c i)) + of_bool (is_serving k x)"
  unfolding serving_def
  using card_fun_upd [of "is_serving k" "cf_req c" i x, OF finite_serving [OF assms]] by simp

lemma step_cap_ok:
  assumes "mux_step allow monthlySpend addSpend acquire release c e c'" "cap_ok n c"
  shows "cap_ok n c'"
proof -
  have fin: "finite {j. ((cf_req c)(i := x)) j \<noteq> None}" for i x
    using finite_fun_upd [of "\<lambda>p. p \<noteq> None" "cf_req c" i x] assms(2) by (simp add: cap_ok_def)
  have inv: "invar (cf_cap c)" using assms(2) by (simp add: cap_ok_def)

  from assms(1) show ?thesis
  proof cases
    case (step_take i ctx ok cap)
    have "int (serving c' k) = int (serving c k) + of_bool (ok \<and> vkeyID ctx = k)" for k
      using serving_upd [OF assms(2), of i "if ok then Some (PServe ctx) else None" k] step_take by (auto simp: serving_def)
    moreover have "inflight cap k = inflight (cf_cap c) k + of_bool (ok \<and> vkeyID ctx = k)"
      "ok \<longleftrightarrow> inflight (cf_cap c) (vkeyID ctx) < bound (cf_cap c)" for k
      using acquire_count [OF inv, of "vkeyID ctx" k] acquire_iff [OF inv, of "vkeyID ctx"] step_take by auto
    ultimately show ?thesis
      using step_take fin acquire_invar [OF inv, of "vkeyID ctx"] assms(2) by (auto simp: cap_ok_def)
  next
    case (step_leave i ctx)
    then have "is_serving (vkeyID ctx) (cf_req c i)" by auto
    then have "0 < serving c (vkeyID ctx)"
      unfolding serving_def using finite_serving [OF assms(2)] by (auto simp: card_gt_0_iff)
    moreover have "int (serving c' k) = int (serving c k) - of_bool (vkeyID ctx = k)" for k
      using serving_upd [OF assms(2), of i None k] step_leave by (auto simp: serving_def)
    ultimately show ?thesis
      using step_leave fin release_invar [OF inv, of "vkeyID ctx"] release_count [OF inv, of "vkeyID ctx"] assms(2)
      by (auto simp: cap_ok_def)
  qed (use fin serving_upd [OF assms(2)] assms(2) in \<open>simp add: cap_ok_def serving_def\<close>)+
qed

lemma run_cap_ok:
  "mux_run allow monthlySpend addSpend acquire release c es c' \<Longrightarrow> cap_ok n c \<Longrightarrow> cap_ok n c'"
  by (induction rule: mux_run.induct) (auto dest: step_cap_ok)


end

text \<open>
  C11. The concurrency cap holds in every interleaving. However many requests arrive and in whatever
  order their steps happen, the number of requests of one virtual key that are in a handler never
  exceeds the cap, and the counter of the cap is exactly that number - so when the last request of a
  key has left, its counter is back at zero.
\<close>

theorem concurrency_cap_holds:
  assumes "mux_run allow monthlySpend addSpend Acquire Release (start lm (Some (NewConcurrencyCap n))) es c"
    and "0 < n" "k \<noteq> []"
  shows "int (serving c k) \<le> n \<and> Inflight (cf_cap c) k = int (serving c k)"
proof -
  have "cap.cap_ok n (start lm (Some (NewConcurrencyCap n)))"
    using assms(2) NewConcurrencyCap_wf [OF assms(2)]
    by (simp add: cap.cap_ok_def start_def serving_def Cap_Max_def Inflight_def NewConcurrencyCap_def gomap_or_def)
  from cap.run_cap_ok [OF assms(1) this] assms(3) show ?thesis by (simp add: cap.cap_ok_def)
qed

section \<open>The monthly budget\<close>

text \<open>The labels of a run in which one virtual key has one budget, at most \<open>n\<close> requests are in
  progress at a time (request slots below \<open>n\<close>), no request costs more than \<open>cmax\<close>, and the checks
  and costs all fall into the month of \<open>t0\<close>.\<close>

fun budget_event :: "string \<Rightarrow> float64 \<Rightarrow> nat \<Rightarrow> float64 \<Rightarrow> nat \<Rightarrow> event \<Rightarrow> bool" where
  "budget_event k budget n cmax t0 (Arrive i ctx) \<longleftrightarrow>
     i < n \<and> (vkeyID ctx = k \<longrightarrow> cx_MonthlyBudget ctx = Some budget)"
| "budget_event k budget n cmax t0 (BudgetCheck i t) \<longleftrightarrow> same_month t t0"
| "budget_event k budget n cmax t0 (RecordSpend i t costUSD) \<longleftrightarrow> costUSD \<le> cmax \<and> same_month t t0"
| "budget_event k budget n cmax t0 _ \<longleftrightarrow> True"

fun phase_ctx :: "phase \<Rightarrow> Ctx" where
  "phase_ctx (PBudget ctx) = ctx"
| "phase_ctx (PRate ctx) = ctx"
| "phase_ctx (PAcquire ctx) = ctx"
| "phase_ctx (PServe ctx) = ctx"
| "phase_ctx (PReturn ctx) = ctx"

definition slots_ok :: "string \<Rightarrow> float64 \<Rightarrow> nat \<Rightarrow> (nat \<Rightarrow> phase option) \<Rightarrow> bool" where
  "slots_ok k budget n req \<longleftrightarrow> (\<forall>i p. req i = Some p \<longrightarrow>
     i < n \<and> (vkeyID (phase_ctx p) = k \<longrightarrow> cx_MonthlyBudget (phase_ctx p) = Some budget))"

lemma unpaid_bounds:
  assumes "slots_ok k budget n (cf_req c)"
  shows "finite {i. is_unpaid k (cf_req c i)}" "unpaid c k \<le> n"
proof -
  have sub: "{i. is_unpaid k (cf_req c i)} \<subseteq> {..<n}"
  proof
    fix i assume "i \<in> {i. is_unpaid k (cf_req c i)}"
    then obtain p where "cf_req c i = Some p" by (cases "cf_req c i") auto
    with assms show "i \<in> {..<n}" by (auto simp: slots_ok_def)
  qed
  then show "finite {i. is_unpaid k (cf_req c i)}" by (rule finite_subset) simp
  show "unpaid c k \<le> n" unfolding unpaid_def using card_mono [OF _ sub] by simp
qed

lemma unpaid_upd:
  assumes "slots_ok k budget n (cf_req c)" and "cf_req c' = (cf_req c)(i := x)"
  shows "real (unpaid c' k) = real (unpaid c k) - of_bool (is_unpaid k (cf_req c i)) + of_bool (is_unpaid k x)"
proof -
  have "int (unpaid c' k) = int (unpaid c k) - of_bool (is_unpaid k (cf_req c i)) + of_bool (is_unpaid k x)"
    unfolding unpaid_def assms(2)
    using card_fun_upd [of "is_unpaid k" "cf_req c" i x, OF unpaid_bounds(1) [OF assms(1)]] by simp
  from arg_cong [OF this, of real_of_int] show ?thesis by simp
qed

text \<open>A step keeps the slots in order: it frees a slot, or moves a request on, or takes a new one.\<close>

lemma slots_okD:
  "slots_ok k budget n req \<Longrightarrow> req i = Some p \<Longrightarrow> i < n"
  "slots_ok k budget n req \<Longrightarrow> req i = Some p \<Longrightarrow> vkeyID (phase_ctx p) = k \<Longrightarrow> cx_MonthlyBudget (phase_ctx p) = Some budget"
  by (simp_all add: slots_ok_def)

lemma slots_free: "slots_ok k budget n req \<Longrightarrow> slots_ok k budget n (req(i := None))"
  by (simp add: slots_ok_def)

lemma slots_take:
  "slots_ok k budget n req \<Longrightarrow> i < n \<Longrightarrow> vkeyID ctx = k \<longrightarrow> cx_MonthlyBudget ctx = Some budget \<Longrightarrow>
   slots_ok k budget n (req(i := Some (PBudget ctx)))"
  by (simp add: slots_ok_def)

lemma slots_move:
  assumes "slots_ok k budget n req" "req i = Some p" "phase_ctx p' = phase_ctx p"
  shows "slots_ok k budget n (req(i := Some p'))"
  using slots_okD [OF assms(1,2)] assms(1,3) by (auto simp: slots_ok_def)

lemma step_slots:
  assumes "mux_step allow monthlySpend addSpend acquire release c e c'" "budget_event k budget n cmax t0 e"
    and "slots_ok k budget n (cf_req c)"
  shows "slots_ok k budget n (cf_req c')"
  using assms by cases (auto intro: slots_take slots_free slots_move [OF assms(3)])

context rate_limiter
begin

definition budget_ok :: "string \<Rightarrow> float64 \<Rightarrow> nat \<Rightarrow> float64 \<Rightarrow> nat \<Rightarrow> ('s, 'c) conf \<Rightarrow> bool" where
  "budget_ok k budget n cmax t0 c \<longleftrightarrow> slots_ok k budget n (cf_req c)
   \<and> (\<exists>spent. monthlySpend (cf_lim c) t0 k = Some spent \<and> spent + real (unpaid c k) * cmax \<le> budget + real n * cmax)"

lemma budget_okI:
  assumes "budget_ok k budget n cmax t0 c" "slots_ok k budget n (cf_req c')"
    and "cf_req c' = (cf_req c)(i := x)" "0 \<le> cmax"
    and "is_unpaid k x \<Longrightarrow> is_unpaid k (cf_req c i)"
    and "\<And>spent. monthlySpend (cf_lim c) t0 k = Some spent \<Longrightarrow>
      \<exists>d. monthlySpend (cf_lim c') t0 k = Some (spent + d)
        \<and> (d \<le> 0 \<or> d \<le> cmax \<and> is_unpaid k (cf_req c i) \<and> \<not> is_unpaid k x)"
  shows "budget_ok k budget n cmax t0 c'"
proof -
  obtain spent where sp: "monthlySpend (cf_lim c) t0 k = Some spent" "spent + real (unpaid c k) * cmax \<le> budget + real n * cmax"
    using assms(1) unfolding budget_ok_def by blast
  obtain d where d: "monthlySpend (cf_lim c') t0 k = Some (spent + d)"
    "d \<le> 0 \<or> d \<le> cmax \<and> is_unpaid k (cf_req c i) \<and> \<not> is_unpaid k x"
    using assms(6) [OF sp(1)] by blast
  have u: "real (unpaid c' k) = real (unpaid c k) - of_bool (is_unpaid k (cf_req c i)) + of_bool (is_unpaid k x)"
    using assms(1,3) by (intro unpaid_upd) (auto simp: budget_ok_def)
  have "d + real (unpaid c' k) * cmax \<le> real (unpaid c k) * cmax"
    using d(2) assms(4,5) by (auto simp: u algebra_simps split: if_splits)
  with sp(2) d(1) assms(2) show ?thesis unfolding budget_ok_def by (auto simp: algebra_simps)
qed

lemma step_budget_ok:
  assumes step: "mux_step allow monthlySpend addSpend acquire release c e c'"
    and ev: "budget_event k budget n cmax t0 e" and ok: "budget_ok k budget n cmax t0 c"
    and pos: "0 \<le> cmax" "0 < budget" and nonempty: "k \<noteq> []"
  shows "budget_ok k budget n cmax t0 c'"
proof -
  have slots: "slots_ok k budget n (cf_req c)" using ok by (simp add: budget_ok_def)
  note slots' = step_slots [OF step ev slots]
  note keep = budget_okI [OF ok slots' _ pos(1)]
  from step show ?thesis
  proof cases
    case (step_budget i ctx t)
    show ?thesis
    proof (cases "vkeyID ctx = k \<and> \<not> (vkeyID ctx \<noteq> [] \<and> budget_exhausted monthlySpend (cf_lim c) t ctx)")
      case True
      obtain spent where sp: "monthlySpend (cf_lim c) t0 k = Some spent" using ok unfolding budget_ok_def by blast
      have "cx_MonthlyBudget ctx = Some budget" using slots_okD(2) [OF slots] step_budget True by fastforce
      moreover have "monthlySpend (cf_lim c) t k = Some spent"
        using spend_month [of t t0 "cf_lim c" k] ev sp step_budget by simp
      ultimately have "spent < budget" using True nonempty pos(2) by (auto simp: budget_exhausted_def)
      moreover have "real (unpaid c' k) \<le> real n" using unpaid_bounds(2) [OF slots'] by simp
      ultimately have "spent + real (unpaid c' k) * cmax \<le> budget + real n * cmax"
        using pos(1) by (intro add_mono mult_right_mono) auto
      with sp slots' step_budget show ?thesis by (auto simp: budget_ok_def)
    next
      case False
      show ?thesis by (rule keep [of i]) (use step_budget False in \<open>auto split: if_splits\<close>)
    qed
  next
    case (step_rate i ctx t r lm)
    have "monthlySpend lm t0 k = monthlySpend (cf_lim c) t0 k"
      using step_rate spend_allow [of "cf_lim c" t "vkeyID ctx" "or_zero 0 (cx_RPMLimit ctx)" t0 k]
      by (auto simp: rate_check_def split: prod.splits)
    with step_rate show ?thesis by (intro keep [of i]) (auto split: if_splits)
  next
    case (step_spend i ctx t costUSD)
    show ?thesis by (rule keep [of i]) (use step_spend ev in \<open>auto simp: record_spend_def spend_add\<close>)
  next
    case (step_arrive i ctx)
    then show ?thesis by (intro keep [of i]) auto
  next
    case (step_rate_skip i ctx t)
    then show ?thesis by (intro keep [of i]) auto
  next
    case (step_take i ctx r cap)
    then show ?thesis by (intro keep [of i]) (auto split: if_splits)
  next
    case (step_take_skip i ctx)
    then show ?thesis by (intro keep [of i]) auto
  next
    case (step_leave i ctx)
    then show ?thesis by (intro keep [of i None]) auto
  qed
qed

lemma run_budget_ok:
  assumes "mux_run allow monthlySpend addSpend acquire release c es c'" "list_all (budget_event k budget n cmax t0) es"
    and "budget_ok k budget n cmax t0 c" "0 \<le> cmax" "0 < budget" "k \<noteq> []"
  shows "budget_ok k budget n cmax t0 c'"
  using assms by (induction rule: mux_run.induct) (auto intro: step_budget_ok)

end

text \<open>
  C12. A monthly budget can be overdrawn only by the requests that are in progress. Enforcement reads
  the spend before a request and records the cost after it, so requests that run at the same time can
  pass the check together. In every interleaving in which at most \<open>n\<close> requests are in progress at a
  time and none costs more than \<open>cmax\<close>, the spend of a key in a month stays within its budget plus
  \<open>n\<close> times \<open>cmax\<close>.
\<close>

theorem budget_overdraft_bounded:
  assumes "mux_run mem_allow mem_monthlySpend Memory_AddSpend acquire release (start NewMemory cap) es c"
    and "list_all (budget_event k budget n cmax t0) es" "0 \<le> cmax" "0 < budget" "k \<noteq> []"
  shows "Memory_MonthlySpend (cf_lim c) t0 k \<le> budget + real n * cmax"
proof -
  have "mem.budget_ok k budget n cmax t0 (start NewMemory cap)"
    using assms(3,4)
    by (simp add: mem.budget_ok_def slots_ok_def start_def unpaid_def mem_monthlySpend_def Memory_MonthlySpend_def
        NewMemory_def gomap_or_def)
  from mem.run_budget_ok [OF assms(1,2) this assms(3-5)]
  obtain spent where "Memory_MonthlySpend (cf_lim c) t0 k = spent" "spent + real (unpaid c k) * cmax \<le> budget + real n * cmax"
    by (auto simp: mem.budget_ok_def mem_monthlySpend_def)
  moreover have "0 \<le> real (unpaid c k) * cmax" using assms(3) by simp
  ultimately show ?thesis by linarith
qed

section \<open>Running the steps\<close>

text \<open>The step relation as a function: the event determines the step.\<close>

fun mux_do ::
  "('l \<Rightarrow> nat \<Rightarrow> string \<Rightarrow> int \<Rightarrow> bool option \<times> 'l) \<Rightarrow> ('l \<Rightarrow> nat \<Rightarrow> string \<Rightarrow> float64 option) \<Rightarrow>
   ('l \<Rightarrow> nat \<Rightarrow> string \<Rightarrow> float64 \<Rightarrow> 'l) \<Rightarrow> ('c \<Rightarrow> string \<Rightarrow> bool \<times> 'c) \<Rightarrow> ('c \<Rightarrow> string \<Rightarrow> 'c) \<Rightarrow>
   event \<Rightarrow> ('l, 'c) conf \<Rightarrow> ('l, 'c) conf option" where
  "mux_do al ms ad acq rel (Arrive i ctx) c =
     (if cf_req c i = None then Some (c\<lparr>cf_req := (cf_req c)(i := Some (PBudget ctx))\<rparr>) else None)"
| "mux_do al ms ad acq rel (BudgetCheck i t) c =
     (case cf_req c i of
        Some (PBudget ctx) \<Rightarrow> Some (c\<lparr>cf_req := (cf_req c)(i :=
          if vkeyID ctx \<noteq> [] \<and> budget_exhausted ms (cf_lim c) t ctx then None else Some (PRate ctx))\<rparr>)
      | _ \<Rightarrow> None)"
| "mux_do al ms ad acq rel (RateCheck i t) c =
     (case cf_req c i of
        Some (PRate ctx) \<Rightarrow>
          if vkeyID ctx = [] then Some (c\<lparr>cf_req := (cf_req c)(i := Some (PAcquire ctx))\<rparr>)
          else Some (c\<lparr>cf_lim := snd (rate_check al (cf_lim c) t ctx), cf_req := (cf_req c)(i :=
                 if fst (rate_check al (cf_lim c) t ctx) then Some (PAcquire ctx) else None)\<rparr>)
      | _ \<Rightarrow> None)"
| "mux_do al ms ad acq rel (TakeSlot i) c =
     (case cf_req c i of
        Some (PAcquire ctx) \<Rightarrow>
          if vkeyID ctx = [] then Some (c\<lparr>cf_req := (cf_req c)(i := Some (PServe ctx))\<rparr>)
          else Some (c\<lparr>cf_cap := snd (acq (cf_cap c) (vkeyID ctx)), cf_req := (cf_req c)(i :=
                 if fst (acq (cf_cap c) (vkeyID ctx)) then Some (PServe ctx) else None)\<rparr>)
      | _ \<Rightarrow> None)"
| "mux_do al ms ad acq rel (RecordSpend i t costUSD) c =
     (case cf_req c i of
        Some (PServe ctx) \<Rightarrow> Some (c\<lparr>cf_lim := record_spend ad t ctx costUSD (cf_lim c),
          cf_req := (cf_req c)(i := Some (PReturn ctx))\<rparr>)
      | _ \<Rightarrow> None)"
| "mux_do al ms ad acq rel (Leave i) c =
     (let out = (\<lambda>ctx. Some (c\<lparr>cf_cap := (if vkeyID ctx = [] then cf_cap c else rel (cf_cap c) (vkeyID ctx)),
          cf_req := (cf_req c)(i := None)\<rparr>)) in
      case cf_req c i of Some (PServe ctx) \<Rightarrow> out ctx | Some (PReturn ctx) \<Rightarrow> out ctx | _ \<Rightarrow> None)"

lemma mux_do_step:
  assumes "mux_do al ms ad acq rel e c = Some c'"
  shows "mux_step al ms ad acq rel c e c'"
proof (cases e)
  case (Arrive i ctx)
  with assms show ?thesis by (auto intro: step_arrive split: if_splits)
next
  case (BudgetCheck i t)
  with assms obtain ctx where "cf_req c i = Some (PBudget ctx)" by (auto split: option.splits phase.splits)
  from step_budget [where t = t, OF this] assms this BudgetCheck show ?thesis by auto
next
  case (RateCheck i t)
  with assms obtain ctx where r: "cf_req c i = Some (PRate ctx)" by (auto split: option.splits phase.splits)
  show ?thesis
    using step_rate [where t = t, OF r _ surjective_pairing] step_rate_skip [where t = t, OF r] assms r RateCheck
    by (cases "vkeyID ctx = []") auto
next
  case (TakeSlot i)
  with assms obtain ctx where r: "cf_req c i = Some (PAcquire ctx)" by (auto split: option.splits phase.splits)
  show ?thesis
    using step_take [OF r _ surjective_pairing] step_take_skip [OF r] assms r TakeSlot
    by (cases "vkeyID ctx = []") auto
next
  case (RecordSpend i t costUSD)
  with assms obtain ctx where "cf_req c i = Some (PServe ctx)" by (auto split: option.splits phase.splits)
  from step_spend [where t = t, OF this] assms this RecordSpend show ?thesis by auto
next
  case (Leave i)
  with assms obtain ctx where "cf_req c i = Some (PServe ctx) \<or> cf_req c i = Some (PReturn ctx)"
    by (auto simp: Let_def split: option.splits phase.splits)
  from step_leave [OF this] assms this Leave show ?thesis by (auto simp: Let_def)
qed

fun mux_exec where
  "mux_exec al ms ad acq rel [] c = Some c"
| "mux_exec al ms ad acq rel (e # es) c =
     (case mux_do al ms ad acq rel e c of None \<Rightarrow> None | Some c' \<Rightarrow> mux_exec al ms ad acq rel es c')"

lemma mux_run_cons:
  "mux_run al ms ad acq rel c' es c'' \<Longrightarrow> mux_step al ms ad acq rel c e c' \<Longrightarrow> mux_run al ms ad acq rel c (e # es) c''"
proof (induction rule: mux_run.induct)
  case (run_nil c')
  from mux_run.run_snoc [OF mux_run.run_nil run_nil] show ?case by simp
next
  case (run_snoc c' es d e' d')
  from mux_run.run_snoc [OF run_snoc.IH [OF run_snoc.prems] run_snoc.hyps(2)] show ?case by simp
qed

lemma mux_exec_run: "mux_exec al ms ad acq rel es c = Some c' \<Longrightarrow> mux_run al ms ad acq rel c es c'"
  by (induction es arbitrary: c)
     (auto intro: mux_run.run_nil mux_run_cons dest: mux_do_step split: option.splits)

text \<open>Two requests of key \<open>k\<close>, which has a budget of 5, on a server with one slot per key. Both pass
  the budget check; the first costs 7, the second is turned away by the cap.\<close>

definition sample_ctx :: Ctx where
  "sample_ctx = emptyCtx\<lparr>cx_VKeyID := Some ''k'', cx_MonthlyBudget := Some 5\<rparr>"

definition sample_events :: "event list" where
  "sample_events = [Arrive 0 sample_ctx, Arrive 1 sample_ctx, BudgetCheck 0 0, BudgetCheck 1 0, RateCheck 0 0,
     RateCheck 1 0, TakeSlot 0, TakeSlot 1, RecordSpend 0 0 7]"

definition sample_conf :: "(Memory, ConcurrencyCap option) conf" where
  "sample_conf = \<lparr>cf_lim = Memory_AddSpend NewMemory 0 ''k'' 7, cf_cap = snd (Acquire (Some (NewConcurrencyCap 1)) ''k''),
     cf_req = (\<lambda>_. None)(0 := Some (PReturn sample_ctx), 1 := None)\<rparr>"

lemma sample_sel: "vkeyID sample_ctx = ''k''" "cx_MonthlyBudget sample_ctx = Some 5" "cx_RPMLimit sample_ctx = None"
  by (simp_all add: vkeyID_def sample_ctx_def emptyCtx_def)

lemma sample_run:
  "mux_run mem_allow mem_monthlySpend Memory_AddSpend Acquire Release (start NewMemory (Some (NewConcurrencyCap 1)))
     sample_events sample_conf"
  by (rule mux_exec_run)
     (simp add: sample_events_def sample_conf_def start_def sample_sel budget_exhausted_def rate_check_def mem_allow_def
        Memory_Allow_def mem_monthlySpend_def Memory_MonthlySpend_def NewMemory_def gomap_or_def record_spend_def
        Acquire_def NewConcurrencyCap_def)

theorem concurrency_cap_holds_witness:
  "int (serving sample_conf ''k'') \<le> 1 \<and> Inflight (cf_cap sample_conf) ''k'' = int (serving sample_conf ''k'')"
  by (rule concurrency_cap_holds [OF sample_run]) simp_all

theorem budget_overdraft_bounded_witness:
  "Memory_MonthlySpend (cf_lim sample_conf) 0 ''k'' \<le> 5 + real 2 * 7"
  by (rule budget_overdraft_bounded [OF sample_run, of "''k''" 5 2 7 0])
     (simp_all add: sample_events_def sample_sel same_month_def)

end
