(* ===== verification/GatewayCore.thy ===== *)
theory GatewayCore
  imports Middleware Registry Router Balancer Guardrails SemCache Pricing TurnKey
begin

text \<open>
  The parts of \<open>internal/gateway/handler.go\<close> and \<open>evidence.go\<close> that all chat requests share: the
  trace record of \<open>internal/observability\<close>, how a trace is made and recorded, the choice of the
  candidate chain, the upstream credential, and the small predicates on requests.

  The struct \<open>Handler\<close> is split. \<open>Handler\<close> below has the settings; \<open>GState\<close> has what its pointers
  lead to and requests change: the balancer, the semantic cache, the credential cache, the limiter,
  and, as lists, what the handler tells the outside: upstream calls, recorded traces, failover
  notifications. \<open>'u\<close> is the state of the upstream providers.

  \<open>Env\<close> collects what a request gets from outside the package: the providers, the clock, fresh
  identifiers, JSON codecs, regular expressions and schemas.
\<close>

section \<open>Traces\<close>

record ProviderAttempt =
  at_Index :: nat
  at_Provider :: string
  at_Model :: string
  at_CredentialSource :: string
  at_StatusCode :: int
  at_LatencyMs :: int
  at_ErrorType :: string
  at_ErrorMsg :: string
  at_CacheHit :: bool
  at_FallbackAllowed :: bool

record PolicyReason =
  pr_Code :: string
  pr_RuleID :: string
  pr_Detail :: string

record Trace =
  tr_TraceID :: string
  tr_SpanID :: string
  tr_ParentID :: string
  tr_OrgID :: string
  tr_UserID :: string
  tr_VirtualKeyID :: string
  tr_CredentialSource :: string
  tr_OperationName :: string
  tr_ProviderName :: string
  tr_RequestModel :: string
  tr_ResponseModel :: string
  tr_InputTokens :: int
  tr_OutputTokens :: int
  tr_FinishReason :: string
  tr_Temperature :: float64
  tr_TopP :: float64
  tr_MaxTokens :: int
  tr_Streamed :: bool
  tr_TTFTMillis :: int
  tr_LatencyMs :: int
  tr_CostUSD :: float64
  tr_StatusCode :: int
  tr_ErrorType :: string
  tr_ErrorMsg :: string
  tr_GuardrailAction :: string
  tr_InputMessages :: string
  tr_OutputMessages :: string
  tr_RetrievalContexts :: string
  tr_EvalReference :: string
  tr_ReplicaID :: string
  tr_CacheHit :: bool
  tr_Attempts :: "ProviderAttempt list"
  tr_PolicyReasons :: "PolicyReason list"
  tr_GuardrailRule :: string
  tr_EgressMode :: string
  tr_SessionID :: string
  tr_TurnID :: string

definition zero_Trace :: Trace where
  "zero_Trace = \<lparr>tr_TraceID = [], tr_SpanID = [], tr_ParentID = [], tr_OrgID = [], tr_UserID = [],
     tr_VirtualKeyID = [], tr_CredentialSource = [], tr_OperationName = [], tr_ProviderName = [],
     tr_RequestModel = [], tr_ResponseModel = [], tr_InputTokens = 0, tr_OutputTokens = 0, tr_FinishReason = [],
     tr_Temperature = 0, tr_TopP = 0, tr_MaxTokens = 0, tr_Streamed = False, tr_TTFTMillis = 0, tr_LatencyMs = 0,
     tr_CostUSD = 0, tr_StatusCode = 0, tr_ErrorType = [], tr_ErrorMsg = [], tr_GuardrailAction = [],
     tr_InputMessages = [], tr_OutputMessages = [], tr_RetrievalContexts = [], tr_EvalReference = [],
     tr_ReplicaID = [], tr_CacheHit = False, tr_Attempts = [], tr_PolicyReasons = [], tr_GuardrailRule = [],
     tr_EgressMode = [], tr_SessionID = [], tr_TurnID = []\<rparr>"

abbreviation ReasonAllowed :: string where "ReasonAllowed \<equiv> ''allowed''"
abbreviation ReasonDenied :: string where "ReasonDenied \<equiv> ''denied''"
abbreviation ReasonFallback :: string where "ReasonFallback \<equiv> ''fallback''"
abbreviation ReasonRedacted :: string where "ReasonRedacted \<equiv> ''redacted''"
abbreviation ReasonMinQuality :: string where "ReasonMinQuality \<equiv> ''min_quality''"
abbreviation ReasonCacheHit :: string where "ReasonCacheHit \<equiv> ''cache_hit''"
abbreviation ReasonMissingBYOK :: string where "ReasonMissingBYOK \<equiv> ''missing_byok_key''"
abbreviation ReasonGuardrailBlocked :: string where "ReasonGuardrailBlocked \<equiv> ''guardrail_blocked''"
abbreviation ReasonModelNotAllowed :: string where "ReasonModelNotAllowed \<equiv> ''model_not_allowed''"
abbreviation ReasonSchemaBlocked :: string where "ReasonSchemaBlocked \<equiv> ''schema_blocked''"
abbreviation ReasonUpstreamError :: string where "ReasonUpstreamError \<equiv> ''upstream_error''"

definition GuardrailRuleFromAction :: "string \<Rightarrow> string" where
  "GuardrailRuleFromAction action = (case strings_Cut (CHR '':'') action of None \<Rightarrow> [] | Some (_, rule) \<Rightarrow> rule)"

definition attemptFromTrace :: "Trace \<Rightarrow> nat \<Rightarrow> nat \<Rightarrow> ProviderAttempt" where
  "attemptFromTrace t index chainLen =
     \<lparr>at_Index = index, at_Provider = tr_ProviderName t, at_Model = tr_RequestModel t,
      at_CredentialSource = tr_CredentialSource t, at_StatusCode = tr_StatusCode t, at_LatencyMs = tr_LatencyMs t,
      at_ErrorType = tr_ErrorType t, at_ErrorMsg = tr_ErrorMsg t, at_CacheHit = tr_CacheHit t,
      at_FallbackAllowed = int index < int chainLen - 1\<rparr>"

definition stampSharedTraceID :: "Trace \<Rightarrow> Trace \<Rightarrow> Trace" where
  "stampSharedTraceID dst reqTrace =
     (let dst = dst\<lparr>tr_TraceID := tr_TraceID reqTrace\<rparr>;
          dst = (if tr_ParentID dst = [] then dst\<lparr>tr_ParentID := tr_ParentID reqTrace\<rparr> else dst);
          dst = (if tr_SessionID dst = [] then dst\<lparr>tr_SessionID := tr_SessionID reqTrace\<rparr> else dst)
      in if tr_TurnID dst = [] then dst\<lparr>tr_TurnID := tr_TurnID reqTrace\<rparr> else dst)"

section \<open>The handler and its surroundings\<close>

text \<open>An event of an upstream stream.\<close>

record StreamEvent =
  sev_Chunk :: "ChatCompletionChunk option"
  sev_Raw :: gobytes
  sev_Err :: "string option"
  sev_Done :: bool

record 're Handler =
  h_registry :: Registry
  h_recorder :: bool
  h_router :: "(string list \<Rightarrow> float64 \<Rightarrow> string list) option"
  h_groups :: "(string, string list) gomap"
  h_guard :: "'re Guard option"
  h_selfCorrectMax :: int
  h_keyMode :: KeyMode
  h_replicaID :: string
  h_failoverNotify :: bool
  h_egressMode :: string

type_synonym upstream_call = "Provider \<times> Ctx \<times> ChatCompletionRequest"

record ('u, 'c, 'l) GState =
  g_world :: 'u
  g_calls :: "upstream_call list"
  g_limiter :: "'l option"
  g_lb :: "WeightedRR option"
  g_scache :: "'c Service option"
  g_creds :: "CredentialResolver option"
  g_traces :: "Trace list"
  g_notes :: "FailoverEvent list"

text \<open>Identifiers: \<open>ev_uuid n\<close> is the \<open>n\<close>-th id a request draws. Times: the whole request happens at
  \<open>ev_now\<close> (nanoseconds); the durations its trace reports are arguments of their own.\<close>

record ('u, 'c, 'l, 're, 'doc, 'schema) Env =
  ev_chat :: "'u \<Rightarrow> Provider \<Rightarrow> Ctx \<Rightarrow> ChatCompletionRequest \<Rightarrow> (string + ChatCompletionResponse) \<times> 'u"
  ev_stream :: "'u \<Rightarrow> Provider \<Rightarrow> Ctx \<Rightarrow> ChatCompletionRequest \<Rightarrow> (string + StreamEvent list) \<times> 'u"
  ev_credSource :: "CredentialSource option"
  ev_lookup :: "'c cache_lookup"
  ev_store :: "'c cache_store"
  ev_addSpend :: "'l \<Rightarrow> nat \<Rightarrow> string \<Rightarrow> float64 \<Rightarrow> 'l"
  ev_now :: int
  ev_uuid :: "nat \<Rightarrow> string"
  ev_latency :: "nat \<Rightarrow> int"
  ev_ttft :: int
  ev_sha256 :: "string \<Rightarrow> string"
  ev_matchRe :: "'re \<Rightarrow> string \<Rightarrow> bool"
  ev_unmarshalDoc :: "string \<Rightarrow> string + 'doc"
  ev_compileSchema :: "string \<Rightarrow> 'schema option"
  ev_validate :: "'schema \<Rightarrow> 'doc \<Rightarrow> string option"
  ev_marshalMessages :: "Message list \<Rightarrow> string option"
  ev_marshalStrings :: "string list \<Rightarrow> string option"
  ev_marshalResp :: "ChatCompletionResponse \<Rightarrow> string option"
  ev_unmarshalResp :: "gobytes \<Rightarrow> ChatCompletionResponse option"
  ev_marshalChunk :: "ChatCompletionChunk \<Rightarrow> string"
  ev_formatCost :: "float64 \<Rightarrow> string"
  ev_resolveErr :: "string \<Rightarrow> string"

text \<open>What a response writer receives from the gateway besides error bodies.\<close>

datatype gw_body =
    ChatBody ChatCompletionResponse
  | Bytes string
  | JSONBody string

section \<open>Recording\<close>

definition newTrace :: "('u, 'c, 'l, 're, 'doc, 'schema) Env \<Rightarrow> 're Handler \<Rightarrow> Ctx \<Rightarrow> ChatCompletionRequest \<Rightarrow> string \<Rightarrow> nat \<Rightarrow> Trace" where
  "newTrace env h ctx req providerName n =
     (let t = zero_Trace\<lparr>tr_TraceID := ev_uuid env (2 * n), tr_SpanID := ev_uuid env (2 * n + 1),
            tr_OperationName := ''chat'', tr_ProviderName := providerName, tr_RequestModel := req_Model req,
            tr_ReplicaID := h_replicaID h,
            tr_ParentID := or_zero [] (cx_gwRequestID ctx), tr_SessionID := or_zero [] (cx_SessionID ctx),
            tr_OrgID := or_zero [] (cx_OrgID ctx), tr_UserID := or_zero [] (cx_UserID ctx),
            tr_VirtualKeyID := or_zero [] (cx_VKeyID ctx)\<rparr>;
          t = t\<lparr>tr_TurnID := deriveTurnKey (ev_sha256 env) (tr_UserID t) (req_Messages req),
            tr_Temperature := or_zero 0 (req_Temperature req), tr_TopP := or_zero 0 (req_TopP req),
            tr_MaxTokens := or_zero 0 (req_MaxTokens req),
            tr_InputMessages := or_zero [] (ev_marshalMessages env (req_Messages req))\<rparr>
      in case req_NexusEval req of
           None \<Rightarrow> t
         | Some ne \<Rightarrow>
             t\<lparr>tr_RetrievalContexts :=
                 (if length (ne_Contexts ne) > 0 then or_zero [] (ev_marshalStrings env (ne_Contexts ne)) else []),
               tr_EvalReference := ne_Reference ne\<rparr>)"

definition recordEvidence ::
  "'re Handler \<Rightarrow> Trace \<Rightarrow> ProviderAttempt list \<Rightarrow> PolicyReason list \<Rightarrow> ('u, 'c, 'l) GState \<Rightarrow> ('u, 'c, 'l) GState" where
  "recordEvidence h t attempts reasons s =
     (if \<not> h_recorder h then s
      else let t = t\<lparr>tr_Attempts := attempts, tr_PolicyReasons := reasons, tr_EgressMode := h_egressMode h\<rparr>;
               t = (if tr_GuardrailRule t = [] then t\<lparr>tr_GuardrailRule := GuardrailRuleFromAction (tr_GuardrailAction t)\<rparr> else t)
           in s\<lparr>g_traces := g_traces s @ [t]\<rparr>)"

definition recordPolicyDenied ::
  "('u, 'c, 'l, 're, 'doc, 'schema) Env \<Rightarrow> 're Handler \<Rightarrow> Ctx \<Rightarrow> ChatCompletionRequest \<Rightarrow> int \<Rightarrow> string \<Rightarrow> string \<Rightarrow>
     ('u, 'c, 'l) GState \<Rightarrow> ('u, 'c, 'l) GState" where
  "recordPolicyDenied env h ctx req status code detail s =
     recordEvidence h ((newTrace env h ctx req [] 0)\<lparr>tr_StatusCode := status, tr_ErrorType := code, tr_ErrorMsg := detail\<rparr>)
       [] [\<lparr>pr_Code = code, pr_RuleID = [], pr_Detail = detail\<rparr>] s"

definition recordGuardrailBlock ::
  "('u, 'c, 'l, 're, 'doc, 'schema) Env \<Rightarrow> 're Handler \<Rightarrow> Ctx \<Rightarrow> ChatCompletionRequest \<Rightarrow> Finding \<Rightarrow>
     ('u, 'c, 'l) GState \<Rightarrow> ('u, 'c, 'l) GState" where
  "recordGuardrailBlock env h ctx req f s =
     recordEvidence h ((newTrace env h ctx req [] 0)\<lparr>tr_StatusCode := 403, tr_ErrorType := ''guardrail_blocked'',
         tr_ErrorMsg := fi_Reason f, tr_GuardrailAction := ''input_blocked:'' @ fi_Rule f, tr_GuardrailRule := fi_Rule f\<rparr>)
       [] [\<lparr>pr_Code = ReasonGuardrailBlocked, pr_RuleID = fi_Rule f, pr_Detail = fi_Reason f\<rparr>] s"

definition recordSpend ::
  "('u, 'c, 'l, 're, 'doc, 'schema) Env \<Rightarrow> Ctx \<Rightarrow> float64 \<Rightarrow> ('u, 'c, 'l) GState \<Rightarrow> ('u, 'c, 'l) GState" where
  "recordSpend env ctx costUSD s =
     (case g_limiter s of
        None \<Rightarrow> s
      | Some lm \<Rightarrow>
          s\<lparr>g_limiter := Some (record_spend (ev_addSpend env) (nat (Unix (ev_now env))) ctx costUSD lm)\<rparr>)"

definition notifyFailover :: "'re Handler \<Rightarrow> FailoverEvent \<Rightarrow> ('u, 'c, 'l) GState \<Rightarrow> ('u, 'c, 'l) GState" where
  "notifyFailover h ev s = (if h_failoverNotify h then s\<lparr>g_notes := g_notes s @ [ev]\<rparr> else s)"

section \<open>Predicates on requests\<close>

definition promptText :: "Message list \<Rightarrow> string" where
  "promptText messages = strings_Join [CHR 0x0A] (map msg_Content messages)"

definition cacheEligible :: "ChatCompletionRequest \<Rightarrow> bool" where
  "cacheEligible req =
     (if length (req_Tools req) > 0 then False
      else if (case req_Temperature req of None \<Rightarrow> False | Some t \<Rightarrow> t \<noteq> 0) then False
      else req_NexusEval req = None)"

definition cacheScope :: "Ctx \<Rightarrow> string" where
  "cacheScope ctx =
     (if OrgIDFrom ctx \<noteq> [] then OrgIDFrom ctx else if vkeyID ctx \<noteq> [] then vkeyID ctx else ''default'')"

fun allowed_by :: "string list \<Rightarrow> string \<Rightarrow> bool" where
  "allowed_by [] model = False"
| "allowed_by (m # ms) model =
     (if m = model then True
      else if (case strings_Cut (CHR ''/'') m of None \<Rightarrow> False | Some (_, rest) \<Rightarrow> rest = model) then True
      else allowed_by ms model)"

definition modelAllowed :: "Ctx \<Rightarrow> string \<Rightarrow> bool" where
  "modelAllowed ctx model =
     (case cx_AllowedModels ctx of
        None \<Rightarrow> True
      | Some ms \<Rightarrow> if length ms = 0 then True else allowed_by ms model)"

definition filterAllowed :: "Ctx \<Rightarrow> string list \<Rightarrow> string list" where
  "filterAllowed ctx candidates = filter (modelAllowed ctx) candidates"

fun aliasForModel :: "string \<Rightarrow> (string, string list) gomap \<Rightarrow> string" where
  "aliasForModel m [] = []"
| "aliasForModel m ((alias, members) # gs) =
     (if m \<in> set members \<and> alias \<noteq> ''auto'' then alias else aliasForModel m gs)"

text \<open>The marker of a conversation. The JSON decoder is an argument: it yields the string values of
  \<open>metadata\<close> (or no object) and the field \<open>user\<close>.\<close>

definition extractSessionID :: "(string \<Rightarrow> ((string, string) gomap option \<times> string) option) \<Rightarrow> string \<Rightarrow> string" where
  "extractSessionID probe rawBody =
     (if rawBody = [] then []
      else case probe rawBody of
        None \<Rightarrow> []
      | Some (metadata, user) \<Rightarrow>
          (case find (\<lambda>v. v \<noteq> []) (map (\<lambda>k. or_zero [] (gomap_get (or_zero [] metadata) k))
                 [''session_id'', ''sessionId'', ''conversation_id'']) of
             Some v \<Rightarrow> v
           | None \<Rightarrow> if user \<noteq> [] then ''user:'' @ user else []))"

section \<open>The candidate chain\<close>

definition routeCandidates :: "'re Handler \<Rightarrow> string \<Rightarrow> string list option" where
  "routeCandidates h model =
     (if model = ''auto'' then Some (AllModels (h_registry h)) else gomap_get (h_groups h) model)"

text \<open>The outcome of \<open>resolveChain\<close>: a chain, an error response already written, or the panic of the
  balancer.\<close>

datatype chain_result = Chain "string list" | Refused "gw_body Writer" | ChainPanic

definition refuse ::
  "('u, 'c, 'l, 're, 'doc, 'schema) Env \<Rightarrow> 're Handler \<Rightarrow> Ctx \<Rightarrow> ChatCompletionRequest \<Rightarrow> int \<Rightarrow> string \<Rightarrow> string \<Rightarrow> string \<Rightarrow>
     gw_body Writer \<Rightarrow> ('u, 'c, 'l) GState \<Rightarrow> chain_result \<times> ('u, 'c, 'l) GState" where
  "refuse env h ctx req status reason errType detail w s =
     (Refused (writeError ctx status errType detail w), recordPolicyDenied env h ctx req status reason detail s)"

definition resolveChain ::
  "('u, 'c, 'l, 're, 'doc, 'schema) Env \<Rightarrow> 're Handler \<Rightarrow> Ctx \<Rightarrow> ChatCompletionRequest \<Rightarrow>
     gw_body Writer \<Rightarrow> ('u, 'c, 'l) GState \<Rightarrow> chain_result \<times> ('u, 'c, 'l) GState" where
  "resolveChain env h ctx req w s =
     (case (h_router h, routeCandidates h (req_Model req)) of
        (Some rank, Some candidates) \<Rightarrow>
          let allowed = filterAllowed ctx candidates in
          if length allowed = 0 then
            refuse env h ctx req 403 ReasonModelNotAllowed ''model_not_allowed''
              (''this virtual key is not permitted to use any model in group '' @ req_Model req) w s
          else
            let ranked = rank allowed (or_zero 0 (cx_MinQuality ctx)) in
            if length ranked = 0 then
              refuse env h ctx req 503 ReasonMinQuality ''no_model_meets_quality''
                ''no allowed model currently meets the minimum quality score for this key'' w s
            else if g_lb s = None then (Chain ranked, s)
            else (case RotateChain (req_Model req) ranked (g_lb s) of
                    None \<Rightarrow> (ChainPanic, s)
                  | Some (chain, lb) \<Rightarrow> (Chain chain, s\<lparr>g_lb := lb\<rparr>))
      | _ \<Rightarrow>
          if \<not> modelAllowed ctx (req_Model req) then
            refuse env h ctx req 403 ReasonModelNotAllowed ''model_not_allowed''
              (''this virtual key is not permitted to use model '' @ req_Model req) w s
          else (case Resolve (h_registry h) (req_Model req) of
                  Inl e \<Rightarrow> refuse env h ctx req 404 ReasonDenied ''model_not_found'' (ev_resolveErr env e) w s
                | Inr _ \<Rightarrow> (Chain [req_Model req], s)))"

section \<open>Upstream credentials and calls\<close>

definition errMissingBYOKKey :: "string \<Rightarrow> string" where
  "errMissingBYOKKey provider = ''no API key registered for provider '' @ provider"

definition caller_credential :: "ResolvedCredential \<Rightarrow> CallerCredential" where
  "caller_credential cred = \<lparr>call_Secret = rc_Secret cred, call_BaseURL = rc_BaseURL cred, call_Source = rc_Source cred\<rparr>"

definition injectCredential ::
  "('u, 'c, 'l, 're, 'doc, 'schema) Env \<Rightarrow> 're Handler \<Rightarrow> Ctx \<Rightarrow> string \<Rightarrow> ('u, 'c, 'l) GState \<Rightarrow>
     (string + Ctx \<times> string) \<times> ('u, 'c, 'l) GState" where
  "injectCredential env h ctx providerName s =
     (if h_keyMode h = KeyModeShared \<or> g_creds s = None then (Inr (ctx, ''env''), s)
      else
        let shared = (if h_keyMode h = KeyModeStrictBYOK then Inl (errMissingBYOKKey providerName) else Inr (ctx, ''env'')) in
        (case Resolve_credential (ev_credSource env) (g_creds s) (ev_now env) (ev_now env)
                (OrgIDFrom ctx) (UserIDFrom ctx) providerName of
           (None, cr) \<Rightarrow> (shared, s\<lparr>g_creds := cr\<rparr>)
         | (Some (cred, found), cr) \<Rightarrow>
             if \<not> found then (shared, s\<lparr>g_creds := cr\<rparr>)
             else (Inr (ctx\<lparr>cx_Credential := Some (caller_credential cred)\<rparr>, rc_Source cred), s\<lparr>g_creds := cr\<rparr>)))"

definition call_chat ::
  "('u, 'c, 'l, 're, 'doc, 'schema) Env \<Rightarrow> Provider \<Rightarrow> Ctx \<Rightarrow> ChatCompletionRequest \<Rightarrow> ('u, 'c, 'l) GState \<Rightarrow>
     (string + ChatCompletionResponse) \<times> ('u, 'c, 'l) GState" where
  "call_chat env p ctx req s =
     (case ev_chat env (g_world s) p ctx req of
        (r, u) \<Rightarrow> (r, s\<lparr>g_world := u, g_calls := g_calls s @ [(p, ctx, req)]\<rparr>))"

definition call_stream ::
  "('u, 'c, 'l, 're, 'doc, 'schema) Env \<Rightarrow> Provider \<Rightarrow> Ctx \<Rightarrow> ChatCompletionRequest \<Rightarrow> ('u, 'c, 'l) GState \<Rightarrow>
     (string + StreamEvent list) \<times> ('u, 'c, 'l) GState" where
  "call_stream env p ctx req s =
     (case ev_stream env (g_world s) p ctx req of
        (r, u) \<Rightarrow> (r, s\<lparr>g_world := u, g_calls := g_calls s @ [(p, ctx, req)]\<rparr>))"


section \<open>The chain only has permitted models\<close>

lemma modelAllowed_filter: "m \<in> set (filterAllowed ctx ms) \<longleftrightarrow> m \<in> set ms \<and> modelAllowed ctx m"
  by (simp add: filterAllowed_def)

context model_router
begin

lemma resolveChain_members:
  assumes "h_router h = Some rank" "resolveChain env h ctx req w s = (Chain chain, s')"
  shows "\<forall>m \<in> set chain. modelAllowed ctx m"
proof (cases "routeCandidates h (req_Model req)")
  case None
  then show ?thesis using assms by (auto simp: resolveChain_def refuse_def split: if_splits sum.splits)
next
  case (Some candidates)
  let ?ranked = "rank (filterAllowed ctx candidates) (or_zero 0 (cx_MinQuality ctx))"
  have "set chain \<subseteq> set ?ranked"
    using assms Some by (auto simp: resolveChain_def refuse_def Let_def split: if_splits option.splits dest!: RotateChain_members)
  then have "m \<in> set (filterAllowed ctx candidates)" if "m \<in> set chain" for m
    using that rank_members by blast
  then show ?thesis by (simp add: modelAllowed_filter)
qed

end

lemma resolveChain_frame:
  assumes "resolveChain env h ctx req w s = (Chain chain, s')"
  shows "g_world s' = g_world s" "g_calls s' = g_calls s" "g_limiter s' = g_limiter s" "g_scache s' = g_scache s"
    "g_creds s' = g_creds s" "g_traces s' = g_traces s" "g_notes s' = g_notes s"
  using assms by (auto simp: resolveChain_def refuse_def Let_def split: if_splits option.splits sum.splits)

lemma resolveChain_nonempty: "resolveChain env h ctx req w s = (Chain chain, s') \<Longrightarrow> chain \<noteq> []"
  by (auto simp: resolveChain_def refuse_def Let_def RotateChain_def split: if_splits option.splits sum.splits)

end
