(* ===== verification/Unary.thy ===== *)
theory Unary
  imports GatewayCore
begin

text \<open>
  The non-streaming path of \<open>internal/gateway/handler.go\<close>: \<open>handleUnary\<close>, which tries the candidates
  of a chain in order, with the semantic cache before the first, output redaction, the JSON guardrail
  with local repair and self-correction, cost, evidence and spend after the first success, and one
  error response when all have failed.
\<close>

section \<open>Structured output\<close>

definition validateOrRepairJSON ::
  "('u, 'c, 'l, 're, 'doc, 'schema) Env \<Rightarrow> 're Handler \<Rightarrow> string \<Rightarrow> string \<Rightarrow> string \<times> Finding \<times> bool" where
  "validateOrRepairJSON env h content schema =
     (let check = CheckJSONOutput (ev_unmarshalDoc env) (ev_compileSchema env) (ev_validate env) (h_guard h);
          f = check content schema in
      if \<not> fi_Blocked f then (content, f, False)
      else case RepairJSON content of
        (fixed, True) \<Rightarrow>
          let rf = check fixed schema in
          if \<not> fi_Blocked rf then (fixed, rf, True) else (content, f, False)
      | (_, False) \<Rightarrow> (content, f, False))"

definition schemaAction :: "bool \<Rightarrow> nat \<Rightarrow> string" where
  "schemaAction repaired corrected =
     strings_Join '','' ((if repaired then [''json_repaired''] else [])
       @ (if corrected > 0 then [''self_corrected:'' @ strconv_Itoa corrected] else []))"

definition withSchemaCorrection :: "ChatCompletionRequest \<Rightarrow> string \<Rightarrow> string \<Rightarrow> ChatCompletionRequest" where
  "withSchemaCorrection req badOutput reason =
     req\<lparr>req_Messages := req_Messages req @
       [plain_message ''assistant'' badOutput,
        plain_message ''user'' (''Your previous response was rejected: '' @ reason @
          '' Reply with ONLY a corrected response that satisfies the requested response_format. '' @
          ''Do not include explanations, comments, or markdown code fences.'')]\<rparr>"

text \<open>\<open>resp.Choices[0].Message.Content\<close>, read and written; both are only used on a response that has
  a choice.\<close>

definition content0 :: "ChatCompletionResponse \<Rightarrow> string" where
  "content0 resp = (case resp_Choices resp of [] \<Rightarrow> [] | c # _ \<Rightarrow> msg_Content (ch_Message c))"

definition set_content0 :: "string \<Rightarrow> ChatCompletionResponse \<Rightarrow> ChatCompletionResponse" where
  "set_content0 content resp =
     (case resp_Choices resp of
        [] \<Rightarrow> resp
      | c # cs \<Rightarrow> resp\<lparr>resp_Choices := c\<lparr>ch_Message := (ch_Message c)\<lparr>msg_Content := content\<rparr>\<rparr> # cs\<rparr>)"

definition finish0 :: "ChatCompletionResponse \<Rightarrow> string" where
  "finish0 resp = (case resp_Choices resp of [] \<Rightarrow> [] | c # _ \<Rightarrow> ch_FinishReason c)"

text \<open>The local variables of the self-correction loop.\<close>

record ('u, 'c, 'l) Correction =
  co_attempt :: ChatCompletionRequest
  co_resp :: ChatCompletionResponse
  co_trace :: Trace
  co_f :: Finding
  co_repaired :: bool
  co_corrected :: nat
  co_state :: "('u, 'c, 'l) GState"

definition correct_once ::
  "('u, 'c, 'l, 're, 'doc, 'schema) Env \<Rightarrow> 're Handler \<Rightarrow> Provider \<Rightarrow> Ctx \<Rightarrow> string \<Rightarrow>
     ('u, 'c, 'l) Correction \<Rightarrow> ('u, 'c, 'l) Correction \<times> bool" where
  "correct_once env h p callCtx schema c =
     (let attempt = withSchemaCorrection (co_attempt c) (content0 (co_resp c)) (fi_Reason (co_f c));
          c = c\<lparr>co_corrected := co_corrected c + 1, co_attempt := attempt\<rparr> in
      case call_chat env p callCtx attempt (co_state c) of
        (Inl _, s) \<Rightarrow> (c\<lparr>co_state := s\<rparr>, False)
      | (Inr cresp, s) \<Rightarrow>
          if length (resp_Choices cresp) = 0 then (c\<lparr>co_state := s\<rparr>, False)
          else
            let resp = (case RedactOutput (h_guard h) (content0 cresp) of
                          (redacted, True) \<Rightarrow> set_content0 redacted cresp
                        | (_, False) \<Rightarrow> cresp);
                t = co_trace c;
                t = t\<lparr>tr_InputTokens := tr_InputTokens t + us_PromptTokens (resp_Usage resp),
                      tr_OutputTokens := tr_OutputTokens t + us_CompletionTokens (resp_Usage resp),
                      tr_ResponseModel := resp_Model resp\<rparr>
            in case validateOrRepairJSON env h (content0 resp) schema of
                 (content, f, rep) \<Rightarrow>
                   (c\<lparr>co_state := s, co_resp := set_content0 content resp, co_trace := t, co_f := f,
                      co_repaired := (co_repaired c \<or> rep)\<rparr>, True))"

text \<open>The loop; its argument \<open>n\<close> is the number of corrections still allowed,
  \<open>selfCorrectMax - corrected\<close>.\<close>

fun self_correct ::
  "('u, 'c, 'l, 're, 'doc, 'schema) Env \<Rightarrow> 're Handler \<Rightarrow> Provider \<Rightarrow> Ctx \<Rightarrow> string \<Rightarrow> nat \<Rightarrow>
     ('u, 'c, 'l) Correction \<Rightarrow> ('u, 'c, 'l) Correction" where
  "self_correct env h p callCtx schema 0 c = c"
| "self_correct env h p callCtx schema (Suc n) c =
     (if \<not> fi_Blocked (co_f c) then c
      else case correct_once env h p callCtx schema c of
        (c, continue) \<Rightarrow> if continue then self_correct env h p callCtx schema n c else c)"

definition redact_first :: "'re Handler \<Rightarrow> ChatCompletionResponse \<Rightarrow> Trace \<Rightarrow> ChatCompletionResponse \<times> Trace" where
  "redact_first h resp t =
     (case RedactOutput (h_guard h) (content0 resp) of
        (redacted, True) \<Rightarrow> (set_content0 redacted resp, t\<lparr>tr_GuardrailAction := ''output_redacted''\<rparr>)
      | (_, False) \<Rightarrow> (resp, t))"

definition output_guardrails ::
  "('u, 'c, 'l, 're, 'doc, 'schema) Env \<Rightarrow> 're Handler \<Rightarrow> Provider \<Rightarrow> Ctx \<Rightarrow> ChatCompletionRequest \<Rightarrow> ChatCompletionRequest \<Rightarrow>
     ChatCompletionResponse \<Rightarrow> Trace \<Rightarrow> ('u, 'c, 'l) GState \<Rightarrow> ('u, 'c, 'l) Correction" where
  "output_guardrails env h p callCtx req attempt resp t s =
     (let (resp, t) = redact_first h resp t;
          c = \<lparr>co_attempt = attempt, co_resp = resp, co_trace = t, co_f = allow, co_repaired = False,
               co_corrected = 0, co_state = s\<rparr> in
      if \<not> WantsJSON (req_ResponseFormat req) then c
      else
        let schema = SchemaBytes (req_ResponseFormat req) in
        case validateOrRepairJSON env h (content0 resp) schema of
          (content, f, repaired) \<Rightarrow>
            let c = self_correct env h p callCtx schema (nat (h_selfCorrectMax h))
                      (c\<lparr>co_resp := set_content0 content resp, co_f := f, co_repaired := repaired\<rparr>);
                action = schemaAction (co_repaired c) (co_corrected c)
            in if action \<noteq> [] then c\<lparr>co_trace := (co_trace c)\<lparr>tr_GuardrailAction := action\<rparr>\<rparr> else c)"

section \<open>The chain of candidates\<close>

text \<open>The variables \<open>handleUnary\<close> keeps between candidates.\<close>

record Loop =
  lp_lastErr :: "string option"
  lp_attempts :: "ProviderAttempt list"
  lp_reasons :: "PolicyReason list"
  lp_lastTrace :: Trace

definition empty_Loop :: Loop where
  "empty_Loop = \<lparr>lp_lastErr = None, lp_attempts = [], lp_reasons = [], lp_lastTrace = zero_Trace\<rparr>"

definition reason :: "string \<Rightarrow> string \<Rightarrow> PolicyReason" where
  "reason code detail = \<lparr>pr_Code = code, pr_RuleID = [], pr_Detail = detail\<rparr>"

text \<open>How the body of the loop ends: with the next candidate, with a response, or in a panic.\<close>

datatype ('u, 'c, 'l) turn =
    Continue Loop "('u, 'c, 'l) GState"
  | Answered "gw_body Writer" "('u, 'c, 'l) GState"
  | Panicked "('u, 'c, 'l) GState"

fun state_of :: "('u, 'c, 'l) turn \<Rightarrow> ('u, 'c, 'l) GState" where
  "state_of (Continue lp s) = s"
| "state_of (Answered w s) = s"
| "state_of (Panicked s) = s"

datatype probe = ProbePanic | ProbeHit ChatCompletionResponse | ProbeMiss vec

definition cache_probe ::
  "('u, 'c, 'l, 're, 'doc, 'schema) Env \<Rightarrow> Ctx \<Rightarrow> ChatCompletionRequest \<Rightarrow> nat \<Rightarrow> ('u, 'c, 'l) GState \<Rightarrow> probe" where
  "cache_probe env ctx req i s =
     (case g_scache s of
        None \<Rightarrow> ProbeMiss []
      | Some sv \<Rightarrow>
          if \<not> (i = 0 \<and> cacheEligible req) then ProbeMiss []
          else case Service_Lookup (ev_lookup env) sv (ev_now env) (cacheScope ctx) (req_Model req) (promptText (req_Messages req)) of
            None \<Rightarrow> ProbePanic
          | Some (Inl _) \<Rightarrow> ProbeMiss []
          | Some (Inr (Some hit, _)) \<Rightarrow>
              (case ev_unmarshalResp env (hit_ResponseJSON hit) of
                 Some cached \<Rightarrow> ProbeHit cached
               | None \<Rightarrow> ProbeMiss [])
          | Some (Inr (None, vec)) \<Rightarrow> ProbeMiss vec)"

definition cache_put ::
  "('u, 'c, 'l, 're, 'doc, 'schema) Env \<Rightarrow> Ctx \<Rightarrow> ChatCompletionRequest \<Rightarrow> nat \<Rightarrow> vec \<Rightarrow> ChatCompletionResponse \<Rightarrow>
     ('u, 'c, 'l) GState \<Rightarrow> ('u, 'c, 'l) GState" where
  "cache_put env ctx req i embedVec resp s =
     (case g_scache s of
        None \<Rightarrow> s
      | Some sv \<Rightarrow>
          if \<not> (i = 0 \<and> cacheEligible req) then s
          else case ev_marshalResp env resp of
            None \<Rightarrow> s
          | Some b \<Rightarrow> s\<lparr>g_scache := Some (snd (Service_Store (ev_store env) sv (ev_now env) (cacheScope ctx) (req_Model req)
                         (promptText (req_Messages req)) embedVec (Some b)))\<rparr>)"

abbreviation costHeaderName :: string where "costHeaderName \<equiv> ''x-nexus-cost-usd''"

definition setCostHeader ::
  "('u, 'c, 'l, 're, 'doc, 'schema) Env \<Rightarrow> float64 \<Rightarrow> gw_body Writer \<Rightarrow> gw_body Writer" where
  "setCostHeader env costUSD w = set_header costHeaderName (ev_formatCost env costUSD) w"

definition stamp_cost :: "float64 \<Rightarrow> ChatCompletionResponse \<Rightarrow> ChatCompletionResponse" where
  "stamp_cost costUSD resp = resp\<lparr>resp_Usage := (resp_Usage resp)\<lparr>us_CostUSD := costUSD\<rparr>\<rparr>"

definition serve_cached ::
  "('u, 'c, 'l, 're, 'doc, 'schema) Env \<Rightarrow> 're Handler \<Rightarrow> nat \<Rightarrow> nat \<Rightarrow> ChatCompletionResponse \<Rightarrow> Trace \<Rightarrow> Loop \<Rightarrow>
     gw_body Writer \<Rightarrow> ('u, 'c, 'l) GState \<Rightarrow> ('u, 'c, 'l) turn" where
  "serve_cached env h i chainLen cached t lp w s =
     (let t = t\<lparr>tr_LatencyMs := ev_latency env i, tr_StatusCode := 200, tr_CacheHit := True, tr_ResponseModel := resp_Model cached\<rparr>;
          t = (if length (resp_Choices cached) > 0
               then t\<lparr>tr_OutputMessages := content0 cached, tr_FinishReason := finish0 cached\<rparr> else t);
          t = t\<lparr>tr_CostUSD := CostUSD (tr_RequestModel t) (tr_ResponseModel t) (tr_InputTokens t) (tr_OutputTokens t)\<rparr>;
          attempts = lp_attempts lp @ [attemptFromTrace t i chainLen];
          reasons = lp_reasons lp @ [reason ReasonCacheHit ''semantic cache'']
      in Answered (writeJSON 200 (Payload (ChatBody (stamp_cost (tr_CostUSD t) cached))) (setCostHeader env (tr_CostUSD t) w))
           (recordEvidence h t attempts reasons s))"

text \<open>An upstream error. The arrow in the reason is written as its three UTF-8 bytes.\<close>

definition arrow :: string where "arrow = [CHR 0xE2, CHR 0x86, CHR 0x92]"

definition upstream_failed ::
  "('u, 'c, 'l, 're, 'doc, 'schema) Env \<Rightarrow> 're Handler \<Rightarrow> ChatCompletionRequest \<Rightarrow> string list \<Rightarrow> nat \<Rightarrow> string \<Rightarrow> Trace \<Rightarrow> Loop \<Rightarrow>
     ('u, 'c, 'l) GState \<Rightarrow> ('u, 'c, 'l) turn" where
  "upstream_failed env h req chain i err t lp s =
     (let failover = (int i < int (length chain) - 1);
          t = t\<lparr>tr_LatencyMs := ev_latency env i, tr_StatusCode := 502,
                tr_ErrorType := (if failover then ''upstream_error_failover'' else ''upstream_error''), tr_ErrorMsg := err\<rparr>;
          lp = lp\<lparr>lp_attempts := lp_attempts lp @ [attemptFromTrace t i (length chain)], lp_lastTrace := t, lp_lastErr := Some err,
                 lp_reasons := lp_reasons lp @
                   [if failover then reason ReasonFallback (chain ! i @ arrow @ chain ! (i + 1)) else reason ReasonUpstreamError err]\<rparr>
      in Continue lp
           (if failover then
              notifyFailover h \<lparr>fe_OrgID = tr_OrgID t, fe_VirtualKeyID = tr_VirtualKeyID t,
                fe_Alias = aliasForModel (req_Model req) (h_groups h), fe_Tried = take (i + 1) chain,
                fe_Primary = chain ! i, fe_Fallback = chain ! (i + 1), fe_Reason = tr_ErrorType t, fe_LatencyMs = tr_LatencyMs t,
                fe_FailedAtUnix = ev_now env div 1000000, fe_ReplicaID = h_replicaID h\<rparr> s
            else s))"

definition schema_blocked ::
  "('u, 'c, 'l, 're, 'doc, 'schema) Env \<Rightarrow> 're Handler \<Rightarrow> Ctx \<Rightarrow> nat \<Rightarrow> nat \<Rightarrow> ('u, 'c, 'l) Correction \<Rightarrow> Loop \<Rightarrow>
     gw_body Writer \<Rightarrow> ('u, 'c, 'l) turn" where
  "schema_blocked env h ctx i chainLen c lp w =
     (let f = co_f c; resp = co_resp c; t = co_trace c;
          t = t\<lparr>tr_LatencyMs := ev_latency env i, tr_StatusCode := 422, tr_ErrorType := ''schema_validation_failed'',
                tr_ErrorMsg := fi_Reason f, tr_GuardrailAction := ''output_schema_blocked:'' @ fi_Rule f,
                tr_FinishReason := finish0 resp, tr_OutputMessages := content0 resp\<rparr>;
          t = t\<lparr>tr_CostUSD := ResolveCostUSD (us_EstimatedCost (resp_Usage resp)) (tr_RequestModel t) (tr_ResponseModel t)
                               (Some (resp_Usage resp))\<rparr>;
          attempts = lp_attempts lp @ [attemptFromTrace t i chainLen];
          reasons = lp_reasons lp @ [\<lparr>pr_Code = ReasonSchemaBlocked, pr_RuleID = fi_Rule f, pr_Detail = fi_Reason f\<rparr>]
      in Answered (writeError ctx 422 ''schema_validation_failed'' (fi_Reason f) w)
           (recordSpend env ctx (tr_CostUSD t) (recordEvidence h t attempts reasons (co_state c))))"

definition deliver ::
  "('u, 'c, 'l, 're, 'doc, 'schema) Env \<Rightarrow> 're Handler \<Rightarrow> Ctx \<Rightarrow> ChatCompletionRequest \<Rightarrow> nat \<Rightarrow> nat \<Rightarrow> vec \<Rightarrow>
     ChatCompletionResponse \<Rightarrow> Trace \<Rightarrow> Loop \<Rightarrow> gw_body Writer \<Rightarrow> ('u, 'c, 'l) GState \<Rightarrow> ('u, 'c, 'l) turn" where
  "deliver env h ctx req i chainLen embedVec resp t lp w s =
     (let t = t\<lparr>tr_CostUSD := ResolveCostUSD (us_EstimatedCost (resp_Usage resp)) (tr_RequestModel t) (tr_ResponseModel t)
                               (Some (resp_Usage resp))\<rparr>;
          s = cache_put env ctx req i embedVec resp s;
          reasons = lp_reasons lp
            @ (if tr_GuardrailAction t = ''output_redacted'' then [reason ReasonRedacted ''output_redacted''] else [])
            @ [reason ReasonAllowed []];
          attempts = lp_attempts lp @ [attemptFromTrace t i chainLen]
      in Answered (writeJSON 200 (Payload (ChatBody (stamp_cost (tr_CostUSD t) resp))) (setCostHeader env (tr_CostUSD t) w))
           (recordSpend env ctx (tr_CostUSD t) (recordEvidence h t attempts reasons s)))"

definition upstream_ok ::
  "('u, 'c, 'l, 're, 'doc, 'schema) Env \<Rightarrow> 're Handler \<Rightarrow> Ctx \<Rightarrow> ChatCompletionRequest \<Rightarrow> nat \<Rightarrow> nat \<Rightarrow> Provider \<Rightarrow> Ctx \<Rightarrow>
     ChatCompletionRequest \<Rightarrow> vec \<Rightarrow> ChatCompletionResponse \<Rightarrow> Trace \<Rightarrow> Loop \<Rightarrow> gw_body Writer \<Rightarrow> ('u, 'c, 'l) GState \<Rightarrow>
     ('u, 'c, 'l) turn" where
  "upstream_ok env h ctx req i chainLen p callCtx attempt embedVec resp t lp w s =
     (let t = t\<lparr>tr_LatencyMs := ev_latency env i, tr_StatusCode := 200, tr_ResponseModel := resp_Model resp,
                tr_InputTokens := us_PromptTokens (resp_Usage resp), tr_OutputTokens := us_CompletionTokens (resp_Usage resp)\<rparr> in
      if length (resp_Choices resp) = 0 then deliver env h ctx req i chainLen embedVec resp t lp w s
      else
        let c = output_guardrails env h p callCtx req attempt resp t s in
        if fi_Blocked (co_f c) then schema_blocked env h ctx i chainLen c lp w
        else deliver env h ctx req i chainLen embedVec (co_resp c)
               ((co_trace c)\<lparr>tr_FinishReason := finish0 (co_resp c), tr_OutputMessages := content0 (co_resp c)\<rparr>)
               lp w (co_state c))"

definition missing_key ::
  "('u, 'c, 'l, 're, 'doc, 'schema) Env \<Rightarrow> nat \<Rightarrow> nat \<Rightarrow> string \<Rightarrow> Trace \<Rightarrow> Loop \<Rightarrow> Loop" where
  "missing_key env i chainLen credErr t lp =
     (let t = t\<lparr>tr_LatencyMs := ev_latency env i, tr_StatusCode := 403, tr_ErrorType := ''missing_byok_key'',
                tr_ErrorMsg := credErr, tr_CredentialSource := ''none''\<rparr>
      in lp\<lparr>lp_attempts := lp_attempts lp @ [attemptFromTrace t i chainLen],
            lp_reasons := lp_reasons lp @ [reason ReasonMissingBYOK credErr], lp_lastTrace := t, lp_lastErr := Some credErr\<rparr>)"

definition unary_candidate ::
  "('u, 'c, 'l, 're, 'doc, 'schema) Env \<Rightarrow> 're Handler \<Rightarrow> Ctx \<Rightarrow> ChatCompletionRequest \<Rightarrow> string list \<Rightarrow> nat \<Rightarrow> string \<Rightarrow> Loop \<Rightarrow>
     gw_body Writer \<Rightarrow> ('u, 'c, 'l) GState \<Rightarrow> ('u, 'c, 'l) turn" where
  "unary_candidate env h ctx req chain i model lp w s =
     (case Resolve (h_registry h) model of
        Inl e \<Rightarrow> Continue (lp\<lparr>lp_lastErr := Some (ev_resolveErr env e)\<rparr>) s
      | Inr (provider, fwdModel) \<Rightarrow>
          let attempt = req\<lparr>req_Model := fwdModel\<rparr>;
              reqTrace = newTrace env h ctx req [] 0;
              t = (stampSharedTraceID (newTrace env h ctx req (pv_Name provider) (i + 1)) reqTrace)\<lparr>tr_RequestModel := model\<rparr> in
          (case injectCredential env h ctx (pv_Name provider) s of
             (Inl credErr, s) \<Rightarrow> Continue (missing_key env i (length chain) credErr t lp) s
           | (Inr (callCtx, credSource), s) \<Rightarrow>
               let t = t\<lparr>tr_CredentialSource := credSource\<rparr> in
               (case cache_probe env ctx req i s of
                  ProbePanic \<Rightarrow> Panicked s
                | ProbeHit cached \<Rightarrow> serve_cached env h i (length chain) cached t lp w s
                | ProbeMiss embedVec \<Rightarrow>
                    (case call_chat env provider callCtx attempt s of
                       (Inl err, s) \<Rightarrow> upstream_failed env h req chain i err t lp s
                     | (Inr resp, s) \<Rightarrow>
                         upstream_ok env h ctx req i (length chain) provider callCtx attempt embedVec resp t lp w s))))"

definition all_failed ::
  "('u, 'c, 'l, 're, 'doc, 'schema) Env \<Rightarrow> 're Handler \<Rightarrow> Ctx \<Rightarrow> ChatCompletionRequest \<Rightarrow> string list \<Rightarrow> Loop \<Rightarrow>
     gw_body Writer \<Rightarrow> ('u, 'c, 'l) GState \<Rightarrow> ('u, 'c, 'l) turn" where
  "all_failed env h ctx req chain lp w s =
     (let msg = (case lp_lastErr lp of None \<Rightarrow> ''all candidate providers failed'' | Some e \<Rightarrow> e);
          t = (if tr_TraceID (lp_lastTrace lp) = []
               then (newTrace env h ctx req [] 0)\<lparr>tr_StatusCode := 502, tr_ErrorType := ''upstream_error'', tr_ErrorMsg := msg,
                       tr_LatencyMs := ev_latency env (length chain)\<rparr>
               else lp_lastTrace lp)
      in Answered (writeError ctx 502 (code_string CodeUpstreamError) msg w)
           (recordEvidence h t (lp_attempts lp) (lp_reasons lp) s))"

fun unary_loop ::
  "('u, 'c, 'l, 're, 'doc, 'schema) Env \<Rightarrow> 're Handler \<Rightarrow> Ctx \<Rightarrow> ChatCompletionRequest \<Rightarrow> string list \<Rightarrow> nat \<Rightarrow> string list \<Rightarrow> Loop \<Rightarrow>
     gw_body Writer \<Rightarrow> ('u, 'c, 'l) GState \<Rightarrow> ('u, 'c, 'l) turn" where
  "unary_loop env h ctx req chain i [] lp w s = all_failed env h ctx req chain lp w s"
| "unary_loop env h ctx req chain i (model # rest) lp w s =
     (case unary_candidate env h ctx req chain i model lp w s of
        Continue lp s \<Rightarrow> unary_loop env h ctx req chain (i + 1) rest lp w s
      | t \<Rightarrow> t)"

definition handleUnary ::
  "('u, 'c, 'l, 're, 'doc, 'schema) Env \<Rightarrow> 're Handler \<Rightarrow> Ctx \<Rightarrow> ChatCompletionRequest \<Rightarrow> string list \<Rightarrow>
     gw_body Writer \<Rightarrow> ('u, 'c, 'l) GState \<Rightarrow> ('u, 'c, 'l) turn" where
  "handleUnary env h ctx req chain w s = unary_loop env h ctx req chain 0 chain empty_Loop w s"

section \<open>What a candidate can do\<close>

lemma recordEvidence_sel [simp]:
  "g_world (recordEvidence h t as rs s) = g_world s" "g_calls (recordEvidence h t as rs s) = g_calls s"
  "g_limiter (recordEvidence h t as rs s) = g_limiter s" "g_lb (recordEvidence h t as rs s) = g_lb s"
  "g_scache (recordEvidence h t as rs s) = g_scache s" "g_creds (recordEvidence h t as rs s) = g_creds s"
  "g_notes (recordEvidence h t as rs s) = g_notes s"
  by (simp_all add: recordEvidence_def Let_def)

lemma recordEvidence_traces:
  assumes "h_recorder h"
  shows "\<exists>t'. g_traces (recordEvidence h t as rs s) = g_traces s @ [t'] \<and> tr_TraceID t' = tr_TraceID t
    \<and> tr_CostUSD t' = tr_CostUSD t \<and> tr_StatusCode t' = tr_StatusCode t \<and> tr_Attempts t' = as
    \<and> tr_CacheHit t' = tr_CacheHit t \<and> tr_InputTokens t' = tr_InputTokens t \<and> tr_OutputTokens t' = tr_OutputTokens t"
  using assms by (simp add: recordEvidence_def Let_def)

lemma recordSpend_sel [simp]:
  "g_world (recordSpend env ctx x s) = g_world s" "g_calls (recordSpend env ctx x s) = g_calls s"
  "g_lb (recordSpend env ctx x s) = g_lb s" "g_scache (recordSpend env ctx x s) = g_scache s"
  "g_creds (recordSpend env ctx x s) = g_creds s" "g_notes (recordSpend env ctx x s) = g_notes s"
  "g_traces (recordSpend env ctx x s) = g_traces s"
  by (simp_all add: recordSpend_def split: option.split)

lemma recordSpend_limiter [simp]:
  "g_limiter (recordSpend env ctx x s)
     = map_option (record_spend (ev_addSpend env) (nat (Unix (ev_now env))) ctx x) (g_limiter s)"
  by (simp add: recordSpend_def split: option.split)

lemma notifyFailover_sel [simp]:
  "g_world (notifyFailover h e s) = g_world s" "g_calls (notifyFailover h e s) = g_calls s"
  "g_limiter (notifyFailover h e s) = g_limiter s" "g_lb (notifyFailover h e s) = g_lb s"
  "g_scache (notifyFailover h e s) = g_scache s" "g_creds (notifyFailover h e s) = g_creds s"
  "g_traces (notifyFailover h e s) = g_traces s"
  by (simp_all add: notifyFailover_def)

lemma cache_put_sel [simp]:
  "g_world (cache_put env ctx req i v r s) = g_world s" "g_calls (cache_put env ctx req i v r s) = g_calls s"
  "g_limiter (cache_put env ctx req i v r s) = g_limiter s" "g_lb (cache_put env ctx req i v r s) = g_lb s"
  "g_creds (cache_put env ctx req i v r s) = g_creds s" "g_notes (cache_put env ctx req i v r s) = g_notes s"
  "g_traces (cache_put env ctx req i v r s) = g_traces s"
  by (simp_all add: cache_put_def split: option.split)

lemma injectCredential_sel:
  assumes "injectCredential env h ctx p s = (r, s')"
  shows "g_world s' = g_world s" "g_calls s' = g_calls s" "g_limiter s' = g_limiter s" "g_lb s' = g_lb s"
    "g_scache s' = g_scache s" "g_notes s' = g_notes s" "g_traces s' = g_traces s"
  using assms by (auto simp: injectCredential_def Let_def split: if_splits prod.splits option.splits)

lemma call_chat_sel:
  assumes "call_chat env p ctx req s = (r, s')"
  shows "g_calls s' = g_calls s @ [(p, ctx, req)]" "g_limiter s' = g_limiter s" "g_lb s' = g_lb s"
    "g_scache s' = g_scache s" "g_creds s' = g_creds s" "g_notes s' = g_notes s" "g_traces s' = g_traces s"
  using assms by (auto simp: call_chat_def split: prod.splits)

definition attempt_trace ::
  "('u, 'c, 'l, 're, 'doc, 'schema) Env \<Rightarrow> 're Handler \<Rightarrow> Ctx \<Rightarrow> ChatCompletionRequest \<Rightarrow> Provider \<Rightarrow> nat \<Rightarrow> string \<Rightarrow> Trace" where
  "attempt_trace env h ctx req p i model =
     (stampSharedTraceID (newTrace env h ctx req (pv_Name p) (i + 1)) (newTrace env h ctx req [] 0))\<lparr>tr_RequestModel := model\<rparr>"

lemma newTrace_sel [simp]:
  "tr_TraceID (newTrace env h ctx req p n) = ev_uuid env (2 * n)" "tr_CostUSD (newTrace env h ctx req p n) = 0"
  "tr_InputTokens (newTrace env h ctx req p n) = 0" "tr_OutputTokens (newTrace env h ctx req p n) = 0"
  "tr_CacheHit (newTrace env h ctx req p n) = False" "tr_GuardrailAction (newTrace env h ctx req p n) = []"
  by (simp_all add: newTrace_def zero_Trace_def Let_def split: option.split)

lemma attempt_trace_sel [simp]:
  "tr_TraceID (attempt_trace env h ctx req p i model) = ev_uuid env 0" "tr_CostUSD (attempt_trace env h ctx req p i model) = 0"
  "tr_InputTokens (attempt_trace env h ctx req p i model) = 0" "tr_OutputTokens (attempt_trace env h ctx req p i model) = 0"
  "tr_RequestModel (attempt_trace env h ctx req p i model) = model"
  "tr_CacheHit (attempt_trace env h ctx req p i model) = False" "tr_GuardrailAction (attempt_trace env h ctx req p i model) = []"
  by (simp_all add: attempt_trace_def stampSharedTraceID_def Let_def)

lemma unary_candidate_cases:
  obtains
    (unresolved) e where "Resolve (h_registry h) model = Inl e"
      "unary_candidate env h ctx req chain i model lp w s = Continue (lp\<lparr>lp_lastErr := Some (ev_resolveErr env e)\<rparr>) s"
  | (no_key) p fwd err s1 where "Resolve (h_registry h) model = Inr (p, fwd)" "injectCredential env h ctx (pv_Name p) s = (Inl err, s1)"
      "unary_candidate env h ctx req chain i model lp w s
         = Continue (missing_key env i (length chain) err (attempt_trace env h ctx req p i model) lp) s1"
  | (panic) p fwd cx src s1 where "Resolve (h_registry h) model = Inr (p, fwd)" "injectCredential env h ctx (pv_Name p) s = (Inr (cx, src), s1)"
      "cache_probe env ctx req i s1 = ProbePanic" "unary_candidate env h ctx req chain i model lp w s = Panicked s1"
  | (cached) p fwd cx src s1 resp where "Resolve (h_registry h) model = Inr (p, fwd)"
      "injectCredential env h ctx (pv_Name p) s = (Inr (cx, src), s1)" "cache_probe env ctx req i s1 = ProbeHit resp"
      "unary_candidate env h ctx req chain i model lp w s
         = serve_cached env h i (length chain) resp ((attempt_trace env h ctx req p i model)\<lparr>tr_CredentialSource := src\<rparr>) lp w s1"
  | (failed) p fwd cx src s1 v err s2 where "Resolve (h_registry h) model = Inr (p, fwd)"
      "injectCredential env h ctx (pv_Name p) s = (Inr (cx, src), s1)" "cache_probe env ctx req i s1 = ProbeMiss v"
      "call_chat env p cx (req\<lparr>req_Model := fwd\<rparr>) s1 = (Inl err, s2)"
      "unary_candidate env h ctx req chain i model lp w s
         = upstream_failed env h req chain i err ((attempt_trace env h ctx req p i model)\<lparr>tr_CredentialSource := src\<rparr>) lp s2"
  | (served) p fwd cx src s1 v resp s2 where "Resolve (h_registry h) model = Inr (p, fwd)"
      "injectCredential env h ctx (pv_Name p) s = (Inr (cx, src), s1)" "cache_probe env ctx req i s1 = ProbeMiss v"
      "call_chat env p cx (req\<lparr>req_Model := fwd\<rparr>) s1 = (Inr resp, s2)"
      "unary_candidate env h ctx req chain i model lp w s
         = upstream_ok env h ctx req i (length chain) p cx (req\<lparr>req_Model := fwd\<rparr>) v resp
             ((attempt_trace env h ctx req p i model)\<lparr>tr_CredentialSource := src\<rparr>) lp w s2"
proof (cases "Resolve (h_registry h) model")
  case (Inl e)
  then show thesis by (intro unresolved) (simp_all add: unary_candidate_def)
next
  case (Inr pf)
  obtain p fwd where pf: "pf = (p, fwd)" by fastforce
  obtain r s1 where inj: "injectCredential env h ctx (pv_Name p) s = (r, s1)" by fastforce
  note eq = unary_candidate_def attempt_trace_def Inr pf inj
  show thesis
  proof (cases r)
    case (Inl err)
    then show thesis by (intro no_key [of p fwd err s1]) (simp_all add: eq)
  next
    case r: (Inr x)
    obtain cx src where x: "x = (cx, src)" by fastforce
    obtain r' s2 where call: "call_chat env p cx (req\<lparr>req_Model := fwd\<rparr>) s1 = (r', s2)" by fastforce
    show thesis
    proof (cases "cache_probe env ctx req i s1")
      case ProbePanic
      then show thesis by (intro panic [of p fwd cx src s1]) (simp_all add: eq r x)
    next
      case (ProbeHit resp)
      then show thesis by (intro cached [of p fwd cx src s1 resp]) (simp_all add: eq r x)
    next
      case (ProbeMiss v)
      show thesis
      proof (cases r')
        case (Inl err)
        then show thesis using ProbeMiss call by (intro failed [of p fwd cx src s1 v err s2]) (simp_all add: eq r x)
      next
        case r': (Inr resp)
        then show thesis using ProbeMiss call by (intro served [of p fwd cx src s1 v resp s2]) (simp_all add: eq r x)
      qed
    qed
  qed
qed

section \<open>Frames\<close>

text \<open>What an upstream call leaves alone, and what the self-correction loop leaves alone of a trace.\<close>

definition books :: "('u, 'c, 'l) GState \<Rightarrow> 'l option \<times> WeightedRR option \<times> 'c Service option \<times> CredentialResolver option \<times> FailoverEvent list \<times> Trace list" where
  "books s = (g_limiter s, g_lb s, g_scache s, g_creds s, g_notes s, g_traces s)"

definition trace_core :: "Trace \<Rightarrow> string \<times> float64 \<times> string \<times> int \<times> bool" where
  "trace_core t = (tr_TraceID t, tr_CostUSD t, tr_RequestModel t, tr_StatusCode t, tr_CacheHit t)"

definition calls_to :: "Provider \<Rightarrow> Ctx \<Rightarrow> string \<Rightarrow> nat \<Rightarrow> ('u, 'c, 'l) GState \<Rightarrow> ('u, 'c, 'l) GState \<Rightarrow> bool" where
  "calls_to p ctx model n s s' \<longleftrightarrow>
     (\<exists>rqs. g_calls s' = g_calls s @ map (\<lambda>rq. (p, ctx, rq)) rqs \<and> length rqs \<le> n \<and> (\<forall>rq \<in> set rqs. req_Model rq = model))"

lemma calls_to_refl: "calls_to p ctx model n s s"
  by (auto simp: calls_to_def)

lemma calls_to_same [simp]: "g_calls s' = g_calls s \<Longrightarrow> calls_to p ctx model n s s'"
  by (auto simp: calls_to_def)

lemma calls_to_trans: "calls_to p ctx m n s s' \<Longrightarrow> calls_to p ctx m n' s' s'' \<Longrightarrow> calls_to p ctx m (n + n') s s''"
  unfolding calls_to_def
proof (elim exE conjE)
  fix rqs rqs'
  assume "g_calls s' = g_calls s @ map (\<lambda>rq. (p, ctx, rq)) rqs" "length rqs \<le> n" "\<forall>rq\<in>set rqs. req_Model rq = m"
    "g_calls s'' = g_calls s' @ map (\<lambda>rq. (p, ctx, rq)) rqs'" "length rqs' \<le> n'" "\<forall>rq\<in>set rqs'. req_Model rq = m"
  then show "\<exists>rqs. g_calls s'' = g_calls s @ map (\<lambda>rq. (p, ctx, rq)) rqs \<and> length rqs \<le> n + n' \<and> (\<forall>rq\<in>set rqs. req_Model rq = m)"
    by (intro exI [of _ "rqs @ rqs'"]) auto
qed

lemma call_chat_frame:
  assumes "call_chat env p ctx req s = (r, s')"
  shows "books s' = books s" "calls_to p ctx (req_Model req) 1 s s'"
  using call_chat_sel [OF assms] by (simp_all add: books_def calls_to_def exI [of _ "[req]"])

lemma set_content0_sel [simp]:
  "resp_Usage (set_content0 x r) = resp_Usage r" "resp_Model (set_content0 x r) = resp_Model r"
  "length (resp_Choices (set_content0 x r)) = length (resp_Choices r)" "resp_Choices (set_content0 x r) = [] \<longleftrightarrow> resp_Choices r = []"
  by (simp_all add: set_content0_def split: list.split)

lemma content0_set [simp]: "resp_Choices r \<noteq> [] \<Longrightarrow> content0 (set_content0 x r) = x"
  by (auto simp: content0_def set_content0_def split: list.split)

lemma withSchemaCorrection_Model [simp]: "req_Model (withSchemaCorrection req b r) = req_Model req"
  by (simp add: withSchemaCorrection_def)

lemma correct_once_frame:
  assumes "correct_once env h p cx schema c = (c', b)"
  shows "books (co_state c') = books (co_state c)" "trace_core (co_trace c') = trace_core (co_trace c)"
    "calls_to p cx (req_Model (co_attempt c)) 1 (co_state c) (co_state c')" "req_Model (co_attempt c') = req_Model (co_attempt c)"
proof -
  define rq where "rq = withSchemaCorrection (co_attempt c) (content0 (co_resp c)) (fi_Reason (co_f c))"
  obtain r s where call: "call_chat env p cx rq (co_state c) = (r, s)" by fastforce
  have "co_state c' = s" "trace_core (co_trace c') = trace_core (co_trace c)" "co_attempt c' = rq"
    using assms call unfolding correct_once_def Let_def rq_def [symmetric]
    by (auto simp: trace_core_def split: sum.splits if_splits prod.splits)
  with call_chat_frame [OF call]
  show "books (co_state c') = books (co_state c)" "trace_core (co_trace c') = trace_core (co_trace c)"
    "calls_to p cx (req_Model (co_attempt c)) 1 (co_state c) (co_state c')" "req_Model (co_attempt c') = req_Model (co_attempt c)"
    by (simp_all add: rq_def)
qed

lemma self_correct_frame:
  "books (co_state (self_correct env h p cx schema n c)) = books (co_state c)
   \<and> trace_core (co_trace (self_correct env h p cx schema n c)) = trace_core (co_trace c)
   \<and> calls_to p cx (req_Model (co_attempt c)) n (co_state c) (co_state (self_correct env h p cx schema n c))"
proof (induction n arbitrary: c)
  case (Suc n)
  show ?case
  proof (cases "fi_Blocked (co_f c)")
    case True
    obtain c' b where once: "correct_once env h p cx schema c = (c', b)" by fastforce
    note frame = correct_once_frame [OF once]
    have step: "self_correct env h p cx schema (Suc n) c = (if b then self_correct env h p cx schema n c' else c')"
      using True once by simp
    have "calls_to p cx (req_Model (co_attempt c)) n (co_state c') (co_state (self_correct env h p cx schema n c'))"
      using Suc.IH [of c'] frame(4) by simp
    note all = calls_to_trans [OF frame(3) this]
    have "calls_to p cx (req_Model (co_attempt c)) (Suc n) (co_state c) (co_state c')"
      using calls_to_trans [OF frame(3) calls_to_refl [of _ _ _ n]] by simp
    with all show ?thesis unfolding step using Suc.IH [of c'] frame by simp
  qed simp
qed simp

lemma redact_first_frame:
  assumes "redact_first h resp t = (resp', t')"
  shows "trace_core t' = trace_core t" "resp_Usage resp' = resp_Usage resp" "resp_Model resp' = resp_Model resp"
    "resp_Choices resp' = [] \<longleftrightarrow> resp_Choices resp = []" "tr_InputTokens t' = tr_InputTokens t" "tr_OutputTokens t' = tr_OutputTokens t"
  using assms by (auto simp: redact_first_def trace_core_def split: prod.splits bool.splits)

lemma output_guardrails_frame:
  assumes "c = output_guardrails env h p cx req attempt resp t s"
  shows "books (co_state c) = books s" "trace_core (co_trace c) = trace_core t"
    "calls_to p cx (req_Model attempt) (nat (h_selfCorrectMax h)) s (co_state c)"
proof -
  obtain resp1 t1 where red: "redact_first h resp t = (resp1, t1)" by fastforce
  obtain content f rep where val: "validateOrRepairJSON env h (content0 resp1) (SchemaBytes (req_ResponseFormat req)) = (content, f, rep)"
    by (metis prod_cases3)
  define c0 :: "('a, 'b, 'c) Correction" where "c0 = \<lparr>co_attempt = attempt, co_resp = set_content0 content resp1, co_trace = t1,
    co_f = f, co_repaired = rep, co_corrected = 0, co_state = s\<rparr>"
  define c1 where "c1 = self_correct env h p cx (SchemaBytes (req_ResponseFormat req)) (nat (h_selfCorrectMax h)) c0"
  have c1: "books (co_state c1) = books s" "trace_core (co_trace c1) = trace_core t1"
    "calls_to p cx (req_Model attempt) (nat (h_selfCorrectMax h)) s (co_state c1)"
    using self_correct_frame [of env h p cx "SchemaBytes (req_ResponseFormat req)" "nat (h_selfCorrectMax h)" c0]
    by (simp_all add: c1_def c0_def)
  have "co_state c = s \<and> co_trace c = t1 \<or> co_state c = co_state c1 \<and> trace_core (co_trace c) = trace_core (co_trace c1)"
    unfolding assms output_guardrails_def by (simp add: red val c0_def [symmetric] c1_def [symmetric] Let_def trace_core_def)
  then show "books (co_state c) = books s" "trace_core (co_trace c) = trace_core t"
    "calls_to p cx (req_Model attempt) (nat (h_selfCorrectMax h)) s (co_state c)"
    using c1 redact_first_frame(1) [OF red] by auto
qed

section \<open>One answer, one trace, one charge\<close>

text \<open>The trail of a request: its attempts are in the order of the chain and name the chain's models.
  A failed attempt is one without a key (403) or with an upstream error (502).\<close>

definition trail_ok :: "string list \<Rightarrow> nat \<Rightarrow> ProviderAttempt list \<Rightarrow> bool" where
  "trail_ok chain n as \<longleftrightarrow>
     sorted_wrt (<) (map at_Index as) \<and> (\<forall>a \<in> set as. at_Index a < n \<and> at_Model a = chain ! at_Index a)"

definition failed_attempt :: "ProviderAttempt \<Rightarrow> bool" where
  "failed_attempt a \<longleftrightarrow> at_StatusCode a = 403 \<or> at_StatusCode a = 502"

text \<open>The evidence of a request that was answered with status \<open>st\<close>: what the trace and the ledger must
  say. A success (200) or a schema rejection (422) is the outcome of the last attempt, and every
  attempt before it failed; a 502 means that all attempts failed.\<close>

definition evidence_ok ::
  "('u, 'c, 'l, 're, 'doc, 'schema) Env \<Rightarrow> Ctx \<Rightarrow> string list \<Rightarrow> ('u, 'c, 'l) GState \<Rightarrow> ('u, 'c, 'l) GState \<Rightarrow> int \<Rightarrow> Trace \<Rightarrow> bool" where
  "evidence_ok env ctx chain s s' st t \<longleftrightarrow>
     g_traces s' = g_traces s @ [t] \<and> tr_TraceID t = ev_uuid env 0
     \<and> g_limiter s' = map_option (record_spend (ev_addSpend env) (nat (Unix (ev_now env))) ctx (tr_CostUSD t)) (g_limiter s)
     \<and> trail_ok chain (length chain) (tr_Attempts t)
     \<and> (if st = 502 then (\<forall>a \<in> set (tr_Attempts t). failed_attempt a) \<and> tr_StatusCode t \<in> {403, 502} \<and> tr_CostUSD t = 0
        else st \<in> {200, 422} \<and> tr_StatusCode t = st
          \<and> (\<exists>as a. tr_Attempts t = as @ [a] \<and> at_StatusCode a = st \<and> (\<forall>x \<in> set as. failed_attempt x)))"

definition loop_ok :: "('u, 'c, 'l, 're, 'doc, 'schema) Env \<Rightarrow> string list \<Rightarrow> nat \<Rightarrow> Loop \<Rightarrow> bool" where
  "loop_ok env chain i lp \<longleftrightarrow>
     trail_ok chain i (lp_attempts lp) \<and> (\<forall>a \<in> set (lp_attempts lp). failed_attempt a)
     \<and> (lp_lastTrace lp = zero_Trace
        \<or> tr_TraceID (lp_lastTrace lp) = ev_uuid env 0 \<and> tr_StatusCode (lp_lastTrace lp) \<in> {403, 502} \<and> tr_CostUSD (lp_lastTrace lp) = 0)"

lemma trail_ok_mono: "trail_ok chain i as \<Longrightarrow> i \<le> n \<Longrightarrow> trail_ok chain n as"
  by (auto simp: trail_ok_def)

lemma trail_ok_snoc:
  assumes "trail_ok chain i as" "tr_RequestModel t = chain ! i"
  shows "trail_ok chain (i + 1) (as @ [attemptFromTrace t i n])"
  using assms by (auto simp: trail_ok_def attemptFromTrace_def sorted_wrt_append)

lemma attemptFromTrace_status [simp]: "at_StatusCode (attemptFromTrace t i n) = tr_StatusCode t"
  by (simp add: attemptFromTrace_def)

lemma loop_ok_snoc:
  assumes "loop_ok env chain i lp" "trace_core t = (ev_uuid env 0, 0, chain ! i, st, ch)" "st = 403 \<or> st = 502"
    "lp_attempts lp' = lp_attempts lp @ [attemptFromTrace t i (length chain)]" "lp_lastTrace lp' = t"
  shows "loop_ok env chain (i + 1) lp'"
  using assms trail_ok_snoc [of chain i "lp_attempts lp" t "length chain"]
  by (auto simp: loop_ok_def trace_core_def failed_attempt_def)

lemma evidence_final:
  assumes "loop_ok env chain i lp" "i < length chain" "h_recorder h" "st = 200 \<or> st = 422"
    and "trace_core t = (ev_uuid env 0, x, chain ! i, st, ch)"
    and "g_limiter s' = map_option (record_spend (ev_addSpend env) (nat (Unix (ev_now env))) ctx x) (g_limiter s)"
    and "g_traces s' = g_traces (recordEvidence h t (lp_attempts lp @ [attemptFromTrace t i (length chain)]) rs s)"
  shows "\<exists>t'. evidence_ok env ctx chain s s' st t'"
proof -
  let ?as = "lp_attempts lp @ [attemptFromTrace t i (length chain)]"
  obtain t' where t': "g_traces s' = g_traces s @ [t']" "tr_TraceID t' = tr_TraceID t" "tr_CostUSD t' = tr_CostUSD t"
      "tr_StatusCode t' = tr_StatusCode t" "tr_Attempts t' = ?as"
    using recordEvidence_traces [OF assms(3), of t ?as rs s] assms(7) by metis
  have "trail_ok chain (length chain) ?as"
    using assms(1,2,5) by (intro trail_ok_mono [OF trail_ok_snoc, of _ i]) (auto simp: loop_ok_def trace_core_def)
  moreover have "\<forall>x \<in> set (lp_attempts lp). failed_attempt x" using assms(1) by (simp add: loop_ok_def)
  ultimately have "evidence_ok env ctx chain s s' st t'"
    using t' assms(4-6) by (auto simp: evidence_ok_def trace_core_def)
  then show ?thesis ..
qed

text \<open>A response is written once.\<close>

definition answered_once :: "'b Writer \<Rightarrow> 'b Writer \<Rightarrow> int \<Rightarrow> 'b payload \<Rightarrow> bool" where
  "answered_once w w' st b \<longleftrightarrow> wr_Body w' = wr_Body w @ [b] \<and> (wr_Status w = None \<longrightarrow> wr_Status w' = Some st)"

lemma answered_once_writeJSON [simp]: "answered_once w (writeJSON st b w) st b"
  by (simp add: answered_once_def writeJSON_def WriteHeader_def set_header_def Let_def split: option.split)

lemma answered_once_header:
  "answered_once (set_header k v w) w' st b \<Longrightarrow> answered_once w w' st b"
  by (simp add: answered_once_def)

lemma answered_once_writeError: "answered_once w (writeError ctx st ty msg w) st (ErrorBody (Scrub msg) ty)"
  by (simp add: writeError_def Let_def answered_once_header [OF answered_once_writeJSON])

lemma answered_once_cost:
  "answered_once w (writeJSON st b (setCostHeader env x w)) st b"
  by (simp add: setCostHeader_def answered_once_header [OF answered_once_writeJSON])

section \<open>The outcome of a candidate\<close>

lemma CostUSD_no_tokens: "CostUSD req resp 0 0 = 0"
  by (simp add: CostUSD_def costForModel_def applyBasic_def split: option.split)

lemma serve_cached_answers:
  assumes "serve_cached env h i n resp t lp w s = r"
  shows "\<exists>w' t' rs. r = Answered w' (recordEvidence h t' (lp_attempts lp @ [attemptFromTrace t' i n]) rs s)
    \<and> answered_once w w' 200 (Payload (ChatBody (stamp_cost (tr_CostUSD t') resp)))
    \<and> trace_core t' = (tr_TraceID t, CostUSD (tr_RequestModel t) (resp_Model resp) (tr_InputTokens t) (tr_OutputTokens t), tr_RequestModel t, 200, True)"
  unfolding assms [symmetric] serve_cached_def Let_def
  by (intro exI conjI, rule refl, rule answered_once_cost) (simp add: trace_core_def)

lemma deliver_answers:
  assumes "deliver env h ctx req i n v resp t lp w s = r"
  shows "\<exists>w' s' t' rs. r = Answered w' s' \<and> answered_once w w' 200 (Payload (ChatBody (stamp_cost (tr_CostUSD t') resp)))
    \<and> s' = recordSpend env ctx (tr_CostUSD t') (recordEvidence h t' (lp_attempts lp @ [attemptFromTrace t' i n]) rs (cache_put env ctx req i v resp s))
    \<and> trace_core t' = (tr_TraceID t, ResolveCostUSD (us_EstimatedCost (resp_Usage resp)) (tr_RequestModel t) (tr_ResponseModel t) (Some (resp_Usage resp)),
         tr_RequestModel t, tr_StatusCode t, tr_CacheHit t)
    \<and> tr_InputTokens t' = tr_InputTokens t \<and> tr_OutputTokens t' = tr_OutputTokens t"
  unfolding assms [symmetric] deliver_def Let_def
  by (intro exI conjI, rule refl, rule answered_once_cost, rule refl) (simp_all add: trace_core_def)

lemma schema_blocked_answers:
  assumes "schema_blocked env h ctx i n c lp w = r"
  shows "\<exists>w' s' t' rs. r = Answered w' s' \<and> answered_once w w' 422 (ErrorBody (Scrub (fi_Reason (co_f c))) ''schema_validation_failed'')
    \<and> s' = recordSpend env ctx (tr_CostUSD t') (recordEvidence h t' (lp_attempts lp @ [attemptFromTrace t' i n]) rs (co_state c))
    \<and> trace_core t' = (tr_TraceID (co_trace c), tr_CostUSD t', tr_RequestModel (co_trace c), 422, tr_CacheHit (co_trace c))"
  unfolding assms [symmetric] schema_blocked_def Let_def
  by (intro exI conjI, rule refl, rule answered_once_writeError, rule refl) (simp add: trace_core_def)

text \<open>After an upstream success the request is answered: with the response, or with a rejection.\<close>

lemma upstream_ok_answers:
  assumes "upstream_ok env h ctx req i n p cx attempt v resp t lp w s = r"
  obtains w' s' st b t' s1 rs where "r = Answered w' s'" "answered_once w w' st b" "st = 200 \<or> st = 422"
    "s' = recordSpend env ctx (tr_CostUSD t') (recordEvidence h t' (lp_attempts lp @ [attemptFromTrace t' i n]) rs s1)"
    "trace_core t' = (tr_TraceID t, tr_CostUSD t', tr_RequestModel t, st, tr_CacheHit t)"
    "g_limiter s1 = g_limiter s" "g_lb s1 = g_lb s" "g_notes s1 = g_notes s" "g_traces s1 = g_traces s" "g_creds s1 = g_creds s"
    "g_scache s1 = g_scache s \<or> (\<exists>resp' s0. s1 = cache_put env ctx req i v resp' s0 \<and> g_scache s0 = g_scache s)"
    "calls_to p cx (req_Model attempt) (nat (h_selfCorrectMax h)) s s1"
proof -
  define t0 where "t0 = t\<lparr>tr_LatencyMs := ev_latency env i, tr_StatusCode := 200, tr_ResponseModel := resp_Model resp,
    tr_InputTokens := us_PromptTokens (resp_Usage resp), tr_OutputTokens := us_CompletionTokens (resp_Usage resp)\<rparr>"
  define c where "c = output_guardrails env h p cx req attempt resp t0 s"
  define t1 where "t1 = (co_trace c)\<lparr>tr_FinishReason := finish0 (co_resp c), tr_OutputMessages := content0 (co_resp c)\<rparr>"
  note frame = output_guardrails_frame [OF c_def]
  have r: "r = (if resp_Choices resp = [] then deliver env h ctx req i n v resp t0 lp w s
      else if fi_Blocked (co_f c) then schema_blocked env h ctx i n c lp w
      else deliver env h ctx req i n v (co_resp c) t1 lp w (co_state c))"
    unfolding assms [symmetric] upstream_ok_def Let_def t0_def c_def t1_def by simp
  have core: "trace_core t0 = (tr_TraceID t, tr_CostUSD t, tr_RequestModel t, 200, tr_CacheHit t)" by (simp add: t0_def trace_core_def)
  have core1: "trace_core t1 = trace_core t0" using frame(2) by (simp add: t1_def trace_core_def)
  note eqs = core core1 frame books_def trace_core_def
  consider (empty) "resp_Choices resp = []" | (blocked) "r = schema_blocked env h ctx i n c lp w"
    | (fine) "r = deliver env h ctx req i n v (co_resp c) t1 lp w (co_state c)" using r by (simp split: if_splits)
  then show thesis
  proof cases
    case empty
    with r have "deliver env h ctx req i n v resp t0 lp w s = r" by simp
    from deliver_answers [OF this] obtain w' s' t' rs where A: "r = Answered w' s'" "answered_once w w' 200 (Payload (ChatBody (stamp_cost (tr_CostUSD t') resp)))"
        "s' = recordSpend env ctx (tr_CostUSD t') (recordEvidence h t' (lp_attempts lp @ [attemptFromTrace t' i n]) rs (cache_put env ctx req i v resp s))"
        "trace_core t' = (tr_TraceID t, tr_CostUSD t', tr_RequestModel t, 200, tr_CacheHit t)"
      using core core1 frame(2) by (auto simp: trace_core_def)
    show thesis
      by (rule that [of w' s' 200 "Payload (ChatBody (stamp_cost (tr_CostUSD t') resp))" t' rs "cache_put env ctx req i v resp s"]) (use A frame in \<open>auto simp: books_def\<close>)
  next
    case blocked
    from schema_blocked_answers [OF blocked [symmetric]] obtain w' s' t' rs where A: "r = Answered w' s'" "answered_once w w' 422 (ErrorBody (Scrub (fi_Reason (co_f c))) ''schema_validation_failed'')"
        "s' = recordSpend env ctx (tr_CostUSD t') (recordEvidence h t' (lp_attempts lp @ [attemptFromTrace t' i n]) rs (co_state c))"
        "trace_core t' = (tr_TraceID t, tr_CostUSD t', tr_RequestModel t, 422, tr_CacheHit t)"
      using core core1 frame(2) by (auto simp: trace_core_def)
    show thesis
      by (rule that [of w' s' 422 "ErrorBody (Scrub (fi_Reason (co_f c))) ''schema_validation_failed''" t' rs "co_state c"]) (use A frame in \<open>auto simp: books_def\<close>)
  next
    case fine
    from deliver_answers [OF fine [symmetric]] obtain w' s' t' rs where A: "r = Answered w' s'" "answered_once w w' 200 (Payload (ChatBody (stamp_cost (tr_CostUSD t') (co_resp c))))"
        "s' = recordSpend env ctx (tr_CostUSD t') (recordEvidence h t' (lp_attempts lp @ [attemptFromTrace t' i n]) rs (cache_put env ctx req i v (co_resp c) (co_state c)))"
        "trace_core t' = (tr_TraceID t, tr_CostUSD t', tr_RequestModel t, 200, tr_CacheHit t)"
      using core core1 frame(2) by (auto simp: trace_core_def)
    show thesis
      by (rule that [of w' s' 200 "Payload (ChatBody (stamp_cost (tr_CostUSD t') (co_resp c)))" t' rs "cache_put env ctx req i v (co_resp c) (co_state c)"]) (use A frame in \<open>auto simp: books_def calls_to_def\<close>)
  qed
qed

lemma upstream_failed_continues:
  obtains lp' s' where "upstream_failed env h req chain i err t lp s = Continue lp' s'" "g_limiter s' = g_limiter s" "g_traces s' = g_traces s"
    "g_calls s' = g_calls s" "g_lb s' = g_lb s" "g_scache s' = g_scache s" "g_creds s' = g_creds s"
    "lp_attempts lp' = lp_attempts lp @ [attemptFromTrace (lp_lastTrace lp') i (length chain)]"
    "trace_core (lp_lastTrace lp') = (tr_TraceID t, tr_CostUSD t, tr_RequestModel t, 502, tr_CacheHit t)"
proof -
  obtain lp' s' where eq: "upstream_failed env h req chain i err t lp s = Continue lp' s'"
    by (simp add: upstream_failed_def Let_def)
  show thesis
    by (rule that [OF eq]) (use eq in \<open>auto simp: upstream_failed_def Let_def trace_core_def\<close>)
qed

lemma evidence_ok_cong:
  "g_limiter s1 = g_limiter s \<Longrightarrow> g_traces s1 = g_traces s \<Longrightarrow> evidence_ok env ctx chain s1 = evidence_ok env ctx chain s"
  by (simp add: evidence_ok_def fun_eq_iff)

lemma record_spend_0 [simp]: "record_spend add now ctx 0 lm = lm"
  by (simp add: record_spend_def)

lemma record_spend_0_id [simp]: "record_spend add now ctx 0 = (\<lambda>lm. lm)"
  by (simp add: record_spend_def fun_eq_iff)

definition turn_ok ::
  "('u, 'c, 'l, 're, 'doc, 'schema) Env \<Rightarrow> 're Handler \<Rightarrow> Ctx \<Rightarrow> string list \<Rightarrow> nat \<Rightarrow> gw_body Writer \<Rightarrow> ('u, 'c, 'l) GState \<Rightarrow>
     ('u, 'c, 'l) turn \<Rightarrow> bool" where
  "turn_ok env h ctx chain i w s r \<longleftrightarrow>
     (case r of
        Continue lp' s' \<Rightarrow> loop_ok env chain i lp' \<and> g_limiter s' = g_limiter s \<and> g_traces s' = g_traces s
      | Answered w' s' \<Rightarrow> \<exists>st b. answered_once w w' st b \<and> (h_recorder h \<longrightarrow> (\<exists>t. evidence_ok env ctx chain s s' st t))
      | Panicked s' \<Rightarrow> g_limiter s' = g_limiter s \<and> g_traces s' = g_traces s)"

lemma turn_ok_cong:
  "g_limiter s1 = g_limiter s \<Longrightarrow> g_traces s1 = g_traces s \<Longrightarrow> turn_ok env h ctx chain i w s1 r = turn_ok env h ctx chain i w s r"
  by (simp add: turn_ok_def evidence_ok_cong [of s1 s] split: turn.split)

lemma served_turn_ok:
  assumes "loop_ok env chain i lp" "i < length chain"
    and "trace_core t = (ev_uuid env 0, x, chain ! i, st, ch)" "st = 200 \<or> st = 422" "answered_once w w' st b"
    and "g_limiter s' = map_option (record_spend (ev_addSpend env) (nat (Unix (ev_now env))) ctx x) (g_limiter s)"
    and "g_traces s' = g_traces (recordEvidence h t (lp_attempts lp @ [attemptFromTrace t i (length chain)]) rs s)"
  shows "turn_ok env h ctx chain j w s (Answered w' s')"
  using evidence_final [OF assms(1,2) _ assms(4,3,6,7)] assms(5) by (auto simp: turn_ok_def)

lemma recordEvidence_traces_cong:
  "g_traces s1 = g_traces s \<Longrightarrow> g_traces (recordEvidence h t as rs s1) = g_traces (recordEvidence h t as rs s)"
  by (simp add: recordEvidence_def Let_def)

lemma candidate_turn_ok:
  assumes "loop_ok env chain i lp" "i < length chain"
  shows "turn_ok env h ctx chain (i + 1) w s (unary_candidate env h ctx req chain i (chain ! i) lp w s)"
proof (cases rule: unary_candidate_cases [of h "chain ! i" env ctx req chain i lp w s])
  case (unresolved e)
  then show ?thesis using assms by (auto simp: turn_ok_def loop_ok_def elim: trail_ok_mono)
next
  case (no_key p fwd err s1)
  let ?lp = "missing_key env i (length chain) err (attempt_trace env h ctx req p i (chain ! i)) lp"
  have "loop_ok env chain (i + 1) ?lp"
    by (rule loop_ok_snoc [OF assms(1), where t = "lp_lastTrace ?lp" and st = 403 and ch = False]) (simp_all add: missing_key_def Let_def trace_core_def)
  then show ?thesis using no_key injectCredential_sel [OF no_key(2)] by (simp add: turn_ok_def)
next
  case (panic p fwd cx src s1)
  then show ?thesis using injectCredential_sel [OF panic(2)] by (simp add: turn_ok_def)
next
  case (cached p fwd cx src s1 resp)
  note inj = injectCredential_sel [OF cached(2)]
  let ?t = "(attempt_trace env h ctx req p i (chain ! i))\<lparr>tr_CredentialSource := src\<rparr>"
  show ?thesis
  proof (insert serve_cached_answers [OF cached(4) [symmetric]], elim exE conjE)
    fix w' t' rs
    let ?s' = "recordEvidence h t' (lp_attempts lp @ [attemptFromTrace t' i (length chain)]) rs s1"
    assume A: "unary_candidate env h ctx req chain i (chain ! i) lp w s = Answered w' ?s'"
      "answered_once w w' 200 (Payload (ChatBody (stamp_cost (tr_CostUSD t') resp)))"
      "trace_core t' = (tr_TraceID ?t, CostUSD (tr_RequestModel ?t) (resp_Model resp) (tr_InputTokens ?t) (tr_OutputTokens ?t), tr_RequestModel ?t, 200, True)"
    have core: "trace_core t' = (ev_uuid env 0, 0, chain ! i, 200, True)" unfolding A(3) by (simp add: CostUSD_no_tokens)
    show ?thesis unfolding A(1)
      by (rule served_turn_ok [OF assms core _ A(2), where rs = rs]) (simp_all add: inj option.map_ident recordEvidence_traces_cong [OF inj(7)])
  qed
next
  case (failed p fwd cx src s1 v err s2)
  note inj = injectCredential_sel [OF failed(2)] call_chat_sel [OF failed(4)]
  let ?t = "(attempt_trace env h ctx req p i (chain ! i))\<lparr>tr_CredentialSource := src\<rparr>"
  show ?thesis
  proof (rule upstream_failed_continues [of env h req chain i err ?t lp s2])
    fix lp' s'
    assume A: "upstream_failed env h req chain i err ?t lp s2 = Continue lp' s'" "g_limiter s' = g_limiter s2" "g_traces s' = g_traces s2"
      and lp': "lp_attempts lp' = lp_attempts lp @ [attemptFromTrace (lp_lastTrace lp') i (length chain)]"
      and core: "trace_core (lp_lastTrace lp') = (tr_TraceID ?t, tr_CostUSD ?t, tr_RequestModel ?t, 502, tr_CacheHit ?t)"
    have core': "trace_core (lp_lastTrace lp') = (ev_uuid env 0, 0, chain ! i, 502, False)" unfolding core by simp
    have "loop_ok env chain (i + 1) lp'" by (rule loop_ok_snoc [OF assms(1) core' _ lp']) simp_all
    then show ?thesis unfolding failed(5) A(1) using A(2,3) inj by (simp add: turn_ok_def)
  qed
next
  case (served p fwd cx src s1 v resp s2)
  note inj = injectCredential_sel [OF served(2)] call_chat_sel [OF served(4)]
  show ?thesis
  proof (rule upstream_ok_answers [OF served(5) [symmetric]])
    fix w' s' st b t' s3 rs
    assume A: "unary_candidate env h ctx req chain i (chain ! i) lp w s = Answered w' s'" "answered_once w w' st b" "st = 200 \<or> st = 422"
      "s' = recordSpend env ctx (tr_CostUSD t') (recordEvidence h t' (lp_attempts lp @ [attemptFromTrace t' i (length chain)]) rs s3)"
      "g_limiter s3 = g_limiter s2" "g_traces s3 = g_traces s2"
    let ?t = "(attempt_trace env h ctx req p i (chain ! i))\<lparr>tr_CredentialSource := src\<rparr>"
    assume core: "trace_core t' = (tr_TraceID ?t, tr_CostUSD t', tr_RequestModel ?t, st, tr_CacheHit ?t)"
    have core': "trace_core t' = (ev_uuid env 0, tr_CostUSD t', chain ! i, st, False)" unfolding core by simp
    have "g_traces s3 = g_traces s" by (simp add: A(6) inj)
    note same = recordEvidence_traces_cong [OF this]
    show ?thesis unfolding A(1)
      by (rule served_turn_ok [OF assms core' A(3,2), where rs = rs]) (simp_all add: A(4,5) inj same)
  qed
qed

lemma all_failed_turn_ok:
  assumes "loop_ok env chain (length chain) lp"
  shows "turn_ok env h ctx chain j w s (all_failed env h ctx req chain lp w s)"
proof -
  define msg where "msg = (case lp_lastErr lp of None \<Rightarrow> ''all candidate providers failed'' | Some e \<Rightarrow> e)"
  define t where "t = (if tr_TraceID (lp_lastTrace lp) = []
    then (newTrace env h ctx req [] 0)\<lparr>tr_StatusCode := 502, tr_ErrorType := ''upstream_error'', tr_ErrorMsg := msg,
       tr_LatencyMs := ev_latency env (length chain)\<rparr> else lp_lastTrace lp)"
  define w' where "w' = writeError ctx 502 (code_string CodeUpstreamError) msg w"
  define s' where "s' = recordEvidence h t (lp_attempts lp) (lp_reasons lp) s"
  have A: "all_failed env h ctx req chain lp w s = Answered w' s'"
    by (simp only: all_failed_def Let_def msg_def t_def w'_def s'_def)
  have w': "answered_once w w' 502 (ErrorBody (Scrub msg) (code_string CodeUpstreamError))"
    unfolding w'_def by (rule answered_once_writeError)
  have t: "tr_TraceID t = ev_uuid env 0" "tr_StatusCode t \<in> {403, 502}" "tr_CostUSD t = 0"
    using assms by (auto simp: t_def loop_ok_def zero_Trace_def)
  have "\<exists>t'. evidence_ok env ctx chain s s' 502 t'" if rec: "h_recorder h"
  proof -
    obtain t' where "g_traces s' = g_traces s @ [t']" "tr_TraceID t' = tr_TraceID t" "tr_CostUSD t' = tr_CostUSD t"
        "tr_StatusCode t' = tr_StatusCode t" "tr_Attempts t' = lp_attempts lp"
      using recordEvidence_traces [OF rec, of t "lp_attempts lp" "lp_reasons lp" s] unfolding s'_def by metis
    then have "evidence_ok env ctx chain s s' 502 t'"
      using t assms by (simp add: evidence_ok_def loop_ok_def option.map_ident s'_def)
    then show ?thesis ..
  qed
  then show ?thesis unfolding A using w' by (auto simp: turn_ok_def)
qed

text \<open>The rule for the chain: \<open>P i lp s\<close> holds before candidate \<open>i\<close>, \<open>Q\<close> of the result.\<close>

lemma unary_loop_rule:
  assumes "chain = tried @ rest" "P (length tried) lp s"
    and step: "\<And>i lp s. i < length chain \<Longrightarrow> P i lp s \<Longrightarrow>
      (case unary_candidate env h ctx req chain i (chain ! i) lp w s of Continue lp' s' \<Rightarrow> P (Suc i) lp' s' | r \<Rightarrow> Q r)"
    and final: "\<And>lp s. P (length chain) lp s \<Longrightarrow> Q (all_failed env h ctx req chain lp w s)"
  shows "Q (unary_loop env h ctx req chain (length tried) rest lp w s)"
  using assms(1,2)
proof (induction rest arbitrary: tried lp s)
  case Nil
  then show ?case using final by simp
next
  case (Cons model rest)
  then have i: "length tried < length chain" and m: "chain ! length tried = model" by simp_all
  note one = step [OF i Cons.prems(2), unfolded m]
  show ?case
  proof (cases "unary_candidate env h ctx req chain (length tried) model lp w s")
    case (Continue lp' s')
    then have "P (length (tried @ [model])) lp' s'" using one by simp
    then show ?thesis using Cons.IH [of "tried @ [model]" lp' s'] Cons.prems(1) Continue by simp
  qed (use one in simp_all)
qed

lemma handleUnary_rule:
  assumes "P 0 empty_Loop s"
    and "\<And>i lp s. i < length chain \<Longrightarrow> P i lp s \<Longrightarrow>
      (case unary_candidate env h ctx req chain i (chain ! i) lp w s of Continue lp' s' \<Rightarrow> P (Suc i) lp' s' | r \<Rightarrow> Q r)"
    and "\<And>lp s. P (length chain) lp s \<Longrightarrow> Q (all_failed env h ctx req chain lp w s)"
  shows "Q (handleUnary env h ctx req chain w s)"
  unfolding handleUnary_def
  using unary_loop_rule [where tried = "[]" and rest = chain and P = P and Q = Q and chain = chain and lp = empty_Loop
      and s = s and env = env and h = h and ctx = ctx and req = req and w = w] assms by simp

lemma loop_ok_empty: "loop_ok env chain 0 empty_Loop"
  by (simp add: loop_ok_def empty_Loop_def trail_ok_def)

end
