(* ===== verification/Demo.thy ===== *)
theory Demo
  imports Unary
begin

text \<open>
  A concrete gateway on which the properties of the request paths are applied: two providers, no
  guard unless one is given, a shared key, and JSON codecs that write and read one marker.
  \<open>answer\<close> says what a provider returns.
\<close>

definition demo_provider :: "string \<Rightarrow> string \<Rightarrow> Provider" where
  "demo_provider name model = \<lparr>pv_id = 0, pv_Name = name, pv_Models = [model], pv_EmbeddingModels = None,
     pv_ImageModels = None, pv_ModerationModels = None\<rparr>"

definition demo_registry :: Registry where
  "demo_registry = NewRegistry\<lparr>
     rg_providers := [(''p'', demo_provider ''p'' ''m''), (''q'', demo_provider ''q'' ''n'')],
     rg_byModel := [(''m'', demo_provider ''p'' ''m''), (''n'', demo_provider ''q'' ''n'')]\<rparr>"

definition demo_handler :: "unit Guard option \<Rightarrow> unit Handler" where
  "demo_handler g = \<lparr>h_registry = demo_registry, h_recorder = True, h_router = None, h_groups = [(''fast'', [''m'', ''n''])],
     h_guard = g, h_selfCorrectMax = 1, h_keyMode = KeyModeShared, h_replicaID = [], h_failoverNotify = True, h_egressMode = []\<rparr>"

definition demo_response :: "string \<Rightarrow> ChatCompletionResponse" where
  "demo_response x = \<lparr>resp_ID = [], resp_Object = [], resp_Created = 0, resp_Model = ''m'',
     resp_Choices = [\<lparr>ch_Index = 0, ch_Message = plain_message ''assistant'' x, ch_FinishReason = ''stop''\<rparr>],
     resp_Usage = zero_Usage\<rparr>"

definition demo_env ::
  "(Provider \<Rightarrow> string + ChatCompletionResponse) \<Rightarrow> (unit, semcache_Memory, Memory, unit, unit, unit) Env" where
  "demo_env answer = \<lparr>ev_chat = (\<lambda>u p ctx req. (answer p, u)), ev_stream = (\<lambda>u p ctx req. (Inl [], u)),
     ev_credSource = None, ev_lookup = mem_cache_lookup id, ev_store = mem_cache_store id, ev_addSpend = Memory_AddSpend,
     ev_now = 0, ev_uuid = (\<lambda>_. ''id''), ev_latency = (\<lambda>_. 1), ev_ttft = 0, ev_sha256 = id, ev_matchRe = (\<lambda>_ _. False),
     ev_unmarshalDoc = (\<lambda>_. Inr ()), ev_compileSchema = (\<lambda>_. None), ev_validate = (\<lambda>_ _. None),
     ev_marshalMessages = (\<lambda>_. None), ev_marshalStrings = (\<lambda>_. None), ev_marshalResp = (\<lambda>_. Some ''R''),
     ev_unmarshalResp = (\<lambda>b. if b = Some ''R'' then Some (demo_response ''hello'') else None), ev_marshalChunk = (\<lambda>_. []),
     ev_formatCost = (\<lambda>_. []), ev_resolveErr = (\<lambda>x. x)\<rparr>"

definition demo_request :: ChatCompletionRequest where
  "demo_request = \<lparr>req_Model = ''fast'', req_Messages = [plain_message ''user'' ''hi''], req_Temperature = None, req_TopP = None,
     req_MaxTokens = None, req_Stream = False, req_Stop = [], req_Tools = [], req_User = [], req_ReasoningEffort = [],
     req_StreamOptions = [], req_ToolChoice = [], req_ParallelToolCalls = None, req_ResponseFormat = None,
     req_NexusEval = None, req_Extra = []\<rparr>"

definition demo_state :: "semcache_Memory Service option \<Rightarrow> (unit, semcache_Memory, Memory) GState" where
  "demo_state cache = \<lparr>g_world = (), g_calls = [], g_limiter = Some NewMemory, g_lb = None, g_scache = cache,
     g_creds = None, g_traces = [], g_notes = []\<rparr>"

text \<open>The provider of \<open>m\<close> is down.\<close>

definition demo_answer :: "Provider \<Rightarrow> string + ChatCompletionResponse" where
  "demo_answer p = (if pv_Name p = ''p'' then Inl ''down'' else Inr (demo_response ''hello''))"

lemmas demo_defs = demo_provider_def demo_registry_def demo_handler_def demo_response_def demo_env_def demo_request_def
  demo_state_def demo_answer_def NewRegistry_def

definition demo_guard :: "unit Guard" where
  "demo_guard = \<lparr>gd_cfg = \<lparr>cfg_Enabled = True, cfg_BlockPIIInput = False, cfg_RedactPIIOutput = True, cfg_MaxInputChars = 0,
     cfg_DenyPatterns = [], cfg_ValidateJSONOutput = True\<rparr>, gd_denyCompiled = []\<rparr>"

lemma demo_resolve: "Resolve demo_registry ''n'' = Inr (demo_provider ''q'' ''n'', ''n'')"
  by code_simp

lemma demo_served: "h_keyMode (demo_handler g) = KeyModeShared" "h_registry (demo_handler g) = demo_registry"
  "ev_chat (demo_env demo_answer) u (demo_provider ''q'' ''n'') cx rq = (Inr (demo_response ''hello''), u)"
  "\<not> WantsJSON (req_ResponseFormat demo_request)"
  by (simp_all add: demo_handler_def demo_env_def demo_answer_def demo_provider_def demo_request_def WantsJSON_def)

end
