(* ===== verification/Streaming.thy ===== *)
theory Streaming
  imports Demo
begin

text \<open>
  The streaming path of \<open>internal/gateway/handler.go\<close>: \<open>handleStream\<close> opens a stream with the first
  candidate that connects, forwards its events to the client as server-sent events, and closes with
  cost, evidence and spend. The channel of events is a list; every \<open>Write\<close> is one \<open>Bytes\<close> entry of
  the response body.
\<close>

section \<open>Opening a stream\<close>

text \<open>The first loop: the events and the trace of the candidate that connected, or none.\<close>

fun open_stream ::
  "('u, 'c, 'l, 're, 'doc, 'schema) Env \<Rightarrow> 're Handler \<Rightarrow> Ctx \<Rightarrow> ChatCompletionRequest \<Rightarrow> string list \<Rightarrow> nat \<Rightarrow> string list \<Rightarrow> Loop \<Rightarrow>
     ('u, 'c, 'l) GState \<Rightarrow> (StreamEvent list \<times> Trace) option \<times> Loop \<times> ('u, 'c, 'l) GState" where
  "open_stream env h ctx req chain i [] lp s = (None, lp, s)"
| "open_stream env h ctx req chain i (model # rest) lp s =
     (case Resolve (h_registry h) model of
        Inl e \<Rightarrow> open_stream env h ctx req chain (i + 1) rest (lp\<lparr>lp_lastErr := Some (ev_resolveErr env e)\<rparr>) s
      | Inr (p, fwdModel) \<Rightarrow>
          let attempt = req\<lparr>req_Model := fwdModel\<rparr>;
              t = (stampSharedTraceID (newTrace env h ctx req (pv_Name p) (i + 1)) (newTrace env h ctx req [] 0))
                    \<lparr>tr_RequestModel := model, tr_Streamed := True\<rparr> in
          (case injectCredential env h ctx (pv_Name p) s of
             (Inl credErr, s) \<Rightarrow>
               open_stream env h ctx req chain (i + 1) rest (missing_key env i (length chain) credErr t lp) s
           | (Inr (callCtx, credSource), s) \<Rightarrow>
               let t = t\<lparr>tr_CredentialSource := credSource\<rparr> in
               (case call_stream env p callCtx attempt s of
                  (Inl err, s) \<Rightarrow>
                    let failover = (int i < int (length chain) - 1);
                        t = t\<lparr>tr_LatencyMs := ev_latency env i, tr_StatusCode := 502,
                              tr_ErrorType := (if failover then ''upstream_error_failover'' else ''upstream_error''), tr_ErrorMsg := err\<rparr>
                    in open_stream env h ctx req chain (i + 1) rest
                         (lp\<lparr>lp_attempts := lp_attempts lp @ [attemptFromTrace t i (length chain)], lp_lastTrace := t, lp_lastErr := Some err,
                             lp_reasons := lp_reasons lp @ [if failover then reason ReasonFallback (chain ! i @ arrow @ chain ! (i + 1))
                                                           else reason ReasonUpstreamError err]\<rparr>) s
                | (Inr ev, s) \<Rightarrow>
                    (Some (ev, t), lp\<lparr>lp_attempts := lp_attempts lp @ [attemptFromTrace t i (length chain)]\<rparr>, s))))"

section \<open>Forwarding events\<close>

definition cloneUsageForCost :: "Usage option \<Rightarrow> Usage option" where
  "cloneUsageForCost u =
     (case u of
        None \<Rightarrow> None
      | Some u \<Rightarrow> Some (zero_Usage\<lparr>us_PromptTokens := us_PromptTokens u, us_CompletionTokens := us_CompletionTokens u,
          us_TotalTokens := us_TotalTokens u, us_EstimatedCost := us_EstimatedCost u,
          us_PromptTokenDetails := us_PromptTokenDetails u, us_CompletionTokenDetails := us_CompletionTokenDetails u\<rparr>))"

text \<open>The variables of the event loop.\<close>

record Relay =
  rl_trace :: Trace
  rl_out :: string
  rl_firstToken :: bool
  rl_upstreamCost :: float64
  rl_lastUsage :: "Usage option"
  rl_writer :: "gw_body Writer"

definition write_bytes :: "string \<Rightarrow> gw_body Writer \<Rightarrow> gw_body Writer" where
  "write_bytes b w = w\<lparr>wr_Body := wr_Body w @ [Payload (Bytes b)]\<rparr>"

abbreviation nl :: string where "nl \<equiv> [CHR 0x0A]"

text \<open>What both chunk branches read off a chunk before its usage.\<close>

definition observe_chunk ::
  "('u, 'c, 'l, 're, 'doc, 'schema) Env \<Rightarrow> ChatCompletionChunk \<Rightarrow> Relay \<Rightarrow> Relay" where
  "observe_chunk env ch rl =
     (let rl = (if rl_firstToken rl then rl\<lparr>rl_trace := (rl_trace rl)\<lparr>tr_TTFTMillis := ev_ttft env\<rparr>, rl_firstToken := False\<rparr> else rl);
          rl = (if chunk_Model ch \<noteq> [] then rl\<lparr>rl_trace := (rl_trace rl)\<lparr>tr_ResponseModel := chunk_Model ch\<rparr>\<rparr> else rl)
      in case chunk_Choices ch of
           [] \<Rightarrow> rl
         | c # _ \<Rightarrow>
             let rl = rl\<lparr>rl_out := rl_out rl @ dl_Content (ck_Delta c)\<rparr>
             in if ck_FinishReason c \<noteq> [] then rl\<lparr>rl_trace := (rl_trace rl)\<lparr>tr_FinishReason := ck_FinishReason c\<rparr>\<rparr> else rl)"

definition observe_usage :: "Usage \<Rightarrow> Relay \<Rightarrow> Relay" where
  "observe_usage u rl =
     rl\<lparr>rl_trace := (rl_trace rl)\<lparr>tr_InputTokens := us_PromptTokens u, tr_OutputTokens := us_CompletionTokens u\<rparr>,
        rl_upstreamCost := (if us_EstimatedCost u > 0 then us_EstimatedCost u else rl_upstreamCost rl),
        rl_lastUsage := cloneUsageForCost (Some u)\<rparr>"

text \<open>The cost stamped onto the chunk that carries the usage.\<close>

definition stamp_usage :: "Relay \<Rightarrow> Usage \<Rightarrow> Usage" where
  "stamp_usage rl u =
     u\<lparr>us_CostUSD := ResolveCostUSD (rl_upstreamCost rl) (tr_RequestModel (rl_trace rl)) (tr_ResponseModel (rl_trace rl)) (Some u)\<rparr>"

definition forward_event ::
  "('u, 'c, 'l, 're, 'doc, 'schema) Env \<Rightarrow> Ctx \<Rightarrow> StreamEvent \<Rightarrow> Relay \<Rightarrow> Relay" where
  "forward_event env ctx evt rl =
     (case sev_Err evt of
        Some err \<Rightarrow>
          let id = streamRequestID ctx;
              rl = rl\<lparr>rl_trace := (rl_trace rl)\<lparr>tr_ErrorType := ''stream_error'', tr_ErrorMsg := Scrub err\<rparr>\<rparr>
          in if id = [] then rl\<lparr>rl_writer := write_bytes ('': stream error'' @ nl @ nl) (rl_writer rl)\<rparr>
             else rl\<lparr>rl_writer := write_bytes ('': nexus-request-id='' @ id @ nl @ nl)
                                   (write_bytes ('': stream error'' @ nl) (rl_writer rl))\<rparr>
      | None \<Rightarrow>
          if sev_Done evt then
            (if sev_Raw evt = None then rl\<lparr>rl_writer := write_bytes (''data: [DONE]'' @ nl @ nl) (rl_writer rl)\<rparr> else rl)
          else case sev_Raw evt of
            Some raw \<Rightarrow>
              let w = write_bytes raw (rl_writer rl);
                  w = (if raw \<noteq> [] \<and> \<not> suffix (nl @ nl) raw then write_bytes nl w else w);
                  rl = rl\<lparr>rl_writer := w\<rparr>
              in (case sev_Chunk evt of
                    None \<Rightarrow> rl
                  | Some ch \<Rightarrow>
                      let rl = observe_chunk env ch rl
                      in (case chunk_Usage ch of None \<Rightarrow> rl | Some u \<Rightarrow> observe_usage u rl))
          | None \<Rightarrow>
              (case sev_Chunk evt of
                 None \<Rightarrow> rl
               | Some ch \<Rightarrow>
                   let rl = observe_chunk env ch rl;
                       (rl, ch) = (case chunk_Usage ch of
                           None \<Rightarrow> (rl, ch)
                         | Some u \<Rightarrow> let rl = observe_usage u rl in (rl, ch\<lparr>chunk_Usage := Some (stamp_usage rl u)\<rparr>))
                   in rl\<lparr>rl_writer := write_bytes (nl @ nl) (write_bytes (ev_marshalChunk env ch) (write_bytes ''data: '' (rl_writer rl)))\<rparr>))"

section \<open>Closing\<close>

definition setCostTrailer ::
  "('u, 'c, 'l, 're, 'doc, 'schema) Env \<Rightarrow> float64 \<Rightarrow> gw_body Writer \<Rightarrow> gw_body Writer" where
  "setCostTrailer env costUSD w = set_header (''Trailer:'' @ costHeaderName) (ev_formatCost env costUSD) w"

text \<open>\<open>attempts[len(attempts)-1]\<close> gets the final status, latency and error.\<close>

definition refresh_last :: "Trace \<Rightarrow> ProviderAttempt list \<Rightarrow> ProviderAttempt list" where
  "refresh_last t as =
     (if as = [] then [] else
        butlast as @ [(last as)\<lparr>at_StatusCode := tr_StatusCode t, at_LatencyMs := tr_LatencyMs t,
                                at_ErrorType := tr_ErrorType t, at_ErrorMsg := tr_ErrorMsg t\<rparr>])"

definition close_stream ::
  "('u, 'c, 'l, 're, 'doc, 'schema) Env \<Rightarrow> 're Handler \<Rightarrow> Ctx \<Rightarrow> ChatCompletionRequest \<Rightarrow> Loop \<Rightarrow> Relay \<Rightarrow> ('u, 'c, 'l) GState \<Rightarrow>
     ('u, 'c, 'l) turn" where
  "close_stream env h ctx req lp rl s =
     (let t = (rl_trace rl)\<lparr>tr_LatencyMs := ev_latency env (length (lp_attempts lp)), tr_OutputMessages := rl_out rl\<rparr>;
          f = CheckJSONOutput (ev_unmarshalDoc env) (ev_compileSchema env) (ev_validate env) (h_guard h) (rl_out rl)
                (SchemaBytes (req_ResponseFormat req));
          t = (if WantsJSON (req_ResponseFormat req) \<and> fi_Blocked f
               then t\<lparr>tr_GuardrailAction := ''output_schema_violation:'' @ fi_Rule f\<rparr> else t);
          t = t\<lparr>tr_CostUSD := ResolveCostUSD (rl_upstreamCost rl) (tr_RequestModel t) (tr_ResponseModel t) (rl_lastUsage rl)\<rparr>;
          t = (if tr_StatusCode t = 0 then t\<lparr>tr_StatusCode := 200\<rparr> else t);
          reasons = lp_reasons lp @
            [if tr_GuardrailAction t \<noteq> [] \<and> sublist ''schema'' (tr_GuardrailAction t)
             then \<lparr>pr_Code = ReasonSchemaBlocked, pr_RuleID = GuardrailRuleFromAction (tr_GuardrailAction t), pr_Detail = []\<rparr>
             else reason ReasonAllowed []]
      in Answered (setCostTrailer env (tr_CostUSD t) (rl_writer rl))
           (recordSpend env ctx (tr_CostUSD t) (recordEvidence h t (refresh_last t (lp_attempts lp)) reasons s)))"

definition stream_head :: "gw_body Writer \<Rightarrow> gw_body Writer" where
  "stream_head w =
     WriteHeader 200 (set_header ''Trailer'' costHeaderName (set_header ''Connection'' ''keep-alive''
       (set_header ''Cache-Control'' ''no-cache'' (set_header ''Content-Type'' ''text/event-stream'' w))))"

definition stream_failed ::
  "('u, 'c, 'l, 're, 'doc, 'schema) Env \<Rightarrow> 're Handler \<Rightarrow> Ctx \<Rightarrow> ChatCompletionRequest \<Rightarrow> string list \<Rightarrow> Loop \<Rightarrow>
     gw_body Writer \<Rightarrow> ('u, 'c, 'l) GState \<Rightarrow> ('u, 'c, 'l) turn" where
  "stream_failed env h ctx req chain lp w s =
     (let msg = (case lp_lastErr lp of None \<Rightarrow> ''all candidate providers failed'' | Some e \<Rightarrow> e);
          t = (if tr_TraceID (lp_lastTrace lp) = []
               then (newTrace env h ctx req [] 0)\<lparr>tr_Streamed := True, tr_StatusCode := 502, tr_ErrorType := ''upstream_error'',
                       tr_ErrorMsg := msg, tr_LatencyMs := ev_latency env (length chain)\<rparr>
               else lp_lastTrace lp)
      in Answered (writeError ctx 502 ''upstream_error'' msg w) (recordEvidence h t (lp_attempts lp) (lp_reasons lp) s))"

definition start_relay :: "Trace \<Rightarrow> gw_body Writer \<Rightarrow> Relay" where
  "start_relay t w = \<lparr>rl_trace = t\<lparr>tr_Streamed := True, tr_StatusCode := 200\<rparr>, rl_out = [], rl_firstToken = True, rl_upstreamCost = 0,
     rl_lastUsage = None, rl_writer = w\<rparr>"

definition handleStream ::
  "('u, 'c, 'l, 're, 'doc, 'schema) Env \<Rightarrow> 're Handler \<Rightarrow> bool \<Rightarrow> Ctx \<Rightarrow> ChatCompletionRequest \<Rightarrow> string list \<Rightarrow>
     gw_body Writer \<Rightarrow> ('u, 'c, 'l) GState \<Rightarrow> ('u, 'c, 'l) turn" where
  "handleStream env h flusher ctx req chain w s =
     (if \<not> flusher then Answered (writeError ctx 500 ''internal_error'' ''streaming unsupported'' w) s
      else case open_stream env h ctx req chain 0 chain empty_Loop s of
        (None, lp, s) \<Rightarrow> stream_failed env h ctx req chain lp w s
      | (Some (events, t), lp, s) \<Rightarrow>
          close_stream env h ctx req lp (fold (forward_event env ctx) events (start_relay t (stream_head w))) s)"

section \<open>Evidence of a stream\<close>

lemma call_stream_sel:
  assumes "call_stream env p ctx req s = (r, s')"
  shows "g_calls s' = g_calls s @ [(p, ctx, req)]" "g_limiter s' = g_limiter s" "g_lb s' = g_lb s"
    "g_scache s' = g_scache s" "g_creds s' = g_creds s" "g_notes s' = g_notes s" "g_traces s' = g_traces s"
  using assms by (auto simp: call_stream_def split: prod.splits)

text \<open>What a state and the state after the opening loop have in common.\<close>

definition same_books :: "('u, 'c, 'l) GState \<Rightarrow> ('u, 'c, 'l) GState \<Rightarrow> bool" where
  "same_books s s' \<longleftrightarrow> g_limiter s' = g_limiter s \<and> g_traces s' = g_traces s \<and> g_notes s' = g_notes s"

lemma same_books_inject: "injectCredential env h ctx p s = (r, s') \<Longrightarrow> same_books s s'"
  by (simp add: same_books_def injectCredential_sel)

lemma same_books_call: "call_stream env p ctx req s = (r, s') \<Longrightarrow> same_books s s'"
  by (simp add: same_books_def call_stream_sel)

lemma same_books_trans [trans]: "same_books s s' \<Longrightarrow> same_books s' s'' \<Longrightarrow> same_books s s''"
  by (simp add: same_books_def)

text \<open>How the opening loop ends: nobody connected, or candidate \<open>j\<close> did after the ones before it failed.\<close>

definition opened_ok ::
  "('u, 'c, 'l, 're, 'doc, 'schema) Env \<Rightarrow> string list \<Rightarrow> (StreamEvent list \<times> Trace) option \<Rightarrow> Loop \<Rightarrow> bool" where
  "opened_ok env chain r lp \<longleftrightarrow>
     (case r of
        None \<Rightarrow> loop_ok env chain (length chain) lp
      | Some (_, t) \<Rightarrow> \<exists>j lp0. j < length chain \<and> loop_ok env chain j lp0
          \<and> lp_attempts lp = lp_attempts lp0 @ [attemptFromTrace t j (length chain)]
          \<and> tr_TraceID t = ev_uuid env 0 \<and> tr_RequestModel t = chain ! j)"

lemma loop_ok_skip: "loop_ok env chain i lp \<Longrightarrow> loop_ok env chain (i + 1) (lp\<lparr>lp_lastErr := e\<rparr>)"
  by (auto simp: loop_ok_def elim: trail_ok_mono)

lemma open_stream_ok:
  assumes "open_stream env h ctx req chain i rest lp s = (r, lp', s')" "loop_ok env chain i lp" "drop i chain = rest" "i \<le> length chain"
  shows "same_books s s' \<and> opened_ok env chain r lp'"
  using assms
proof (induction rest arbitrary: i lp s)
  case Nil
  then show ?case by (auto simp: same_books_def opened_ok_def)
next
  case (Cons m rest)
  have i: "i < length chain" "m = chain ! i" "drop (i + 1) chain = rest"
    using Cons.prems(3) by (metis drop_all list.distinct(1) not_le) (use Cons.prems(3) in \<open>metis nth_via_drop\<close>, use Cons.prems(3) in \<open>metis Suc_eq_plus1 drop_Suc tl_drop list.sel(3)\<close>)
  have step: "same_books s s'' \<Longrightarrow> open_stream env h ctx req chain (i + 1) rest lp1 s'' = (r, lp', s') \<Longrightarrow> loop_ok env chain (i + 1) lp1
      \<Longrightarrow> same_books s s' \<and> opened_ok env chain r lp'" for s'' lp1
    using Cons.IH [of "i + 1" lp1 s''] i same_books_trans [of s s'' s'] by simp
  show ?case
  proof (cases "Resolve (h_registry h) m")
    case (Inl e)
    show ?thesis
      by (rule step [of s, OF _ _ loop_ok_skip [OF Cons.prems(2)]]) (use Inl Cons.prems(1) in \<open>simp_all add: same_books_def\<close>)
  next
    case (Inr pf)
    obtain p fwd where pf: "pf = (p, fwd)" by fastforce
    define t where "t = (attempt_trace env h ctx req p i m)\<lparr>tr_Streamed := True\<rparr>"
    have t: "trace_core t = (ev_uuid env 0, 0, chain ! i, tr_StatusCode t, False)" by (simp add: t_def trace_core_def i)
    obtain q s1 where q: "injectCredential env h ctx (pv_Name p) s = (q, s1)" by fastforce
    note opened = Cons.prems(1) [unfolded open_stream.simps Inr pf sum.case prod.case Let_def q, folded attempt_trace_def]
    show ?thesis
    proof (cases q)
      case (Inl err)
      show ?thesis
      proof (rule step [OF same_books_inject [OF q]])
        show "open_stream env h ctx req chain (i + 1) rest (missing_key env i (length chain) err t lp) s1 = (r, lp', s')"
          using opened Inl by (simp add: t_def attempt_trace_def)
        show "loop_ok env chain (i + 1) (missing_key env i (length chain) err t lp)"
          by (rule loop_ok_snoc [OF Cons.prems(2), where t = "lp_lastTrace (missing_key env i (length chain) err t lp)" and st = 403 and ch = False])
            (use t in \<open>simp_all add: missing_key_def Let_def trace_core_def\<close>)
      qed
    next
      case qr: (Inr x)
      obtain cx tag where x: "x = (cx, tag)" by fastforce
      obtain a s2 where a: "call_stream env p cx (req\<lparr>req_Model := fwd\<rparr>) s1 = (a, s2)" by fastforce
      have books: "same_books s s2" using same_books_inject [OF q] same_books_call [OF a] by (rule same_books_trans)
      show ?thesis
      proof (cases a)
        case (Inl err)
        let ?lp = "\<lambda>t2 rs. lp\<lparr>lp_attempts := lp_attempts lp @ [attemptFromTrace t2 i (length chain)], lp_lastTrace := t2,
          lp_lastErr := Some err, lp_reasons := rs\<rparr>"
        obtain t2 rs where run: "open_stream env h ctx req chain (i + 1) rest (?lp t2 rs) s2 = (r, lp', s')"
            and t2: "trace_core t2 = (ev_uuid env 0, 0, chain ! i, 502, False)"
          by (rule that [OF opened [unfolded qr x a Inl sum.case prod.case]]) (simp add: trace_core_def i)
        show ?thesis by (rule step [OF books run loop_ok_snoc [OF Cons.prems(2) t2]]) simp_all
      next
        case (Inr evs)
        have "opened_ok env chain r lp' \<and> s' = s2"
          using opened Cons.prems(2) i unfolding qr x a Inr sum.case prod.case
          by (auto simp: opened_ok_def attempt_trace_def [symmetric] stampSharedTraceID_def intro!: exI [of _ i] exI [of _ lp])
        then show ?thesis using books by simp
      qed
    qed
  qed
qed
text \<open>An event touches neither the identity nor the status of the trace, nor the head of the response.\<close>

definition relay_core :: "Relay \<Rightarrow> string \<times> string \<times> int \<times> int option" where
  "relay_core rl = (tr_TraceID (rl_trace rl), tr_RequestModel (rl_trace rl), tr_StatusCode (rl_trace rl), wr_Status (rl_writer rl))"

lemma write_bytes_sel [simp]: "wr_Status (write_bytes b w) = wr_Status w" "wr_Body (write_bytes b w) = wr_Body w @ [Payload (Bytes b)]"
  by (simp_all add: write_bytes_def)

lemma observe_core [simp]: "relay_core (observe_chunk env ch rl) = relay_core rl" "relay_core (observe_usage u rl) = relay_core rl"
  "rl_writer (observe_chunk env ch rl) = rl_writer rl" "rl_writer (observe_usage u rl) = rl_writer rl"
  by (simp_all add: observe_chunk_def observe_usage_def relay_core_def Let_def split: list.split)

lemma relay_core_writer: "wr_Status w = wr_Status (rl_writer rl) \<Longrightarrow> relay_core (rl\<lparr>rl_writer := w\<rparr>) = relay_core rl"
  by (simp add: relay_core_def)

lemma forward_event_core: "relay_core (forward_event env ctx evt rl) = relay_core rl"
  unfolding forward_event_def
  by (simp add: Let_def relay_core_writer split: option.split prod.split) (simp add: relay_core_def)

lemma forward_events_core: "relay_core (fold (forward_event env ctx) evs rl) = relay_core rl"
  by (induction evs arbitrary: rl) (simp_all add: forward_event_core)

lemma refresh_last_trail:
  assumes "loop_ok env chain j lp" "j < length chain" "tr_RequestModel t0 = chain ! j"
  shows "\<exists>a. refresh_last t (lp_attempts lp @ [attemptFromTrace t0 j n]) = lp_attempts lp @ [a] \<and> at_StatusCode a = tr_StatusCode t
    \<and> trail_ok chain (length chain) (lp_attempts lp @ [a])"
  using assms by (auto simp: refresh_last_def loop_ok_def trail_ok_def attemptFromTrace_def sorted_wrt_append)

lemma close_stream_ok:
  assumes "relay_core rl = (ev_uuid env 0, chain ! j, 200, Some st)" "h_recorder h" "j < length chain" "loop_ok env chain j lp0"
    and "lp_attempts lp = lp_attempts lp0 @ [attemptFromTrace t0 j (length chain)]" "tr_RequestModel t0 = chain ! j"
  shows "\<exists>w' s' t. close_stream env h ctx req lp rl s = Answered w' s' \<and> wr_Status w' = Some st \<and> wr_Body w' = wr_Body (rl_writer rl)
    \<and> evidence_ok env ctx chain s s' 200 t \<and> g_notes s' = g_notes s
    \<and> tr_CostUSD t = ResolveCostUSD (rl_upstreamCost rl) (chain ! j) (tr_ResponseModel (rl_trace rl)) (rl_lastUsage rl)
    \<and> wr_Header w' = wr_Header (setCostTrailer env (tr_CostUSD t) (rl_writer rl))"
proof -
  obtain t rs where run: "close_stream env h ctx req lp rl s = Answered (setCostTrailer env (tr_CostUSD t) (rl_writer rl))
      (recordSpend env ctx (tr_CostUSD t) (recordEvidence h t (refresh_last t (lp_attempts lp)) rs s))"
    and t: "tr_TraceID t = ev_uuid env 0" "tr_StatusCode t = 200"
      "tr_CostUSD t = ResolveCostUSD (rl_upstreamCost rl) (chain ! j) (tr_ResponseModel (rl_trace rl)) (rl_lastUsage rl)"
    by (rule that [OF close_stream_def [unfolded Let_def]]) (use assms(1) in \<open>simp_all add: relay_core_def\<close>)
  obtain a where a: "refresh_last t (lp_attempts lp) = lp_attempts lp0 @ [a]" "at_StatusCode a = 200" "trail_ok chain (length chain) (lp_attempts lp0 @ [a])"
    using refresh_last_trail [OF assms(4,3,6), of t "length chain"] assms(5) t(2) by auto
  obtain t' where t': "g_traces (recordEvidence h t (lp_attempts lp0 @ [a]) rs s) = g_traces s @ [t']" "tr_TraceID t' = tr_TraceID t"
      "tr_CostUSD t' = tr_CostUSD t" "tr_StatusCode t' = tr_StatusCode t" "tr_Attempts t' = lp_attempts lp0 @ [a]"
    using recordEvidence_traces [OF assms(2)] by blast
  have "evidence_ok env ctx chain s (recordSpend env ctx (tr_CostUSD t) (recordEvidence h t (lp_attempts lp0 @ [a]) rs s)) 200 t'"
    using t t' a assms(4) by (simp add: evidence_ok_def loop_ok_def)
  then show ?thesis
    by (intro exI [of _ "setCostTrailer env (tr_CostUSD t) (rl_writer rl)"] exI [of _ t']
        exI [of _ "recordSpend env ctx (tr_CostUSD t) (recordEvidence h t (lp_attempts lp0 @ [a]) rs s)"])
      (use assms(1) run a t t' in \<open>simp add: relay_core_def setCostTrailer_def set_header_def\<close>)
qed
lemma stream_failed_ok:
  assumes "loop_ok env chain (length chain) lp" "h_recorder h" "wr_Status w = None"
  shows "\<exists>w' s' t. stream_failed env h ctx req chain lp w s = Answered w' s' \<and> wr_Status w' = Some 502
    \<and> evidence_ok env ctx chain s s' 502 t \<and> g_notes s' = g_notes s"
proof -
  obtain t msg where run: "stream_failed env h ctx req chain lp w s
      = Answered (writeError ctx 502 ''upstream_error'' msg w) (recordEvidence h t (lp_attempts lp) (lp_reasons lp) s)"
    and t: "tr_TraceID t = ev_uuid env 0" "tr_StatusCode t \<in> {403, 502}" "tr_CostUSD t = 0"
    by (rule that [OF stream_failed_def [unfolded Let_def]]) (use assms(1) in \<open>auto simp: loop_ok_def zero_Trace_def\<close>)
  obtain t' where "g_traces (recordEvidence h t (lp_attempts lp) (lp_reasons lp) s) = g_traces s @ [t']" "tr_TraceID t' = tr_TraceID t"
      "tr_CostUSD t' = tr_CostUSD t" "tr_StatusCode t' = tr_StatusCode t" "tr_Attempts t' = lp_attempts lp"
    using recordEvidence_traces [OF assms(2)] by blast
  then have "evidence_ok env ctx chain s (recordEvidence h t (lp_attempts lp) (lp_reasons lp) s) 502 t'"
    using t assms by (simp add: evidence_ok_def loop_ok_def option.map_ident)
  with run show ?thesis using assms(3) answered_once_writeError [of w ctx 502 "''upstream_error''" msg]
    by (auto simp: answered_once_def)
qed

lemma evidence_ok_books: "same_books s s1 \<Longrightarrow> evidence_ok env ctx chain s1 s' st t = evidence_ok env ctx chain s s' st t"
  by (simp add: evidence_ok_def same_books_def)

text \<open>
  C3. A stream leaves the same evidence as a plain request. \<open>handleStream\<close> always returns; the client
  gets one status, 200 as soon as one candidate connected and 502 when none did, and the recorder
  gets one trace under the request's own trace id. The attempts are in the order of the chain, all
  but a successful last one failed, the charge to the key is the cost in the trace, and nothing is
  charged when nobody connected. No failover alert is sent, unlike on the other path.
\<close>

theorem stream_evidence:
  assumes "h_recorder h" "wr_Status w = None"
  shows "\<exists>w' s' st t. handleStream env h True ctx req chain w s = Answered w' s' \<and> wr_Status w' = Some st
    \<and> (st = 200 \<or> st = 502) \<and> evidence_ok env ctx chain s s' st t \<and> g_notes s' = g_notes s"
proof -
  obtain r lp s1 where opened: "open_stream env h ctx req chain 0 chain empty_Loop s = (r, lp, s1)" by (metis prod_cases3)
  have ok: "same_books s s1" "opened_ok env chain r lp" using open_stream_ok [OF opened loop_ok_empty] by simp_all
  show ?thesis
  proof (cases r)
    case None
    then have "loop_ok env chain (length chain) lp" using ok(2) by (simp add: opened_ok_def)
    from stream_failed_ok [OF this assms, of ctx req s1] show ?thesis
      using ok(1) by (auto simp: handleStream_def opened None evidence_ok_books [OF ok(1)] same_books_def)
  next
    case (Some et)
    obtain evs t where et: "et = (evs, t)" by fastforce
    define rl where "rl = fold (forward_event env ctx) evs (start_relay t (stream_head w))"
    obtain j lp0 where j: "j < length chain" "loop_ok env chain j lp0" "lp_attempts lp = lp_attempts lp0 @ [attemptFromTrace t j (length chain)]"
        "tr_TraceID t = ev_uuid env 0" "tr_RequestModel t = chain ! j"
      using ok(2) unfolding Some et by (auto simp: opened_ok_def)
    have "relay_core rl = (ev_uuid env 0, chain ! j, 200, Some 200)"
      using j assms(2) by (simp add: rl_def forward_events_core) (simp add: relay_core_def start_relay_def stream_head_def WriteHeader_def)
    from close_stream_ok [OF this assms(1) j(1,2,3,5), of ctx req s1] show ?thesis
      using ok(1) by (auto simp: handleStream_def opened Some et rl_def evidence_ok_books [OF ok(1)] same_books_def)
  qed
qed
section \<open>One cost\<close>

text \<open>Everything the price depends on survives the copy of the usage.\<close>

lemma clone_same_cost: "ResolveCostUSD x m r (cloneUsageForCost (Some u)) = ResolveCostUSD x m r (Some u)"
proof -
  obtain v where v: "cloneUsageForCost (Some u) = Some v" "us_PromptTokens v = us_PromptTokens u" "us_CompletionTokens v = us_CompletionTokens u"
      "us_PromptTokenDetails v = us_PromptTokenDetails u" "us_CompletionTokenDetails v = us_CompletionTokenDetails u"
    by (simp add: cloneUsageForCost_def)
  then have "cachedIn (Some v) = cachedIn (Some u)" "reasoningOut (Some v) = reasoningOut (Some u)"
    by (simp_all add: fun_eq_iff cachedIn_def reasoningOut_def)
  then have "applyDetailed dp i n (Some v) = applyDetailed dp i n (Some u)" for dp i n by (simp only: applyDetailed_def)
  then have "costForModel m r i n b (Some v) = costForModel m r i n b (Some u)" for i n b by (simp only: costForModel_def)
  with v show ?thesis by (simp add: ResolveCostUSD_def usage_has_detail_def)
qed

text \<open>What the cost at the end is computed from.\<close>

definition cost_inputs :: "Relay \<Rightarrow> float64 \<times> string \<times> string \<times> Usage option" where
  "cost_inputs rl = (rl_upstreamCost rl, tr_RequestModel (rl_trace rl), tr_ResponseModel (rl_trace rl), rl_lastUsage rl)"

text \<open>An event that brings no usage and no other model name than \<open>m\<close>.\<close>

definition settled :: "string \<Rightarrow> StreamEvent \<Rightarrow> bool" where
  "settled m e = (case sev_Chunk e of None \<Rightarrow> True | Some ch \<Rightarrow> chunk_Usage ch = None \<and> (chunk_Model ch = [] \<or> chunk_Model ch = m))"

lemma observe_settled:
  assumes "chunk_Model ch = [] \<or> chunk_Model ch = m" "m \<noteq> [] \<longrightarrow> tr_ResponseModel (rl_trace rl) = m"
  shows "cost_inputs (observe_chunk env ch rl) = cost_inputs rl"
  using assms by (auto simp: observe_chunk_def cost_inputs_def Let_def split: list.split)

lemma cost_inputs_writer [simp]: "cost_inputs (rl\<lparr>rl_writer := w\<rparr>) = cost_inputs rl"
  by (simp add: cost_inputs_def)

lemma forward_settled:
  assumes "settled m e" "m \<noteq> [] \<longrightarrow> tr_ResponseModel (rl_trace rl) = m"
  shows "cost_inputs (forward_event env ctx e rl) = cost_inputs rl"
  using assms observe_settled [of _ m "rl\<lparr>rl_writer := _\<rparr>" env] observe_settled [of _ m rl env]
  by (auto simp: forward_event_def settled_def Let_def split: option.splits) (simp_all add: cost_inputs_def)

lemma forward_all_settled:
  assumes "\<forall>e \<in> set evs. settled m e" "m \<noteq> [] \<longrightarrow> tr_ResponseModel (rl_trace rl) = m"
  shows "cost_inputs (fold (forward_event env ctx) evs rl) = cost_inputs rl"
  using assms
proof (induction evs arbitrary: rl)
  case (Cons e evs)
  have "cost_inputs (forward_event env ctx e rl) = cost_inputs rl" using Cons.prems by (intro forward_settled) simp_all
  then show ?case using Cons.IH [of "forward_event env ctx e rl"] Cons.prems by (simp add: cost_inputs_def)
qed simp

text \<open>What was sent stays sent.\<close>

lemma forward_event_sent: "set (wr_Body (rl_writer rl)) \<subseteq> set (wr_Body (rl_writer (forward_event env ctx e rl)))"
  by (auto simp: forward_event_def Let_def split: option.split)

lemma forward_events_sent: "set (wr_Body (rl_writer rl)) \<subseteq> set (wr_Body (rl_writer (fold (forward_event env ctx) evs rl)))"
  by (induction evs arbitrary: rl) (use forward_event_sent in \<open>fastforce+\<close>)

lemma forward_usage:
  assumes "sev_Err e = None" "\<not> sev_Done e" "sev_Raw e = None" "sev_Chunk e = Some ch" "chunk_Usage ch = Some u"
  shows "\<exists>x r. let rl' = forward_event env ctx e rl; m = tr_RequestModel (rl_trace rl) in
    cost_inputs rl' = (x, m, r, cloneUsageForCost (Some u)) \<and> (chunk_Model ch \<noteq> [] \<longrightarrow> r = chunk_Model ch)
    \<and> Payload (Bytes (ev_marshalChunk env (ch\<lparr>chunk_Usage := Some (u\<lparr>us_CostUSD := ResolveCostUSD x m r (Some u)\<rparr>)\<rparr>))) \<in> set (wr_Body (rl_writer rl'))"
  using assms
  by (auto simp: forward_event_def Let_def stamp_usage_def cost_inputs_def observe_usage_def observe_chunk_def split: list.split)
text \<open>
  C7. The three figures of a streamed response agree. When the provider's events carry a usage chunk (and
  are not relayed as raw bytes), and what comes after it brings neither another usage nor another
  model name, then the cost stamped onto that chunk, the cost in the trailer, the cost in the trace and
  the amount charged to the key are one number.
\<close>

theorem stream_cost_agrees:
  assumes "open_stream env h ctx req chain 0 chain empty_Loop s = (Some (pre @ e # post, t0), lp, s1)" "h_recorder h" "wr_Status w = None"
    and "sev_Err e = None" "\<not> sev_Done e" "sev_Raw e = None" "sev_Chunk e = Some ch" "chunk_Usage ch = Some u"
    and "\<forall>e' \<in> set post. settled (chunk_Model ch) e'"
  shows "\<exists>w' s' cost. handleStream env h True ctx req chain w s = Answered w' s'
    \<and> Payload (Bytes (ev_marshalChunk env (ch\<lparr>chunk_Usage := Some (u\<lparr>us_CostUSD := cost\<rparr>)\<rparr>))) \<in> set (wr_Body w')
    \<and> gomap_get (wr_Header w') (''Trailer:'' @ costHeaderName) = Some (ev_formatCost env cost)
    \<and> tr_CostUSD (last (g_traces s')) = cost
    \<and> g_limiter s' = map_option (record_spend (ev_addSpend env) (nat (Unix (ev_now env))) ctx cost) (g_limiter s)"
proof -
  have ok: "same_books s s1" "opened_ok env chain (Some (pre @ e # post, t0)) lp" using open_stream_ok [OF assms(1) loop_ok_empty] by simp_all
  then obtain j lp0 where j: "j < length chain" "loop_ok env chain j lp0" "lp_attempts lp = lp_attempts lp0 @ [attemptFromTrace t0 j (length chain)]"
      "tr_TraceID t0 = ev_uuid env 0" "tr_RequestModel t0 = chain ! j"
    by (auto simp: opened_ok_def)
  define rl0 where "rl0 = fold (forward_event env ctx) pre (start_relay t0 (stream_head w))"
  define rl1 where "rl1 = forward_event env ctx e rl0"
  define rl2 where "rl2 = fold (forward_event env ctx) post rl1"
  have core: "relay_core rl0 = (ev_uuid env 0, chain ! j, 200, Some 200)"
    using j assms(3) by (simp add: rl0_def forward_events_core) (simp add: relay_core_def start_relay_def stream_head_def WriteHeader_def)
  then have core2: "relay_core rl2 = (ev_uuid env 0, chain ! j, 200, Some 200)"
    by (simp add: rl2_def rl1_def forward_events_core forward_event_core)
  obtain x r where sent: "cost_inputs rl1 = (x, chain ! j, r, cloneUsageForCost (Some u))" "chunk_Model ch \<noteq> [] \<longrightarrow> r = chunk_Model ch"
      "Payload (Bytes (ev_marshalChunk env (ch\<lparr>chunk_Usage := Some (u\<lparr>us_CostUSD := ResolveCostUSD x (chain ! j) r (Some u)\<rparr>)\<rparr>))) \<in> set (wr_Body (rl_writer rl1))"
    using forward_usage [OF assms(4-8), of env ctx rl0] core unfolding rl1_def by (auto simp: Let_def relay_core_def)
  have same: "cost_inputs rl2 = cost_inputs rl1"
    unfolding rl2_def by (rule forward_all_settled [OF assms(9)]) (use sent in \<open>simp add: cost_inputs_def\<close>)
  obtain w' s' t where fin: "close_stream env h ctx req lp rl2 s1 = Answered w' s'" "wr_Body w' = wr_Body (rl_writer rl2)"
      "evidence_ok env ctx chain s1 s' 200 t"
      "tr_CostUSD t = ResolveCostUSD (rl_upstreamCost rl2) (chain ! j) (tr_ResponseModel (rl_trace rl2)) (rl_lastUsage rl2)"
      "wr_Header w' = wr_Header (setCostTrailer env (tr_CostUSD t) (rl_writer rl2))"
    using close_stream_ok [OF core2 assms(2) j(1,2,3,5), of ctx req s1] by blast
  have cost: "tr_CostUSD t = ResolveCostUSD x (chain ! j) r (Some u)"
    using fin(4) same sent(1) by (simp add: cost_inputs_def clone_same_cost)
  have "handleStream env h True ctx req chain w s = Answered w' s'"
    using fin(1) by (simp add: handleStream_def assms(1) rl0_def rl1_def rl2_def)
  moreover have "set (wr_Body (rl_writer rl1)) \<subseteq> set (wr_Body w')" unfolding fin(2) rl2_def by (rule forward_events_sent)
  moreover have "gomap_get (wr_Header w') (''Trailer:'' @ costHeaderName) = Some (ev_formatCost env (tr_CostUSD t))"
    by (simp add: fin(5) setCostTrailer_def gomap)
  moreover have "g_traces s' = g_traces s @ [t] \<and> g_limiter s' = map_option (record_spend (ev_addSpend env) (nat (Unix (ev_now env))) ctx (tr_CostUSD t)) (g_limiter s)"
    using fin(3) ok(1) by (simp add: evidence_ok_def same_books_def)
  ultimately show ?thesis using sent(3) unfolding cost by (intro exI [of _ w'] exI [of _ s'] exI [of _ "ResolveCostUSD x (chain ! j) r (Some u)"]) (auto simp: cost)
qed
section \<open>The properties on the small gateway\<close>

text \<open>A provider that streams one usage chunk and closes.\<close>

definition demo_usage :: Usage where
  "demo_usage = zero_Usage\<lparr>us_PromptTokens := 7, us_EstimatedCost := 2\<rparr>"

definition demo_chunk :: ChatCompletionChunk where
  "demo_chunk = \<lparr>chunk_ID = [], chunk_Object = [], chunk_Created = 0, chunk_Model = ''n'', chunk_Choices = [], chunk_Usage = Some demo_usage\<rparr>"

definition demo_event :: StreamEvent where
  "demo_event = \<lparr>sev_Chunk = Some demo_chunk, sev_Raw = None, sev_Err = None, sev_Done = False\<rparr>"

definition demo_done :: StreamEvent where
  "demo_done = \<lparr>sev_Chunk = None, sev_Raw = None, sev_Err = None, sev_Done = True\<rparr>"

definition demo_stream_env :: "(unit, semcache_Memory, Memory, unit, unit, unit) Env" where
  "demo_stream_env = (demo_env demo_answer)\<lparr>ev_stream := \<lambda>u p ctx req. (Inr [demo_event, demo_done], u)\<rparr>"

theorem stream_evidence_witness:
  "\<exists>w' s' st t. handleStream demo_stream_env (demo_handler None) True emptyCtx demo_request [''n''] new_writer (demo_state None) = Answered w' s'
    \<and> wr_Status w' = Some st \<and> (st = 200 \<or> st = 502) \<and> evidence_ok demo_stream_env emptyCtx [''n''] (demo_state None) s' st t
    \<and> g_notes s' = g_notes (demo_state None)"
  by (rule stream_evidence) (simp_all add: demo_handler_def new_writer_def)

theorem stream_cost_agrees_witness:
  "\<exists>w' s' cost. handleStream demo_stream_env (demo_handler None) True emptyCtx demo_request [''n''] new_writer (demo_state None) = Answered w' s'
    \<and> Payload (Bytes (ev_marshalChunk demo_stream_env (demo_chunk\<lparr>chunk_Usage := Some (demo_usage\<lparr>us_CostUSD := cost\<rparr>)\<rparr>))) \<in> set (wr_Body w')
    \<and> gomap_get (wr_Header w') (''Trailer:'' @ costHeaderName) = Some (ev_formatCost demo_stream_env cost)
    \<and> tr_CostUSD (last (g_traces s')) = cost
    \<and> g_limiter s' = map_option (record_spend (ev_addSpend demo_stream_env) (nat (Unix (ev_now demo_stream_env))) emptyCtx cost) (g_limiter (demo_state None))"
proof -
  obtain t lp s1 where "open_stream demo_stream_env (demo_handler None) emptyCtx demo_request [''n''] 0 [''n''] empty_Loop (demo_state None)
      = (Some ([] @ demo_event # [demo_done], t), lp, s1)"
    by (simp add: demo_served demo_resolve Let_def injectCredential_def call_stream_def demo_stream_env_def)
  then show ?thesis
    by (rule stream_cost_agrees)
      (simp_all add: demo_handler_def new_writer_def demo_event_def demo_done_def demo_chunk_def settled_def)
qed

end
