(* ===== verification/Chat.thy ===== *)
theory Chat
  imports Streaming
begin

text \<open>
  The endpoints of \<open>internal/gateway\<close>: \<open>ChatCompletions\<close> of \<open>handler.go\<close>, which decodes, checks the
  prompt, resolves the chain and hands over to the unary or the streaming path, and the three
  endpoints \<open>Embeddings\<close>, \<open>Moderations\<close> and \<open>Images\<close>, which have no chain. The theorems say which
  upstream calls a request can cause, and with which credential.
\<close>

section \<open>Chat completions\<close>

text \<open>Whether a body is a Cursor hybrid payload (\<open>cursor_compat.go\<close>) is decided on its text.\<close>

definition quoted :: "string \<Rightarrow> string" where
  "quoted x = [CHR 0x22] @ x @ [CHR 0x22]"

definition IsCursorHybridRequest :: "string \<Rightarrow> bool" where
  "IsCursorHybridRequest body =
     (let trimmed = strings_TrimSpace body in
      if trimmed = [] \<or> hd trimmed \<noteq> CHR ''{'' then False
      else if sublist (quoted ''input'') trimmed then True
      else sublist (quoted ''type'' @ '':'' @ quoted ''custom'') trimmed \<or> sublist (quoted ''type'' @ '': '' @ quoted ''custom'') trimmed)"

text \<open>The JSON decoders: the translation of a hybrid payload, the plain decoder, and the probe for the
  session marker.\<close>

record Decoders =
  dc_TransformCursorHybrid :: "string \<Rightarrow> string + ChatCompletionRequest"
  dc_Unmarshal :: "string \<Rightarrow> string + ChatCompletionRequest"
  dc_probe :: "string \<Rightarrow> ((string, string) gomap option \<times> string) option"

definition decode_chat :: "Decoders \<Rightarrow> string + string \<Rightarrow> string + string \<times> ChatCompletionRequest" where
  "decode_chat dc body =
     (case body of
        Inl err \<Rightarrow> Inl (''cannot read body: '' @ err)
      | Inr body \<Rightarrow>
          if IsCursorHybridRequest body
          then (case dc_TransformCursorHybrid dc body of Inl err \<Rightarrow> Inl (''hybrid decode: '' @ err) | Inr req \<Rightarrow> Inr (body, req))
          else (case dc_Unmarshal dc body of Inl err \<Rightarrow> Inl (''invalid JSON body: '' @ err) | Inr req \<Rightarrow> Inr (body, req)))"

text \<open>\<open>body\<close> is what reading the request body gives, \<open>Inl\<close> a read error; \<open>flusher\<close> says whether the
  response writer can flush. The result is never \<open>Continue\<close>.\<close>

definition ChatCompletions ::
  "('u, 'c, 'l, 're, 'doc, 'schema) Env \<Rightarrow> 're Handler \<Rightarrow> Decoders \<Rightarrow> bool \<Rightarrow> Ctx \<Rightarrow> string + string \<Rightarrow>
     gw_body Writer \<Rightarrow> ('u, 'c, 'l) GState \<Rightarrow> ('u, 'c, 'l) turn" where
  "ChatCompletions env h dc flusher ctx body w s =
     (case decode_chat dc body of
        Inl msg \<Rightarrow> Answered (writeError ctx 400 ''invalid_request_error'' msg w) s
      | Inr (body, req) \<Rightarrow>
          if req_Model req = [] \<or> length (req_Messages req) = 0
          then Answered (writeError ctx 400 ''invalid_request_error'' ''model and messages are required'' w) s
          else
            let sessionID = extractSessionID (dc_probe dc) body;
                ctx = (if sessionID \<noteq> [] then ctx\<lparr>cx_SessionID := Some sessionID\<rparr> else ctx);
                f = CheckInput (ev_matchRe env) (h_guard h) (promptText (req_Messages req)) in
            if fi_Blocked f
            then Answered (writeError ctx 403 ''guardrail_blocked'' (fi_Reason f) w) (recordGuardrailBlock env h ctx req f s)
            else (case resolveChain env h ctx req w s of
                    (Refused w, s) \<Rightarrow> Answered w s
                  | (ChainPanic, s) \<Rightarrow> Panicked s
                  | (Chain chain, s) \<Rightarrow>
                      if req_Stream req then handleStream env h flusher ctx req chain w s
                      else handleUnary env h ctx req chain w s))"

section \<open>Embeddings, moderations, images\<close>

text \<open>The credential block that the three handlers share. An error and a missing key are both
  ignored.\<close>

definition endpoint_credential ::
  "('u, 'c, 'l, 're, 'doc, 'schema) Env \<Rightarrow> 're Handler \<Rightarrow> Ctx \<Rightarrow> string \<Rightarrow> ('u, 'c, 'l) GState \<Rightarrow> Ctx \<times> ('u, 'c, 'l) GState" where
  "endpoint_credential env h ctx providerName s =
     (if g_creds s \<noteq> None \<and> h_keyMode h \<noteq> KeyModeShared then
        (case Resolve_credential (ev_credSource env) (g_creds s) (ev_now env) (ev_now env)
                (OrgIDFrom ctx) (UserIDFrom ctx) providerName of
           (Some (cred, True), cr) \<Rightarrow>
             (ctx\<lparr>cx_Credential := Some (caller_credential cred)\<rparr>, s\<lparr>g_creds := cr\<rparr>)
         | (_, cr) \<Rightarrow> (ctx, s\<lparr>g_creds := cr\<rparr>))
      else (ctx, s))"

text \<open>The upstream operation of an endpoint: provider, context, model and the rest of the request to a
  body or an error. Its calls are returned beside the response.\<close>

type_synonym endpoint_call = "Provider \<times> Ctx \<times> string \<times> string"
type_synonym upstream_op = "Provider \<Rightarrow> Ctx \<Rightarrow> string \<Rightarrow> string \<Rightarrow> string + string"

definition call_endpoint ::
  "('u, 'c, 'l, 're, 'doc, 'schema) Env \<Rightarrow> 're Handler \<Rightarrow> upstream_op \<Rightarrow> string \<Rightarrow> Ctx \<Rightarrow> Provider \<Rightarrow> string \<Rightarrow> string \<Rightarrow>
     gw_body Writer \<Rightarrow> ('u, 'c, 'l) GState \<Rightarrow> gw_body Writer \<times> ('u, 'c, 'l) GState \<times> endpoint_call list" where
  "call_endpoint env h op what ctx p model payload w s =
     (case endpoint_credential env h ctx (pv_Name p) s of
        (cx, s) \<Rightarrow>
          ((case op p cx model payload of
              Inl err \<Rightarrow> writeError ctx 502 ''upstream_error'' (what @ '' upstream error: '' @ err) w
            | Inr resp \<Rightarrow> writeJSON 200 (Payload (JSONBody resp)) w), s, [(p, cx, model, payload)]))"

text \<open>The fields of the request structs that the handlers look at; the rest of the request is the raw
  input, which is passed on.\<close>

record EmbeddingRequest =
  er_Model :: string
  er_Input :: string
  er_EncodingFormat :: string

definition no_input :: "string \<Rightarrow> bool" where
  "no_input input \<longleftrightarrow> length input = 0 \<or> strings_TrimSpace input = ''null''"

definition Embeddings ::
  "('u, 'c, 'l, 're, 'doc, 'schema) Env \<Rightarrow> 're Handler \<Rightarrow> upstream_op \<Rightarrow> Ctx \<Rightarrow> string + EmbeddingRequest \<Rightarrow>
     gw_body Writer \<Rightarrow> ('u, 'c, 'l) GState \<Rightarrow> gw_body Writer \<times> ('u, 'c, 'l) GState \<times> endpoint_call list" where
  "Embeddings env h embed_op ctx body w s =
     (case body of
        Inl err \<Rightarrow> (writeError ctx 400 ''invalid_request_error'' (''invalid JSON body: '' @ err) w, s, [])
      | Inr req \<Rightarrow>
          if er_Model req = [] then (writeError ctx 400 ''invalid_request_error'' ''model is required'' w, s, [])
          else if no_input (er_Input req) then (writeError ctx 400 ''invalid_request_error'' ''input is required'' w, s, [])
          else case ResolveEmbedding (h_registry h) (er_Model req) of
            None \<Rightarrow> (writeError ctx 404 ''model_not_found'' (''no embeddings provider registered for model '' @ er_Model req) w, s, [])
          | Some ep \<Rightarrow>
              if er_EncodingFormat req \<noteq> [] \<and> er_EncodingFormat req \<noteq> ''float'' \<and> er_EncodingFormat req \<noteq> ''base64''
              then (writeError ctx 400 ''invalid_request_error''
                     (''encoding_format must be '' @ [CHR 0x22] @ ''float'' @ [CHR 0x22] @ '' or '' @ [CHR 0x22] @ ''base64'' @ [CHR 0x22]) w, s, [])
              else call_endpoint env h embed_op ''embeddings'' ctx ep (er_Model req) (er_Input req) w s)"

record ModerationRequest =
  mr_Model :: string
  mr_Input :: string

definition Moderations ::
  "('u, 'c, 'l, 're, 'doc, 'schema) Env \<Rightarrow> 're Handler \<Rightarrow> upstream_op \<Rightarrow> Ctx \<Rightarrow> string + ModerationRequest \<Rightarrow>
     gw_body Writer \<Rightarrow> ('u, 'c, 'l) GState \<Rightarrow> gw_body Writer \<times> ('u, 'c, 'l) GState \<times> endpoint_call list" where
  "Moderations env h moderate ctx body w s =
     (case body of
        Inl err \<Rightarrow> (writeError ctx 400 ''invalid_request_error'' (''invalid JSON body: '' @ err) w, s, [])
      | Inr req \<Rightarrow>
          if no_input (mr_Input req) then (writeError ctx 400 ''invalid_request_error'' ''input is required'' w, s, [])
          else case ResolveModeration (h_registry h) (mr_Model req) of
            None \<Rightarrow> (writeError ctx 404 ''model_not_found'' (''no moderation provider registered for model '' @ mr_Model req) w, s, [])
          | Some (mp, resolvedModel) \<Rightarrow>
              call_endpoint env h moderate ''moderation'' ctx mp
                (if mr_Model req = [] then resolvedModel else mr_Model req) (mr_Input req) w s)"

record ImageGenerationRequest =
  ir_Model :: string
  ir_Prompt :: string

definition Images ::
  "('u, 'c, 'l, 're, 'doc, 'schema) Env \<Rightarrow> 're Handler \<Rightarrow> upstream_op \<Rightarrow> Ctx \<Rightarrow> string + ImageGenerationRequest \<Rightarrow>
     gw_body Writer \<Rightarrow> ('u, 'c, 'l) GState \<Rightarrow> gw_body Writer \<times> ('u, 'c, 'l) GState \<times> endpoint_call list" where
  "Images env h generateImages ctx body w s =
     (case body of
        Inl err \<Rightarrow> (writeError ctx 400 ''invalid_request_error'' (''invalid JSON body: '' @ err) w, s, [])
      | Inr req \<Rightarrow>
          if strings_TrimSpace (ir_Prompt req) = [] then (writeError ctx 400 ''invalid_request_error'' ''prompt is required'' w, s, [])
          else case ResolveImage (h_registry h) (ir_Model req) of
            None \<Rightarrow> (writeError ctx 404 ''model_not_found'' (''no image provider registered for model '' @ ir_Model req) w, s, [])
          | Some (ip, resolvedModel) \<Rightarrow>
              call_endpoint env h generateImages ''image generation'' ctx ip
                (if ir_Model req = [] then resolvedModel else ir_Model req) (ir_Prompt req) w s)"

section \<open>Which upstream calls a request makes\<close>

text \<open>A credential the store holds for the caller and the provider now, or gave in an answer that was cached
  less than \<open>ttl\<close> ago. \<open>src t\<close> is the store at time \<open>t\<close>, \<open>lg\<close> the insertions into the cache before the request.\<close>

definition held ::
  "(int \<Rightarrow> CredentialSource) \<Rightarrow> duration \<Rightarrow> cred_log \<Rightarrow> int \<Rightarrow> Ctx \<Rightarrow> string \<Rightarrow> ResolvedCredential \<Rightarrow> bool" where
  "held src ttl lg now ctx provider cred \<longleftrightarrow>
     src now (OrgIDFrom ctx) (UserIDFrom ctx) provider = Some (cred, True)
     \<or> cached_answer src ttl lg now (OrgIDFrom ctx) (UserIDFrom ctx) provider (cred, True)"

text \<open>The context of an upstream call: it has the caller's own credential, or, unless the mode is
  strict, the one of the request (normally none: the provider then uses the shared key).\<close>

definition own_context ::
  "(int \<Rightarrow> CredentialSource) \<Rightarrow> duration \<Rightarrow> cred_log \<Rightarrow> int \<Rightarrow> KeyMode \<Rightarrow> Ctx \<Rightarrow> string \<Rightarrow> Ctx \<Rightarrow> bool" where
  "own_context src ttl lg now mode ctx provider cx \<longleftrightarrow>
     mode \<noteq> KeyModeStrictBYOK \<and> cx_Credential cx = cx_Credential ctx
     \<or> (\<exists>cred. held src ttl lg now ctx provider cred \<and> cx_Credential cx = Some (caller_credential cred))"

definition call_ok ::
  "(int \<Rightarrow> CredentialSource) \<Rightarrow> duration \<Rightarrow> cred_log \<Rightarrow> int \<Rightarrow> 're Handler \<Rightarrow> Ctx \<Rightarrow> string list \<Rightarrow> upstream_call \<Rightarrow> bool" where
  "call_ok src ttl lg now h ctx chain c =
     (case c of (p, cx, rq) \<Rightarrow>
        (\<exists>m \<in> set chain. Resolve (h_registry h) m = Inr (p, req_Model rq)) \<and> own_context src ttl lg now (h_keyMode h) ctx (pv_Name p) cx)"

definition creds_ok ::
  "(int \<Rightarrow> CredentialSource) \<Rightarrow> duration \<Rightarrow> cred_log \<Rightarrow> ('u, 'c, 'l, 're, 'doc, 'schema) Env \<Rightarrow> ('u, 'c, 'l) GState \<Rightarrow> bool" where
  "creds_ok src ttl lg env s \<longleftrightarrow>
     ev_credSource env = Some (src (ev_now env)) \<and> (\<exists>cr new. g_creds s = Some cr \<and> resolver_reach src ttl (new @ lg) cr \<and> (\<forall>e \<in> set new. fst e = ev_now env))"

definition caller_ids_ok :: "Ctx \<Rightarrow> bool" where
  "caller_ids_ok ctx \<longleftrightarrow> CHR 0x00 \<notin> set (OrgIDFrom ctx) \<union> set (UserIDFrom ctx)"

lemma cached_answer_new:
  assumes "cached_answer src ttl (new @ lg) now org user provider r" "\<forall>e \<in> set new. fst e = now"
  shows "src now org user provider = Some r \<or> cached_answer src ttl lg now org user provider r"
  using assms unfolding cached_answer_def by fastforce

lemma injectCredential_own:
  assumes "creds_ok src ttl lg env s" "caller_ids_ok ctx" "injectCredential env h ctx p s = (r, s')"
  shows "creds_ok src ttl lg env s' \<and> (\<forall>cx tag. r = Inr (cx, tag) \<longrightarrow> own_context src ttl lg (ev_now env) (h_keyMode h) ctx p cx)"
proof (cases "h_keyMode h = KeyModeShared")
  case True
  then show ?thesis using assms by (auto simp: injectCredential_def own_context_def)
next
  case False
  let ?now = "ev_now env"
  obtain cr new where cr: "g_creds s = Some cr" "resolver_reach src ttl (new @ lg) cr" "\<forall>e \<in> set new. fst e = ?now"
    and src: "ev_credSource env = Some (src ?now)"
    using assms(1) by (auto simp: creds_ok_def)
  obtain res cr' where call: "Resolve_credential (Some (src ?now)) (Some cr) ?now ?now (OrgIDFrom ctx) (UserIDFrom ctx) p = (res, cr')"
    by fastforce
  have s': "s' = s\<lparr>g_creds := cr'\<rparr>" and r: "\<And>cx tag. r = Inr (cx, tag) \<Longrightarrow> h_keyMode h \<noteq> KeyModeStrictBYOK \<and> cx = ctx
      \<or> (\<exists>cred. res = Some (cred, True) \<and> cx = ctx\<lparr>cx_Credential := Some (caller_credential cred)\<rparr>)"
    using assms(3) False call by (auto simp: injectCredential_def cr src Let_def split: option.splits prod.splits if_splits)
  note sound = Resolve_credential_sound [OF cr(2) assms(2) [unfolded caller_ids_ok_def] order_refl, where provider = p and now = ?now]
  have "\<exists>c new. cr' = Some c \<and> resolver_reach src ttl (new @ lg) c \<and> (\<forall>e \<in> set new. fst e = ?now)"
  proof (cases res)
    case None
    then have "cr' = Some cr" using call by (auto simp: Resolve_credential_def Let_def split: option.splits)
    then show ?thesis using cr(2,3) by blast
  next
    case (Some a)
    obtain cred found where a: "a = (cred, found)" by fastforce
    let ?e = "(?now, ?now, OrgIDFrom ctx, UserIDFrom ctx, p)"
    obtain c where c: "cr' = Some c" "resolver_reach src ttl (new @ lg) c \<or> resolver_reach src ttl (?e # new @ lg) c"
      using sound [of cred found cr'] call Some a by blast
    then show ?thesis using cr(3) by (elim disjE) (blast, intro exI [of _ c] exI [of _ "?e # new"], simp)
  qed
  then have "creds_ok src ttl lg env s'" using src by (auto simp: creds_ok_def s')
  moreover have "held src ttl lg ?now ctx p cred" if "res = Some (cred, True)" for cred
    using sound [of cred True cr'] call that cached_answer_new [OF _ cr(3), of src ttl lg "OrgIDFrom ctx" "UserIDFrom ctx" p "(cred, True)"] by (auto simp: held_def)
  then have "own_context src ttl lg ?now (h_keyMode h) ctx p cx" if "r = Inr (cx, tag)" for cx tag
    using r [OF that] by (auto simp: own_context_def)
  ultimately show ?thesis by blast
qed

text \<open>\<open>calls_ok\<close> relates the states around a piece of the handler: it made at most \<open>n\<close> calls, all of
  them in order.\<close>

definition calls_ok ::
  "(int \<Rightarrow> CredentialSource) \<Rightarrow> duration \<Rightarrow> cred_log \<Rightarrow> ('u, 'c, 'l, 're, 'doc, 'schema) Env \<Rightarrow> 're Handler \<Rightarrow> Ctx \<Rightarrow> string list \<Rightarrow> nat \<Rightarrow>
     ('u, 'c, 'l) GState \<Rightarrow> ('u, 'c, 'l) GState \<Rightarrow> bool" where
  "calls_ok src ttl lg env h ctx chain n s s' \<longleftrightarrow>
     creds_ok src ttl lg env s'
     \<and> (\<exists>cs. g_calls s' = g_calls s @ cs \<and> length cs \<le> n \<and> (\<forall>c \<in> set cs. call_ok src ttl lg (ev_now env) h ctx chain c))"

lemma calls_ok_refl: "creds_ok src ttl lg env s' \<Longrightarrow> g_calls s' = g_calls s \<Longrightarrow> calls_ok src ttl lg env h ctx chain n s s'"
  by (simp add: calls_ok_def)

lemma calls_ok_trans:
  assumes "calls_ok src ttl lg env h ctx chain n s s'" "calls_ok src ttl lg env h ctx chain n' s' s''"
  shows "calls_ok src ttl lg env h ctx chain (n + n') s s''"
proof -
  obtain cs cs' where "g_calls s' = g_calls s @ cs" "length cs \<le> n" "\<forall>c \<in> set cs. call_ok src ttl lg (ev_now env) h ctx chain c"
      "g_calls s'' = g_calls s' @ cs'" "length cs' \<le> n'" "\<forall>c \<in> set cs'. call_ok src ttl lg (ev_now env) h ctx chain c"
    using assms by (auto simp: calls_ok_def)
  then have "g_calls s'' = g_calls s @ (cs @ cs') \<and> length (cs @ cs') \<le> n + n' \<and> (\<forall>c \<in> set (cs @ cs'). call_ok src ttl lg (ev_now env) h ctx chain c)"
    by auto
  then show ?thesis using assms(2) unfolding calls_ok_def by blast
qed

lemma calls_ok_mono: "calls_ok src ttl lg env h ctx chain n s s' \<Longrightarrow> n \<le> n' \<Longrightarrow> calls_ok src ttl lg env h ctx chain n' s s'"
  by (meson calls_ok_def order_trans)

lemma calls_to_ok:
  assumes "calls_to p cx fwd n s s'" "m \<in> set chain" "Resolve (h_registry h) m = Inr (p, fwd)"
    "own_context src ttl lg (ev_now env) (h_keyMode h) ctx (pv_Name p) cx" "creds_ok src ttl lg env s'"
  shows "calls_ok src ttl lg env h ctx chain n s s'"
proof -
  obtain rqs where "g_calls s' = g_calls s @ map (\<lambda>rq. (p, cx, rq)) rqs" "length rqs \<le> n" "\<forall>rq \<in> set rqs. req_Model rq = fwd"
    using assms(1) by (auto simp: calls_to_def)
  then show ?thesis using assms(2-5) by (auto simp: calls_ok_def call_ok_def intro!: exI [of _ "map (\<lambda>rq. (p, cx, rq)) rqs"])
qed

lemma creds_ok_same: "g_creds s' = g_creds s \<Longrightarrow> creds_ok src ttl lg env s' = creds_ok src ttl lg env s"
  by (simp add: creds_ok_def)

lemma calls_ok_same:
  "g_calls s2 = g_calls s1 \<Longrightarrow> g_creds s2 = g_creds s1 \<Longrightarrow> calls_ok src ttl lg env h ctx chain n s s2 = calls_ok src ttl lg env h ctx chain n s s1"
  by (simp add: calls_ok_def creds_ok_def)

lemma calls_to_single:
  "g_calls s' = g_calls s @ [(p, cx, rq)] \<Longrightarrow> req_Model rq = fwd \<Longrightarrow> calls_to p cx fwd 1 s s'"
  by (auto simp: calls_to_def intro!: exI [of _ "[rq]"])

lemma candidate_calls:
  assumes "creds_ok src ttl lg env s" "caller_ids_ok ctx" "model \<in> set chain"
  shows "calls_ok src ttl lg env h ctx chain
     (case unary_candidate env h ctx req chain i model lp w s of Continue _ _ \<Rightarrow> 1 | _ \<Rightarrow> 1 + nat (h_selfCorrectMax h))
     s (state_of (unary_candidate env h ctx req chain i model lp w s))"
proof (cases rule: unary_candidate_cases [of h model env ctx req chain i lp w s])
  case (unresolved e)
  then show ?thesis using assms by (simp add: calls_ok_refl)
next
  case (no_key p fwd err s1)
  then show ?thesis using injectCredential_own [OF assms(1,2) no_key(2)] injectCredential_sel [OF no_key(2)] by (simp add: calls_ok_refl)
next
  case (panic p fwd cx src s1)
  then show ?thesis using injectCredential_own [OF assms(1,2) panic(2)] injectCredential_sel [OF panic(2)] by (simp add: calls_ok_refl)
next
  case (cached p fwd cx src' s1 resp)
  note inj = injectCredential_own [OF assms(1,2) cached(2)] injectCredential_sel [OF cached(2)]
  show ?thesis
  proof (insert serve_cached_answers [OF cached(4) [symmetric]], elim exE conjE)
    fix w' t' rs
    assume A: "unary_candidate env h ctx req chain i model lp w s
      = Answered w' (recordEvidence h t' (lp_attempts lp @ [attemptFromTrace t' i (length chain)]) rs s1)"
    show ?thesis unfolding A using inj by (simp add: calls_ok_refl creds_ok_def)
  qed
next
  case (failed p fwd cx src' s1 v err s2)
  note inj = injectCredential_own [OF assms(1,2) failed(2)] injectCredential_sel [OF failed(2)] call_chat_sel [OF failed(4)]
  have own: "own_context src ttl lg (ev_now env) (h_keyMode h) ctx (pv_Name p) cx" and c2: "creds_ok src ttl lg env s2" using inj by (auto simp: creds_ok_def)
  have "calls_to p cx fwd 1 s s2" by (rule calls_to_single [where rq = "req\<lparr>req_Model := fwd\<rparr>"]) (simp_all add: inj)
  note calls = calls_to_ok [OF this assms(3) failed(1) own c2]
  let ?t = "(attempt_trace env h ctx req p i model)\<lparr>tr_CredentialSource := src'\<rparr>"
  show ?thesis
  proof (rule upstream_failed_continues [of env h req chain i err ?t lp s2])
    fix lp' s'
    assume A: "upstream_failed env h req chain i err ?t lp s2 = Continue lp' s'" "g_calls s' = g_calls s2" "g_creds s' = g_creds s2"
    show ?thesis unfolding failed(5) A(1) using calls by (simp add: calls_ok_same [OF A(2,3)])
  qed
next
  case (served p fwd cx src' s1 v resp s2)
  note inj = injectCredential_own [OF assms(1,2) served(2)] injectCredential_sel [OF served(2)] call_chat_sel [OF served(4)]
  have own: "own_context src ttl lg (ev_now env) (h_keyMode h) ctx (pv_Name p) cx" and c2: "creds_ok src ttl lg env s2" using inj by (auto simp: creds_ok_def)
  have one: "calls_to p cx fwd 1 s s2" by (rule calls_to_single [where rq = "req\<lparr>req_Model := fwd\<rparr>"]) (simp_all add: inj)
  show ?thesis
  proof (rule upstream_ok_answers [OF served(5) [symmetric]])
    fix w' s' st b t' s3 rs
    assume A: "unary_candidate env h ctx req chain i model lp w s = Answered w' s'"
      "s' = recordSpend env ctx (tr_CostUSD t') (recordEvidence h t' (lp_attempts lp @ [attemptFromTrace t' i (length chain)]) rs s3)"
      "g_creds s3 = g_creds s2" "calls_to p cx (req_Model (req\<lparr>req_Model := fwd\<rparr>)) (nat (h_selfCorrectMax h)) s2 s3"
    have "calls_to p cx fwd (1 + nat (h_selfCorrectMax h)) s s3" by (rule calls_to_trans [OF one]) (use A(4) in simp)
    from calls_to_ok [OF this assms(3) served(1) own] c2 A(3)
    have "calls_ok src ttl lg env h ctx chain (1 + nat (h_selfCorrectMax h)) s s3" by (simp add: creds_ok_def)
    then have "calls_ok src ttl lg env h ctx chain (1 + nat (h_selfCorrectMax h)) s s'" by (simp add: A(2) calls_ok_def creds_ok_def)
    then show ?thesis unfolding A(1) by simp
  qed
qed

lemma handleUnary_calls:
  fixes s :: "('u, 'c, 'l) GState"
  assumes "creds_ok src ttl lg env s" "caller_ids_ok ctx"
  shows "calls_ok src ttl lg env h ctx chain (length chain + nat (h_selfCorrectMax h)) s (state_of (handleUnary env h ctx req chain w s))"
proof (rule handleUnary_rule [where P = "\<lambda>i lp s1. calls_ok src ttl lg env h ctx chain i s s1"])
  show "calls_ok src ttl lg env h ctx chain 0 s s" using assms(1) by (rule calls_ok_refl) simp
next
  fix i lp and s1 :: "('u, 'c, 'l) GState"
  let ?r = "unary_candidate env h ctx req chain i (chain ! i) lp w s1"
  assume i: "i < length chain" and P: "calls_ok src ttl lg env h ctx chain i s s1"
  then have "creds_ok src ttl lg env s1" by (simp add: calls_ok_def)
  from calls_ok_trans [OF P candidate_calls [OF this assms(2) nth_mem [OF i], of h req i lp w]]
  have calls: "calls_ok src ttl lg env h ctx chain (i + (case ?r of Continue _ _ \<Rightarrow> 1 | _ \<Rightarrow> 1 + nat (h_selfCorrectMax h))) s (state_of ?r)" .
  show "case ?r of Continue lp' s' \<Rightarrow> calls_ok src ttl lg env h ctx chain (Suc i) s s'
    | r \<Rightarrow> calls_ok src ttl lg env h ctx chain (length chain + nat (h_selfCorrectMax h)) s (state_of r)"
    using calls i by (cases ?r) (auto elim!: calls_ok_mono)
next
  fix lp and s1 :: "('u, 'c, 'l) GState"
  assume "calls_ok src ttl lg env h ctx chain (length chain) s s1"
  then have "calls_ok src ttl lg env h ctx chain (length chain + nat (h_selfCorrectMax h)) s s1" by (rule calls_ok_mono) simp
  then show "calls_ok src ttl lg env h ctx chain (length chain + nat (h_selfCorrectMax h)) s (state_of (all_failed env h ctx req chain lp w s1))"
    by (simp add: all_failed_def Let_def calls_ok_def creds_ok_def)
qed

lemma open_stream_calls:
  assumes "creds_ok src ttl lg env s" "caller_ids_ok ctx" "set rest \<subseteq> set chain" "open_stream env h ctx req chain i rest lp s = (r, lp', s')"
  shows "calls_ok src ttl lg env h ctx chain (length rest) s s'"
  using assms
proof (induction rest arbitrary: i lp s)
  case Nil
  then show ?case by (simp add: calls_ok_refl)
next
  case (Cons m rest)
  show ?case
  proof (cases "Resolve (h_registry h) m")
    case (Inl e)
    then have "calls_ok src ttl lg env h ctx chain (length rest) s s'" using Cons.prems by (intro Cons.IH) simp_all
    then show ?thesis by (rule calls_ok_mono) simp
  next
    case (Inr pf)
    obtain p fwd where pf: "pf = (p, fwd)" by fastforce
    obtain q s1 where q: "injectCredential env h ctx (pv_Name p) s = (q, s1)" by fastforce
    note inj = injectCredential_own [OF Cons.prems(1,2) q] injectCredential_sel [OF q]
    show ?thesis
    proof (cases q)
      case (Inl err)
      then obtain lp1 where "open_stream env h ctx req chain (i + 1) rest lp1 s1 = (r, lp', s')"
        using Cons.prems(4) Inr pf q by (auto simp: Let_def)
      then have "calls_ok src ttl lg env h ctx chain (length rest) s1 s'" using Cons.prems inj by (intro Cons.IH) simp_all
      then have "calls_ok src ttl lg env h ctx chain (length rest) s s'" using inj by (simp add: calls_ok_def)
      then show ?thesis by (rule calls_ok_mono) simp
    next
      case qr: (Inr x)
      obtain cx tag where x: "x = (cx, tag)" by fastforce
      obtain a s2 where a: "call_stream env p cx (req\<lparr>req_Model := fwd\<rparr>) s1 = (a, s2)" by fastforce
      note sel = call_stream_sel [OF a]
      have own: "own_context src ttl lg (ev_now env) (h_keyMode h) ctx (pv_Name p) cx" and c2: "creds_ok src ttl lg env s2"
        using inj qr x sel by (auto simp: creds_ok_def)
      have "calls_to p cx fwd 1 s s2" by (rule calls_to_single [where rq = "req\<lparr>req_Model := fwd\<rparr>"]) (simp_all add: sel inj)
      from calls_to_ok [OF this _ Inr [unfolded pf] own c2] Cons.prems(3)
      have one: "calls_ok src ttl lg env h ctx chain 1 s s2" by simp
      have "s' = s2 \<or> (\<exists>lp1. open_stream env h ctx req chain (i + 1) rest lp1 s2 = (r, lp', s'))"
        using Cons.prems(4) Inr pf q qr x a by (cases a) (auto simp: Let_def)
      then show ?thesis
      proof (elim disjE exE)
        assume "s' = s2"
        then show ?thesis using one by (simp add: calls_ok_mono)
      next
        fix lp1
        assume "open_stream env h ctx req chain (i + 1) rest lp1 s2 = (r, lp', s')"
        then have "calls_ok src ttl lg env h ctx chain (length rest) s2 s'" using Cons.prems c2 by (intro Cons.IH) simp_all
        from calls_ok_trans [OF one this] show ?thesis by simp
      qed
    qed
  qed
qed

lemma handleStream_calls:
  assumes "creds_ok src ttl lg env s" "caller_ids_ok ctx"
  shows "calls_ok src ttl lg env h ctx chain (length chain) s (state_of (handleStream env h flusher ctx req chain w s))"
proof (cases flusher)
  case True
  obtain r lp s' where open': "open_stream env h ctx req chain 0 chain empty_Loop s = (r, lp, s')" by (metis prod_cases3)
  note calls = open_stream_calls [OF assms subset_refl open']
  have "g_calls (state_of (handleStream env h flusher ctx req chain w s)) = g_calls s'"
    "g_creds (state_of (handleStream env h flusher ctx req chain w s)) = g_creds s'"
    using True open' by (auto simp: handleStream_def stream_failed_def close_stream_def Let_def split: option.split)
  then show ?thesis using calls by (simp add: calls_ok_def creds_ok_def)
qed (use assms in \<open>simp add: handleStream_def calls_ok_refl\<close>)

lemma session_ctx [simp]:
  "OrgIDFrom (ctx\<lparr>cx_SessionID := x\<rparr>) = OrgIDFrom ctx" "UserIDFrom (ctx\<lparr>cx_SessionID := x\<rparr>) = UserIDFrom ctx"
  "modelAllowed (ctx\<lparr>cx_SessionID := x\<rparr>) = modelAllowed ctx" "caller_ids_ok (ctx\<lparr>cx_SessionID := x\<rparr>) = caller_ids_ok ctx"
  "held src ttl lg now (ctx\<lparr>cx_SessionID := x\<rparr>) = held src ttl lg now ctx"
  "own_context src ttl lg now mode (ctx\<lparr>cx_SessionID := x\<rparr>) = own_context src ttl lg now mode ctx"
  "call_ok src ttl lg now h (ctx\<lparr>cx_SessionID := x\<rparr>) = call_ok src ttl lg now h ctx"
  by (simp_all add: OrgIDFrom_def UserIDFrom_def modelAllowed_def caller_ids_ok_def held_def own_context_def call_ok_def fun_eq_iff
      split: prod.split)

text \<open>How a chat request ends, as far as upstream calls go: without a call, or with a chain that
  \<open>resolveChain\<close> made for it.\<close>

lemma ChatCompletions_cases:
  obtains (none) "g_calls (state_of (ChatCompletions env h dc fl ctx body w s)) = g_calls s"
  | (chain) ctx' req chain s1 where "ctx' = ctx \<or> (\<exists>x. ctx' = ctx\<lparr>cx_SessionID := x\<rparr>)"
      "resolveChain env h ctx' req w s = (Chain chain, s1)"
      "ChatCompletions env h dc fl ctx body w s = handleStream env h fl ctx' req chain w s1
       \<or> ChatCompletions env h dc fl ctx body w s = handleUnary env h ctx' req chain w s1"
proof (cases "decode_chat dc body")
  case (Inl msg)
  then show thesis by (intro none) (simp add: ChatCompletions_def)
next
  case (Inr br)
  obtain b req where br: "br = (b, req)" by fastforce
  define sid where "sid = extractSessionID (dc_probe dc) b"
  define ctx' where "ctx' = (if sid \<noteq> [] then ctx\<lparr>cx_SessionID := Some sid\<rparr> else ctx)"
  have ctx': "ctx' = ctx \<or> (\<exists>x. ctx' = ctx\<lparr>cx_SessionID := x\<rparr>)" by (auto simp: ctx'_def)
  obtain r s1 where chain: "resolveChain env h ctx' req w s = (r, s1)" by fastforce
  show thesis
  proof (cases "(req_Model req = [] \<or> req_Messages req = []) \<or> fi_Blocked (CheckInput (ev_matchRe env) (h_guard h) (promptText (req_Messages req)))")
    case True
    then show thesis
      by (intro none) (auto simp: ChatCompletions_def Inr br Let_def recordGuardrailBlock_def)
  next
    case False
    then have eq: "ChatCompletions env h dc fl ctx body w s = (case (r, s1) of (Refused w, s) \<Rightarrow> Answered w s | (ChainPanic, s) \<Rightarrow> Panicked s
        | (Chain chain, s) \<Rightarrow> if req_Stream req then handleStream env h fl ctx' req chain w s else handleUnary env h ctx' req chain w s)"
      unfolding chain [symmetric] ctx'_def sid_def by (simp add: ChatCompletions_def Inr br Let_def)
    show thesis
    proof (cases r)
      case (Chain ch)
      show thesis
        by (rule that(2) [OF ctx' chain [unfolded Chain]]) (simp add: eq Chain)
    next
      case (Refused w')
      then have "g_calls s1 = g_calls s"
        using chain by (auto simp: resolveChain_def refuse_def recordPolicyDenied_def Let_def split: if_splits option.splits sum.splits)
      then show thesis using Refused by (intro none) (simp add: eq)
    next
      case ChainPanic
      then have "s1 = s"
        using chain by (auto simp: resolveChain_def refuse_def Let_def split: if_splits option.splits sum.splits)
      then show thesis using ChainPanic by (intro none) (simp add: eq)
    qed
  qed
qed

text \<open>
  C1. A chat request only causes upstream calls it is entitled to. With the quality router (or none)
  and a credential resolver that has only seen its own store, every upstream call that a request to
  \<open>ChatCompletions\<close> makes, streaming or not, is for a model that the virtual key may use and goes to
  the provider and under the name that the registry gives for that model. The call carries a
  credential that the store holds for exactly this organisation, user and provider, or that it gave in
  an answer cached less than the configured time ago (\<open>lg\<close> is the log of the cache), or, except in strict
  mode, none, so that the provider uses its shared key.
\<close>

theorem chat_calls_authorised:
  assumes "h_router h = map_option Rank rt"
    and "ev_credSource env = Some (src (ev_now env))" "g_creds s = Some cr" "resolver_reach src ttl lg cr" "caller_ids_ok ctx"
  shows "\<exists>cs. g_calls (state_of (ChatCompletions env h dc fl ctx body w s)) = g_calls s @ cs
    \<and> (\<forall>(p, cx, rq) \<in> set cs.
         (\<exists>m. modelAllowed ctx m \<and> Resolve (h_registry h) m = Inr (p, req_Model rq))
         \<and> own_context src ttl lg (ev_now env) (h_keyMode h) ctx (pv_Name p) cx)"
proof (cases rule: ChatCompletions_cases [of env h dc fl ctx body w s])
  case none
  then show ?thesis by simp
next
  case (chain ctx' req chain s1)
  have ids: "caller_ids_ok ctx'" and allowed: "modelAllowed ctx' = modelAllowed ctx"
    and ok: "call_ok src ttl lg (ev_now env) h ctx' = call_ok src ttl lg (ev_now env) h ctx" using chain(1) assms(5) by auto
  have "creds_ok src ttl lg env s1"
    using resolveChain_frame [OF chain(2)] assms(2-4) by (auto simp: creds_ok_def intro!: exI [of _ "[]"])
  then have "\<exists>n. calls_ok src ttl lg env h ctx' chain n s1 (state_of (ChatCompletions env h dc fl ctx body w s))"
    using chain(3) handleStream_calls [OF _ ids] handleUnary_calls [OF _ ids] by metis
  then obtain cs where cs: "g_calls (state_of (ChatCompletions env h dc fl ctx body w s)) = g_calls s @ cs"
      "\<forall>c \<in> set cs. call_ok src ttl lg (ev_now env) h ctx chain c"
    using resolveChain_frame(2) [OF chain(2)] by (auto simp: calls_ok_def ok)
  have "\<forall>m \<in> set chain. modelAllowed ctx m"
  proof (cases rt)
    case None
    then show ?thesis using chain(2) assms(1) by (auto simp: resolveChain_def refuse_def allowed split: if_splits sum.splits)
  next
    case (Some r)
    then show ?thesis using router_rank.resolveChain_members [OF _ chain(2)] assms(1) allowed by simp
  qed
  with cs show ?thesis by (fastforce simp: call_ok_def)
qed

section \<open>What the other endpoints skip\<close>

text \<open>
  C34. The embeddings endpoint does not enforce strict mode. Where the chat path refuses to call a
  provider because the caller has no key of their own for it, \<open>Embeddings\<close> makes the call anyway: it
  passes on the request's context without a credential, so that the provider falls back to the shared
  key, and the model name as the client wrote it, whether or not the virtual key may use that model.
\<close>

theorem Embeddings_bypasses_strict_mode:
  assumes "injectCredential env h ctx (pv_Name p) s = (Inl e, s')" "ResolveEmbedding (h_registry h) (er_Model req) = Some p"
    and "er_Model req \<noteq> []" "\<not> no_input (er_Input req)" "er_EncodingFormat req = []"
  shows "h_keyMode h = KeyModeStrictBYOK
    \<and> snd (snd (Embeddings env h embed_op ctx (Inr req) w s)) = [(p, ctx, er_Model req, er_Input req)]"
proof -
  have strict: "h_keyMode h = KeyModeStrictBYOK" and cr: "g_creds s \<noteq> None"
    and res: "\<And>cred cr. Resolve_credential (ev_credSource env) (g_creds s) (ev_now env) (ev_now env) (OrgIDFrom ctx) (UserIDFrom ctx) (pv_Name p)
      \<noteq> (Some (cred, True), cr)"
    using assms(1) by (auto simp: injectCredential_def Let_def split: if_splits prod.splits option.splits)
  obtain a cr' where a: "Resolve_credential (ev_credSource env) (g_creds s) (ev_now env) (ev_now env) (OrgIDFrom ctx) (UserIDFrom ctx) (pv_Name p) = (a, cr')"
    by fastforce
  have "fst (endpoint_credential env h ctx (pv_Name p) s) = ctx"
    using res strict cr a by (auto simp: endpoint_credential_def split: option.split bool.split prod.split)
  then show ?thesis using strict assms(2-5) by (auto simp: Embeddings_def call_endpoint_def split: prod.split)
qed

section \<open>The properties on the small gateway\<close>

text \<open>A store that has a key for one provider only, and a gateway that insists on the caller's own key.\<close>

definition demo_store :: "int \<Rightarrow> CredentialSource" where
  "demo_store now org user provider = Some (zero_credential\<lparr>rc_Secret := ''sk''\<rparr>, provider = ''q'')"

definition demo_byok_env :: "(unit, semcache_Memory, Memory, unit, unit, unit) Env" where
  "demo_byok_env = (demo_env demo_answer)\<lparr>ev_credSource := Some (demo_store 0)\<rparr>"

definition demo_embedder :: Provider where
  "demo_embedder = (demo_provider ''p'' ''m'')\<lparr>pv_EmbeddingModels := Some [''e'']\<rparr>"

definition demo_byok_handler :: "unit Handler" where
  "demo_byok_handler = (demo_handler None)\<lparr>h_keyMode := KeyModeStrictBYOK,
     h_registry := demo_registry\<lparr>rg_providers := [(''p'', demo_embedder)]\<rparr>\<rparr>"

definition demo_byok_state :: "(unit, semcache_Memory, Memory) GState" where
  "demo_byok_state = (demo_state None)\<lparr>g_creds := Some (NewCredentialResolver 60)\<rparr>"

definition demo_decoders :: Decoders where
  "demo_decoders = \<lparr>dc_TransformCursorHybrid = (\<lambda>_. Inl []), dc_Unmarshal = (\<lambda>_. Inr demo_request), dc_probe = (\<lambda>_. None)\<rparr>"

theorem chat_calls_authorised_witness:
  "\<exists>cs. g_calls (state_of (ChatCompletions demo_byok_env demo_byok_handler demo_decoders True emptyCtx (Inr ''{}'') new_writer demo_byok_state)) = [] @ cs
    \<and> (\<forall>(p, cx, rq) \<in> set cs. (\<exists>m. modelAllowed emptyCtx m \<and> Resolve (h_registry demo_byok_handler) m = Inr (p, req_Model rq))
         \<and> own_context demo_store 60 [] 0 KeyModeStrictBYOK emptyCtx (pv_Name p) cx)"
  using chat_calls_authorised [where h = demo_byok_handler and rt = None and env = demo_byok_env and src = demo_store and s = demo_byok_state
      and cr = "NewCredentialResolver 60" and ttl = 60 and ctx = emptyCtx and dc = demo_decoders and fl = True and body = "Inr ''{}''" and w = new_writer,
      OF _ _ _ resolver_reach.new]
  by (simp add: demo_byok_handler_def demo_byok_env_def demo_byok_state_def demo_handler_def demo_env_def demo_state_def caller_ids_ok_def
      OrgIDFrom_def UserIDFrom_def emptyCtx_def)

theorem Embeddings_bypasses_strict_mode_witness:
  "h_keyMode demo_byok_handler = KeyModeStrictBYOK
    \<and> snd (snd (Embeddings demo_byok_env demo_byok_handler (\<lambda>_ _ _ _. Inr []) emptyCtx (Inr \<lparr>er_Model = ''p/e'', er_Input = ''x'', er_EncodingFormat = []\<rparr>)
         new_writer demo_byok_state)) = [(demo_embedder, emptyCtx, ''p/e'', ''x'')]"
proof -
  have resolve: "ResolveEmbedding (demo_registry\<lparr>rg_providers := [(''p'', demo_embedder)]\<rparr>) ''p/e'' = Some demo_embedder" by code_simp
  have trim: "strings_TrimSpace ''x'' \<noteq> ''null''" by code_simp
  obtain e s' where "injectCredential demo_byok_env demo_byok_handler emptyCtx (pv_Name demo_embedder) demo_byok_state = (Inl e, s')"
    by (simp add: injectCredential_def demo_byok_handler_def demo_byok_env_def demo_byok_state_def demo_store_def Resolve_credential_def
        NewCredentialResolver_def cache_lookup_def demo_embedder_def demo_provider_def Let_def)
  then show ?thesis
    using Embeddings_bypasses_strict_mode [of demo_byok_env demo_byok_handler emptyCtx demo_embedder demo_byok_state e s'
      "\<lparr>er_Model = ''p/e'', er_Input = ''x'', er_EncodingFormat = []\<rparr>" "\<lambda>_ _ _ _. Inr []" new_writer]
    by (simp add: demo_byok_handler_def resolve no_input_def trim)
qed

end
