(* ===== verification/Delivery.thy ===== *)
theory Delivery
  imports Demo
begin

text \<open>
  What clients, operators and tenants can rely on for a non-streaming request: one answer, one trace
  and one charge; that an answer always comes; that redaction reaches the client; what failover
  alerts say; that the semantic cache does not mix tenants; and what self-correction costs.
\<close>

section \<open>Evidence\<close>

text \<open>
  C2. A request leaves exactly one trace, and the trace tells what happened. When \<open>handleUnary\<close>
  answers, the client gets one body under one status, and the recorder gets one trace, under the
  request's own trace id. The attempts in the trace are in the order of the chain and name its
  models; a 200 or a 422 is the outcome of the last attempt and all attempts before it failed, and a
  502 means that all failed and nothing was charged. What is added to the key's monthly spend is
  exactly the cost in the trace.
\<close>

theorem unary_evidence:
  fixes s :: "('u, 'c, 'l) GState"
  assumes "handleUnary env h ctx req chain w s = Answered w' s'" "h_recorder h" "wr_Status w = None"
  shows "\<exists>st b t. wr_Status w' = Some st \<and> wr_Body w' = wr_Body w @ [b] \<and> evidence_ok env ctx chain s s' st t"
proof -
  have "turn_ok env h ctx chain 0 w s (handleUnary env h ctx req chain w s)"
  proof (rule handleUnary_rule [where P = "\<lambda>i lp s1. loop_ok env chain i lp \<and> g_limiter s1 = g_limiter s \<and> g_traces s1 = g_traces s"])
    fix i lp and s1 :: "('u, 'c, 'l) GState"
    assume i: "i < length chain" and P: "loop_ok env chain i lp \<and> g_limiter s1 = g_limiter s \<and> g_traces s1 = g_traces s"
    then have "turn_ok env h ctx chain (i + 1) w s (unary_candidate env h ctx req chain i (chain ! i) lp w s1)"
      using candidate_turn_ok [of env chain i lp h ctx w s1 req] by (simp add: turn_ok_cong [of s1 s])
    then show "case unary_candidate env h ctx req chain i (chain ! i) lp w s1 of
        Continue lp' s' \<Rightarrow> loop_ok env chain (Suc i) lp' \<and> g_limiter s' = g_limiter s \<and> g_traces s' = g_traces s
      | r \<Rightarrow> turn_ok env h ctx chain 0 w s r"
      by (simp add: turn_ok_def split: turn.splits)
  next
    fix lp and s1 :: "('u, 'c, 'l) GState"
    assume "loop_ok env chain (length chain) lp \<and> g_limiter s1 = g_limiter s \<and> g_traces s1 = g_traces s"
    then show "turn_ok env h ctx chain 0 w s (all_failed env h ctx req chain lp w s1)"
      using all_failed_turn_ok [of env chain lp h ctx 0 w s1 req] by (simp add: turn_ok_cong [of s1 s])
  qed (simp add: loop_ok_empty)
  then show ?thesis using assms by (auto simp: turn_ok_def answered_once_def)
qed

section \<open>Every request is answered\<close>

text \<open>The semantic cache is usable when lookups do not need an embedder that is not there.\<close>

definition cache_ready :: "('u, 'c, 'l) GState \<Rightarrow> bool" where
  "cache_ready s = (case g_scache s of None \<Rightarrow> True | Some sv \<Rightarrow> sv_embedder sv \<noteq> None \<or> sc_ExactMatch (sv_cfg sv))"

lemma cache_ready_probe: "cache_ready s \<Longrightarrow> cache_probe env ctx req i s \<noteq> ProbePanic"
  by (auto simp: cache_ready_def cache_probe_def Service_Lookup_def Let_def split: option.splits sum.splits prod.splits)

lemma candidate_continue_scache:
  assumes "unary_candidate env h ctx req chain i model lp w s = Continue lp' s'"
  shows "g_scache s' = g_scache s"
proof (cases rule: unary_candidate_cases [of h model env ctx req chain i lp w s])
  case (no_key p fwd err s1)
  then show ?thesis using assms injectCredential_sel [OF no_key(2)] by simp
next
  case (failed p fwd cx src s1 v err s2)
  show ?thesis
    by (rule upstream_failed_continues [of env h req chain i err "(attempt_trace env h ctx req p i model)\<lparr>tr_CredentialSource := src\<rparr>" lp s2])
      (use assms failed injectCredential_sel [OF failed(2)] call_chat_sel [OF failed(4)] in simp)
next
  case (served p fwd cx src s1 v resp s2)
  then show ?thesis using assms by (metis upstream_ok_answers turn.distinct(1))
qed (use assms in \<open>auto simp: serve_cached_def Let_def\<close>)

lemma handleUnary_answers:
  fixes s :: "('u, 'c, 'l) GState"
  assumes "cache_ready s"
  shows "\<exists>w' s'. handleUnary env h ctx req chain w s = Answered w' s'"
proof (rule handleUnary_rule [where P = "\<lambda>_ _ s1. cache_ready s1" and Q = "\<lambda>r. \<exists>w' s'. r = Answered w' s'"])
  fix i lp and s1 :: "('u, 'c, 'l) GState"
  let ?r = "unary_candidate env h ctx req chain i (chain ! i) lp w s1"
  assume ready: "cache_ready s1"
  have "?r \<noteq> Panicked s'" for s'
  proof (cases rule: unary_candidate_cases [of h "chain ! i" env ctx req chain i lp w s1])
    case (panic p fwd cx src s2)
    have "cache_ready s2" using ready injectCredential_sel(5) [OF panic(2)] by (simp add: cache_ready_def)
    then show ?thesis using panic(3) cache_ready_probe by blast
  next
    case (served p fwd cx src s2 v resp s3)
    then show ?thesis by (metis upstream_ok_answers turn.distinct(5))
  qed (auto simp: serve_cached_def upstream_failed_def Let_def)
  then show "case ?r of Continue lp' s' \<Rightarrow> cache_ready s' | r \<Rightarrow> \<exists>w' s'. r = Answered w' s'"
    using ready candidate_continue_scache [of env h ctx req chain i "chain ! i" lp w s1] by (cases ?r) (auto simp: cache_ready_def)
qed (use assms in \<open>auto simp: all_failed_def Let_def\<close>)

text \<open>
  C4. Every request is answered. Whatever the providers do, a non-streaming request ends with a
  response: after finitely many candidates and corrections, and without a panic, as long as the
  semantic cache (if there is one) has an embedder or looks up exact prompts.
\<close>

theorem unary_always_answers:
  fixes s :: "('u, 'c, 'l) GState"
  assumes "cache_ready s"
  shows "\<exists>w' s'. handleUnary env h ctx req chain w s = Answered w' s'"
  using assms by (rule handleUnary_answers)

theorem unary_evidence_witness:
  "\<exists>w' s' st b t. handleUnary (demo_env demo_answer) (demo_handler None) emptyCtx demo_request [''m'', ''n''] new_writer (demo_state None) = Answered w' s'
    \<and> wr_Status w' = Some st \<and> wr_Body w' = [b] \<and> evidence_ok (demo_env demo_answer) emptyCtx [''m'', ''n''] (demo_state None) s' st t"
proof -
  have "cache_ready (demo_state None)" by (simp add: cache_ready_def demo_state_def)
  from handleUnary_answers [OF this] obtain w' s' where
    run: "handleUnary (demo_env demo_answer) (demo_handler None) emptyCtx demo_request [''m'', ''n''] new_writer (demo_state None) = Answered w' s'"
    by blast
  have "h_recorder (demo_handler None)" "wr_Status (new_writer :: gw_body Writer) = None" "wr_Body (new_writer :: gw_body Writer) = []"
    by (simp_all add: demo_handler_def new_writer_def)
  with unary_evidence [OF run] run show ?thesis by auto
qed

theorem unary_always_answers_witness:
  "\<exists>w' s'. handleUnary (demo_env demo_answer) (demo_handler None) emptyCtx demo_request [''m'', ''n''] new_writer (demo_state None) = Answered w' s'"
  by (rule unary_always_answers) (simp add: cache_ready_def demo_state_def)

section \<open>Redaction reaches the client\<close>

definition redacting :: "'re Handler \<Rightarrow> bool" where
  "redacting h = (case h_guard h of None \<Rightarrow> False | Some g \<Rightarrow> cfg_RedactPIIOutput (gd_cfg g))"

definition clean_response :: "ChatCompletionResponse \<Rightarrow> bool" where
  "clean_response resp \<longleftrightarrow> resp_Choices resp \<noteq> [] \<and> piiHits (content0 resp) = []"

lemma redacted_clean: "redacting h \<Longrightarrow> RedactOutput (h_guard h) x = (y, b) \<Longrightarrow> piiHits y = [] \<and> (\<not> b \<longrightarrow> y = x)"
  using RedactOutput_clean [of _ x]
  by (auto simp: redacting_def RedactOutput_def Let_def split: option.splits if_splits)

lemma validateOrRepairJSON_clean:
  assumes "validateOrRepairJSON env h content schema = (content', f, b)" "piiHits content = []"
  shows "piiHits content' = []"
  using assms RepairJSON_clean [OF assms(2)]
  by (auto simp: validateOrRepairJSON_def Let_def split: if_splits prod.splits bool.splits)

lemma redact_first_clean:
  assumes "redacting h" "resp_Choices resp \<noteq> []" "redact_first h resp t = (resp', t')"
  shows "clean_response resp'"
  using assms redacted_clean [OF assms(1), of "content0 resp"]
  by (auto simp: redact_first_def clean_response_def split: prod.splits bool.splits)

lemma set_content0_clean: "clean_response resp \<Longrightarrow> piiHits x = [] \<Longrightarrow> clean_response (set_content0 x resp)"
  by (simp add: clean_response_def)

lemma correct_once_clean:
  assumes "redacting h" "clean_response (co_resp c)" "correct_once env h p cx schema c = (c', b)"
  shows "clean_response (co_resp c')"
proof -
  define rq where "rq = withSchemaCorrection (co_attempt c) (content0 (co_resp c)) (fi_Reason (co_f c))"
  obtain r s where call: "call_chat env p cx rq (co_state c) = (r, s)" by fastforce
  show ?thesis
  proof (cases "\<exists>cresp. r = Inr cresp \<and> resp_Choices cresp \<noteq> []")
    case True
    then obtain cresp where r: "r = Inr cresp" and ne: "resp_Choices cresp \<noteq> []" by blast
    obtain y red where red: "RedactOutput (h_guard h) (content0 cresp) = (y, red)" by fastforce
    define resp where "resp = (if red then set_content0 y cresp else cresp)"
    have clean: "clean_response resp" using redacted_clean [OF assms(1) red] ne by (auto simp: resp_def clean_response_def)
    obtain content f rep where val: "validateOrRepairJSON env h (content0 resp) schema = (content, f, rep)" by (metis prod_cases3)
    have "co_resp c' = set_content0 content resp"
      using assms(3) call r ne red val unfolding correct_once_def Let_def rq_def [symmetric]
      by (cases red) (auto simp: resp_def)
    then show ?thesis
      using set_content0_clean [OF clean validateOrRepairJSON_clean [OF val]] clean by (simp add: clean_response_def)
  next
    case False
    then have "co_resp c' = co_resp c"
      using assms(3) call unfolding correct_once_def Let_def rq_def [symmetric] by (cases r) auto
    then show ?thesis using assms(2) by simp
  qed
qed

lemma self_correct_clean:
  "redacting h \<Longrightarrow> clean_response (co_resp c) \<Longrightarrow> clean_response (co_resp (self_correct env h p cx schema n c))"
proof (induction n arbitrary: c)
  case (Suc n)
  obtain c' b where once: "correct_once env h p cx schema c = (c', b)" by fastforce
  have "clean_response (co_resp c')" using correct_once_clean [OF Suc.prems once] .
  then show ?case using Suc once by simp
qed simp

lemma output_guardrails_clean:
  assumes "redacting h" "resp_Choices resp \<noteq> []"
  shows "clean_response (co_resp (output_guardrails env h p cx req attempt resp t s))"
proof -
  obtain resp1 t1 where red: "redact_first h resp t = (resp1, t1)" by fastforce
  have clean: "clean_response resp1" using redact_first_clean [OF assms red] .
  obtain content f rep where val: "validateOrRepairJSON env h (content0 resp1) (SchemaBytes (req_ResponseFormat req)) = (content, f, rep)"
    by (metis prod_cases3)
  have "clean_response (set_content0 content resp1)"
    using set_content0_clean [OF clean validateOrRepairJSON_clean [OF val]] clean by (simp add: clean_response_def)
  then show ?thesis
    using clean by (simp add: output_guardrails_def red val Let_def self_correct_clean [OF assms(1)])
qed

lemma piiHits_Nil: "piiHits [] = []"
  by (simp add: piiHits_def no_match_empty [OF email_masked] no_match_empty [OF ssn_masked] no_match_empty [OF phone_masked]
      no_match_empty [OF card_masked])

lemma content0_stamp [simp]: "content0 (stamp_cost x resp) = content0 resp"
  by (simp add: content0_def stamp_cost_def)

definition body_clean :: "gw_body payload \<Rightarrow> bool" where
  "body_clean b = (case b of Payload (ChatBody resp) \<Rightarrow> piiHits (content0 resp) = [] | _ \<Rightarrow> True)"

definition turn_clean :: "gw_body Writer \<Rightarrow> ('u, 'c, 'l) turn \<Rightarrow> bool" where
  "turn_clean w r = (case r of Answered w' s' \<Rightarrow> \<exists>b. wr_Body w' = wr_Body w @ [b] \<and> body_clean b | _ \<Rightarrow> True)"

lemma turn_cleanI: "answered_once w w' st b \<Longrightarrow> body_clean b \<Longrightarrow> turn_clean w (Answered w' s')"
  by (auto simp: turn_clean_def answered_once_def)

lemma deliver_clean:
  assumes "piiHits (content0 resp) = []"
  shows "turn_clean w (deliver env h ctx req i n v resp t lp w s)"
proof (insert deliver_answers [OF refl, of env h ctx req i n v resp t lp w s], elim exE conjE)
  fix w' s' t' rs
  assume A: "deliver env h ctx req i n v resp t lp w s = Answered w' s'"
    "answered_once w w' 200 (Payload (ChatBody (stamp_cost (tr_CostUSD t') resp)))"
  show ?thesis unfolding A(1) by (rule turn_cleanI [OF A(2)]) (simp add: body_clean_def assms)
qed

lemma error_clean: "turn_clean w (Answered (writeError ctx st ty msg w) s)"
  by (rule turn_cleanI [OF answered_once_writeError]) (simp add: body_clean_def)

lemma upstream_ok_clean:
  assumes "redacting h"
  shows "turn_clean w (upstream_ok env h ctx req i n p cx attempt v resp t lp w s)"
proof (cases "resp_Choices resp")
  case Nil
  then show ?thesis by (simp add: upstream_ok_def Let_def deliver_clean content0_def piiHits_Nil)
next
  case (Cons c cs)
  have "clean_response (co_resp (output_guardrails env h p cx req attempt resp t' s))" for t'
    by (rule output_guardrails_clean [OF assms]) (simp add: Cons)
  then show ?thesis
    by (simp add: upstream_ok_def Let_def Cons deliver_clean clean_response_def schema_blocked_def error_clean)
qed

section \<open>Failover alerts\<close>

text \<open>The event sent when candidate \<open>i\<close> failed and \<open>i + 1\<close> is next.\<close>

definition alert_for ::
  "'re Handler \<Rightarrow> ChatCompletionRequest \<Rightarrow> string list \<Rightarrow> nat \<Rightarrow> FailoverEvent \<Rightarrow> bool" where
  "alert_for h req chain i e \<longleftrightarrow>
     Suc i < length chain \<and> fe_Primary e = chain ! i \<and> fe_Fallback e = chain ! Suc i \<and> fe_Tried e = take (Suc i) chain
     \<and> fe_Reason e = ''upstream_error_failover'' \<and> fe_Alias e = aliasForModel (req_Model req) (h_groups h)"

definition alerts_ok ::
  "'re Handler \<Rightarrow> ChatCompletionRequest \<Rightarrow> string list \<Rightarrow> nat \<Rightarrow> ('u, 'c, 'l) GState \<Rightarrow> ('u, 'c, 'l) GState \<Rightarrow> bool" where
  "alerts_ok h req chain n s s' \<longleftrightarrow>
     (\<exists>is es. g_notes s' = g_notes s @ es \<and> sorted_wrt (<) is \<and> (\<forall>i \<in> set is. i < n) \<and> list_all2 (alert_for h req chain) is es)"

lemma alerts_ok_refl: "g_notes s' = g_notes s \<Longrightarrow> alerts_ok h req chain n s s'"
  by (auto simp: alerts_ok_def intro!: exI [of _ "[]"])

lemma alerts_ok_step:
  assumes "alerts_ok h req chain i s s1" "g_notes s' = g_notes s1 \<or> (\<exists>e. g_notes s' = g_notes s1 @ [e] \<and> alert_for h req chain i e)"
  shows "alerts_ok h req chain (Suc i) s s'"
proof -
  obtain "is" es where ie: "g_notes s1 = g_notes s @ es" "sorted_wrt (<) is" "\<forall>j \<in> set is. j < i" "list_all2 (alert_for h req chain) is es"
    using assms(1) by (auto simp: alerts_ok_def)
  from assms(2) show ?thesis
  proof (elim disjE exE conjE)
    assume "g_notes s' = g_notes s1"
    then show ?thesis using ie unfolding alerts_ok_def by (intro exI [of _ "is"] exI [of _ es]) auto
  next
    fix e
    assume "g_notes s' = g_notes s1 @ [e]" "alert_for h req chain i e"
    then show ?thesis using ie unfolding alerts_ok_def
      by (intro exI [of _ "is @ [i]"] exI [of _ "es @ [e]"]) (auto simp: sorted_wrt_append list_all2_appendI)
  qed
qed

lemma candidate_alerts:
  assumes "i < length chain"
  shows "case unary_candidate env h ctx req chain i (chain ! i) lp w s of
      Continue lp' s' \<Rightarrow> g_notes s' = g_notes s \<or> (\<exists>e. g_notes s' = g_notes s @ [e] \<and> alert_for h req chain i e)
    | Answered w' s' \<Rightarrow> g_notes s' = g_notes s | Panicked s' \<Rightarrow> g_notes s' = g_notes s"
proof (cases rule: unary_candidate_cases [of h "chain ! i" env ctx req chain i lp w s])
  case (no_key p fwd err s1)
  then show ?thesis using injectCredential_sel(6) [OF no_key(2)] by simp
next
  case (panic p fwd cx src s1)
  then show ?thesis using injectCredential_sel(6) [OF panic(2)] by simp
next
  case (cached p fwd cx src s1 resp)
  then show ?thesis using injectCredential_sel(6) [OF cached(2)] by (simp add: serve_cached_def Let_def)
next
  case (failed p fwd cx src s1 v err s2)
  have "g_notes s2 = g_notes s" using injectCredential_sel(6) [OF failed(2)] call_chat_sel(6) [OF failed(4)] by simp
  then show ?thesis unfolding failed(5) upstream_failed_def Let_def
    by (simp add: notifyFailover_def alert_for_def)
next
  case (served p fwd cx src s1 v resp s2)
  have same: "g_notes s2 = g_notes s" using injectCredential_sel(6) [OF served(2)] call_chat_sel(6) [OF served(4)] by simp
  show ?thesis by (rule upstream_ok_answers [OF served(5) [symmetric]]) (simp add: same)
qed simp

lemma aliasForModel_none: "\<forall>(alias, members) \<in> set gs. m \<notin> set members \<Longrightarrow> aliasForModel m gs = []"
  by (induction m gs rule: aliasForModel.induct) auto

text \<open>
  Failover alerts. The notifications of a request are in the order of the chain; each says that one
  candidate failed upstream and names it, the next candidate, and everything tried so far, and there
  is none for the last candidate. But the alert does not say which routing group it came from: it
  looks for a group that has the requested name as a member, and a client that uses a group requests
  it by the group's own name.
\<close>

theorem failover_alerts:
  fixes s :: "('u, 'c, 'l) GState"
  assumes "\<forall>(alias, members) \<in> set (h_groups h). req_Model req \<notin> set members"
  shows "\<exists>is es. g_notes (state_of (handleUnary env h ctx req chain w s)) = g_notes s @ es \<and> sorted_wrt (<) is
    \<and> list_all2 (\<lambda>i e. Suc i < length chain \<and> fe_Primary e = chain ! i \<and> fe_Fallback e = chain ! Suc i
         \<and> fe_Tried e = take (Suc i) chain \<and> fe_Alias e = []) is es"
proof -
  have "alerts_ok h req chain (length chain) s (state_of (handleUnary env h ctx req chain w s))"
  proof (rule handleUnary_rule [where P = "\<lambda>i lp s1. alerts_ok h req chain i s s1"])
    fix i lp and s1 :: "('u, 'c, 'l) GState"
    let ?r = "unary_candidate env h ctx req chain i (chain ! i) lp w s1"
    assume i: "i < length chain" and P: "alerts_ok h req chain i s s1"
    have mono: "alerts_ok h req chain (length chain) s s'" if "g_notes s' = g_notes s1" for s' :: "('u, 'c, 'l) GState"
      using P that i by (force simp: alerts_ok_def)
    show "case ?r of Continue lp' s' \<Rightarrow> alerts_ok h req chain (Suc i) s s' | r \<Rightarrow> alerts_ok h req chain (length chain) s (state_of r)"
      using candidate_alerts [OF i, where env = env and h = h and ctx = ctx and req = req and lp = lp and w = w and s = s1] alerts_ok_step [OF P] mono by (cases ?r) auto
  qed (auto simp: alerts_ok_refl all_failed_def Let_def alerts_ok_def)
  then obtain "is" es where ie: "g_notes (state_of (handleUnary env h ctx req chain w s)) = g_notes s @ es" "sorted_wrt (<) is"
      "list_all2 (alert_for h req chain) is es"
    by (auto simp: alerts_ok_def)
  from ie(3) have "list_all2 (\<lambda>i e. Suc i < length chain \<and> fe_Primary e = chain ! i \<and> fe_Fallback e = chain ! Suc i
      \<and> fe_Tried e = take (Suc i) chain \<and> fe_Alias e = []) is es"
    by (rule list_all2_mono) (simp add: alert_for_def aliasForModel_none [OF assms])
  with ie show ?thesis by blast
qed

section \<open>The cache and the tenants\<close>

text \<open>What the cache holds after a request: what it held before, or this request's own response, redacted
  if redaction is on, under its own scope and model.\<close>

definition may_store :: "'re Handler \<Rightarrow> ChatCompletionResponse \<Rightarrow> bool" where
  "may_store h resp \<longleftrightarrow> (redacting h \<longrightarrow> piiHits (content0 resp) = [])"

definition cache_step ::
  "'re Handler \<Rightarrow> ('u, 'c, 'l, 're, 'doc, 'schema) Env \<Rightarrow> Ctx \<Rightarrow> ChatCompletionRequest \<Rightarrow> 'c Service option \<Rightarrow> 'c Service option \<Rightarrow> bool" where
  "cache_step h env ctx req c c' \<longleftrightarrow> c' = c
     \<or> (\<exists>sv v resp b. c = Some sv \<and> may_store h resp \<and> ev_marshalResp env resp = Some b
          \<and> c' = Some (snd (Service_Store (ev_store env) sv (ev_now env) (cacheScope ctx) (req_Model req)
                              (promptText (req_Messages req)) v (Some b))))"

lemma cache_put_step:
  assumes "may_store h resp"
  shows "cache_step h env ctx req (g_scache s) (g_scache (cache_put env ctx req i v resp s))"
proof (cases "g_scache s")
  case (Some sv)
  show ?thesis
  proof (cases "ev_marshalResp env resp")
    case m: (Some b)
    show ?thesis
    proof (cases "i = 0 \<and> cacheEligible req")
      case True
      have "g_scache (cache_put env ctx req i v resp s) = Some (snd (Service_Store (ev_store env) sv (ev_now env) (cacheScope ctx)
          (req_Model req) (promptText (req_Messages req)) v (Some b)))" by (simp add: cache_put_def Some m True)
      then show ?thesis unfolding cache_step_def Some
        by (intro disjI2 exI [of _ sv] exI [of _ v] exI [of _ resp] exI [of _ b]) (simp add: m assms)
    qed (auto simp: cache_step_def cache_put_def Some m)
  qed (simp add: cache_step_def cache_put_def Some)
qed (simp add: cache_step_def cache_put_def)

lemma upstream_ok_cache_step:
  "cache_step h env ctx req (g_scache s) (g_scache (state_of (upstream_ok env h ctx req i n p cx attempt v resp t lp w s)))"
proof (cases "resp_Choices resp")
  case Nil
  then have "may_store h resp" by (simp add: may_store_def content0_def piiHits_Nil)
  then show ?thesis using Nil cache_put_step by (simp add: upstream_ok_def deliver_def Let_def)
next
  case (Cons ch chs)
  define t0 where "t0 = t\<lparr>tr_LatencyMs := ev_latency env i, tr_StatusCode := 200, tr_ResponseModel := resp_Model resp,
    tr_InputTokens := us_PromptTokens (resp_Usage resp), tr_OutputTokens := us_CompletionTokens (resp_Usage resp)\<rparr>"
  define c where "c = output_guardrails env h p cx req attempt resp t0 s"
  have may: "may_store h (co_resp c)"
    using output_guardrails_clean [of h resp env p cx req attempt t0 s] Cons by (simp add: may_store_def c_def clean_response_def)
  have same: "g_scache (co_state c) = g_scache s" using output_guardrails_frame(1) [OF c_def] by (simp add: books_def)
  show ?thesis
    using cache_put_step [OF may, of env ctx req "co_state c" i v] Cons same
    by (simp add: upstream_ok_def Let_def flip: t0_def c_def) (simp add: deliver_def schema_blocked_def cache_step_def Let_def)
qed

lemma candidate_cache_step:
  "cache_step h env ctx req (g_scache s) (g_scache (state_of (unary_candidate env h ctx req chain i model lp w s)))"
proof (cases rule: unary_candidate_cases [of h model env ctx req chain i lp w s])
  case (no_key p fwd err s1)
  then show ?thesis using injectCredential_sel(5) [OF no_key(2)] by (simp add: cache_step_def)
next
  case (panic p fwd cx src s1)
  then show ?thesis using injectCredential_sel(5) [OF panic(2)] by (simp add: cache_step_def)
next
  case (cached p fwd cx src s1 resp)
  then show ?thesis using injectCredential_sel(5) [OF cached(2)] by (simp add: cache_step_def serve_cached_def Let_def)
next
  case (failed p fwd cx src s1 v err s2)
  then show ?thesis using injectCredential_sel(5) [OF failed(2)] call_chat_sel(4) [OF failed(4)]
    by (simp add: cache_step_def upstream_failed_def Let_def)
next
  case (served p fwd cx src s1 v resp s2)
  have same: "g_scache s2 = g_scache s" using injectCredential_sel(5) [OF served(2)] call_chat_sel(4) [OF served(4)] by simp
  show ?thesis unfolding served(5) same [symmetric] by (rule upstream_ok_cache_step)
qed (simp add: cache_step_def)

lemma handleUnary_cache_step:
  fixes s :: "('u, 'c, 'l) GState"
  shows "cache_step h env ctx req (g_scache s) (g_scache (state_of (handleUnary env h ctx req chain w s)))"
proof (rule handleUnary_rule [where P = "\<lambda>_ _ s1. g_scache s1 = g_scache s"])
  fix i lp and s1 :: "('u, 'c, 'l) GState"
  assume P: "g_scache s1 = g_scache s"
  let ?r = "unary_candidate env h ctx req chain i (chain ! i) lp w s1"
  show "case ?r of Continue lp' s' \<Rightarrow> g_scache s' = g_scache s | r \<Rightarrow> cache_step h env ctx req (g_scache s) (g_scache (state_of r))"
    using P candidate_continue_scache [of env h ctx req chain i "chain ! i" lp w s1]
      candidate_cache_step [of h env ctx req s1 chain i "chain ! i" lp w] by (cases ?r) simp_all
qed (simp_all add: all_failed_def Let_def cache_step_def)

text \<open>A sequence of requests, each with its own surroundings (time, providers), handler settings,
  caller and chain, on one shared state.\<close>

record ('u, 'c, 'l, 're, 'doc, 'schema) unary_request =
  ur_env :: "('u, 'c, 'l, 're, 'doc, 'schema) Env"
  ur_handler :: "'re Handler"
  ur_ctx :: Ctx
  ur_req :: ChatCompletionRequest
  ur_chain :: "string list"

definition serve ::
  "('u, 'c, 'l, 're, 'doc, 'schema) unary_request \<Rightarrow> ('u, 'c, 'l) GState \<Rightarrow> ('u, 'c, 'l) GState" where
  "serve r s = state_of (handleUnary (ur_env r) (ur_handler r) (ur_ctx r) (ur_req r) (ur_chain r) new_writer s)"

context semantic_cache
begin

lemma serve_holds:
  assumes "g_scache s = Some sv" "ev_store (ur_env r) = store"
  shows "\<exists>sv'. g_scache (serve r s) = Some sv' \<and> (\<forall>scope model b. holds (sv_cache sv') scope model b \<longrightarrow> holds (sv_cache sv) scope model b
       \<or> scope = cacheScope (ur_ctx r) \<and> model = req_Model (ur_req r) \<and> (\<exists>resp b'. may_store (ur_handler r) resp \<and> ev_marshalResp (ur_env r) resp = Some b' \<and> b = kept (Some b')))"
proof -
  have "cache_step (ur_handler r) (ur_env r) (ur_ctx r) (ur_req r) (g_scache s) (g_scache (serve r s))"
    unfolding serve_def by (rule handleUnary_cache_step)
  then show ?thesis unfolding cache_step_def
  proof (elim disjE exE conjE)
    assume "g_scache (serve r s) = g_scache s"
    then show ?thesis using assms(1) by simp
  next
    fix sv0 v resp b'
    assume sv0: "g_scache s = Some sv0" and may: "may_store (ur_handler r) resp" and m: "ev_marshalResp (ur_env r) resp = Some b'"
      and st: "g_scache (serve r s) = Some (snd (Service_Store (ev_store (ur_env r)) sv0 (ev_now (ur_env r)) (cacheScope (ur_ctx r))
        (req_Model (ur_req r)) (promptText (req_Messages (ur_req r))) v (Some b')))"
    show ?thesis
      by (rule exI, rule conjI [OF st], intro allI impI) (use Service_Store_holds sv0 may m assms in fastforce)
  qed
qed

lemma serve_all_holds:
  assumes "g_scache s = Some sv" "\<forall>r \<in> set rs. ev_store (ur_env r) = store"
  shows "\<exists>sv'. g_scache (fold serve rs s) = Some sv' \<and> (\<forall>scope model b. holds (sv_cache sv') scope model b \<longrightarrow>
    holds (sv_cache sv) scope model b \<or> (\<exists>r \<in> set rs. scope = cacheScope (ur_ctx r) \<and> model = req_Model (ur_req r)
      \<and> (\<exists>resp b'. may_store (ur_handler r) resp \<and> ev_marshalResp (ur_env r) resp = Some b' \<and> b = kept (Some b'))))"
  using assms
proof (induction rs arbitrary: s sv)
  case Nil
  then show ?case by simp
next
  case (Cons r rs)
  from Cons.prems(2) have st: "ev_store (ur_env r) = store" by simp
  obtain sv1 where sv1: "g_scache (serve r s) = Some sv1"
    and h1: "\<And>scope model b. holds (sv_cache sv1) scope model b \<Longrightarrow> holds (sv_cache sv) scope model b
       \<or> scope = cacheScope (ur_ctx r) \<and> model = req_Model (ur_req r) \<and> (\<exists>resp b'. may_store (ur_handler r) resp \<and> ev_marshalResp (ur_env r) resp = Some b' \<and> b = kept (Some b'))"
    using serve_holds [OF Cons.prems(1) st] by blast
  obtain sv' where sv': "g_scache (fold serve rs (serve r s)) = Some sv'"
    and h2: "\<And>scope model b. holds (sv_cache sv') scope model b \<Longrightarrow> holds (sv_cache sv1) scope model b \<or> (\<exists>r \<in> set rs.
      scope = cacheScope (ur_ctx r) \<and> model = req_Model (ur_req r) \<and> (\<exists>resp b'. may_store (ur_handler r) resp \<and> ev_marshalResp (ur_env r) resp = Some b' \<and> b = kept (Some b')))"
    using Cons.IH [OF sv1] Cons.prems(2) by auto
  have "holds (sv_cache sv) scope model b \<or> (\<exists>r \<in> set (r # rs). scope = cacheScope (ur_ctx r) \<and> model = req_Model (ur_req r)
      \<and> (\<exists>resp b'. may_store (ur_handler r) resp \<and> ev_marshalResp (ur_env r) resp = Some b' \<and> b = kept (Some b')))" if "holds (sv_cache sv') scope model b" for scope model b
    using h2 [OF that] h1 [of scope model b] by auto
  then show ?case using sv' by auto
qed

lemma probe_hit_own:
  assumes "g_scache s = Some sv" "\<And>scope model b. \<not> holds (sv_cache sv) scope model b" "\<forall>r \<in> set rs. ev_store (ur_env r) = store"
    and "ev_lookup env = lookup" "cache_probe env ctx req i (fold serve rs s) = ProbeHit resp"
  shows "\<exists>r \<in> set rs. cacheScope (ur_ctx r) = cacheScope ctx \<and> req_Model (ur_req r) = req_Model req
    \<and> (\<exists>resp0 b. may_store (ur_handler r) resp0 \<and> ev_marshalResp (ur_env r) resp0 = Some b \<and> ev_unmarshalResp env (kept (Some b)) = Some resp)"
proof -
  obtain sv' where sv': "g_scache (fold serve rs s) = Some sv'" and h: "\<And>scope model b. holds (sv_cache sv') scope model b \<Longrightarrow>
      (\<exists>r \<in> set rs. scope = cacheScope (ur_ctx r) \<and> model = req_Model (ur_req r)
        \<and> (\<exists>resp b'. may_store (ur_handler r) resp \<and> ev_marshalResp (ur_env r) resp = Some b' \<and> b = kept (Some b')))"
    using serve_all_holds [OF assms(1,3)] assms(2) by blast
  from assms(5) obtain hit v where look: "Service_Lookup lookup sv' (ev_now env) (cacheScope ctx) (req_Model req) (promptText (req_Messages req))
        = Some (Inr (Some hit, v))" and un: "ev_unmarshalResp env (hit_ResponseJSON hit) = Some resp"
    by (auto simp: cache_probe_def sv' assms(4) split: if_splits option.splits sum.splits)
  from h [OF Service_Lookup_holds [OF look]] un show ?thesis by force
qed

end

lemma cache_probe_cong: "g_scache s' = g_scache s \<Longrightarrow> cache_probe env ctx req i s' = cache_probe env ctx req i s"
  by (simp add: cache_probe_def)

lemma recorded_hit:
  assumes "h_recorder h"
  shows "tr_CacheHit (last (g_traces (recordEvidence h t as rs s))) = tr_CacheHit t"
  using assms by (simp add: recordEvidence_def Let_def)

text \<open>A response comes from the cache exactly when the trace says so.\<close>

definition hit_ok ::
  "('u, 'c, 'l, 're, 'doc, 'schema) Env \<Rightarrow> Ctx \<Rightarrow> ChatCompletionRequest \<Rightarrow> gw_body Writer \<Rightarrow> ('u, 'c, 'l) GState \<Rightarrow> ('u, 'c, 'l) turn \<Rightarrow> bool" where
  "hit_ok env ctx req w s r = (case r of
     Answered w' s' \<Rightarrow> tr_CacheHit (last (g_traces s')) \<longrightarrow>
       (\<exists>i resp x. cache_probe env ctx req i s = ProbeHit resp \<and> wr_Body w' = wr_Body w @ [Payload (ChatBody (stamp_cost x resp))])
   | _ \<Rightarrow> True)"

lemma candidate_hit_ok:
  assumes "h_recorder h" "\<not> tr_CacheHit (lp_lastTrace lp)" "g_scache s1 = g_scache s"
  shows "case unary_candidate env h ctx req chain i model lp w s1 of
      Continue lp' s' \<Rightarrow> g_scache s' = g_scache s \<and> \<not> tr_CacheHit (lp_lastTrace lp')
    | r \<Rightarrow> hit_ok env ctx req w s r"
proof (cases rule: unary_candidate_cases [of h model env ctx req chain i lp w s1])
  case (no_key p fwd err s2)
  then show ?thesis using assms injectCredential_sel(5) [OF no_key(2)] by (simp add: missing_key_def Let_def)
next
  case (cached p fwd cx src s2 resp)
  have "cache_probe env ctx req i s = ProbeHit resp"
    using cached(3) injectCredential_sel(5) [OF cached(2)] assms(3) by (simp add: cache_probe_cong [of s2 s])
  then show ?thesis unfolding cached(4) serve_cached_def Let_def
    by (simp add: hit_ok_def setCostHeader_def) blast
next
  case (failed p fwd cx src s2 v err s3)
  have same: "g_scache s3 = g_scache s" using injectCredential_sel(5) [OF failed(2)] call_chat_sel(4) [OF failed(4)] assms(3) by simp
  show ?thesis
    by (rule upstream_failed_continues [of env h req chain i err "(attempt_trace env h ctx req p i model)\<lparr>tr_CredentialSource := src\<rparr>" lp s3])
      (simp add: failed(5) same trace_core_def)
next
  case (served p fwd cx src s2 v resp s3)
  show ?thesis
    by (rule upstream_ok_answers [OF served(5) [symmetric]]) (simp add: hit_ok_def recorded_hit [OF assms(1)] trace_core_def)
qed (simp_all add: assms hit_ok_def)

lemma new_cache_empty: "NewService (Some (NewMemoryCache cfg0)) embedder cfg = Some sv \<Longrightarrow> \<not> mem_holds (sv_cache sv) scope model b"
  by (auto simp: NewService_def NewMemoryCache_def mem_holds_def gomap_or_def split: if_splits)

text \<open>
  C5. Tenants do not see each other through the cache. Start the gateway with an empty in-process
  semantic cache and serve any sequence of requests, of any callers; if a request is then answered
  from the cache, the body is what decoding the bytes of an earlier response gives, and that
  response was stored by an earlier request with the same cache scope and the same requested model. A scope is
  the organisation of the key, or the key itself if it has no organisation.
\<close>

theorem unary_cache_isolated:
  fixes s :: "('u, semcache_Memory, 'l) GState"
  assumes "NewService (Some (NewMemoryCache cfg0)) embedder cfg = Some sv" "g_scache s = Some sv"
    and "\<forall>r \<in> set rs. ev_store (ur_env r) = mem_cache_store sha256" "ev_lookup env = mem_cache_lookup sha256"
    and "h_recorder h" "handleUnary env h ctx req chain w (fold serve rs s) = Answered w' s'" "tr_CacheHit (last (g_traces s'))"
  shows "\<exists>r \<in> set rs. cacheScope (ur_ctx r) = cacheScope ctx \<and> req_Model (ur_req r) = req_Model req
    \<and> (\<exists>resp0 b resp x. ev_marshalResp (ur_env r) resp0 = Some b \<and> ev_unmarshalResp env (copy_bytes (Some b)) = Some resp
         \<and> wr_Body w' = wr_Body w @ [Payload (ChatBody (stamp_cost x resp))])"
proof -
  let ?s = "fold serve rs s"
  have "hit_ok env ctx req w ?s (handleUnary env h ctx req chain w ?s)"
  proof (rule handleUnary_rule [where P = "\<lambda>_ lp s1. g_scache s1 = g_scache ?s \<and> \<not> tr_CacheHit (lp_lastTrace lp)"])
    fix i and lp :: Loop and s1 :: "('u, semcache_Memory, 'l) GState"
    assume "g_scache s1 = g_scache ?s \<and> \<not> tr_CacheHit (lp_lastTrace lp)"
    then show "case unary_candidate env h ctx req chain i (chain ! i) lp w s1 of
        Continue lp' s' \<Rightarrow> g_scache s' = g_scache ?s \<and> \<not> tr_CacheHit (lp_lastTrace lp') | r \<Rightarrow> hit_ok env ctx req w ?s r"
      by (intro candidate_hit_ok [OF assms(5)]) simp_all
  next
    fix lp :: Loop and s1 :: "('u, semcache_Memory, 'l) GState"
    assume "g_scache s1 = g_scache ?s \<and> \<not> tr_CacheHit (lp_lastTrace lp)"
    then show "hit_ok env ctx req w ?s (all_failed env h ctx req chain lp w s1)"
      by (simp add: hit_ok_def all_failed_def Let_def recorded_hit [OF assms(5)])
  qed (simp add: empty_Loop_def zero_Trace_def)
  then obtain i resp x where "cache_probe env ctx req i ?s = ProbeHit resp" and body: "wr_Body w' = wr_Body w @ [Payload (ChatBody (stamp_cost x resp))]"
    using assms(6,7) by (auto simp: hit_ok_def)
  from mem_cache.probe_hit_own [OF assms(2) new_cache_empty [OF assms(1)] assms(3,4) this(1)] body show ?thesis by blast
qed

lemma serve_no_cache: "g_scache s = None \<Longrightarrow> g_scache (fold serve rs s) = None"
proof (induction rs arbitrary: s)
  case (Cons r rs)
  have "cache_step (ur_handler r) (ur_env r) (ur_ctx r) (ur_req r) (g_scache s) (g_scache (serve r s))"
    unfolding serve_def by (rule handleUnary_cache_step)
  with Cons show ?case by (simp add: cache_step_def)
qed simp

lemma serve_cached_clean:
  assumes "piiHits (content0 resp) = []"
  shows "turn_clean w (serve_cached env h i n resp t lp w s)"
  using assms by (simp add: serve_cached_def Let_def turn_clean_def body_clean_def setCostHeader_def)

lemma handleUnary_clean:
  fixes s :: "('u, 'c, 'l) GState"
  assumes "redacting h" "\<And>i resp. cache_probe env ctx req i s = ProbeHit resp \<Longrightarrow> piiHits (content0 resp) = []"
  shows "turn_clean w (handleUnary env h ctx req chain w s)"
proof (rule handleUnary_rule [where P = "\<lambda>_ _ s1. g_scache s1 = g_scache s"])
  fix i lp and s1 :: "('u, 'c, 'l) GState"
  let ?r = "unary_candidate env h ctx req chain i (chain ! i) lp w s1"
  assume P: "g_scache s1 = g_scache s"
  have "turn_clean w ?r"
  proof (cases rule: unary_candidate_cases [of h "chain ! i" env ctx req chain i lp w s1])
    case (cached p fwd cx src s2 resp)
    have "cache_probe env ctx req i s = ProbeHit resp"
      using cached(3) injectCredential_sel(5) [OF cached(2)] P by (simp add: cache_probe_cong [of s2 s])
    then show ?thesis unfolding cached(4) by (intro serve_cached_clean assms(2))
  next
    case (failed p fwd cx src s2 v err s3)
    then show ?thesis by (simp add: upstream_failed_def turn_clean_def Let_def)
  next
    case (served p fwd cx src s2 v resp s3)
    then show ?thesis using upstream_ok_clean [OF assms(1)] by simp
  qed (simp_all add: turn_clean_def)
  then show "case ?r of Continue lp' s' \<Rightarrow> g_scache s' = g_scache s | r \<Rightarrow> turn_clean w r"
    using P candidate_continue_scache [of env h ctx req chain i "chain ! i" lp w s1] by (cases ?r) auto
qed (use error_clean in \<open>auto simp: all_failed_def Let_def\<close>)

text \<open>
  C6. Redaction reaches the client, from a provider and from the cache. Start the gateway with no semantic
  cache or with an empty in-process one and serve any sequence of non-streaming requests with output
  redaction on, then one more: if it is answered with a completion, the text of the first choice has
  no email, social security, phone or card number, whatever the providers answered. Neither the
  local JSON repair nor a self-correction round brings one back, and what is stored for later
  requests is the redacted response. Of the JSON codec this needs that decoding an encoded response
  gives the text of its first choice back, as \<open>encoding/json\<close> does for valid UTF-8.
\<close>

theorem unary_output_redacted:
  fixes s :: "('u, semcache_Memory, 'l) GState"
  assumes "g_scache s = None \<or> g_scache s = NewService (Some (NewMemoryCache cfg0)) embedder cfg"
    and "\<forall>r \<in> set rs. redacting (ur_handler r) \<and> ev_store (ur_env r) = mem_cache_store sha256" "ev_lookup env = mem_cache_lookup sha256"
    and codec: "\<And>r resp b resp'. r \<in> set rs \<Longrightarrow> ev_marshalResp (ur_env r) resp = Some b \<Longrightarrow>
      ev_unmarshalResp env (copy_bytes (Some b)) = Some resp' \<Longrightarrow> content0 resp' = content0 resp"
    and "redacting h" "handleUnary env h ctx req chain w (fold serve rs s) = Answered w' s'"
    and "wr_Body w' = wr_Body w @ [Payload (ChatBody resp)]"
  shows "piiHits (content0 resp) = []"
proof -
  have "piiHits (content0 hit) = []" if hit: "cache_probe env ctx req i (fold serve rs s) = ProbeHit hit" for i hit
  proof (cases "g_scache s")
    case None
    then show ?thesis using hit serve_no_cache [OF None, of rs] by (simp add: cache_probe_def)
  next
    case (Some sv)
    then have new: "NewService (Some (NewMemoryCache cfg0)) embedder cfg = Some sv" using assms(1) by simp
    from assms(2) have "\<forall>r \<in> set rs. ev_store (ur_env r) = mem_cache_store sha256" by simp
    from mem_cache.probe_hit_own [OF Some new_cache_empty [OF new] this assms(3) hit]
    show ?thesis using assms(2) codec by (fastforce simp: may_store_def)
  qed
  then have "turn_clean w (handleUnary env h ctx req chain w (fold serve rs s))"
    by (rule handleUnary_clean [OF assms(5)])
  then show ?thesis using assms(6,7) by (auto simp: turn_clean_def body_clean_def)
qed

section \<open>The first candidate\<close>

text \<open>With a shared key the first candidate is asked as the request came in.\<close>

lemma shared_inject: "h_keyMode h = KeyModeShared \<Longrightarrow> injectCredential env h ctx p s = (Inr (ctx, ''env''), s)"
  by (simp add: injectCredential_def)

lemma redact_first_empty: "resp_Choices resp = [] \<Longrightarrow> redact_first h resp t = (resp, t)"
  by (simp add: redact_first_def content0_def RedactOutput_def split: option.split)

text \<open>A plain request that the first candidate answers: the body is its response after redaction, and
  this response is what the cache gets.\<close>

lemma unary_first_served:
  assumes "Resolve (h_registry h) m = Inr (p, fwd)" "h_keyMode h = KeyModeShared" "cache_probe env ctx req 0 s = ProbeMiss v"
    and "ev_chat env (g_world s) p ctx (req\<lparr>req_Model := fwd\<rparr>) = (Inr resp, u)" "\<not> WantsJSON (req_ResponseFormat req)"
  obtains w' s' x t where "handleUnary env h ctx req (m # rest) w s = Answered w' s'"
    "wr_Body w' = wr_Body w @ [Payload (ChatBody (stamp_cost x (fst (redact_first h resp t))))]"
    "g_scache s' = g_scache (cache_put env ctx req 0 v (fst (redact_first h resp t)) s)"
proof -
  define s1 where "s1 = s\<lparr>g_world := u, g_calls := g_calls s @ [(p, ctx, req\<lparr>req_Model := fwd\<rparr>)]\<rparr>"
  define t1 where "t1 = ((attempt_trace env h ctx req p 0 m)\<lparr>tr_CredentialSource := ''env''\<rparr>)\<lparr>tr_LatencyMs := ev_latency env 0,
    tr_StatusCode := 200, tr_ResponseModel := resp_Model resp, tr_InputTokens := us_PromptTokens (resp_Usage resp),
    tr_OutputTokens := us_CompletionTokens (resp_Usage resp)\<rparr>"
  obtain resp1 t2 where red: "redact_first h resp t1 = (resp1, t2)" by fastforce
  have "\<exists>t3. unary_candidate env h ctx req (m # rest) 0 m empty_Loop w s
      = deliver env h ctx req 0 (length (m # rest)) v resp1 t3 empty_Loop w s1"
    using assms red redact_first_empty [of resp h t1]
    by (auto simp: unary_candidate_def shared_inject call_chat_def upstream_ok_def output_guardrails_def allow_def Let_def
        attempt_trace_def t1_def s1_def)
  then obtain t3 where cand: "unary_candidate env h ctx req (m # rest) 0 m empty_Loop w s
      = deliver env h ctx req 0 (length (m # rest)) v resp1 t3 empty_Loop w s1" ..
  show thesis
  proof (insert deliver_answers [OF cand [symmetric]], elim exE conjE)
    fix w' s' t' rs
    assume A: "unary_candidate env h ctx req (m # rest) 0 m empty_Loop w s = Answered w' s'"
      "answered_once w w' 200 (Payload (ChatBody (stamp_cost (tr_CostUSD t') resp1)))"
      "s' = recordSpend env ctx (tr_CostUSD t') (recordEvidence h t' (lp_attempts empty_Loop @ [attemptFromTrace t' 0 (length (m # rest))]) rs
         (cache_put env ctx req 0 v resp1 s1))"
    have "g_scache (cache_put env ctx req 0 v resp1 s1) = g_scache (cache_put env ctx req 0 v resp1 s)"
      by (simp add: cache_put_def s1_def split: option.split)
    with A show thesis
      by (intro that [of w' s' "tr_CostUSD t'" t1]) (simp_all add: handleUnary_def red answered_once_def)
  qed
qed

lemma unary_first_cached:
  assumes "Resolve (h_registry h) m = Inr (p, fwd)" "h_keyMode h = KeyModeShared" "cache_probe env ctx req 0 s = ProbeHit resp" "h_recorder h"
  shows "\<exists>w' s'. handleUnary env h ctx req (m # rest) w s = Answered w' s' \<and> tr_CacheHit (last (g_traces s'))
    \<and> (\<exists>x. wr_Body w' = wr_Body w @ [Payload (ChatBody (stamp_cost x resp))])"
  using assms
  by (auto simp: setCostHeader_def handleUnary_def unary_candidate_def shared_inject serve_cached_def recorded_hit [OF assms(4)] Let_def)

text \<open>
  C33. Redaction stops at the first choice. When a request asks for several completions (and for no JSON),
  the client gets every choice after the first exactly as the provider wrote it, whatever the
  guardrails are set to.
\<close>

theorem further_choices_not_redacted:
  assumes "Resolve (h_registry h) m = Inr (p, fwd)" "h_keyMode h = KeyModeShared" "g_scache s = None"
    and "ev_chat env (g_world s) p ctx (req\<lparr>req_Model := fwd\<rparr>) = (Inr resp, u)" "\<not> WantsJSON (req_ResponseFormat req)"
  shows "\<exists>w' s' resp'. handleUnary env h ctx req (m # rest) w s = Answered w' s'
    \<and> wr_Body w' = wr_Body w @ [Payload (ChatBody resp')] \<and> tl (resp_Choices resp') = tl (resp_Choices resp)"
proof -
  have miss: "cache_probe env ctx req 0 s = ProbeMiss []" using assms(3) by (simp add: cache_probe_def)
  have same: "tl (resp_Choices (stamp_cost x (fst (redact_first h resp t)))) = tl (resp_Choices resp)" for x t
    by (simp add: redact_first_def stamp_cost_def set_content0_def split: prod.split bool.split list.split)
  show ?thesis
    by (rule unary_first_served [OF assms(1,2) miss assms(4,5), where rest = rest and w = w]) (use same in blast)
qed

section \<open>The cost of a correction\<close>

lemma self_correct_done: "\<not> fi_Blocked (co_f c) \<Longrightarrow> self_correct env h p cx schema n c = c"
  by (cases n) simp_all

lemma plain_redact: "RedactOutput (h_guard h) (content0 resp) = (x, False) \<Longrightarrow> redact_first h resp t = (resp, t)"
  by (simp add: redact_first_def)

text \<open>
  C32. A corrected response is billed for its last call only. When the first answer of a provider fails
  the JSON check and the second passes, the trace adds up the tokens of both calls, but the cost it
  records, and with it the amount charged to the key, is the price of the second call alone.
\<close>

theorem self_correction_bills_last_call:
  assumes "Resolve (h_registry h) m = Inr (p, fwd)" "h_keyMode h = KeyModeShared" "g_scache s = None" "h_recorder h"
    and "WantsJSON (req_ResponseFormat req)" "0 < h_selfCorrectMax h" "resp_Choices r1 \<noteq> []" "resp_Choices r2 \<noteq> []"
    and "RedactOutput (h_guard h) (content0 r1) = (content0 r1, False)" "RedactOutput (h_guard h) (content0 r2) = (content0 r2, False)"
    and "ev_chat env (g_world s) p ctx (req\<lparr>req_Model := fwd\<rparr>) = (Inr r1, u1)"
    and "validateOrRepairJSON env h (content0 r1) (SchemaBytes (req_ResponseFormat req)) = (c1, f1, b1)" "fi_Blocked f1"
    and "ev_chat env u1 p ctx (withSchemaCorrection (req\<lparr>req_Model := fwd\<rparr>) c1 (fi_Reason f1)) = (Inr r2, u2)"
    and "validateOrRepairJSON env h (content0 r2) (SchemaBytes (req_ResponseFormat req)) = (c2, f2, b2)" "\<not> fi_Blocked f2"
  shows "\<exists>w' s' t. handleUnary env h ctx req (m # rest) w s = Answered w' s' \<and> t = last (g_traces s')
    \<and> tr_InputTokens t = us_PromptTokens (resp_Usage r1) + us_PromptTokens (resp_Usage r2)
    \<and> tr_OutputTokens t = us_CompletionTokens (resp_Usage r1) + us_CompletionTokens (resp_Usage r2)
    \<and> tr_CostUSD t = ResolveCostUSD (us_EstimatedCost (resp_Usage r2)) m (resp_Model r2) (Some (resp_Usage r2))
    \<and> g_limiter s' = map_option (record_spend (ev_addSpend env) (nat (Unix (ev_now env))) ctx (tr_CostUSD t)) (g_limiter s)"
proof -
  let ?schema = "SchemaBytes (req_ResponseFormat req)" and ?rq = "req\<lparr>req_Model := fwd\<rparr>"
  obtain n where n: "nat (h_selfCorrectMax h) = Suc n" using assms(6) by (cases "nat (h_selfCorrectMax h)") auto
  define s1 where "s1 = s\<lparr>g_world := u1, g_calls := g_calls s @ [(p, ctx, ?rq)]\<rparr>"
  define s2 where "s2 = s1\<lparr>g_world := u2, g_calls := g_calls s1 @ [(p, ctx, withSchemaCorrection ?rq c1 (fi_Reason f1))]\<rparr>"
  define t1 where "t1 = ((attempt_trace env h ctx req p 0 m)\<lparr>tr_CredentialSource := ''env''\<rparr>)\<lparr>tr_LatencyMs := ev_latency env 0,
    tr_StatusCode := 200, tr_ResponseModel := resp_Model r1, tr_InputTokens := us_PromptTokens (resp_Usage r1),
    tr_OutputTokens := us_CompletionTokens (resp_Usage r1)\<rparr>"
  define t2 where "t2 = t1\<lparr>tr_InputTokens := tr_InputTokens t1 + us_PromptTokens (resp_Usage r2),
    tr_OutputTokens := tr_OutputTokens t1 + us_CompletionTokens (resp_Usage r2), tr_ResponseModel := resp_Model r2\<rparr>"
  define c0 where "c0 = \<lparr>co_attempt = ?rq, co_resp = set_content0 c1 r1, co_trace = t1, co_f = f1,
    co_repaired = b1, co_corrected = 0, co_state = s1\<rparr>"
  have once: "\<exists>c'. correct_once env h p ctx ?schema c0 = (c', True) \<and> co_f c' = f2 \<and> co_resp c' = set_content0 c2 r2
      \<and> co_trace c' = t2 \<and> co_state c' = s2"
    using assms by (simp add: correct_once_def c0_def call_chat_def s1_def s2_def t2_def Let_def)
  then obtain c' where c': "self_correct env h p ctx ?schema (Suc n) c0 = c'" "co_f c' = f2" "co_resp c' = set_content0 c2 r2"
      "co_trace c' = t2" "co_state c' = s2"
    using assms(13,16) by (auto simp: c0_def self_correct_done)
  define c where "c = output_guardrails env h p ctx req ?rq r1 t1 s1"
  have c: "co_f c = f2" "co_resp c = set_content0 c2 r2" "co_state c = s2" "tr_InputTokens (co_trace c) = tr_InputTokens t2"
      "tr_OutputTokens (co_trace c) = tr_OutputTokens t2" "trace_core (co_trace c) = trace_core t2" "tr_ResponseModel (co_trace c) = resp_Model r2"
    using assms(5,12) c' n unfolding c_def output_guardrails_def Let_def
    by (simp_all add: plain_redact [OF assms(9)] flip: c0_def) (simp_all add: t2_def trace_core_def)
  let ?t3 = "(co_trace c)\<lparr>tr_FinishReason := finish0 (co_resp c), tr_OutputMessages := content0 (co_resp c)\<rparr>"
  have cand: "unary_candidate env h ctx req (m # rest) 0 m empty_Loop w s
      = deliver env h ctx req 0 (length (m # rest)) [] (co_resp c) ?t3 empty_Loop w (co_state c)"
    using assms(1-3,7,11,16) c(1)
    by (simp add: unary_candidate_def shared_inject cache_probe_def call_chat_def upstream_ok_def Let_def
        attempt_trace_def [where i = 0, symmetric, simplified] t1_def [symmetric] s1_def [symmetric] c_def [symmetric])
  show ?thesis
  proof (insert deliver_answers [OF cand [symmetric]], elim exE conjE)
    fix w' s' t' rs
    let ?as = "lp_attempts empty_Loop @ [attemptFromTrace t' 0 (length (m # rest))]"
    assume A: "unary_candidate env h ctx req (m # rest) 0 m empty_Loop w s = Answered w' s'"
      and s': "s' = recordSpend env ctx (tr_CostUSD t') (recordEvidence h t' ?as rs (cache_put env ctx req 0 [] (co_resp c) (co_state c)))"
      and core: "trace_core t' = (tr_TraceID ?t3, ResolveCostUSD (us_EstimatedCost (resp_Usage (co_resp c))) (tr_RequestModel ?t3)
        (tr_ResponseModel ?t3) (Some (resp_Usage (co_resp c))), tr_RequestModel ?t3, tr_StatusCode ?t3, tr_CacheHit ?t3)"
      and tok: "tr_InputTokens t' = tr_InputTokens ?t3" "tr_OutputTokens t' = tr_OutputTokens ?t3"
    obtain t where t: "g_traces s' = g_traces (cache_put env ctx req 0 [] (co_resp c) (co_state c)) @ [t]" "tr_CostUSD t = tr_CostUSD t'"
        "tr_InputTokens t = tr_InputTokens t'" "tr_OutputTokens t = tr_OutputTokens t'"
      using recordEvidence_traces [OF assms(4), of t' ?as rs "cache_put env ctx req 0 [] (co_resp c) (co_state c)"] unfolding s' by auto
    have "handleUnary env h ctx req (m # rest) w s = Answered w' s'" using A by (simp add: handleUnary_def)
    moreover have "tr_CostUSD t' = ResolveCostUSD (us_EstimatedCost (resp_Usage r2)) m (resp_Model r2) (Some (resp_Usage r2))"
      using core c by (simp add: trace_core_def t2_def t1_def)
    moreover have "g_limiter (co_state c) = g_limiter s" by (simp add: c s2_def s1_def)
    ultimately show ?thesis using t tok c by (auto simp: t2_def t1_def s')
  qed
qed

section \<open>The properties on the small gateway\<close>

text \<open>A provider that writes an address into both choices of its answer, and codecs that keep the text of
  the first.\<close>

definition demo_leak :: ChatCompletionResponse where
  "demo_leak = (demo_response ''mail a@b.co'')\<lparr>resp_Choices :=
     [\<lparr>ch_Index = 0, ch_Message = plain_message ''assistant'' ''mail a@b.co'', ch_FinishReason = ''stop''\<rparr>,
      \<lparr>ch_Index = 1, ch_Message = plain_message ''assistant'' ''mail a@b.co'', ch_FinishReason = ''stop''\<rparr>]\<rparr>"

definition demo_leak_env :: "(unit, semcache_Memory, Memory, unit, unit, unit) Env" where
  "demo_leak_env = (demo_env (\<lambda>_. Inr demo_leak))\<lparr>ev_marshalResp := (\<lambda>r. Some (content0 r)),
     ev_unmarshalResp := map_option demo_response\<rparr>"

lemma demo_leak_hits: "piiHits ''mail a@b.co'' \<noteq> []"
  by code_simp

lemma demo_leak_redacted: "content0 (fst (redact_first (demo_handler (Some demo_guard)) demo_leak t)) \<noteq> []"
proof -
  have "fst (RedactOutput (Some demo_guard) ''mail a@b.co'') \<noteq> []" by code_simp
  then show ?thesis
    by (auto simp: redact_first_def demo_handler_def demo_leak_def demo_response_def content0_def set_content0_def plain_message_def
        split: prod.split bool.split)
qed

lemma demo_leak_chat: "ev_chat demo_leak_env u p cx rq = (Inr demo_leak, u)"
  by (simp add: demo_leak_env_def demo_env_def)

theorem further_choices_not_redacted_witness:
  "\<exists>w' s' resp'. handleUnary demo_leak_env (demo_handler (Some demo_guard)) emptyCtx demo_request [''n''] new_writer (demo_state None) = Answered w' s'
    \<and> wr_Body w' = wr_Body (new_writer :: gw_body Writer) @ [Payload (ChatBody resp')]
    \<and> tl (resp_Choices resp') = tl (resp_Choices demo_leak) \<and> piiHits (msg_Content (ch_Message (hd (tl (resp_Choices resp'))))) \<noteq> []"
proof -
  have "\<exists>w' s' resp'. handleUnary demo_leak_env (demo_handler (Some demo_guard)) emptyCtx demo_request [''n''] new_writer (demo_state None) = Answered w' s'
    \<and> wr_Body w' = wr_Body (new_writer :: gw_body Writer) @ [Payload (ChatBody resp')] \<and> tl (resp_Choices resp') = tl (resp_Choices demo_leak)"
    by (rule further_choices_not_redacted [OF _ _ _ demo_leak_chat demo_served(4)]) (simp_all add: demo_served demo_resolve demo_state_def)
  moreover have "piiHits (msg_Content (ch_Message (hd (tl (resp_Choices demo_leak))))) \<noteq> []"
    using demo_leak_hits by (simp add: demo_leak_def plain_message_def)
  ultimately show ?thesis by metis
qed

theorem failover_alerts_witness:
  "\<exists>is es. g_notes (state_of (handleUnary (demo_env demo_answer) (demo_handler None) emptyCtx demo_request [''m'', ''n''] new_writer (demo_state None))) = [] @ es
    \<and> sorted_wrt (<) is \<and> list_all2 (\<lambda>i e. Suc i < length [''m'', ''n''] \<and> fe_Primary e = [''m'', ''n''] ! i \<and> fe_Fallback e = [''m'', ''n''] ! Suc i
         \<and> fe_Tried e = take (Suc i) [''m'', ''n''] \<and> fe_Alias e = []) is es"
  using failover_alerts [where h = "demo_handler None" and req = demo_request and s = "demo_state None" and env = "demo_env demo_answer"
      and ctx = emptyCtx and chain = "[''m'', ''n'']" and w = new_writer]
  by (simp add: demo_handler_def demo_request_def demo_state_def)

definition demo_exchange :: "(unit, semcache_Memory, Memory, unit, unit, unit) unary_request" where
  "demo_exchange = \<lparr>ur_env = demo_env demo_answer, ur_handler = demo_handler None, ur_ctx = emptyCtx, ur_req = demo_request, ur_chain = [''n'']\<rparr>"

theorem unary_cache_isolated_witness:
  "\<exists>s w' s'. handleUnary (demo_env demo_answer) (demo_handler None) emptyCtx demo_request [''n''] new_writer (fold serve [demo_exchange] s) = Answered w' s'
    \<and> (\<exists>r \<in> set [demo_exchange]. cacheScope (ur_ctx r) = cacheScope emptyCtx \<and> req_Model (ur_req r) = req_Model demo_request
    \<and> (\<exists>resp0 b resp x. ev_marshalResp (ur_env r) resp0 = Some b \<and> ev_unmarshalResp (demo_env demo_answer) (copy_bytes (Some b)) = Some resp
         \<and> wr_Body w' = wr_Body (new_writer :: gw_body Writer) @ [Payload (ChatBody (stamp_cost x resp))]))"
proof -
  let ?env = "demo_env demo_answer" and ?h = "demo_handler None"
  obtain sv where sv: "NewService (Some (NewMemoryCache exact_cfg)) None exact_cfg = Some sv"
    by (simp add: NewService_def exact_cfg_def)
  define s where "s = demo_state (Some sv)"
  note cache_defs = NewService_def exact_cfg_def effectiveConfig_def Let_def Service_Lookup_def Service_Store_def mem_cache_lookup_def
    mem_cache_store_def Memory_Lookup_def Memory_Store_def NewMemoryCache_def gomap_or_def scan_entries_def findExact_def
    promptHash_def hex_EncodeToString_def copy_bytes_def entry_expired_def Unix_def
  have elig: "cacheEligible demo_request" by (simp add: cacheEligible_def demo_request_def)
  have pt: "promptText (req_Messages demo_request) \<noteq> []" by code_simp
  have miss: "cache_probe ?env emptyCtx demo_request 0 s = ProbeMiss []"
    using sv by (auto simp: cache_probe_def elig s_def demo_state_def demo_env_def cache_defs)
  have "\<exists>resp. g_scache (serve demo_exchange s) = g_scache (cache_put ?env emptyCtx demo_request 0 [] resp s)"
    by (rule unary_first_served [where h = ?h and m = "''n''" and s = s and rest = "[]" and env = ?env and req = demo_request
        and ctx = emptyCtx and w = new_writer, OF _ _ miss demo_served(3,4)])
      (auto simp: demo_served demo_resolve serve_def demo_exchange_def)
  then obtain resp where sc: "g_scache (serve demo_exchange s) = g_scache (cache_put ?env emptyCtx demo_request 0 [] resp s)" ..
  have hit: "cache_probe ?env emptyCtx demo_request 0 (serve demo_exchange s) = ProbeHit (demo_response ''hello'')"
    unfolding cache_probe_cong [OF sc]
    using sv pt by (auto simp: cache_probe_def cache_put_def elig s_def demo_state_def demo_env_def cache_defs)
  have "\<exists>w' s'. handleUnary ?env ?h emptyCtx demo_request [''n''] new_writer (serve demo_exchange s) = Answered w' s' \<and> tr_CacheHit (last (g_traces s'))"
    using unary_first_cached [OF _ _ hit, where h = ?h and m = "''n''" and rest = "[]" and w = new_writer]
    by (auto simp: demo_served demo_resolve demo_handler_def)
  then obtain w' s' where run: "handleUnary ?env ?h emptyCtx demo_request [''n''] new_writer (fold serve [demo_exchange] s) = Answered w' s'"
      "tr_CacheHit (last (g_traces s'))" by auto
  have "g_scache s = Some sv" by (simp add: s_def demo_state_def)
  from unary_cache_isolated [where ?sha256.0 = id, OF sv this _ _ _ run] run(1) show ?thesis
    by (intro exI [of _ s] exI [of _ w'] exI [of _ s']) (simp add: demo_exchange_def demo_env_def demo_handler_def)
qed

definition demo_leak_exchange :: "(unit, semcache_Memory, Memory, unit, unit, unit) unary_request" where
  "demo_leak_exchange = \<lparr>ur_env = demo_leak_env, ur_handler = demo_handler (Some demo_guard), ur_ctx = emptyCtx, ur_req = demo_request, ur_chain = [''n'']\<rparr>"

lemma demo_redacting: "redacting (demo_handler (Some demo_guard))"
  by (simp add: redacting_def demo_handler_def demo_guard_def)

lemma demo_leak_codec:
  "ur_handler demo_leak_exchange = demo_handler (Some demo_guard)" "ur_env demo_leak_exchange = demo_leak_env"
  "ev_store demo_leak_env = mem_cache_store id" "ev_lookup demo_leak_env = mem_cache_lookup id"
  "ev_marshalResp demo_leak_env r = Some b \<Longrightarrow> ev_unmarshalResp demo_leak_env (copy_bytes (Some b)) = Some r' \<Longrightarrow> content0 r' = content0 r"
proof -
  show "content0 r' = content0 r" if "ev_marshalResp demo_leak_env r = Some b" "ev_unmarshalResp demo_leak_env (copy_bytes (Some b)) = Some r'"
  proof -
    from that have "r' = demo_response (content0 r)" by (auto simp: demo_leak_env_def copy_bytes_def split: if_splits)
    then show ?thesis by (simp add: demo_response_def content0_def plain_message_def)
  qed
qed (simp_all add: demo_leak_exchange_def demo_leak_env_def demo_env_def)

theorem unary_output_redacted_witness:
  "\<exists>sv w' s' resp. NewService (Some (NewMemoryCache exact_cfg)) None exact_cfg = Some sv
    \<and> handleUnary demo_leak_env (demo_handler (Some demo_guard)) emptyCtx demo_request [''n''] new_writer
        (fold serve [demo_leak_exchange] (demo_state (Some sv))) = Answered w' s'
    \<and> tr_CacheHit (last (g_traces s')) \<and> wr_Body w' = [Payload (ChatBody resp)] \<and> piiHits (content0 resp) = []"
proof -
  let ?env = demo_leak_env and ?h = "demo_handler (Some demo_guard)"
  obtain sv where sv: "NewService (Some (NewMemoryCache exact_cfg)) None exact_cfg = Some sv"
    by (simp add: NewService_def exact_cfg_def)
  define s where "s = demo_state (Some sv)"
  note cache_defs = NewService_def exact_cfg_def effectiveConfig_def Let_def Service_Lookup_def Service_Store_def mem_cache_lookup_def
    mem_cache_store_def Memory_Lookup_def Memory_Store_def NewMemoryCache_def gomap_or_def scan_entries_def findExact_def
    promptHash_def hex_EncodeToString_def copy_bytes_def entry_expired_def Unix_def
  have elig: "cacheEligible demo_request" by (simp add: cacheEligible_def demo_request_def)
  have pt: "promptText (req_Messages demo_request) \<noteq> []" by code_simp
  have miss: "cache_probe ?env emptyCtx demo_request 0 s = ProbeMiss []"
    using sv by (auto simp: cache_probe_def elig s_def demo_state_def demo_leak_env_def demo_env_def cache_defs)
  have "\<exists>t. g_scache (serve demo_leak_exchange s)
      = g_scache (cache_put ?env emptyCtx demo_request 0 [] (fst (redact_first ?h demo_leak t)) s)"
    by (rule unary_first_served [where h = ?h and m = "''n''" and s = s and rest = "[]" and env = ?env and req = demo_request
        and ctx = emptyCtx and w = new_writer, OF _ _ miss demo_leak_chat demo_served(4)])
      (auto simp: demo_served demo_resolve serve_def demo_leak_exchange_def)
  then obtain resp where resp: "content0 resp \<noteq> []"
    and sc: "g_scache (serve demo_leak_exchange s) = g_scache (cache_put ?env emptyCtx demo_request 0 [] resp s)"
    using demo_leak_redacted by metis
  have hit: "cache_probe ?env emptyCtx demo_request 0 (serve demo_leak_exchange s) = ProbeHit (demo_response (content0 resp))"
    unfolding cache_probe_cong [OF sc]
    using sv pt resp by (auto simp: cache_probe_def cache_put_def elig s_def demo_state_def demo_leak_env_def demo_env_def cache_defs)
  have "\<exists>w' s'. handleUnary ?env ?h emptyCtx demo_request [''n''] new_writer (serve demo_leak_exchange s) = Answered w' s' \<and> tr_CacheHit (last (g_traces s'))
      \<and> (\<exists>x. wr_Body w' = wr_Body (new_writer :: gw_body Writer) @ [Payload (ChatBody (stamp_cost x (demo_response (content0 resp))))])"
    by (rule unary_first_cached [OF _ _ hit]) (simp_all add: demo_served demo_resolve demo_handler_def)
  then obtain w' s' x where run: "handleUnary ?env ?h emptyCtx demo_request [''n''] new_writer (fold serve [demo_leak_exchange] s) = Answered w' s'"
      "tr_CacheHit (last (g_traces s'))" and body: "wr_Body w' = wr_Body (new_writer :: gw_body Writer) @ [Payload (ChatBody (stamp_cost x (demo_response (content0 resp))))]"
    by auto
  have "g_scache s = None \<or> g_scache s = NewService (Some (NewMemoryCache exact_cfg)) None exact_cfg" using sv by (simp add: s_def demo_state_def)
  then have "piiHits (content0 (stamp_cost x (demo_response (content0 resp)))) = []"
    by (rule unary_output_redacted [where ?sha256.0 = id, OF _ _ _ _ demo_redacting run(1) body]) (simp_all add: demo_leak_codec demo_redacting)
  then show ?thesis using sv run body unfolding s_def new_writer_def by (intro exI conjI) (assumption | simp)+
qed

text \<open>A provider that breaks the format once, and answers well when it is told so.\<close>

definition demo_retry :: "ChatCompletionRequest \<Rightarrow> ChatCompletionResponse" where
  "demo_retry req = (demo_response (if length (req_Messages req) = 1 then ''oops'' else ''{}''))\<lparr>resp_Usage := zero_Usage\<lparr>us_PromptTokens := 10\<rparr>\<rparr>"

definition demo_retry_env :: "(unit, semcache_Memory, Memory, unit, unit, unit) Env" where
  "demo_retry_env = (demo_env demo_answer)\<lparr>ev_chat := \<lambda>u p ctx req. (Inr (demo_retry req), u),
     ev_unmarshalDoc := \<lambda>x. if x = ''{}'' then Inr () else Inl ''bad''\<rparr>"

definition demo_json_request :: ChatCompletionRequest where
  "demo_json_request = demo_request\<lparr>req_ResponseFormat := Some \<lparr>rf_Type = ''json_object'', rf_JSONSchema = None\<rparr>\<rparr>"

theorem self_correction_bills_last_call_witness:
  "\<exists>w' s' t. handleUnary demo_retry_env (demo_handler (Some demo_guard)) emptyCtx demo_json_request [''n''] new_writer (demo_state None) = Answered w' s'
    \<and> t = last (g_traces s') \<and> tr_InputTokens t = 20"
proof -
  let ?env = demo_retry_env and ?h = "demo_handler (Some demo_guard)" and ?rq = "demo_json_request\<lparr>req_Model := ''n''\<rparr>"
  have red: "RedactOutput (Some demo_guard) ''oops'' = (''oops'', False)" "RedactOutput (Some demo_guard) ''{}'' = (''{}'', False)"
    by code_simp+
  note check_defs = validateOrRepairJSON_def CheckJSONOutput_def demo_retry_env_def demo_env_def demo_handler_def demo_guard_def allow_def Let_def
  have rep: "\<not> snd (RepairJSON ''oops'')" by code_simp
  have bad: "validateOrRepairJSON ?env ?h ''oops'' [] = (''oops'', \<lparr>fi_Blocked = True, fi_Rule = ''json_output'',
      fi_Reason = ''response is not valid JSON: bad''\<rparr>, False)"
    using rep by (cases "RepairJSON ''oops''") (simp add: check_defs)
  have good: "validateOrRepairJSON ?env ?h ''{}'' [] = (''{}'', allow, False)" by (simp add: check_defs)
  have chat: "ev_chat ?env u p cx rq = (Inr (demo_retry rq), u)" for u p cx rq by (simp add: demo_retry_env_def)
  have retry: "content0 (demo_retry ?rq) = ''oops''" "content0 (demo_retry (withSchemaCorrection ?rq c r)) = ''{}''"
    "resp_Choices (demo_retry rq) \<noteq> []" "us_PromptTokens (resp_Usage (demo_retry rq)) = 10" for c r rq
    by (simp_all add: demo_retry_def demo_json_request_def demo_request_def withSchemaCorrection_def content0_def plain_message_def
        demo_response_def)
  have hs: "h_recorder ?h" "0 < h_selfCorrectMax ?h" "h_guard ?h = Some demo_guard" "g_scache (demo_state None) = None"
    "WantsJSON (req_ResponseFormat demo_json_request)" "SchemaBytes (req_ResponseFormat demo_json_request) = []"
    by (simp_all add: demo_handler_def demo_state_def demo_json_request_def WantsJSON_def SchemaBytes_def)
  show ?thesis
    using self_correction_bills_last_call [where h = ?h and m = "''n''" and env = ?env and req = demo_json_request and ctx = emptyCtx
      and s = "demo_state None" and rest = "[]" and w = new_writer and p = "demo_provider ''q'' ''n''" and ?c1.0 = "''oops''" and ?b1.0 = False
      and ?f1.0 = "\<lparr>fi_Blocked = True, fi_Rule = ''json_output'', fi_Reason = ''response is not valid JSON: bad''\<rparr>"
      and ?c2.0 = "''{}''" and ?f2.0 = allow and ?b2.0 = False, OF _ _ _ _ _ _ _ _ _ _ chat _ _ chat] red bad good hs
    by (simp add: demo_served demo_resolve retry) (auto simp: allow_def)
qed

end
