(* ===== verification/Netip.thy ===== *)
theory Netip
  imports Nexus_Prelude "HOL-Library.Word"
begin

text \<open>
  The part of Go's \<open>net\<close>, \<open>net/netip\<close> and \<open>net/url\<close> that the address policies call: addresses with
  zones, prefixes, their text forms, and host and port of an authority. An address is a machine
  word of its width. Parse errors carry a text that no caller looks at, so they are \<open>None\<close>.
\<close>

unbundle bit_operations_syntax

section \<open>Text\<close>

text \<open>\<open>strings.Split(s, sep)\<close> for a one-byte separator.\<close>

fun strings_Split :: "char \<Rightarrow> string \<Rightarrow> string list" where
  "strings_Split c [] = [[]]"
| "strings_Split c (x # xs) =
     (if x = c then [] # strings_Split c xs
      else case strings_Split c xs of [] \<Rightarrow> [[x]] | f # fs \<Rightarrow> (x # f) # fs)"

text \<open>The text before and after the last occurrence of a byte.\<close>

definition cut_last :: "char \<Rightarrow> string \<Rightarrow> (string \<times> string) option" where
  "cut_last c s = map_option (\<lambda>(b, a). (rev a, rev b)) (strings_Cut c (rev s))"

definition hex_val :: "char \<Rightarrow> int" where
  "hex_val c = (let n = of_char c in if 97 \<le> n \<and> n \<le> 102 then n - 87 else if 65 \<le> n \<and> n \<le> 70 then n - 55 else n - 48)"

definition is_hex :: "char \<Rightarrow> bool" where
  "is_hex c = (let n = of_char c :: int in 48 \<le> n \<and> n \<le> 57 \<or> 97 \<le> n \<and> n \<le> 102 \<or> 65 \<le> n \<and> n \<le> 70)"

definition hex_text_val :: "string \<Rightarrow> int" where
  "hex_text_val s = foldl (\<lambda>a c. 16 * a + hex_val c) 0 s"

section \<open>Addresses\<close>

text \<open>\<open>netip.Addr\<close>; the second field of an IPv6 address is its zone, empty when there is none.\<close>

datatype Addr = IPv4 "32 word" | IPv6 "128 word" string

definition Is4 :: "Addr \<Rightarrow> bool" where
  "Is4 a = (case a of IPv4 _ \<Rightarrow> True | IPv6 _ _ \<Rightarrow> False)"

definition zone :: "Addr \<Rightarrow> string" where
  "zone a = (case a of IPv4 _ \<Rightarrow> [] | IPv6 _ z \<Rightarrow> z)"

definition Is4In6 :: "Addr \<Rightarrow> bool" where
  "Is4In6 a = (case a of IPv4 _ \<Rightarrow> False | IPv6 w _ \<Rightarrow> drop_bit 32 w = 0xFFFF)"

definition Unmap :: "Addr \<Rightarrow> Addr" where
  "Unmap a = (case a of IPv4 w \<Rightarrow> IPv4 w | IPv6 w z \<Rightarrow> if drop_bit 32 w = 0xFFFF then IPv4 (ucast w) else IPv6 w z)"

text \<open>The tests see through an IPv4-mapped address and do not look at the zone.\<close>

definition IsLoopback :: "Addr \<Rightarrow> bool" where
  "IsLoopback a = (case Unmap a of IPv4 w \<Rightarrow> drop_bit 24 w = 127 | IPv6 w _ \<Rightarrow> w = 1)"

definition IsLinkLocalUnicast :: "Addr \<Rightarrow> bool" where
  "IsLinkLocalUnicast a = (case Unmap a of IPv4 w \<Rightarrow> drop_bit 16 w = 0xA9FE | IPv6 w _ \<Rightarrow> drop_bit 118 w = 0x3FA)"

definition IsLinkLocalMulticast :: "Addr \<Rightarrow> bool" where
  "IsLinkLocalMulticast a =
     (case Unmap a of IPv4 w \<Rightarrow> drop_bit 8 w = 0xE00000 | IPv6 w _ \<Rightarrow> drop_bit 112 w AND 0xFF0F = 0xFF02)"

subsection \<open>Reading\<close>

definition dec_val :: "string \<Rightarrow> int" where
  "dec_val s = foldl (\<lambda>a c. 10 * a + (of_char c - 48)) 0 s"

definition octet :: "string \<Rightarrow> int option" where
  "octet f =
     (if f = [] \<or> \<not> list_all is_digit f \<or> (length f > 1 \<and> hd f = CHR ''0'') \<or> dec_val f > 255 then None
      else Some (dec_val f))"

definition parse_octets :: "string \<Rightarrow> int list option" where
  "parse_octets s =
     (let fs = map octet (strings_Split (CHR ''.'') s)
      in if length fs = 4 \<and> list_all (\<lambda>f. f \<noteq> None) fs then Some (map the fs) else None)"

definition join_words :: "int \<Rightarrow> int list \<Rightarrow> int" where
  "join_words base ws = foldl (\<lambda>a w. base * a + w) 0 ws"

definition parseIPv4 :: "string \<Rightarrow> Addr option" where
  "parseIPv4 s = map_option (\<lambda>os. IPv4 (of_int (join_words 256 os))) (parse_octets s)"

text \<open>The group loop of \<open>parseIPv6\<close>: \<open>k\<close> groups are still possible, \<open>gs\<close> are the groups read, \<open>e\<close> is
  the position of the ellipsis.\<close>

fun ipv6_groups :: "nat \<Rightarrow> string \<Rightarrow> int list \<Rightarrow> nat option \<Rightarrow> (int list \<times> nat option \<times> string) option" where
  "ipv6_groups 0 s gs e = Some (gs, e, s)"
| "ipv6_groups (Suc k) s gs e =
     (let d = takeWhile is_hex s; r = dropWhile is_hex s in
      if d = [] \<or> length d > 4 then None
      else if r \<noteq> [] \<and> hd r = CHR ''.'' then
        (if e = None \<and> length gs \<noteq> 6 \<or> length gs + 2 > 8 then None
         else case parse_octets s of
           Some [a, b, c, x] \<Rightarrow> Some (gs @ [256 * a + b, 256 * c + x], e, [])
         | _ \<Rightarrow> None)
      else
        let gs = gs @ [hex_text_val d] in
        if r = [] then Some (gs, e, [])
        else if hd r \<noteq> CHR '':'' \<or> length r = 1 then None
        else
          let s = tl r in
          if hd s = CHR '':'' then
            (if e \<noteq> None then None
             else if tl s = [] then Some (gs, Some (length gs), [])
             else ipv6_groups k (tl s) gs (Some (length gs)))
          else ipv6_groups k s gs e)"

definition expand_groups :: "int list \<Rightarrow> nat option \<Rightarrow> int list option" where
  "expand_groups gs e =
     (case e of
        None \<Rightarrow> if length gs < 8 then None else Some gs
      | Some i \<Rightarrow> if length gs < 8 then Some (take i gs @ replicate (8 - length gs) 0 @ drop i gs) else None)"

definition parseIPv6 :: "string \<Rightarrow> Addr option" where
  "parseIPv6 s =
     (let (s, z) = (case strings_Cut (CHR ''%'') s of None \<Rightarrow> (s, None) | Some (a, b) \<Rightarrow> (a, Some b)) in
      if z = Some [] then None
      else
        let z = (case z of None \<Rightarrow> [] | Some b \<Rightarrow> b);
            lead = (length s \<ge> 2 \<and> take 2 s = ''::'') in
        if lead \<and> length s = 2 then Some (IPv6 0 z)
        else case ipv6_groups 8 (if lead then drop 2 s else s) [] (if lead then Some 0 else None) of
          Some (gs, e, []) \<Rightarrow> map_option (\<lambda>ws. IPv6 (of_int (join_words 65536 ws)) z) (expand_groups gs e)
        | _ \<Rightarrow> None)"

definition ParseAddr :: "string \<Rightarrow> Addr option" where
  "ParseAddr s =
     (case find (\<lambda>c. c = CHR ''.'' \<or> c = CHR '':'' \<or> c = CHR ''%'') s of
        None \<Rightarrow> None
      | Some c \<Rightarrow> if c = CHR ''.'' then parseIPv4 s else if c = CHR '':'' then parseIPv6 s else None)"

text \<open>\<open>net.ParseIP\<close>: no zone, and an IPv4-mapped address is the IPv4 address.\<close>

definition ParseIP :: "string \<Rightarrow> Addr option" where
  "ParseIP s = (case ParseAddr s of Some a \<Rightarrow> if zone a = [] then Some (Unmap a) else None | None \<Rightarrow> None)"

section \<open>Prefixes\<close>

datatype Prefix = PrefixFrom (pf_Addr: Addr) (pf_Bits: nat)

text \<open>\<open>PrefixFrom\<close> drops the zone.\<close>

definition WithoutZone :: "Addr \<Rightarrow> Addr" where
  "WithoutZone a = (case a of IPv4 w \<Rightarrow> IPv4 w | IPv6 w _ \<Rightarrow> IPv6 w [])"

definition BitLen :: "Addr \<Rightarrow> nat" where
  "BitLen a = (if Is4 a then 32 else 128)"

text \<open>The bits after the slash: decimal, without sign or leading zero.\<close>

definition ParsePrefix :: "string \<Rightarrow> Prefix option" where
  "ParsePrefix s =
     (case cut_last (CHR ''/'') s of
        None \<Rightarrow> None
      | Some (text, bits) \<Rightarrow>
          (case ParseAddr text of
             None \<Rightarrow> None
           | Some a \<Rightarrow>
               if zone a \<noteq> [] then None
               else if bits = [] \<or> \<not> list_all is_digit bits \<or> (length bits > 1 \<and> hd bits = CHR ''0'') then None
               else if dec_val bits > int (BitLen a) then None
               else Some (PrefixFrom a (nat (dec_val bits)))))"

text \<open>\<open>Contains\<close> is false for an address of the other family and for an address with a zone.\<close>

definition Contains :: "Prefix \<Rightarrow> Addr \<Rightarrow> bool" where
  "Contains p a =
     (case (pf_Addr p, a) of
        (IPv4 x, IPv4 y) \<Rightarrow> drop_bit (32 - pf_Bits p) (x XOR y) = 0
      | (IPv6 x _, IPv6 y z) \<Rightarrow> z = [] \<and> drop_bit (128 - pf_Bits p) (x XOR y) = 0
      | _ \<Rightarrow> False)"

definition Masked_prefix :: "Prefix \<Rightarrow> Prefix" where
  "Masked_prefix p =
     PrefixFrom
       (case pf_Addr p of
          IPv4 x \<Rightarrow> IPv4 (push_bit (32 - pf_Bits p) (drop_bit (32 - pf_Bits p) x))
        | IPv6 x z \<Rightarrow> IPv6 (push_bit (128 - pf_Bits p) (drop_bit (128 - pf_Bits p) x)) z)
       (pf_Bits p)"

section \<open>Hosts and ports\<close>

text \<open>\<open>net.SplitHostPort\<close>.\<close>

definition SplitHostPort :: "string \<Rightarrow> (string \<times> string) option" where
  "SplitHostPort hostport =
     (case cut_last (CHR '':'') hostport of
        None \<Rightarrow> None
      | Some (before_colon, port) \<Rightarrow>
          if hd hostport = CHR ''['' then
            (case strings_Cut (CHR '']'') hostport of
               None \<Rightarrow> None
             | Some (a, b) \<Rightarrow>
                 if a @ '']'' \<noteq> before_colon then None
                 else if CHR ''['' \<in> set (tl hostport) \<or> CHR '']'' \<in> set b then None
                 else Some (tl a, port))
          else if CHR '':'' \<in> set before_colon \<or> CHR ''['' \<in> set hostport \<or> CHR '']'' \<in> set hostport then None
          else Some (before_colon, port))"

definition JoinHostPort :: "string \<Rightarrow> string \<Rightarrow> string" where
  "JoinHostPort host port = (if CHR '':'' \<in> set host then ''['' @ host @ '']:'' @ port else host @ '':'' @ port)"

text \<open>\<open>url.URL\<close> as far as the policies look at it: scheme, host with port, whether there is user
  information. \<open>Hostname()\<close> strips port and brackets.\<close>

record URL =
  url_Scheme :: string
  url_Host :: string
  url_User :: bool

definition Hostname :: "URL \<Rightarrow> string" where
  "Hostname u =
     (let h = (case cut_last (CHR '':'') (url_Host u) of
                 Some (host, port) \<Rightarrow> if list_all is_digit port then host else url_Host u
               | None \<Rightarrow> url_Host u)
      in if prefix ''['' h \<and> suffix '']'' h then butlast (tl h) else h)"

end
