(* ===== verification/Egress.thy ===== *)
theory Egress
  imports Netip
begin

text \<open>
  The outbound guard, \<open>internal/egress\<close>: the address policy for destinations that an operator or a
  tenant configured, its enforcement at connect time and on URLs, redirects, and how
  \<open>cmd/nexus/egress_boot.go\<close> builds the process guard. A Go error is \<open>Some\<close> of a value that says
  which sentinel it wraps and what it names; \<open>nil\<close> is \<open>None\<close>. Log lines are not modelled.
\<close>

section \<open>Policy\<close>

datatype Class = Operator | Tenant

datatype block_reason =
  ReservedAddress Addr | MetadataAddress Addr | TenantLinkLocal Addr | LoopbackAddress Addr | PrivateAddress Addr
  | ResolvesTo string Addr | UnparsedDialAddress string | NotALiteral string

datatype url_fault = InvalidURL | NoScheme | SchemeNotPermitted string | NoHost | EmbedsCredentials string

datatype egress_error =
  ErrBlockedDestination block_reason | ErrPublicDestination string "Addr option" | ErrUnresolvable string
  | BadDestination url_fault | TooManyRedirects nat | DowngradeRefused string | ErrCheckedURL egress_error | NotConnected

definition alwaysBlocked :: "Prefix list" where
  "alwaysBlocked = List.map_filter ParsePrefix [''0.0.0.0/8'', ''::/128'', ''224.0.0.0/4'', ''ff00::/8'', ''255.255.255.255/32'']"

definition metadataBlocked :: "Prefix list" where
  "metadataBlocked = List.map_filter ParsePrefix [''169.254.0.0/16'', ''fe80::/10'', ''fd00:ec2::/32'']"

definition tenantBlocked :: "Prefix list" where
  "tenantBlocked = List.map_filter ParsePrefix
     [''127.0.0.0/8'', ''::1/128'', ''10.0.0.0/8'', ''172.16.0.0/12'', ''192.168.0.0/16'', ''100.64.0.0/10'', ''fc00::/7'',
      ''192.0.0.0/24'', ''192.0.2.0/24'', ''198.51.100.0/24'', ''203.0.113.0/24'', ''198.18.0.0/15'']"

record Policy =
  po_TenantAllowedCIDRs :: "Prefix list"
  po_MaxRedirects :: int
  po_allowLoopback :: bool
  po_DefaultTimeout :: duration
  po_ProxyURL :: string
  po_PublicDestinationsBlocked :: bool
  po_AllowedInternalHosts :: "string list"

definition zero_Policy :: Policy where
  "zero_Policy = \<lparr>po_TenantAllowedCIDRs = [], po_MaxRedirects = 0, po_allowLoopback = False, po_DefaultTimeout = 0,
     po_ProxyURL = [], po_PublicDestinationsBlocked = False, po_AllowedInternalHosts = []\<rparr>"

text \<open>The answers of the resolver may change; its argument counts the lookups of the process.\<close>

type_synonym Resolver = "nat \<Rightarrow> string \<Rightarrow> string + Addr list"

record EgressGuard =
  eg_policy :: Policy
  eg_resolver :: Resolver

abbreviation defaultMaxRedirects :: int where "defaultMaxRedirects \<equiv> 3"
abbreviation defaultTimeout :: duration where "defaultTimeout \<equiv> 30000000000"

definition NewGuard :: "Resolver \<Rightarrow> Policy \<Rightarrow> EgressGuard" where
  "NewGuard defaultResolve policy =
     (let policy = (if po_MaxRedirects policy \<le> 0 then policy\<lparr>po_MaxRedirects := defaultMaxRedirects\<rparr> else policy);
          policy = (if po_DefaultTimeout policy \<le> 0 then policy\<lparr>po_DefaultTimeout := defaultTimeout\<rparr> else policy)
      in \<lparr>eg_policy = policy, eg_resolver = defaultResolve\<rparr>)"

definition prefixHas :: "Prefix \<Rightarrow> Addr \<Rightarrow> bool" where
  "prefixHas p addr = (if Is4 (pf_Addr p) \<noteq> Is4 addr then False else Contains p addr)"

definition checkAddr :: "EgressGuard \<Rightarrow> Class \<Rightarrow> Addr \<Rightarrow> egress_error option" where
  "checkAddr g class addr =
     (let addr = Unmap addr in
      if list_ex (\<lambda>p. prefixHas p addr) alwaysBlocked then Some (ErrBlockedDestination (ReservedAddress addr))
      else if list_ex (\<lambda>p. prefixHas p addr) metadataBlocked then Some (ErrBlockedDestination (MetadataAddress addr))
      else if class \<noteq> Tenant then None
      else if IsLinkLocalUnicast addr \<or> IsLinkLocalMulticast addr then Some (ErrBlockedDestination (TenantLinkLocal addr))
      else if IsLoopback addr then
        (if \<not> po_allowLoopback (eg_policy g) then Some (ErrBlockedDestination (LoopbackAddress addr)) else None)
      else if list_ex (\<lambda>p. prefixHas p addr) (po_TenantAllowedCIDRs (eg_policy g)) then None
      else if list_ex (\<lambda>p. prefixHas p addr) tenantBlocked then Some (ErrBlockedDestination (PrivateAddress addr))
      else None)"

section \<open>Checking a URL\<close>

text \<open>\<open>None\<close> is a text that \<open>url.Parse\<close> rejects.\<close>

definition parseDestination :: "URL option \<Rightarrow> url_fault + URL" where
  "parseDestination parsed =
     (case parsed of
        None \<Rightarrow> Inl InvalidURL
      | Some u \<Rightarrow>
          let scheme = map lower_ascii (url_Scheme u) in
          if scheme = [] then Inl NoScheme
          else if scheme \<noteq> ''http'' \<and> scheme \<noteq> ''https'' then Inl (SchemeNotPermitted (url_Scheme u))
          else if Hostname u = [] then Inl NoHost
          else if url_User u then Inl (EmbedsCredentials (Hostname u))
          else Inr u)"

text \<open>The first error in a list of addresses.\<close>

fun first_error :: "('a \<Rightarrow> 'e option) \<Rightarrow> 'a list \<Rightarrow> 'e option" where
  "first_error f [] = None"
| "first_error f (x # xs) = (case f x of Some e \<Rightarrow> Some e | None \<Rightarrow> first_error f xs)"

definition checkURLStatic :: "EgressGuard \<Rightarrow> nat \<Rightarrow> URL option \<Rightarrow> Class \<Rightarrow> egress_error option" where
  "checkURLStatic g k parsed class =
     (case parseDestination parsed of
        Inl e \<Rightarrow> Some (BadDestination e)
      | Inr u \<Rightarrow>
          let host = Hostname u in
          (case ParseAddr host of
             Some addr \<Rightarrow> checkAddr g class addr
           | None \<Rightarrow>
               (case eg_resolver g k host of
                  Inl _ \<Rightarrow> Some (ErrUnresolvable host)
                | Inr addrs \<Rightarrow> if addrs = [] then Some (ErrUnresolvable host) else first_error (checkAddr g class) addrs)))"

text \<open>An entry of the allow-list without its port.\<close>

definition entry_host :: "string \<Rightarrow> string" where
  "entry_host raw = (case SplitHostPort raw of Some (h, _) \<Rightarrow> h | None \<Rightarrow> raw)"

definition allow_entry :: "Addr \<Rightarrow> string \<Rightarrow> bool" where
  "allow_entry addr raw =
     (if CHR ''/'' \<in> set raw then (case ParsePrefix raw of Some p \<Rightarrow> Contains p addr | None \<Rightarrow> False)
      else ParseAddr (entry_host raw) = Some addr)"

definition literalAddrAllowedByOverride :: "EgressGuard \<Rightarrow> Addr \<Rightarrow> bool" where
  "literalAddrAllowedByOverride g addr = list_ex (allow_entry addr) (po_AllowedInternalHosts (eg_policy g))"

definition literalInUnreservedPrivateSpace :: "Addr \<Rightarrow> bool" where
  "literalInUnreservedPrivateSpace addr =
     list_ex (\<lambda>pfx. case ParsePrefix pfx of Some p \<Rightarrow> Contains p addr | None \<Rightarrow> False) [''10.0.0.0/8'', ''172.16.0.0/12'', ''192.168.0.0/16'']"

definition addrInInternalAllowList :: "EgressGuard \<Rightarrow> Addr \<Rightarrow> bool" where
  "addrInInternalAllowList g addr = (if checkAddr g Tenant addr \<noteq> None then False else literalAddrAllowedByOverride g addr)"

definition hostInInternalAllowList :: "EgressGuard \<Rightarrow> string \<Rightarrow> bool" where
  "hostInInternalAllowList g host =
     list_ex (\<lambda>raw. if CHR ''/'' \<in> set raw then False else entry_host raw = host) (po_AllowedInternalHosts (eg_policy g))"

definition checkURLInClusterOnly :: "EgressGuard \<Rightarrow> nat \<Rightarrow> URL option \<Rightarrow> egress_error option" where
  "checkURLInClusterOnly g k parsed =
     (case parseDestination parsed of
        Inl e \<Rightarrow> Some (BadDestination e)
      | Inr u \<Rightarrow>
          let host = Hostname u in
          (case ParseAddr host of
             Some addr \<Rightarrow>
               (case checkAddr g Tenant addr of
                  Some (ErrBlockedDestination r) \<Rightarrow>
                    if \<not> literalInUnreservedPrivateSpace addr then Some (ErrBlockedDestination r)
                    else if \<not> literalAddrAllowedByOverride g addr then Some (ErrPublicDestination host None) else None
                | Some e \<Rightarrow> Some e
                | None \<Rightarrow> if \<not> literalAddrAllowedByOverride g addr then Some (ErrPublicDestination host None) else None)
           | None \<Rightarrow>
               (case eg_resolver g k host of
                  Inl _ \<Rightarrow> Some (ErrUnresolvable host)
                | Inr addrs \<Rightarrow>
                    if addrs = [] then Some (ErrUnresolvable host)
                    else case first_error (\<lambda>a. map_option (\<lambda>e. case e of ErrBlockedDestination _ \<Rightarrow> ErrBlockedDestination (ResolvesTo host a) | e \<Rightarrow> e)
                                             (checkAddr g Tenant a)) addrs of
                      Some e \<Rightarrow> Some e
                    | None \<Rightarrow>
                        if hostInInternalAllowList g host then None
                        else first_error (\<lambda>a. if literalAddrAllowedByOverride g a then None else Some (ErrPublicDestination host (Some a))) addrs)))"

definition CheckURL :: "EgressGuard \<Rightarrow> nat \<Rightarrow> URL option \<Rightarrow> Class \<Rightarrow> egress_error option" where
  "CheckURL g k parsed class =
     (if po_PublicDestinationsBlocked (eg_policy g) \<and> class = Tenant then checkURLInClusterOnly g k parsed
      else checkURLStatic g k parsed class)"

text \<open>\<open>errors.Is(err, ErrUnresolvable)\<close>.\<close>

definition CheckConfiguredURL :: "EgressGuard \<Rightarrow> nat \<Rightarrow> URL option \<Rightarrow> Class \<Rightarrow> egress_error option" where
  "CheckConfiguredURL g k parsed class =
     (case CheckURL g k parsed class of Some (ErrUnresolvable _) \<Rightarrow> None | r \<Rightarrow> r)"

definition matchedByInternalAllowList :: "EgressGuard \<Rightarrow> nat \<Rightarrow> URL option \<Rightarrow> bool" where
  "matchedByInternalAllowList g k parsed =
     (case parseDestination parsed of
        Inl _ \<Rightarrow> False
      | Inr u \<Rightarrow>
          let host = Hostname u in
          (case ParseAddr host of
             Some addr \<Rightarrow> literalAddrAllowedByOverride g addr
           | None \<Rightarrow>
               (case eg_resolver g k host of
                  Inl _ \<Rightarrow> False
                | Inr addrs \<Rightarrow>
                    if addrs = [] then False
                    else if \<not> list_all (literalAddrAllowedByOverride g) addrs then False
                    else hostInInternalAllowList g host)))"

text \<open>The first lookup of a vetting has the number \<open>2 * k\<close>, the second the next one.\<close>

definition vetForModes :: "EgressGuard \<Rightarrow> nat \<Rightarrow> URL option \<Rightarrow> Class \<Rightarrow> egress_error option" where
  "vetForModes g k parsed class =
     (if \<not> po_PublicDestinationsBlocked (eg_policy g) then CheckURL g (2 * k) parsed class
      else
        let candidate = CheckURL g (2 * k) parsed class;
            candidate = (if matchedByInternalAllowList g (2 * k + 1) parsed then None else candidate) in
        case candidate of
          Some e \<Rightarrow> Some e
        | None \<Rightarrow>
            (case parseDestination parsed of
               Inl e \<Rightarrow> Some (BadDestination e)
             | Inr u \<Rightarrow>
                 let host = Hostname u in
                 if ParseAddr host \<noteq> None then None
                 else if hostInInternalAllowList g host then None
                 else Some (ErrPublicDestination host None)))"

definition checkDialAddress :: "EgressGuard \<Rightarrow> Class \<Rightarrow> string \<Rightarrow> egress_error option" where
  "checkDialAddress g class address =
     (case SplitHostPort address of
        None \<Rightarrow> Some (ErrBlockedDestination (UnparsedDialAddress address))
      | Some (host, _) \<Rightarrow>
          (case ParseAddr host of
             None \<Rightarrow> Some (ErrBlockedDestination (NotALiteral host))
           | Some addr \<Rightarrow> checkAddr g class addr))"

section \<open>Clients\<close>

text \<open>A request as far as redirects look at it; header names are in canonical form.\<close>

record HTTPReq =
  hr_URL :: URL
  hr_Header :: "(string, string) gomap"

definition stripPort :: "string \<Rightarrow> string" where
  "stripPort hostport = (case SplitHostPort hostport of Some (h, _) \<Rightarrow> h | None \<Rightarrow> hostport)"

definition sameHost :: "string \<Rightarrow> string \<Rightarrow> bool" where
  "sameHost a b = strings_EqualFold (stripPort a) (stripPort b)"

definition credentialHeaders :: "string list" where
  "credentialHeaders =
     [''Authorization'', ''Proxy-Authorization'', ''Cookie'', ''X-Api-Key'', ''Api-Key'', ''X-Goog-Api-Key'', ''X-Datadog-Api-Key'',
      ''X-Dd-Api-Key'', ''Dd-Api-Key'', ''X-Arize-Api-Key'', ''X-Confident-Api-Key'', ''Anthropic-Version'',
      ''X-Langsmith-Api-Key'', ''X-Nexus-Signature'']"

text \<open>\<open>via\<close> has at least one request.\<close>

definition checkRedirect :: "EgressGuard \<Rightarrow> HTTPReq \<Rightarrow> HTTPReq list \<Rightarrow> egress_error + HTTPReq" where
  "checkRedirect g req via =
     (if int (length via) \<ge> po_MaxRedirects (eg_policy g) then Inl (TooManyRedirects (length via))
      else
        let prev = last via;
            req = (if \<not> sameHost (url_Host (hr_URL prev)) (url_Host (hr_URL req))
                   then req\<lparr>hr_Header := fold gomap_del credentialHeaders (hr_Header req)\<rparr> else req) in
        if strings_EqualFold (url_Scheme (hr_URL prev)) ''https'' \<and> strings_EqualFold (url_Scheme (hr_URL req)) ''http''
        then Inl (DowngradeRefused (url_Host (hr_URL req)))
        else Inr req)"

text \<open>The network: the literal addresses a dial to a host would try, in order and as text; whether a
  connection succeeds; what the peer answers. The first argument counts the requests of the call.\<close>

datatype answer = Redirect URL | Response string

record Net =
  nt_targets :: "nat \<Rightarrow> string \<Rightarrow> string list"
  nt_connects :: "nat \<Rightarrow> string \<Rightarrow> bool"
  nt_answer :: "nat \<Rightarrow> HTTPReq \<Rightarrow> answer"

text \<open>\<open>net.Dialer\<close> tries the addresses in turn and asks \<open>Control\<close> before each connection. The result has
  the connections that were opened (or tried) and whether one is up.\<close>

fun dial :: "(string \<Rightarrow> egress_error option) \<Rightarrow> (string \<Rightarrow> bool) \<Rightarrow> string list \<Rightarrow> string list \<times> bool" where
  "dial control connects [] = ([], False)"
| "dial control connects (t # ts) =
     (if control t \<noteq> None then dial control connects ts
      else if connects t then ([t], True)
      else case dial control connects ts of (opened, up) \<Rightarrow> (t # opened, up))"

definition vetting :: "EgressGuard \<Rightarrow> bool" where
  "vetting g \<longleftrightarrow> \<not> (po_ProxyURL (eg_policy g) = [] \<and> po_PublicDestinationsBlocked (eg_policy g) = False)"

text \<open>One request of a client of \<open>Client\<close>: through \<open>directTransport\<close>, whose dialer checks each address, or
  through \<open>vettingRoundTripper\<close>, which checks the URL and leaves the connection unchecked. The result
  has the checked connections, and the answer if the request was sent.\<close>

definition RoundTrip :: "EgressGuard \<Rightarrow> Class \<Rightarrow> Net \<Rightarrow> nat \<Rightarrow> HTTPReq \<Rightarrow> string list \<times> (egress_error + answer)" where
  "RoundTrip g class net k req =
     (if \<not> vetting g then
        (case dial (checkDialAddress g class) (nt_connects net k) (nt_targets net k (url_Host (hr_URL req))) of
           (opened, up) \<Rightarrow> (opened, if up then Inr (nt_answer net k req) else Inl NotConnected))
      else case vetForModes g k (Some (hr_URL req)) class of
        Some e \<Rightarrow> ([], Inl (ErrCheckedURL e))
      | None \<Rightarrow> ([], Inr (nt_answer net k req)))"

text \<open>\<open>http.Client\<close> copies the headers of the first request to every further one. The ones it knows to be
  sensitive are left out once the chain has left the first host and its subdomains.\<close>

definition sensitiveHeaders :: "string list" where
  "sensitiveHeaders = [''Authorization'', ''Www-Authenticate'', ''Cookie'', ''Cookie2'', ''Proxy-Authorization'', ''Proxy-Authenticate'']"

definition isDomainOrSubdomain :: "string \<Rightarrow> string \<Rightarrow> bool" where
  "isDomainOrSubdomain sub parent \<longleftrightarrow>
     sub = parent \<or> CHR '':'' \<notin> set sub \<and> CHR ''%'' \<notin> set sub \<and> suffix (''.'' @ parent) sub"

definition copyHeaders :: "bool \<Rightarrow> (string, string) gomap \<Rightarrow> (string, string) gomap" where
  "copyHeaders strip hdr = (if strip then fold gomap_del sensitiveHeaders hdr else hdr)"

definition leaves_domain :: "URL \<Rightarrow> URL \<Rightarrow> bool" where
  "leaves_domain first u \<longleftrightarrow> url_Host first \<noteq> url_Host u \<and> \<not> isDomainOrSubdomain (Hostname u) (Hostname first)"

record Exchange =
  ex_Sent :: "HTTPReq list"
  ex_Conns :: "string list"
  ex_Result :: "egress_error + string"

lemma checkRedirect_bound: "checkRedirect g req via = Inr req' \<Longrightarrow> int (length via) < po_MaxRedirects (eg_policy g)"
  by (simp add: checkRedirect_def split: if_splits)

function client_loop :: "EgressGuard \<Rightarrow> Class \<Rightarrow> Net \<Rightarrow> HTTPReq \<Rightarrow> HTTPReq list \<Rightarrow> bool \<Rightarrow> HTTPReq \<Rightarrow> Exchange" where
  "client_loop g class net ireq via strip req =
     (case RoundTrip g class net (length via) req of
        (conns, Inl e) \<Rightarrow> \<lparr>ex_Sent = [], ex_Conns = conns, ex_Result = Inl e\<rparr>
      | (conns, Inr (Response b)) \<Rightarrow> \<lparr>ex_Sent = [req], ex_Conns = conns, ex_Result = Inr b\<rparr>
      | (conns, Inr (Redirect u)) \<Rightarrow>
          let strip' = (strip \<or> leaves_domain (hr_URL ireq) u);
              next = \<lparr>hr_URL = u, hr_Header = copyHeaders strip' (hr_Header ireq)\<rparr> in
          (case checkRedirect g next (via @ [req]) of
             Inl e \<Rightarrow> \<lparr>ex_Sent = [req], ex_Conns = conns, ex_Result = Inl e\<rparr>
           | Inr req' \<Rightarrow>
               let x = client_loop g class net ireq (via @ [req]) strip' req'
               in x\<lparr>ex_Sent := req # ex_Sent x, ex_Conns := conns @ ex_Conns x\<rparr>))"
  by pat_completeness auto
termination
  by (relation "measure (\<lambda>(g, _, _, _, via, _, _). nat (po_MaxRedirects (eg_policy g)) + 1 - length via)")
    (auto dest!: checkRedirect_bound)

declare client_loop.simps [simp del]

definition client_do :: "EgressGuard \<Rightarrow> Class \<Rightarrow> Net \<Rightarrow> HTTPReq \<Rightarrow> Exchange" where
  "client_do g class net req = client_loop g class net req [] False req"

section \<open>Configuration\<close>

text \<open>\<open>Inl\<close> names the entry that is neither a range nor an address.\<close>

fun parse_cidr_fields :: "string list \<Rightarrow> string + Prefix list" where
  "parse_cidr_fields [] = Inr []"
| "parse_cidr_fields (f # fs) =
     (let field = strings_TrimSpace f in
      if field = [] then parse_cidr_fields fs
      else case ParsePrefix field of
        Some p \<Rightarrow> map_sum id ((#) (Masked_prefix p)) (parse_cidr_fields fs)
      | None \<Rightarrow>
          (case ParseAddr field of
             None \<Rightarrow> Inl field
           | Some addr \<Rightarrow> map_sum id ((#) (PrefixFrom (WithoutZone addr) (BitLen addr))) (parse_cidr_fields fs)))"

definition ParseTenantAllowedCIDRs :: "string \<Rightarrow> string + Prefix list" where
  "ParseTenantAllowedCIDRs raw =
     (let raw = strings_TrimSpace raw in if raw = [] then Inr [] else parse_cidr_fields (strings_Split (CHR '','') raw))"

text \<open>The process guard; \<open>None\<close> is the state before the first \<open>SetDefault\<close>.\<close>

definition SetDefault :: "EgressGuard option \<Rightarrow> EgressGuard option \<Rightarrow> EgressGuard option" where
  "SetDefault g cur = (case g of None \<Rightarrow> cur | Some g \<Rightarrow> Some g)"

definition Default :: "Resolver \<Rightarrow> EgressGuard option \<Rightarrow> EgressGuard" where
  "Default defaultResolve cur = (case cur of Some g \<Rightarrow> g | None \<Rightarrow> NewGuard defaultResolve zero_Policy)"

definition splitNonEmpty :: "string \<Rightarrow> char \<Rightarrow> string list" where
  "splitNonEmpty s sep = filter (\<lambda>t. t \<noteq> []) (map strings_TrimSpace (strings_Split sep s))"

record EgressConfig =
  cf_EgressTenantAllowedCIDRs :: string
  cf_EgressMode :: string
  cf_EgressProxyURL :: string
  cf_EgressInternalHosts :: string

definition installEgressGuard :: "Resolver \<Rightarrow> EgressConfig \<Rightarrow> EgressGuard option \<Rightarrow> EgressGuard option" where
  "installEgressGuard defaultResolve cfg cur =
     (let allowed = (case ParseTenantAllowedCIDRs (cf_EgressTenantAllowedCIDRs cfg) of Inl _ \<Rightarrow> [] | Inr ps \<Rightarrow> ps);
          policy = zero_Policy\<lparr>po_TenantAllowedCIDRs := allowed\<rparr>;
          policy =
            (if cf_EgressMode cfg = ''proxy'' then
               (if cf_EgressProxyURL cfg = [] then policy else policy\<lparr>po_ProxyURL := cf_EgressProxyURL cfg\<rparr>)
             else if cf_EgressMode cfg = ''in_cluster_only'' then
               (if cf_EgressInternalHosts cfg = [] then policy
                else policy\<lparr>po_PublicDestinationsBlocked := True,
                            po_AllowedInternalHosts := splitNonEmpty (cf_EgressInternalHosts cfg) (CHR '','')\<rparr>)
             else policy)
      in SetDefault (Some (NewGuard defaultResolve policy)) cur)"

section \<open>The policy as intervals\<close>

text \<open>What the policy means, without prefixes: addresses as numbers.\<close>

definition reserved_addr :: "Addr \<Rightarrow> bool" where
  "reserved_addr a =
     (case a of
        IPv4 w \<Rightarrow> unat w < 0x01000000 \<or> (0xE0000000 \<le> unat w \<and> unat w < 0xF0000000) \<or> unat w = 0xFFFFFFFF
      | IPv6 w _ \<Rightarrow> unat w = 0 \<or> 0xFF000000000000000000000000000000 \<le> unat w)"

definition metadata_addr :: "Addr \<Rightarrow> bool" where
  "metadata_addr a =
     (case a of
        IPv4 w \<Rightarrow> 0xA9FE0000 \<le> unat w \<and> unat w < 0xA9FF0000
      | IPv6 w _ \<Rightarrow> (0xFE800000000000000000000000000000 \<le> unat w \<and> unat w < 0xFEC00000000000000000000000000000)
          \<or> (0xFD000EC2000000000000000000000000 \<le> unat w \<and> unat w < 0xFD000EC3000000000000000000000000))"

definition loopback_addr :: "Addr \<Rightarrow> bool" where
  "loopback_addr a = (case a of IPv4 w \<Rightarrow> 0x7F000000 \<le> unat w \<and> unat w < 0x80000000 | IPv6 w _ \<Rightarrow> unat w = 1)"

definition private_addr :: "Addr \<Rightarrow> bool" where
  "private_addr a =
     (case a of
        IPv4 w \<Rightarrow> (0x0A000000 \<le> unat w \<and> unat w < 0x0B000000) \<or> (0xAC100000 \<le> unat w \<and> unat w < 0xAC200000)
          \<or> (0xC0A80000 \<le> unat w \<and> unat w < 0xC0A90000) \<or> (0x64400000 \<le> unat w \<and> unat w < 0x64800000)
          \<or> (0xC0000000 \<le> unat w \<and> unat w < 0xC0000100) \<or> (0xC0000200 \<le> unat w \<and> unat w < 0xC0000300)
          \<or> (0xC6336400 \<le> unat w \<and> unat w < 0xC6336500) \<or> (0xCB007100 \<le> unat w \<and> unat w < 0xCB007200)
          \<or> (0xC6120000 \<le> unat w \<and> unat w < 0xC6140000)
      | IPv6 w _ \<Rightarrow> 0xFC000000000000000000000000000000 \<le> unat w \<and> unat w < 0xFE000000000000000000000000000000)"

definition permitted :: "Policy \<Rightarrow> Class \<Rightarrow> Addr \<Rightarrow> bool" where
  "permitted po class a \<longleftrightarrow>
     \<not> reserved_addr a \<and> \<not> metadata_addr a
     \<and> (class = Tenant \<longrightarrow>
          (loopback_addr a \<longrightarrow> po_allowLoopback po)
          \<and> (private_addr a \<longrightarrow> (\<exists>p \<in> set (po_TenantAllowedCIDRs po). Contains p a)))"

lemma alwaysBlocked_eq:
  "alwaysBlocked = [PrefixFrom (IPv4 0) 8, PrefixFrom (IPv6 0 []) 128, PrefixFrom (IPv4 0xE0000000) 4,
     PrefixFrom (IPv6 0xFF000000000000000000000000000000 []) 8, PrefixFrom (IPv4 0xFFFFFFFF) 32]"
  by code_simp

lemma metadataBlocked_eq:
  "metadataBlocked = [PrefixFrom (IPv4 0xA9FE0000) 16, PrefixFrom (IPv6 0xFE800000000000000000000000000000 []) 10,
     PrefixFrom (IPv6 0xFD000EC2000000000000000000000000 []) 32]"
  by code_simp

lemma tenantBlocked_eq:
  "tenantBlocked = [PrefixFrom (IPv4 0x7F000000) 8, PrefixFrom (IPv6 1 []) 128, PrefixFrom (IPv4 0x0A000000) 8,
     PrefixFrom (IPv4 0xAC100000) 12, PrefixFrom (IPv4 0xC0A80000) 16, PrefixFrom (IPv4 0x64400000) 10,
     PrefixFrom (IPv6 0xFC000000000000000000000000000000 []) 7, PrefixFrom (IPv4 0xC0000000) 24, PrefixFrom (IPv4 0xC0000200) 24,
     PrefixFrom (IPv4 0xC6336400) 24, PrefixFrom (IPv4 0xCB007100) 24, PrefixFrom (IPv4 0xC6120000) 15]"
  by code_simp

lemmas blocked_lists = alwaysBlocked_eq metadataBlocked_eq tenantBlocked_eq

text \<open>A prefix holds the addresses of an interval.\<close>

lemma xor_drop_bit: "drop_bit k x XOR drop_bit k y = 0 \<longleftrightarrow> unat y div 2 ^ k = unat x div 2 ^ k" for x y :: "'a :: len word"
proof -
  have "drop_bit k x XOR drop_bit k y = 0 \<longleftrightarrow> drop_bit k x = drop_bit k y"
    by (auto simp: bit_eq_iff bit_simps)
  also have "\<dots> \<longleftrightarrow> unat (drop_bit k x) = unat (drop_bit k y)" by (rule word_unat_eq_iff)
  also have "\<dots> \<longleftrightarrow> drop_bit k (unat x) = drop_bit k (unat y)" by (simp only: unat_drop_bit_eq)
  finally show ?thesis by (metis drop_bit_eq_div)
qed

lemma div_interval: "n div d = q \<longleftrightarrow> q * d \<le> n \<and> n < (q + 1) * d" if "0 < d" for n d q :: nat
  using that div_nat_eqI [of d q n] div_times_less_eq_dividend [of n d] dividend_less_div_times [of d n]
  by (auto simp: mult.commute)

lemma prefixHas_4:
  "prefixHas (PrefixFrom (IPv4 x) n) (IPv4 y) \<longleftrightarrow> unat y div 2 ^ (32 - n) = unat x div 2 ^ (32 - n)"
  "\<not> prefixHas (PrefixFrom (IPv6 x' z) n) (IPv4 y)"
  by (simp_all add: prefixHas_def Contains_def Is4_def xor_drop_bit)

lemma prefixHas_6:
  "prefixHas (PrefixFrom (IPv6 x z') n) (IPv6 y z) \<longleftrightarrow> z = [] \<and> unat y div 2 ^ (128 - n) = unat x div 2 ^ (128 - n)"
  "\<not> prefixHas (PrefixFrom (IPv4 x') n) (IPv6 y z)"
  by (simp_all add: prefixHas_def Contains_def Is4_def xor_drop_bit)
lemma word_bounds: "unat (v :: 32 word) < 0x100000000" "unat (w :: 128 word) < 0x100000000000000000000000000000000"
  using unsigned_less [of v] unsigned_less [of w] by simp_all

lemma always_spec: "zone a = [] \<Longrightarrow> list_ex (\<lambda>p. prefixHas p a) alwaysBlocked \<longleftrightarrow> reserved_addr a"
  by (cases a) (simp_all add: alwaysBlocked_eq prefixHas_4 prefixHas_6 reserved_addr_def zone_def, auto simp: div_interval word_bounds)

lemma metadata_spec: "zone a = [] \<Longrightarrow> list_ex (\<lambda>p. prefixHas p a) metadataBlocked \<longleftrightarrow> metadata_addr a"
  by (cases a) (simp_all add: metadataBlocked_eq prefixHas_4 prefixHas_6 metadata_addr_def zone_def, auto simp: div_interval word_bounds)

lemma tenant_spec: "zone a = [] \<Longrightarrow> list_ex (\<lambda>p. prefixHas p a) tenantBlocked \<longleftrightarrow> private_addr a \<or> loopback_addr a"
  by (cases a) (simp_all add: tenantBlocked_eq prefixHas_4 prefixHas_6 private_addr_def loopback_addr_def zone_def, auto simp: div_interval word_bounds)

lemma Unmap_idem [simp]: "Unmap (Unmap a) = Unmap a"
  by (simp add: Unmap_def split: Addr.split)

lemma word_is_unat: "w = numeral n \<longleftrightarrow> unat w = unat (numeral n :: 'a word)" "w = 1 \<longleftrightarrow> unat w = 1" for w :: "'a :: len word"
  by (simp_all add: word_unat_eq_iff)

lemma drop_bit_interval:
  "drop_bit k w = c \<longleftrightarrow> unat c * 2 ^ k \<le> unat w \<and> unat w < (unat c + 1) * 2 ^ k" for w :: "'a :: len word"
proof -
  have "drop_bit k w = c \<longleftrightarrow> unat w div 2 ^ k = unat c"
    by (metis unat_drop_bit_eq drop_bit_eq_div word_unat_eq_iff)
  then show ?thesis by (simp add: div_interval)
qed

lemma loopback_spec: "IsLoopback (Unmap a) \<longleftrightarrow> loopback_addr (Unmap a)"
  using Unmap_idem [of a] by (cases "Unmap a") (simp_all add: IsLoopback_def loopback_addr_def drop_bit_interval word_unat_eq_iff [of _ 1])

lemma linklocal_unicast_spec: "IsLinkLocalUnicast (Unmap a) \<longrightarrow> metadata_addr (Unmap a)"
  using Unmap_idem [of a] by (cases "Unmap a") (simp_all add: IsLinkLocalUnicast_def metadata_addr_def drop_bit_interval)

lemma linklocal_multicast_spec: "IsLinkLocalMulticast (Unmap a) \<longrightarrow> reserved_addr (Unmap a)"
proof (cases "Unmap a")
  case (IPv4 w)
  then show ?thesis using Unmap_idem [of a] by (simp add: IsLinkLocalMulticast_def reserved_addr_def drop_bit_interval)
next
  case (IPv6 w z)
  have "0xFF000000000000000000000000000000 \<le> unat w" if "drop_bit 112 w AND 0xFF0F = 0xFF02"
  proof -
    have "(0xFF02 :: 128 word) \<le> drop_bit 112 w" using word_and_le2 [of "drop_bit 112 w" "0xFF0F"] that by simp
    then have "0xFF02 \<le> drop_bit 112 (unat w)" by (simp add: word_le_nat_alt unat_drop_bit_eq)
    then show ?thesis by (simp add: drop_bit_eq_div)
  qed
  then show ?thesis using IPv6 Unmap_idem [of a] by (simp add: IsLinkLocalMulticast_def reserved_addr_def)
qed

lemma disjoint_ranges: "loopback_addr a \<Longrightarrow> \<not> private_addr a"
  by (cases a) (auto simp: loopback_addr_def private_addr_def)

text \<open>The test of the families in \<open>prefixHas\<close> changes nothing.\<close>

lemma prefixHas_Contains: "prefixHas p a = Contains p a"
  by (cases "pf_Addr p"; cases a) (simp_all add: prefixHas_def Contains_def Is4_def)

lemma checkAddr_permitted:
  assumes "zone (Unmap a) = []"
  shows "checkAddr g class a = None \<longleftrightarrow> permitted (eg_policy g) class (Unmap a)"
proof -
  have allowed: "list_ex (\<lambda>p. prefixHas p (Unmap a)) (po_TenantAllowedCIDRs (eg_policy g))
      \<longleftrightarrow> (\<exists>p \<in> set (po_TenantAllowedCIDRs (eg_policy g)). Contains p (Unmap a))"
    by (simp add: list_ex_iff prefixHas_Contains)
  show ?thesis
    using linklocal_unicast_spec [of a] linklocal_multicast_spec [of a] disjoint_ranges [of "Unmap a"]
    unfolding checkAddr_def permitted_def Let_def always_spec [OF assms] metadata_spec [OF assms] tenant_spec [OF assms] loopback_spec allowed
    by (cases "reserved_addr (Unmap a)"; cases "metadata_addr (Unmap a)"; cases "loopback_addr (Unmap a)") auto
qed

text \<open>
  C9. The address check implements the policy. For an address without a zone, \<open>checkAddr\<close> passes exactly
  the addresses that the policy permits, as ranges of numbers: no class reaches reserved or
  link-local (cloud metadata) addresses; a tenant reaches loopback only if the policy says so, which
  no configuration can, and a private address only if it is in a range the operator allowed. An IPv4
  address in IPv6 form is judged as the IPv4 address.
\<close>

theorem checkAddr_implements_policy:
  assumes "zone (Unmap a) = []"
  shows "checkAddr g class a = None \<longleftrightarrow> permitted (eg_policy g) class (Unmap a)"
  using assms by (rule checkAddr_permitted)

theorem checkAddr_implements_policy_witness:
  "checkAddr (NewGuard (\<lambda>_ _. Inr []) zero_Policy) Tenant (IPv6 0xFFFFA9FEA9FE []) = None
     \<longleftrightarrow> permitted (eg_policy (NewGuard (\<lambda>_ _. Inr []) zero_Policy)) Tenant (Unmap (IPv6 0xFFFFA9FEA9FE []))"
  by (rule checkAddr_implements_policy) (simp add: zone_def Unmap_def drop_bit_interval)

section \<open>Where a guarded client connects\<close>

lemma checkAddr_tenant_links:
  assumes "checkAddr g Tenant a = None"
  shows "\<not> IsLinkLocalUnicast (Unmap a)" "\<not> IsLinkLocalMulticast (Unmap a)" "IsLoopback (Unmap a) \<Longrightarrow> po_allowLoopback (eg_policy g)"
  using assms by (auto simp: checkAddr_def Let_def split: if_splits)

lemma dial_controlled: "dial control connects ts = (opened, up) \<Longrightarrow> t \<in> set opened \<Longrightarrow> control t = None"
  by (induction ts arbitrary: opened up) (auto split: if_splits prod.splits)

lemma checkDialAddress_literal:
  assumes "checkDialAddress g cl t = None"
  shows "\<exists>h p a. SplitHostPort t = Some (h, p) \<and> ParseAddr h = Some a \<and> checkAddr g cl a = None"
  using assms by (auto simp: checkDialAddress_def split: option.splits)

lemma RoundTrip_controlled: "RoundTrip g cl net k req = (conns, r) \<Longrightarrow> t \<in> set conns \<Longrightarrow> checkDialAddress g cl t = None"
  by (auto simp: RoundTrip_def split: if_splits prod.splits option.splits dest: dial_controlled)

text \<open>The rule for a chain of requests: the last one fails or is answered, every other is followed by a
  redirect that \<open>checkRedirect\<close> let pass.\<close>

lemma client_loop_rule:
  assumes failed: "\<And>via strip req conns e. RoundTrip g cl net (length via) req = (conns, Inl e) \<Longrightarrow>
      Q via strip req \<lparr>ex_Sent = [], ex_Conns = conns, ex_Result = Inl e\<rparr>"
    and final: "\<And>via strip req conns ans r. RoundTrip g cl net (length via) req = (conns, Inr ans) \<Longrightarrow>
      Q via strip req \<lparr>ex_Sent = [req], ex_Conns = conns, ex_Result = r\<rparr>"
    and hop: "\<And>via strip req conns u strip' req' x. RoundTrip g cl net (length via) req = (conns, Inr (Redirect u)) \<Longrightarrow>
      strip' = (strip \<or> leaves_domain (hr_URL ireq) u) \<Longrightarrow>
      checkRedirect g \<lparr>hr_URL = u, hr_Header = copyHeaders strip' (hr_Header ireq)\<rparr> (via @ [req]) = Inr req' \<Longrightarrow>
      Q (via @ [req]) strip' req' x \<Longrightarrow>
      Q via strip req (x\<lparr>ex_Sent := req # ex_Sent x, ex_Conns := conns @ ex_Conns x\<rparr>)"
  shows "Q via strip req (client_loop g cl net ireq via strip req)"
  using assms
proof (induction g cl net ireq via strip req rule: client_loop.induct)
  case (1 g cl net ireq via strip req)
  obtain conns r where rt: "RoundTrip g cl net (length via) req = (conns, r)" by fastforce
  show ?case
  proof (cases r)
    case (Inl e)
    then show ?thesis using "1.prems"(1) [OF rt [unfolded Inl]] by (subst client_loop.simps) (simp add: rt)
  next
    case (Inr ans)
    note last = "1.prems"(2) [OF rt [unfolded Inr]]
    show ?thesis
    proof (cases ans)
      case (Response b)
      then show ?thesis using last by (subst client_loop.simps) (simp add: rt Inr)
    next
      case (Redirect u)
      define strip' where "strip' = (strip \<or> leaves_domain (hr_URL ireq) u)"
      define nxt where "nxt = \<lparr>hr_URL = u, hr_Header = copyHeaders strip' (hr_Header ireq)\<rparr>"
      show ?thesis
      proof (cases "checkRedirect g nxt (via @ [req])")
        case (Inl e)
        then show ?thesis
          using last Redirect by (subst client_loop.simps) (simp add: rt Inr strip'_def [symmetric] nxt_def [symmetric] Let_def)
      next
        case ok: (Inr req')
        have "Q (via @ [req]) strip' req' (client_loop g cl net ireq (via @ [req]) strip' req')"
          using "1.IH" [OF rt [symmetric] Inr Redirect strip'_def nxt_def ok] "1.prems" by blast
        from "1.prems"(3) [OF rt [unfolded Inr Redirect] strip'_def ok [unfolded nxt_def] this] show ?thesis
          using ok Redirect by (subst client_loop.simps) (simp add: rt Inr strip'_def [symmetric] nxt_def [symmetric] Let_def)
      qed
    qed
  qed
qed

lemma client_loop_controlled: "\<forall>t \<in> set (ex_Conns (client_loop g cl net ireq via strip req)). checkDialAddress g cl t = None"
  by (rule client_loop_rule [where Q = "\<lambda>_ _ _ x. \<forall>t \<in> set (ex_Conns x). checkDialAddress g cl t = None"])
    (auto dest: RoundTrip_controlled)

text \<open>
  C8. A client of the guard only connects where the policy permits, zones apart. In direct mode, whatever
  the resolver answers at each dial and wherever the peers redirect to, every connection that
  \<open>http.Client\<close> opens is to a literal address. If the address has no zone, the policy permits it. If
  it has one, the range tables do not apply, and all that is left for a tenant is that it is neither
  link-local nor, unless the policy says so, loopback.
\<close>

theorem client_connections_permitted:
  assumes "t \<in> set (ex_Conns (client_do g cl net req))"
  shows "\<exists>h p a. SplitHostPort t = Some (h, p) \<and> ParseAddr h = Some a
    \<and> (zone (Unmap a) = [] \<longrightarrow> permitted (eg_policy g) cl (Unmap a))
    \<and> (cl = Tenant \<longrightarrow> \<not> IsLinkLocalUnicast (Unmap a) \<and> \<not> IsLinkLocalMulticast (Unmap a)
         \<and> (IsLoopback (Unmap a) \<longrightarrow> po_allowLoopback (eg_policy g)))"
proof -
  have "checkDialAddress g cl t = None" using assms client_loop_controlled unfolding client_do_def by blast
  then obtain h p a where a: "SplitHostPort t = Some (h, p)" "ParseAddr h = Some a" "checkAddr g cl a = None"
    using checkDialAddress_literal by blast
  have "zone (Unmap a) = [] \<longrightarrow> permitted (eg_policy g) cl (Unmap a)"
    using a(3) checkAddr_permitted [of a g cl] by simp
  moreover have "cl = Tenant \<longrightarrow> \<not> IsLinkLocalUnicast (Unmap a) \<and> \<not> IsLinkLocalMulticast (Unmap a)
      \<and> (IsLoopback (Unmap a) \<longrightarrow> po_allowLoopback (eg_policy g))"
    using a(3) checkAddr_tenant_links [of g a] by auto
  ultimately show ?thesis using a by blast
qed

section \<open>Redirects\<close>

lemma checkRedirect_drops:
  assumes "checkRedirect g req via = Inr req'" "\<not> sameHost (url_Host (hr_URL (last via))) (url_Host (hr_URL req))" "k \<in> set credentialHeaders"
  shows "gomap_get (hr_Header req') k = None"
  using assms by (auto simp: checkRedirect_def Let_def gomap split: if_splits)

lemma checkRedirect_sel:
  assumes "checkRedirect g req via = Inr req'"
  shows "hr_URL req' = hr_URL req" "gomap_get (hr_Header req') k = None \<or> gomap_get (hr_Header req') k = gomap_get (hr_Header req) k"
    "\<not> (strings_EqualFold (url_Scheme (hr_URL (last via))) ''https'' \<and> strings_EqualFold (url_Scheme (hr_URL req')) ''http'')"
  using assms by (auto simp: checkRedirect_def Let_def gomap split: if_splits)

text \<open>Each request of a chain and the one before it: a change of host drops every credential header, and
  https is not left for http.\<close>

fun hops_ok :: "HTTPReq \<Rightarrow> HTTPReq list \<Rightarrow> bool" where
  "hops_ok prev [] = True"
| "hops_ok prev (req # rest) \<longleftrightarrow>
     (sameHost (url_Host (hr_URL prev)) (url_Host (hr_URL req)) \<or> (\<forall>k \<in> set credentialHeaders. gomap_get (hr_Header req) k = None))
     \<and> \<not> (strings_EqualFold (url_Scheme (hr_URL prev)) ''https'' \<and> strings_EqualFold (url_Scheme (hr_URL req)) ''http'')
     \<and> hops_ok req rest"

lemma client_loop_hops:
  assumes "int (length via) < po_MaxRedirects (eg_policy g)"
  shows "let x = client_loop g cl net ireq via strip req in
    int (length via + length (ex_Sent x)) \<le> po_MaxRedirects (eg_policy g)
    \<and> (ex_Sent x = [] \<or> (\<exists>rest. ex_Sent x = req # rest \<and> hops_ok req rest))"
  unfolding Let_def
proof (rule client_loop_rule [where Q = "\<lambda>via _ req x. int (length via) < po_MaxRedirects (eg_policy g) \<longrightarrow>
    int (length via + length (ex_Sent x)) \<le> po_MaxRedirects (eg_policy g)
    \<and> (ex_Sent x = [] \<or> (\<exists>rest. ex_Sent x = req # rest \<and> hops_ok req rest))", THEN mp, OF _ _ _ assms])
  fix via :: "HTTPReq list" and req conns u strip' req' x
  let ?nxt = "\<lparr>hr_URL = u, hr_Header = copyHeaders strip' (hr_Header ireq)\<rparr>"
  assume ok: "checkRedirect g ?nxt (via @ [req]) = Inr req'"
    and IH: "int (length (via @ [req])) < po_MaxRedirects (eg_policy g) \<longrightarrow>
      int (length (via @ [req]) + length (ex_Sent x)) \<le> po_MaxRedirects (eg_policy g)
      \<and> (ex_Sent x = [] \<or> (\<exists>rest. ex_Sent x = req' # rest \<and> hops_ok req' rest))"
  note red = checkRedirect_drops [OF ok] checkRedirect_sel [OF ok]
  have "int (length (via @ [req])) < po_MaxRedirects (eg_policy g)" using checkRedirect_bound [OF ok] by simp
  with IH red show "int (length via) < po_MaxRedirects (eg_policy g) \<longrightarrow>
      int (length via + length (ex_Sent (x\<lparr>ex_Sent := req # ex_Sent x, ex_Conns := conns @ ex_Conns x\<rparr>))) \<le> po_MaxRedirects (eg_policy g)
      \<and> (ex_Sent (x\<lparr>ex_Sent := req # ex_Sent x, ex_Conns := conns @ ex_Conns x\<rparr>) = []
         \<or> (\<exists>rest. ex_Sent (x\<lparr>ex_Sent := req # ex_Sent x, ex_Conns := conns @ ex_Conns x\<rparr>) = req # rest \<and> hops_ok req rest))"
    by auto
qed auto

text \<open>A chain of redirects that nothing else stops uses up the limit.\<close>

lemma client_loop_exhausts:
  assumes "\<And>k rq. snd (RoundTrip g cl net k rq) = Inr (Redirect u)" "\<not> strings_EqualFold (url_Scheme u) ''http''"
    and "int (length via) < po_MaxRedirects (eg_policy g)"
  shows "int (length via + length (ex_Sent (client_loop g cl net ireq via strip req))) = po_MaxRedirects (eg_policy g)
    \<and> ex_Result (client_loop g cl net ireq via strip req) = Inl (TooManyRedirects (nat (po_MaxRedirects (eg_policy g))))"
  using assms(3)
proof (induction "nat (po_MaxRedirects (eg_policy g)) - length via" arbitrary: via strip req rule: less_induct)
  case less
  obtain conns where rt: "RoundTrip g cl net (length via) req = (conns, Inr (Redirect u))" by (metis assms(1) prod.collapse)
  define strip' where "strip' = (strip \<or> leaves_domain (hr_URL ireq) u)"
  define nxt where "nxt = \<lparr>hr_URL = u, hr_Header = copyHeaders strip' (hr_Header ireq)\<rparr>"
  note unfold = client_loop.simps [of g cl net ireq via strip req] rt strip'_def [symmetric] nxt_def [symmetric] Let_def
  show ?case
  proof (cases "int (length via + 1) < po_MaxRedirects (eg_policy g)")
    case False
    then have "checkRedirect g nxt (via @ [req]) = Inl (TooManyRedirects (length via + 1))" by (simp add: checkRedirect_def)
    then show ?thesis using False less.prems by (simp add: unfold)
  next
    case True
    have "hr_URL nxt = u" by (simp add: nxt_def)
    then have "\<exists>req'. checkRedirect g nxt (via @ [req]) = Inr req'"
      using True assms(2) by (simp add: checkRedirect_def Let_def)
    then obtain req' where "checkRedirect g nxt (via @ [req]) = Inr req'" ..
    with less.hyps [of "via @ [req]" strip' req'] True show ?thesis by (simp add: unfold)
  qed
qed

lemma NewGuard_redirects: "0 < po_MaxRedirects (eg_policy (NewGuard r po))"
  by (simp add: NewGuard_def Let_def)

text \<open>
  C10. Redirects are bounded and do not carry keys to another host. Every call through a client of
  \<open>New(policy)\<close> ends after at most \<open>MaxRedirects\<close> requests, the first one included, and a peer that
  redirects without end gets exactly that many before the call is refused. When a redirect goes to
  another host than the request before it, the new request has none of the credential headers, and
  no redirect leaves https for http.
\<close>

theorem redirects_bounded_and_stripped:
  "let g = NewGuard r po; x = client_do g cl net req in
     int (length (ex_Sent x)) \<le> po_MaxRedirects (eg_policy g)
     \<and> (ex_Sent x = [] \<or> (\<exists>rest. ex_Sent x = req # rest \<and> hops_ok req rest))
     \<and> ((\<forall>k rq. snd (RoundTrip g cl net k rq) = Inr (Redirect u)) \<and> \<not> strings_EqualFold (url_Scheme u) ''http''
        \<longrightarrow> int (length (ex_Sent x)) = po_MaxRedirects (eg_policy g)
          \<and> ex_Result x = Inl (TooManyRedirects (nat (po_MaxRedirects (eg_policy g)))))"
  using client_loop_hops [of "[]" "NewGuard r po" cl net req False req] NewGuard_redirects [of r po]
    client_loop_exhausts [of "NewGuard r po" cl net u "[]" req False req]
  by (simp add: client_do_def Let_def)

lemma sameHost_refl [simp]: "sameHost a a"
  by (simp add: sameHost_def strings_EqualFold_def)

text \<open>
  C29. A key does leak on the second redirect. \<open>http.Client\<close> builds every request of a chain from the
  headers of the first one, and \<open>checkRedirect\<close> only compares a request with the one before it. So a
  host that a call was redirected to gets no key at first, but if it redirects once more, to itself,
  it receives every credential header of the original request that the standard library does not
  know to be sensitive, \<open>X-Api-Key\<close> and the other vendor keys among them.
\<close>

theorem second_redirect_carries_key:
  assumes "k \<in> set credentialHeaders" "k \<notin> set sensitiveHeaders" "gomap_get (hr_Header req) k = Some v" "2 < po_MaxRedirects (eg_policy g)"
    and "\<not> sameHost (url_Host (hr_URL req)) (url_Host u)" "\<not> strings_EqualFold (url_Scheme u) ''http''"
    and "RoundTrip g cl net 0 req = (c0, Inr (Redirect u))"
    and "\<And>r. hr_URL r = u \<Longrightarrow> \<exists>c. RoundTrip g cl net 1 r = (c, Inr (Redirect u))"
    and "\<And>r. hr_URL r = u \<Longrightarrow> \<exists>c b. RoundTrip g cl net 2 r = (c, Inr (Response b))"
  shows "\<exists>r1 r2. ex_Sent (client_do g cl net req) = [req, r1, r2] \<and> hr_URL r1 = u \<and> hr_URL r2 = u
    \<and> gomap_get (hr_Header r1) k = None \<and> gomap_get (hr_Header r2) k = Some v"
proof -
  define strip where "strip = leaves_domain (hr_URL req) u"
  define n where "n = \<lparr>hr_URL = u, hr_Header = copyHeaders strip (hr_Header req)\<rparr>"
  define r1 where "r1 = n\<lparr>hr_Header := fold gomap_del credentialHeaders (hr_Header n)\<rparr>"
  have k: "gomap_get (hr_Header n) k = Some v" "gomap_get (hr_Header r1) k = None"
    using assms(1-3) by (simp_all add: n_def r1_def copyHeaders_def gomap)
  have red1: "checkRedirect g n [req] = Inr r1" and red2: "checkRedirect g n [req, r1] = Inr n"
    using assms(4-6) by (simp_all add: checkRedirect_def n_def r1_def)
  have u: "hr_URL n = u" "hr_URL r1 = u" by (simp_all add: n_def r1_def)
  obtain c1 c2 b where rt: "RoundTrip g cl net 1 r1 = (c1, Inr (Redirect u))" "RoundTrip g cl net 2 n = (c2, Inr (Response b))"
    using assms(8) [OF u(2)] assms(9) [OF u(1)] by auto
  have "ex_Sent (client_loop g cl net req [req, r1] strip n) = [n]"
    using rt(2) by (subst client_loop.simps) (simp add: numeral_2_eq_2)
  then have "ex_Sent (client_loop g cl net req [req] strip r1) = [r1, n]"
    using rt(1) red2 by (subst client_loop.simps) (simp add: strip_def n_def Let_def)
  then have "ex_Sent (client_loop g cl net req [] False req) = [req, r1, n]"
    using assms(7) red1 by (subst client_loop.simps) (simp add: strip_def n_def Let_def)
  then show ?thesis using k u by (auto simp: client_do_def)
qed

section \<open>Zones\<close>

text \<open>
  C30. A zone switches the range tables off. Prefixes never contain an address that has a zone, and none of
  the tables is consulted in any other way. An operator destination with a zone therefore passes
  whatever its address is, the IPv6 metadata service included; a tenant destination passes unless it
  is loopback, link-local, or an IPv4 address in IPv6 form, so a unique-local (private) address
  with a zone gets through.
\<close>

theorem zoned_address_passes:
  assumes "zone (Unmap a) \<noteq> []"
  shows "checkAddr g Operator a = None
    \<and> (checkAddr g Tenant a = None \<longleftrightarrow> \<not> IsLinkLocalUnicast a \<and> \<not> IsLinkLocalMulticast a \<and> (IsLoopback a \<longrightarrow> po_allowLoopback (eg_policy g)))"
proof -
  have none: "\<not> list_ex (\<lambda>p. prefixHas p (Unmap a)) ps" for ps
    using assms by (cases "Unmap a") (auto simp: list_ex_iff prefixHas_def Contains_def zone_def split: Addr.splits)
  have same: "IsLinkLocalUnicast (Unmap a) = IsLinkLocalUnicast a" "IsLinkLocalMulticast (Unmap a) = IsLinkLocalMulticast a"
    "IsLoopback (Unmap a) = IsLoopback a"
    by (simp_all add: IsLinkLocalUnicast_def IsLinkLocalMulticast_def IsLoopback_def)
  show ?thesis by (simp add: checkAddr_def Let_def none same)
qed

section \<open>In-cluster mode\<close>

lemma first_error_None: "first_error f xs = None \<longleftrightarrow> (\<forall>x \<in> set xs. f x = None)"
  by (induction xs) (auto split: option.splits)

text \<open>
  C28. In-cluster mode confines tenants to the allow-list. When public destinations are blocked, a request
  of a tenant is only sent if its host is an address on the operator's allow-list or a name that is
  on it verbatim; a redirect is a request of its own.
\<close>

theorem in_cluster_only_confines:
  assumes "po_PublicDestinationsBlocked (eg_policy g)" "RoundTrip g Tenant net k req = (conns, Inr ans)"
  shows "\<exists>u. parseDestination (Some (hr_URL req)) = Inr u \<and> (case ParseAddr (Hostname u) of
      Some a \<Rightarrow> literalAddrAllowedByOverride g a | None \<Rightarrow> hostInInternalAllowList g (Hostname u))"
proof -
  have vet: "vetForModes g k (Some (hr_URL req)) Tenant = None"
    using assms by (simp add: RoundTrip_def vetting_def split: option.splits)
  then obtain u where u: "parseDestination (Some (hr_URL req)) = Inr u"
    using assms(1) by (auto simp: vetForModes_def CheckURL_def checkURLInClusterOnly_def Let_def split: sum.splits option.splits if_splits)
  show ?thesis
  proof (cases "ParseAddr (Hostname u)")
    case None
    then have "hostInInternalAllowList g (Hostname u)"
      using vet assms(1) u by (auto simp: vetForModes_def Let_def split: option.splits if_splits)
    then show ?thesis using u None by simp
  next
    case (Some a)
    then have "literalAddrAllowedByOverride g a"
      using vet assms(1) u
      by (auto simp: vetForModes_def CheckURL_def checkURLInClusterOnly_def matchedByInternalAllowList_def Let_def
          split: option.splits if_splits egress_error.splits)
    then show ?thesis using u Some by simp
  qed
qed

text \<open>
  C31. The allow-list of in-cluster mode overrides the metadata block. An address that is listed, alone or
  in a range, is vetted without an error for either class even if it is in a range that the policy
  calls never permitted, and no dialer checks the connection in this mode.
\<close>

theorem in_cluster_list_overrides_metadata:
  assumes "po_PublicDestinationsBlocked (eg_policy g)" "parseDestination (Some (hr_URL req)) = Inr u" "ParseAddr (Hostname u) = Some a"
    and "literalAddrAllowedByOverride g a" "checkAddr g cl a = Some (ErrBlockedDestination (MetadataAddress (Unmap a)))"
  shows "RoundTrip g cl net k req = ([], Inr (nt_answer net k req))"
  using assms by (simp add: RoundTrip_def vetting_def vetForModes_def matchedByInternalAllowList_def)
section \<open>The properties on concrete guards\<close>

text \<open>The strict default guard; a network in which every host is one public address, and hosts redirect
  twice to \<open>b.com\<close>; a guard whose operator listed the metadata address by mistake.\<close>

definition strict_guard :: EgressGuard where
  "strict_guard = NewGuard (\<lambda>_ _. Inr []) zero_Policy"

definition demo_url :: "string \<Rightarrow> URL" where
  "demo_url host = \<lparr>url_Scheme = ''https'', url_Host = host, url_User = False\<rparr>"

definition demo_net :: Net where
  "demo_net = \<lparr>nt_targets = (\<lambda>_ _. [''[::1]:443'', ''8.8.8.8:443'']), nt_connects = (\<lambda>_ _. True),
     nt_answer = (\<lambda>k _. if k < 2 then Redirect (demo_url ''b.com'') else Response [])\<rparr>"

definition demo_call :: "string \<Rightarrow> HTTPReq" where
  "demo_call host = \<lparr>hr_URL = demo_url host, hr_Header = [(''X-Api-Key'', ''key'')]\<rparr>"

definition listed_guard :: EgressGuard where
  "listed_guard = NewGuard (\<lambda>_ _. Inr []) (zero_Policy\<lparr>po_PublicDestinationsBlocked := True, po_AllowedInternalHosts := [''169.254.169.254'']\<rparr>)"

lemma demo_dial: "dial (checkDialAddress strict_guard Tenant) (\<lambda>_. True) [''[::1]:443'', ''8.8.8.8:443''] = ([''8.8.8.8:443''], True)"
proof -
  have "checkDialAddress strict_guard Tenant ''[::1]:443'' \<noteq> None" "checkDialAddress strict_guard Tenant ''8.8.8.8:443'' = None" by code_simp+
  then show ?thesis by simp
qed

lemma demo_trip: "RoundTrip strict_guard Tenant demo_net k req
    = ([''8.8.8.8:443''], Inr (if k < 2 then Redirect (demo_url ''b.com'') else Response []))"
  using demo_dial by (simp add: RoundTrip_def demo_net_def vetting_def strict_guard_def NewGuard_def zero_Policy_def)

theorem client_connections_permitted_witness:
  "\<exists>h p a. SplitHostPort ''8.8.8.8:443'' = Some (h, p) \<and> ParseAddr h = Some a
    \<and> (zone (Unmap a) = [] \<longrightarrow> permitted (eg_policy strict_guard) Tenant (Unmap a))
    \<and> (Tenant = Tenant \<longrightarrow> \<not> IsLinkLocalUnicast (Unmap a) \<and> \<not> IsLinkLocalMulticast (Unmap a)
         \<and> (IsLoopback (Unmap a) \<longrightarrow> po_allowLoopback (eg_policy strict_guard)))"
proof (rule client_connections_permitted)
  show "''8.8.8.8:443'' \<in> set (ex_Conns (client_do strict_guard Tenant demo_net (demo_call ''a.com'')))"
    by (simp add: client_do_def) (subst client_loop.simps, simp add: demo_trip Let_def split: sum.split answer.split)
qed

definition looping_net :: Net where
  "looping_net = demo_net\<lparr>nt_answer := (\<lambda>_ _. Redirect (demo_url ''b.com''))\<rparr>"

theorem redirects_bounded_and_stripped_witness:
  "length (ex_Sent (client_do strict_guard Tenant looping_net (demo_call ''a.com''))) = 3
   \<and> ex_Result (client_do strict_guard Tenant looping_net (demo_call ''a.com'')) = Inl (TooManyRedirects 3)"
proof -
  have trip: "snd (RoundTrip strict_guard Tenant looping_net k rq) = Inr (Redirect (demo_url ''b.com''))" for k rq
    using demo_dial by (simp add: RoundTrip_def looping_net_def demo_net_def vetting_def strict_guard_def NewGuard_def zero_Policy_def)
  have max: "po_MaxRedirects (eg_policy strict_guard) = 3" by (simp add: strict_guard_def NewGuard_def zero_Policy_def)
  have https: "\<not> strings_EqualFold (url_Scheme (demo_url ''b.com'')) ''http''" by code_simp
  show ?thesis
    using redirects_bounded_and_stripped [of "\<lambda>_ _. Inr []" zero_Policy Tenant looping_net "demo_call ''a.com''" "demo_url ''b.com''",
        folded strict_guard_def] trip max https
    by (simp add: Let_def)
qed

theorem second_redirect_carries_key_witness:
  "\<exists>r1 r2. ex_Sent (client_do strict_guard Tenant demo_net (demo_call ''a.com'')) = [demo_call ''a.com'', r1, r2]
    \<and> hr_URL r1 = demo_url ''b.com'' \<and> hr_URL r2 = demo_url ''b.com''
    \<and> gomap_get (hr_Header r1) ''X-Api-Key'' = None \<and> gomap_get (hr_Header r2) ''X-Api-Key'' = Some ''key''"
proof (rule second_redirect_carries_key)
  show "\<not> sameHost (url_Host (hr_URL (demo_call ''a.com''))) (url_Host (demo_url ''b.com''))" by code_simp
  show "\<not> strings_EqualFold (url_Scheme (demo_url ''b.com'')) ''http''" by code_simp
  show "2 < po_MaxRedirects (eg_policy strict_guard)" by (simp add: strict_guard_def NewGuard_def zero_Policy_def)
qed (simp_all add: demo_trip demo_call_def credentialHeaders_def sensitiveHeaders_def)

theorem zoned_address_passes_witness:
  "checkAddr strict_guard Operator (IPv6 0xFD000EC2000000000000000000000254 ''eth0'') = None
    \<and> (checkAddr strict_guard Tenant (IPv6 0xFD000EC2000000000000000000000254 ''eth0'') = None
       \<longleftrightarrow> \<not> IsLinkLocalUnicast (IPv6 0xFD000EC2000000000000000000000254 ''eth0'') \<and> \<not> IsLinkLocalMulticast (IPv6 0xFD000EC2000000000000000000000254 ''eth0'')
          \<and> (IsLoopback (IPv6 0xFD000EC2000000000000000000000254 ''eth0'') \<longrightarrow> po_allowLoopback (eg_policy strict_guard)))"
  by (rule zoned_address_passes) (simp add: zone_def Unmap_def drop_bit_interval)

lemma listed_facts:
  "parseDestination (Some (hr_URL (demo_call ''169.254.169.254''))) = Inr (demo_url ''169.254.169.254'')"
  "ParseAddr (Hostname (demo_url ''169.254.169.254'')) = Some (IPv4 0xA9FEA9FE)"
  "literalAddrAllowedByOverride listed_guard (IPv4 0xA9FEA9FE)"
  "checkAddr listed_guard Tenant (IPv4 0xA9FEA9FE) = Some (ErrBlockedDestination (MetadataAddress (Unmap (IPv4 0xA9FEA9FE))))"
  by code_simp+

lemma listed_blocked: "po_PublicDestinationsBlocked (eg_policy listed_guard)"
  by (simp add: listed_guard_def NewGuard_def Let_def)

theorem in_cluster_list_overrides_metadata_witness:
  "RoundTrip listed_guard Tenant demo_net 0 (demo_call ''169.254.169.254'') = ([], Inr (nt_answer demo_net 0 (demo_call ''169.254.169.254'')))"
  by (rule in_cluster_list_overrides_metadata [OF listed_blocked listed_facts])

theorem in_cluster_only_confines_witness:
  "\<exists>u. parseDestination (Some (hr_URL (demo_call ''169.254.169.254''))) = Inr u \<and> (case ParseAddr (Hostname u) of
      Some a \<Rightarrow> literalAddrAllowedByOverride listed_guard a | None \<Rightarrow> hostInInternalAllowList listed_guard (Hostname u))"
proof (rule in_cluster_only_confines [OF listed_blocked])
  show "RoundTrip listed_guard Tenant demo_net 0 (demo_call ''169.254.169.254'') = ([], Inr (nt_answer demo_net 0 (demo_call ''169.254.169.254'')))"
    using listed_facts listed_blocked by (simp add: RoundTrip_def vetting_def vetForModes_def matchedByInternalAllowList_def)
qed

end
