(* ===== verification/IpPolicy.thy ===== *)
theory IpPolicy
  imports ApiErr Netip
begin

text \<open>
  \<open>internal/ippolicy\<close>: which address counts as the source of a request, with proxies in front of the
  gateway, and how addresses are masked. A parsed \<open>net.IP\<close> is an address without a zone, with IPv4 in
  its own form; a \<open>*net.IPNet\<close> is a prefix or nil.
\<close>

section \<open>Model\<close>

record Source =
  so_RawSocketAddr :: string
  so_RawSocketHost :: string
  so_TrustProxyHeader :: bool
  so_HopsUsed :: nat
  so_HeaderChain :: "string list"
  so_EffectiveIP :: string

definition TrustedRemote :: "string \<Rightarrow> Prefix option list \<Rightarrow> bool" where
  "TrustedRemote host cidrList =
     (if host = [] then False
      else case ParseIP host of
        None \<Rightarrow> False
      | Some ip \<Rightarrow> list_ex (\<lambda>c. case c of None \<Rightarrow> False | Some c \<Rightarrow> Contains c ip) cidrList)"

abbreviation HeaderMaxLen :: int where "HeaderMaxLen \<equiv> 8 * 1024"

text \<open>Both branches of the source strip the port in the same way.\<close>

definition forwarded_hop :: "string \<Rightarrow> string option" where
  "forwarded_hop p =
     (let p = strings_TrimSpace p in
      if p = [] then None
      else if prefix ''['' p then (case SplitHostPort p of Some (h, _) \<Rightarrow> Some h | None \<Rightarrow> Some p)
      else (case SplitHostPort p of Some (h, _) \<Rightarrow> Some h | None \<Rightarrow> Some p))"

definition ParseForwardedFor :: "string \<Rightarrow> string list" where
  "ParseForwardedFor value =
     (if int (length value) > HeaderMaxLen then [] else List.map_filter forwarded_hop (strings_Split (CHR '','') value))"

definition scrubbed :: "string \<Rightarrow> string" where
  "scrubbed s = Scrub s"

text \<open>The walk over the hops from the right: their number so far, the last accepted one. The list is
  reversed.\<close>

fun walk_hops :: "Prefix option list \<Rightarrow> int \<Rightarrow> string list \<Rightarrow> nat \<Rightarrow> string \<Rightarrow> nat \<times> string" where
  "walk_hops cidrs trustedHops [] accepted effective = (accepted, effective)"
| "walk_hops cidrs trustedHops (h # hs) accepted effective =
     (if ParseIP h = None then (accepted, effective)
      else if \<not> TrustedRemote h cidrs then (accepted, effective)
      else if int (accepted + 1) \<ge> trustedHops then (accepted + 1, h)
      else walk_hops cidrs trustedHops hs (accepted + 1) h)"

definition ResolveSource :: "string \<Rightarrow> string \<Rightarrow> Prefix option list \<Rightarrow> int \<Rightarrow> Source" where
  "ResolveSource remoteAddr xff trustedCIDRs trustedHops =
     (let (rawAddr, rawHost) =
            (if remoteAddr \<noteq> [] then
               (case SplitHostPort remoteAddr of Some (host, _) \<Rightarrow> (remoteAddr, host) | None \<Rightarrow> (remoteAddr @ '':0'', remoteAddr))
             else ([], []));
          src = \<lparr>so_RawSocketAddr = scrubbed rawAddr, so_RawSocketHost = scrubbed rawHost, so_TrustProxyHeader = False,
                 so_HopsUsed = 0, so_HeaderChain = [], so_EffectiveIP = []\<rparr> in
      if length trustedCIDRs = 0 \<or> trustedHops \<le> 0 \<or> rawHost = [] then src\<lparr>so_EffectiveIP := so_RawSocketHost src\<rparr>
      else if \<not> TrustedRemote rawHost trustedCIDRs then src\<lparr>so_EffectiveIP := so_RawSocketHost src\<rparr>
      else
        let src = src\<lparr>so_TrustProxyHeader := True\<rparr> in
        if xff = [] then src\<lparr>so_EffectiveIP := so_RawSocketHost src\<rparr>
        else
          let hops = ParseForwardedFor xff;
              src = src\<lparr>so_HeaderChain := hops\<rparr>;
              (accepted, effective) = walk_hops trustedCIDRs trustedHops (rev hops) 0 [];
              effective = (if effective = [] then so_RawSocketHost src else effective)
          in src\<lparr>so_HopsUsed := accepted, so_EffectiveIP := effective\<rparr>)"

text \<open>\<open>Masked\<close> on a parsed address: the last byte of an IPv4 address, the last ten bytes of an IPv6
  address. How Go prints an address is a parameter.\<close>

definition mask_addr :: "Addr \<Rightarrow> Addr" where
  "mask_addr a =
     (case a of
        IPv4 w \<Rightarrow> IPv4 (push_bit 8 (drop_bit 8 w))
      | IPv6 w z \<Rightarrow> IPv6 (push_bit 80 (drop_bit 80 w)) z)"

definition Masked :: "(Addr \<Rightarrow> string) \<Rightarrow> string \<Rightarrow> string" where
  "Masked show_addr ip = (if ip = [] then [] else case ParseIP ip of None \<Rightarrow> ip | Some a \<Rightarrow> show_addr (mask_addr a))"

text \<open>\<open>strconv.Atoi\<close> on texts that fit an \<open>int\<close>; others are an error.\<close>

definition strconv_Atoi :: "string \<Rightarrow> int option" where
  "strconv_Atoi s =
     (let (neg, d) = (case s of [] \<Rightarrow> (False, []) | c # r \<Rightarrow> if c = CHR ''-'' then (True, r) else if c = CHR ''+'' then (False, r) else (False, s));
          n = (if neg then - dec_val d else dec_val d) in
      if d = [] \<or> \<not> list_all is_digit d \<or> n < - (2 ^ 63) \<or> 2 ^ 63 \<le> n then None else Some n)"

definition HopsFromConfig :: "string \<Rightarrow> int" where
  "HopsFromConfig s =
     (if s = [] then 1 else case strconv_Atoi s of None \<Rightarrow> 0 | Some n \<Rightarrow> if n < 0 then 0 else n)"

section \<open>The effective source\<close>

lemma TrustedRemote_nonempty: "TrustedRemote h cs \<Longrightarrow> h \<noteq> []"
  by (auto simp: TrustedRemote_def)

lemma walk_hops_spec:
  assumes "walk_hops cidrs n hs k e = (k', e')" "int k < n"
  shows "\<exists>m \<le> length hs. k' = k + m \<and> int k' \<le> n \<and> list_all (\<lambda>h. TrustedRemote h cidrs) (take m hs)
    \<and> e' = (if m = 0 then e else hs ! (m - 1)) \<and> (int k' < n \<and> m < length hs \<longrightarrow> \<not> TrustedRemote (hs ! m) cidrs)"
  using assms
proof (induction hs arbitrary: k e)
  case (Cons h hs)
  show ?case
  proof (cases "TrustedRemote h cidrs")
    case False
    then show ?thesis using Cons.prems by (intro exI [of _ 0]) (auto split: if_splits)
  next
    case trusted: True
    then have ip: "ParseIP h \<noteq> None" by (auto simp: TrustedRemote_def split: if_splits option.splits)
    show ?thesis
    proof (cases "int (k + 1) \<ge> n")
      case True
      then show ?thesis using Cons.prems trusted ip by (intro exI [of _ 1]) auto
    next
      case False
      then have "walk_hops cidrs n hs (k + 1) h = (k', e')" using Cons.prems trusted ip by auto
      then obtain m where m: "m \<le> length hs" "k' = k + 1 + m" "int k' \<le> n" "list_all (\<lambda>h. TrustedRemote h cidrs) (take m hs)"
          "e' = (if m = 0 then h else hs ! (m - 1))" "int k' < n \<and> m < length hs \<longrightarrow> \<not> TrustedRemote (hs ! m) cidrs"
        using Cons.IH [of "k + 1" h] False by fastforce
      then show ?thesis using trusted by (intro exI [of _ "Suc m"]) (auto simp: nth_Cons')
    qed
  qed
qed (intro exI [of _ 0], auto)

text \<open>
  C27. A client cannot choose its own source address. The effective address is the socket's, or it is an
  entry of the forwarding header that lies in a trusted range; then the socket is trusted as well, and
  so is every entry to the right of it. No more entries are used than configured, and the walk only
  stops earlier at the end of the header or at an entry that is not trusted. In particular the
  address of a client outside the trusted ranges is never the effective one.
\<close>

theorem effective_source_trusted:
  assumes "src = ResolveSource remote xff cidrs n"
  shows "so_EffectiveIP src = so_RawSocketHost src \<and> so_HopsUsed src = 0
    \<or> (\<exists>m. so_HopsUsed src = Suc m \<and> int (Suc m) \<le> n \<and> Suc m \<le> length (so_HeaderChain src)
         \<and> so_EffectiveIP src = rev (so_HeaderChain src) ! m \<and> list_all (\<lambda>h. TrustedRemote h cidrs) (take (Suc m) (rev (so_HeaderChain src)))
         \<and> (int (Suc m) < n \<and> Suc m < length (so_HeaderChain src) \<longrightarrow> \<not> TrustedRemote (rev (so_HeaderChain src) ! Suc m) cidrs)
         \<and> (\<exists>host. TrustedRemote host cidrs \<and> (host = remote \<or> (\<exists>port. SplitHostPort remote = Some (host, port)))))"
proof (cases "so_HopsUsed src")
  case 0
  then show ?thesis
    using assms walk_hops_spec [of cidrs n "rev (ParseForwardedFor xff)" 0 "[]"]
    by (auto simp: ResolveSource_def Let_def split: if_splits prod.splits option.splits)
next
  case (Suc m)
  let ?hs = "rev (ParseForwardedFor xff)"
  obtain k e where walk: "walk_hops cidrs n ?hs 0 [] = (k, e)" by fastforce
  have used: "so_HopsUsed src = k" "so_HeaderChain src = ParseForwardedFor xff" "0 < n" "e \<noteq> [] \<Longrightarrow> so_EffectiveIP src = e"
    and host: "\<exists>host. TrustedRemote host cidrs \<and> (host = remote \<or> (\<exists>port. SplitHostPort remote = Some (host, port)))"
    using assms Suc walk by (auto simp: ResolveSource_def Let_def split: if_splits prod.splits option.splits)
  from walk_hops_spec [OF walk] used(3) Suc used(1)
  have w: "Suc m \<le> length ?hs" "int (Suc m) \<le> n" "list_all (\<lambda>h. TrustedRemote h cidrs) (take (Suc m) ?hs)" "e = ?hs ! m"
    "int (Suc m) < n \<and> Suc m < length ?hs \<longrightarrow> \<not> TrustedRemote (?hs ! Suc m) cidrs"
    by auto
  have "TrustedRemote e cidrs" using w(1,3,4) by (auto simp: list_all_length)
  then have "so_EffectiveIP src = e" using used(4) TrustedRemote_nonempty by blast
  then show ?thesis using w Suc used host by auto
qed

theorem effective_source_trusted_witness:
  "let src = ResolveSource ''10.0.0.1:1234'' ''1.2.3.4, 10.0.0.2'' [Some (PrefixFrom (IPv4 0x0A000000) 8)] 5 in
    so_EffectiveIP src = ''10.0.0.2'' \<and> so_HopsUsed src = 1
    \<and> (so_EffectiveIP src = so_RawSocketHost src \<and> so_HopsUsed src = 0
    \<or> (\<exists>m. so_HopsUsed src = Suc m \<and> int (Suc m) \<le> 5 \<and> Suc m \<le> length (so_HeaderChain src)
         \<and> so_EffectiveIP src = rev (so_HeaderChain src) ! m))"
proof -
  let ?c = "[Some (PrefixFrom (IPv4 0x0A000000) 8)]"
  have "SplitHostPort ''10.0.0.1:1234'' = Some (''10.0.0.1'', ''1234'')" by code_simp
  moreover have "TrustedRemote ''10.0.0.1'' ?c" by code_simp
  moreover have "ParseForwardedFor ''1.2.3.4, 10.0.0.2'' = [''1.2.3.4'', ''10.0.0.2'']" by code_simp
  moreover have "walk_hops ?c 5 [''10.0.0.2'', ''1.2.3.4''] 0 [] = (1, ''10.0.0.2'')" by code_simp
  ultimately have "so_EffectiveIP (ResolveSource ''10.0.0.1:1234'' ''1.2.3.4, 10.0.0.2'' ?c 5) = ''10.0.0.2''"
    "so_HopsUsed (ResolveSource ''10.0.0.1:1234'' ''1.2.3.4, 10.0.0.2'' ?c 5) = 1"
    by (simp_all only: ResolveSource_def) (simp_all del: walk_hops.simps)
  with effective_source_trusted [OF refl, of "''10.0.0.1:1234''" "''1.2.3.4, 10.0.0.2''" ?c 5] show ?thesis
    unfolding Let_def by blast
qed

section \<open>Masking\<close>

lemma drop_bit_push_bit_drop_bit: "drop_bit k (push_bit k (drop_bit k x)) = drop_bit k x" for x :: "'a :: len word"
  by (auto simp: bit_eq_iff bit_simps dest: bit_imp_le_length)

text \<open>
  Masking hides the host part and nothing else. Two IPv4 addresses are masked alike exactly when they
  are in the same network of 256 addresses, two IPv6 addresses exactly when they have the same first 48
  bits, and masking twice is masking once.
\<close>

theorem mask_addr_granularity:
  "(mask_addr (IPv4 v) = mask_addr (IPv4 v') \<longleftrightarrow> unat v div 256 = unat v' div 256)
    \<and> (mask_addr (IPv6 w []) = mask_addr (IPv6 w' []) \<longleftrightarrow> unat w div 2 ^ 80 = unat w' div 2 ^ 80)
    \<and> mask_addr (mask_addr a) = mask_addr a"
proof -
  have inj: "push_bit k (drop_bit k x) = push_bit k (drop_bit k y) \<longleftrightarrow> unat x div 2 ^ k = unat y div 2 ^ k" for k and x y :: "'a :: len word"
  proof -
    have "push_bit k (drop_bit k x) = push_bit k (drop_bit k y) \<longleftrightarrow> drop_bit k x = drop_bit k y"
      by (metis drop_bit_push_bit_drop_bit)
    also have "\<dots> \<longleftrightarrow> drop_bit k (unat x) = drop_bit k (unat y)" by (metis unat_drop_bit_eq word_unat_eq_iff)
    finally show ?thesis by (metis drop_bit_eq_div)
  qed
  have "mask_addr (mask_addr a) = mask_addr a"
    by (cases a) (simp_all add: mask_addr_def drop_bit_push_bit_drop_bit)
  then show ?thesis using inj [of 8 v v'] inj [of 80 w w'] by (simp add: mask_addr_def)
qed

end
