(* ===== verification/Json.thy ===== *)
theory Json
  imports Nexus_Prelude
begin

text \<open>
  The part of Go's \<open>encoding/json\<close> that the request translations of \<open>internal/gateway\<close> use, on the
  bytes of the text: the syntax check and the decoder of \<open>Unmarshal\<close>, \<open>json.RawMessage\<close> as the bytes
  of a value, the field lookup of struct targets, and \<open>Marshal\<close> with its string escapes. The parser
  takes fuel; \<open>parse_fuel\<close> shows that twice the length of the text is enough. The main fact is that
  what \<open>Marshal\<close> writes is read back as the tree of the value (\<open>parse_Marshal\<close>).
\<close>

section \<open>Text in UTF-8\<close>

abbreviation byte_in :: "char \<Rightarrow> nat \<Rightarrow> nat \<Rightarrow> bool" where
  "byte_in c lo hi \<equiv> lo \<le> of_char c \<and> of_char c \<le> hi"

definition rune2 :: "char \<Rightarrow> char \<Rightarrow> bool" where
  "rune2 a b = (byte_in a 194 223 \<and> byte_in b 128 191)"

definition rune3 :: "char \<Rightarrow> char \<Rightarrow> char \<Rightarrow> bool" where
  "rune3 a b c = (byte_in c 128 191 \<and>
     (of_char a = (224 :: nat) \<and> byte_in b 160 191 \<or> byte_in a 225 236 \<and> byte_in b 128 191 \<or>
      of_char a = (237 :: nat) \<and> byte_in b 128 159 \<or> byte_in a 238 239 \<and> byte_in b 128 191))"

definition rune4 :: "char \<Rightarrow> char \<Rightarrow> char \<Rightarrow> char \<Rightarrow> bool" where
  "rune4 a b c d = (byte_in c 128 191 \<and> byte_in d 128 191 \<and>
     (of_char a = (240 :: nat) \<and> byte_in b 144 191 \<or> byte_in a 241 243 \<and> byte_in b 128 191 \<or>
      of_char a = (244 :: nat) \<and> byte_in b 128 143))"

text \<open>The number of bytes of the rune at the start of a text, 0 if they are no rune.\<close>

definition rune_len :: "string \<Rightarrow> nat" where
  "rune_len s = (case s of [] \<Rightarrow> 0 | a # s1 \<Rightarrow>
     if of_char a < (128 :: nat) then 1 else
     (case s1 of [] \<Rightarrow> 0 | b # s2 \<Rightarrow>
        if rune2 a b then 2 else
        (case s2 of [] \<Rightarrow> 0 | c # s3 \<Rightarrow>
           if rune3 a b c then 3 else
           (case s3 of [] \<Rightarrow> 0 | d # s4 \<Rightarrow> if rune4 a b c d then 4 else 0))))"

lemma rune_len_le: "rune_len s \<le> length s"
  by (auto simp: rune_len_def split: list.splits)

text \<open>\<open>utf8.ValidString\<close>.\<close>

function utf8_valid :: "string \<Rightarrow> bool" where
  "utf8_valid s = (if s = [] then True else if rune_len s = 0 then False else utf8_valid (drop (rune_len s) s))"
  by auto
termination by (relation "measure length") auto

declare utf8_valid.simps [simp del]

definition utf8_encode :: "nat \<Rightarrow> string" where
  "utf8_encode r =
     (if r < 128 then [char_of r]
      else if r < 2048 then [char_of (192 + r div 64), char_of (128 + r mod 64)]
      else if 55296 \<le> r \<and> r < 57344 \<or> 1114112 \<le> r then [CHR 0xEF, CHR 0xBF, CHR 0xBD]
      else if r < 65536 then
        [char_of (224 + r div 4096), char_of (128 + r div 64 mod 64), char_of (128 + r mod 64)]
      else [char_of (240 + r div 262144), char_of (128 + r div 4096 mod 64),
            char_of (128 + r div 64 mod 64), char_of (128 + r mod 64)])"

abbreviation replacement :: string where
  "replacement \<equiv> [CHR 0xEF, CHR 0xBF, CHR 0xBD]"

section \<open>Strings\<close>

definition is_hex :: "char \<Rightarrow> bool" where
  "is_hex c = (byte_in c 48 57 \<or> byte_in c 65 70 \<or> byte_in c 97 102)"

definition hex_val :: "char \<Rightarrow> nat" where
  "hex_val c = (if byte_in c 48 57 then of_char c - 48 else if byte_in c 65 70 then of_char c - 55 else of_char c - 87)"

definition hex4 :: "char \<Rightarrow> char \<Rightarrow> char \<Rightarrow> char \<Rightarrow> nat" where
  "hex4 a b c d = ((hex_val a * 16 + hex_val b) * 16 + hex_val c) * 16 + hex_val d"

abbreviation quote_char :: char where "quote_char \<equiv> CHR 0x22"
abbreviation backslash :: char where "backslash \<equiv> CHR 0x5C"

text \<open>The body of a string literal, up to the closing quote.\<close>

fun scan_string :: "string \<Rightarrow> (string \<times> string) option" where
  "scan_string [] = None"
| "scan_string (c # s) =
     (if c = quote_char then Some ([], s)
      else if c = backslash then
        (case s of [] \<Rightarrow> None
         | e # s' \<Rightarrow>
             if e \<in> set ''bfnrt/'' \<or> e = quote_char \<or> e = backslash then
               map_option (\<lambda>(b, r). (c # e # b, r)) (scan_string s')
             else if e = CHR ''u'' then
               (case s' of h1 # h2 # h3 # h4 # s'' \<Rightarrow>
                  if is_hex h1 \<and> is_hex h2 \<and> is_hex h3 \<and> is_hex h4 then
                    map_option (\<lambda>(b, r). (c # e # h1 # h2 # h3 # h4 # b, r)) (scan_string s'')
                  else None
                | _ \<Rightarrow> None)
             else None)
      else if of_char c < (32 :: nat) then None
      else map_option (\<lambda>(b, r). (c # b, r)) (scan_string s))"

definition unescape_char :: "char \<Rightarrow> char" where
  "unescape_char e =
     (if e = CHR ''b'' then CHR 0x08 else if e = CHR ''f'' then CHR 0x0C else if e = CHR ''n'' then CHR 0x0A
      else if e = CHR ''r'' then CHR 0x0D else if e = CHR ''t'' then CHR 0x09 else e)"

text \<open>The text that the body of a literal denotes. A surrogate half without its partner and a byte
  that is not part of a rune are read as U+FFFD.\<close>

function unquote :: "string \<Rightarrow> string" where
  "unquote s = (case s of [] \<Rightarrow> []
     | c # s1 \<Rightarrow>
        if c = backslash then
          (case s1 of [] \<Rightarrow> []
           | e # s2 \<Rightarrow>
               if e = CHR ''u'' \<and> 4 \<le> length s2 then
                 (let r = hex4 (s2 ! 0) (s2 ! 1) (s2 ! 2) (s2 ! 3); s3 = drop 4 s2 in
                  if 55296 \<le> r \<and> r < 57344 then
                    (if r < 56320 \<and> 6 \<le> length s3 \<and> s3 ! 0 = backslash \<and> s3 ! 1 = CHR ''u'' then
                       (let r2 = hex4 (s3 ! 2) (s3 ! 3) (s3 ! 4) (s3 ! 5) in
                        if 56320 \<le> r2 \<and> r2 < 57344
                        then utf8_encode ((r - 55296) * 1024 + (r2 - 56320) + 65536) @ unquote (drop 6 s3)
                        else replacement @ unquote s3)
                     else replacement @ unquote s3)
                  else utf8_encode r @ unquote s3)
               else unescape_char e # unquote s2)
        else if of_char c < (128 :: nat) then c # unquote s1
        else if rune_len s = 0 then replacement @ unquote s1
        else take (rune_len s) s @ unquote (drop (rune_len s) s))"
  by auto
termination by (relation "measure length") (auto split: if_splits)

declare unquote.simps [simp del]

section \<open>Parsing\<close>

text \<open>A parsed value. The elements of arrays and the members of objects carry their bytes, which is
  what a \<open>json.RawMessage\<close> target receives.\<close>

datatype json =
    JNull
  | JBool bool
  | JNum string
  | JStr string
  | JArr "(string \<times> json) list"
  | JObj "(string \<times> string \<times> json) list"

definition json_space :: "char \<Rightarrow> bool" where
  "json_space c = (c = CHR '' '' \<or> c = CHR 0x09 \<or> c = CHR 0x0A \<or> c = CHR 0x0D)"

definition skip_ws :: "string \<Rightarrow> string" where
  "skip_ws s = dropWhile json_space s"

text \<open>A number literal: the longest prefix, which must be complete.\<close>

definition scan_digits :: "string \<Rightarrow> (string \<times> string) option" where
  "scan_digits s = (if takeWhile is_digit s = [] then None else Some (takeWhile is_digit s, dropWhile is_digit s))"

definition scan_int :: "string \<Rightarrow> (string \<times> string) option" where
  "scan_int s = (case s of [] \<Rightarrow> None | c # r \<Rightarrow> if c = CHR ''0'' then Some (''0'', r) else scan_digits s)"

definition scan_frac :: "string \<Rightarrow> (string \<times> string) option" where
  "scan_frac s = (case s of [] \<Rightarrow> Some ([], [])
     | c # r \<Rightarrow> if c = CHR ''.'' then map_option (\<lambda>(d, r). (c # d, r)) (scan_digits r) else Some ([], s))"

definition scan_exp :: "string \<Rightarrow> (string \<times> string) option" where
  "scan_exp s = (case s of [] \<Rightarrow> Some ([], [])
     | c # r \<Rightarrow>
        if c = CHR ''e'' \<or> c = CHR ''E'' then
          (case r of [] \<Rightarrow> None
           | sg # r' \<Rightarrow>
               if sg = CHR ''+'' \<or> sg = CHR ''-'' then map_option (\<lambda>(d, r). (c # sg # d, r)) (scan_digits r')
               else map_option (\<lambda>(d, r). (c # d, r)) (scan_digits r))
        else Some ([], s))"

definition scan_number :: "string \<Rightarrow> (string \<times> string) option" where
  "scan_number s =
     (let (sign, s) = (case s of [] \<Rightarrow> ([], []) | c # r \<Rightarrow> if c = CHR ''-'' then ([c], r) else ([], s)) in
      case scan_int s of None \<Rightarrow> None
      | Some (i, r) \<Rightarrow>
         (case scan_frac r of None \<Rightarrow> None
          | Some (f, r) \<Rightarrow>
             (case scan_exp r of None \<Rightarrow> None
              | Some (e, r) \<Rightarrow> Some (sign @ i @ f @ e, r))))"

definition scan_literal :: "string \<Rightarrow> json \<Rightarrow> string \<Rightarrow> (json \<times> string) option" where
  "scan_literal lit v s = (if take (length lit) s = lit then Some (v, drop (length lit) s) else None)"

text \<open>The bytes a parser has consumed.\<close>

abbreviation consumed :: "string \<Rightarrow> string \<Rightarrow> string" where
  "consumed s r \<equiv> take (length s - length r) s"

text \<open>\<open>maxNestingDepth\<close> of the standard library.\<close>

abbreviation maxNestingDepth :: int where "maxNestingDepth \<equiv> 10000"

fun parse_value :: "nat \<Rightarrow> int \<Rightarrow> string \<Rightarrow> (json \<times> string) option"
  and parse_items :: "nat \<Rightarrow> int \<Rightarrow> string \<Rightarrow> ((string \<times> json) list \<times> string) option"
  and parse_members :: "nat \<Rightarrow> int \<Rightarrow> string \<Rightarrow> ((string \<times> string \<times> json) list \<times> string) option" where
  "parse_value 0 d s = None"
| "parse_value (Suc n) d s = (case s of [] \<Rightarrow> None
     | c # s' \<Rightarrow>
        if c = CHR ''{'' then
          (if d \<ge> maxNestingDepth then None else
           (case skip_ws s' of [] \<Rightarrow> None
            | e # r \<Rightarrow> if e = CHR ''}'' then Some (JObj [], r)
                else map_option (\<lambda>(ms, r). (JObj ms, r)) (parse_members n (d + 1) (e # r))))
        else if c = CHR ''['' then
          (if d \<ge> maxNestingDepth then None else
           (case skip_ws s' of [] \<Rightarrow> None
            | e # r \<Rightarrow> if e = CHR '']'' then Some (JArr [], r)
                else map_option (\<lambda>(vs, r). (JArr vs, r)) (parse_items n (d + 1) (e # r))))
        else if c = quote_char then map_option (\<lambda>(b, r). (JStr (unquote b), r)) (scan_string s')
        else if c = CHR ''t'' then scan_literal ''true'' (JBool True) s
        else if c = CHR ''f'' then scan_literal ''false'' (JBool False) s
        else if c = CHR ''n'' then scan_literal ''null'' JNull s
        else map_option (\<lambda>(t, r). (JNum t, r)) (scan_number s))"
| "parse_items 0 d s = None"
| "parse_items (Suc n) d s =
     (case parse_value n d s of None \<Rightarrow> None
      | Some (v, r) \<Rightarrow>
         (case skip_ws r of [] \<Rightarrow> None
          | e # r' \<Rightarrow>
             if e = CHR '']'' then Some ([(consumed s r, v)], r')
             else if e = CHR '','' then map_option (\<lambda>(vs, q). ((consumed s r, v) # vs, q)) (parse_items n d (skip_ws r'))
             else None))"
| "parse_members 0 d s = None"
| "parse_members (Suc n) d s =
     (case s of [] \<Rightarrow> None
      | c # s' \<Rightarrow>
         if c \<noteq> quote_char then None else
         (case scan_string s' of None \<Rightarrow> None
          | Some (b, r) \<Rightarrow>
             (case skip_ws r of [] \<Rightarrow> None
              | e # r' \<Rightarrow>
                 if e \<noteq> CHR '':'' then None else
                 (let s2 = skip_ws r' in
                  case parse_value n d s2 of None \<Rightarrow> None
                  | Some (v, q) \<Rightarrow>
                     (case skip_ws q of [] \<Rightarrow> None
                      | e # q' \<Rightarrow>
                         if e = CHR ''}'' then Some ([(unquote b, consumed s2 q, v)], q')
                         else if e = CHR '','' then
                           map_option (\<lambda>(ms, q''). ((unquote b, consumed s2 q, v) # ms, q'')) (parse_members n d (skip_ws q'))
                         else None)))))"

definition parse_json :: "string \<Rightarrow> json option" where
  "parse_json s =
     (case parse_value (Suc (2 * length s)) 0 (skip_ws s) of None \<Rightarrow> None
      | Some (v, r) \<Rightarrow> if skip_ws r = [] then Some v else None)"

section \<open>Decoding into Go values\<close>

text \<open>\<open>Unmarshal\<close> into a value that \<open>dec\<close> builds from the parsed text; \<open>None\<close> is an error.\<close>

definition Unmarshal :: "(json \<Rightarrow> 'a option) \<Rightarrow> string \<Rightarrow> 'a option" where
  "Unmarshal dec data = Option.bind (parse_json data) dec"

text \<open>Struct targets. A table gives for each JSON name how a member changes the struct; the setter gets
  the bytes and the value of the member, and \<open>None\<close> is a type error. A key that is no field exactly is
  compared with case folded, which for ASCII names means ASCII letters and two other runes. Decoding
  goes on after a type error and reports it at the end.\<close>

type_synonym 's setter = "'s \<Rightarrow> string \<Rightarrow> json \<Rightarrow> 's option"

definition fold_key :: "string \<Rightarrow> string" where
  "fold_key k =
     map lower_ascii (strings_ReplaceAll (strings_ReplaceAll k [CHR 0xC5, CHR 0xBF] ''s'') [CHR 0xE2, CHR 0x84, CHR 0xAA] ''k'')"

definition find_field :: "(string \<times> 's setter) list \<Rightarrow> string \<Rightarrow> 's setter option" where
  "find_field tbl k =
     (case map_of tbl k of Some f \<Rightarrow> Some f
      | None \<Rightarrow> map_of (map (\<lambda>(n, f). (fold_key n, f)) tbl) (fold_key k))"

fun decode_members :: "(string \<times> 's setter) list \<Rightarrow> (string \<times> string \<times> json) list \<Rightarrow> 's \<Rightarrow> 's \<times> bool" where
  "decode_members tbl [] s = (s, True)"
| "decode_members tbl ((k, raw, j) # ms) s =
     (case find_field tbl k of None \<Rightarrow> decode_members tbl ms s
      | Some f \<Rightarrow>
         (case f s raw j of Some s' \<Rightarrow> decode_members tbl ms s'
          | None \<Rightarrow> (fst (decode_members tbl ms s), False)))"

definition decode_struct :: "(string \<times> 's setter) list \<Rightarrow> 's \<Rightarrow> json \<Rightarrow> 's \<times> bool" where
  "decode_struct tbl s j =
     (case j of JNull \<Rightarrow> (s, True) | JObj ms \<Rightarrow> decode_members tbl ms s | _ \<Rightarrow> (s, False))"

definition to_struct :: "(string \<times> 's setter) list \<Rightarrow> 's \<Rightarrow> json \<Rightarrow> 's option" where
  "to_struct tbl s j = (let (s', ok) = decode_struct tbl s j in if ok then Some s' else None)"

text \<open>Scalar targets. \<open>null\<close> leaves a string, number or boolean as it is and makes a pointer nil; a
  \<open>RawMessage\<close> takes the bytes whatever they are.\<close>

definition int_of_literal :: "string \<Rightarrow> int option" where
  "int_of_literal t =
     (let (neg, ds) = (case t of [] \<Rightarrow> (False, []) | c # r \<Rightarrow> if c = CHR ''-'' then (True, r) else (False, t));
          v = (if neg then - int (digits_val ds) else int (digits_val ds)) in
      if ds \<noteq> [] \<and> list_all is_digit ds \<and> - (2 ^ 63) \<le> v \<and> v < 2 ^ 63 then Some v else None)"

definition float_of_literal :: "string \<Rightarrow> float64 option" where
  "float_of_literal t =
     (let (neg, s) = (case t of [] \<Rightarrow> (False, []) | c # r \<Rightarrow> if c = CHR ''-'' then (True, r) else (False, t));
          i = takeWhile is_digit s; s = dropWhile is_digit s;
          (f, s) = (case s of [] \<Rightarrow> ([], []) | c # r \<Rightarrow>
              if c = CHR ''.'' then (takeWhile is_digit r, dropWhile is_digit r) else ([], s));
          e = (case s of [] \<Rightarrow> 0 | _ # r \<Rightarrow>
              (case r of [] \<Rightarrow> 0 | c # q \<Rightarrow>
                 if c = CHR ''-'' then - int (digits_val q) else if c = CHR ''+'' then int (digits_val q)
                 else int (digits_val r)));
          m = real (digits_val (i @ f));
          p = e - int (length f);
          v = (if p \<ge> 0 then m * 10 ^ nat p else m / 10 ^ nat (- p)) in
      if v < 2 ^ 1024 - 2 ^ 970 then Some (if neg then - v else v) else None)"

definition to_string :: "json \<Rightarrow> string option" where
  "to_string j = (case j of JNull \<Rightarrow> Some [] | JStr t \<Rightarrow> Some t | _ \<Rightarrow> None)"

definition set_string :: "(string \<Rightarrow> 's \<Rightarrow> 's) \<Rightarrow> 's setter" where
  "set_string upd s raw j = (case j of JNull \<Rightarrow> Some s | JStr t \<Rightarrow> Some (upd t s) | _ \<Rightarrow> None)"

definition set_bool :: "(bool \<Rightarrow> 's \<Rightarrow> 's) \<Rightarrow> 's setter" where
  "set_bool upd s raw j = (case j of JNull \<Rightarrow> Some s | JBool b \<Rightarrow> Some (upd b s) | _ \<Rightarrow> None)"

definition set_int :: "(int \<Rightarrow> 's \<Rightarrow> 's) \<Rightarrow> 's setter" where
  "set_int upd s raw j =
     (case j of JNull \<Rightarrow> Some s | JNum t \<Rightarrow> map_option (\<lambda>i. upd i s) (int_of_literal t) | _ \<Rightarrow> None)"

definition set_raw :: "(string \<Rightarrow> 's \<Rightarrow> 's) \<Rightarrow> 's setter" where
  "set_raw upd s raw j = Some (upd raw s)"

definition set_ptr :: "(json \<Rightarrow> 'a option) \<Rightarrow> ('a option \<Rightarrow> 's \<Rightarrow> 's) \<Rightarrow> 's setter" where
  "set_ptr dec upd s raw j = (case j of JNull \<Rightarrow> Some (upd None s) | _ \<Rightarrow> map_option (\<lambda>x. upd (Some x) s) (dec j))"

text \<open>Slices; an element may need its bytes. \<open>null\<close> is the nil slice.\<close>

definition to_list :: "(string \<Rightarrow> json \<Rightarrow> 'a option) \<Rightarrow> json \<Rightarrow> 'a list option" where
  "to_list dec j =
     (case j of JNull \<Rightarrow> Some [] | JArr vs \<Rightarrow> those (map (\<lambda>(raw, v). dec raw v) vs) | _ \<Rightarrow> None)"

definition set_list :: "(string \<Rightarrow> json \<Rightarrow> 'a option) \<Rightarrow> ('a list \<Rightarrow> 's \<Rightarrow> 's) \<Rightarrow> 's setter" where
  "set_list dec upd s raw j = map_option (\<lambda>xs. upd xs s) (to_list dec j)"

definition to_float :: "json \<Rightarrow> float64 option" where
  "to_float j = (case j of JNum t \<Rightarrow> float_of_literal t | _ \<Rightarrow> None)"

definition to_int :: "json \<Rightarrow> int option" where
  "to_int j = (case j of JNum t \<Rightarrow> int_of_literal t | _ \<Rightarrow> None)"

definition to_bool :: "json \<Rightarrow> bool option" where
  "to_bool j = (case j of JBool b \<Rightarrow> Some b | _ \<Rightarrow> None)"

section \<open>Marshal\<close>

text \<open>The Go values the gateway hands to \<open>Marshal\<close>. A struct is an object with its fields in their
  order; a map is an object with sorted keys (\<open>VMap\<close>); \<open>VRaw\<close> is a \<open>RawMessage\<close> and \<open>VBytes\<close> a plain
  byte slice, which \<open>Marshal\<close> writes in base64. The text of a float is an argument.\<close>

datatype goval =
    VNull
  | VBool bool
  | VInt int
  | VFloat float64
  | VStr string
  | VRaw string
  | VBytes string
  | VList "goval list"
  | VObj "(string \<times> goval) list"

definition VMap :: "(string \<times> goval) list \<Rightarrow> goval" where
  "VMap kvs = VObj (sort_key fst kvs)"

definition u_escape :: "char \<Rightarrow> string" where
  "u_escape c = [backslash, CHR ''u'', CHR ''0'', CHR ''0'', hex_digit (of_char c div 16), hex_digit (of_char c mod 16)]"

definition escape_ascii :: "char \<Rightarrow> string" where
  "escape_ascii c =
     (if c = quote_char \<or> c = backslash then [backslash, c]
      else if c = CHR 0x08 then [backslash, CHR ''b''] else if c = CHR 0x0C then [backslash, CHR ''f'']
      else if c = CHR 0x0A then [backslash, CHR ''n''] else if c = CHR 0x0D then [backslash, CHR ''r'']
      else if c = CHR 0x09 then [backslash, CHR ''t'']
      else if of_char c < (32 :: nat) \<or> c = CHR ''<'' \<or> c = CHR ''>'' \<or> c = CHR ''&'' then u_escape c
      else [c])"

function escape :: "string \<Rightarrow> string" where
  "escape s = (case s of [] \<Rightarrow> []
     | c # s' \<Rightarrow>
        if of_char c < (128 :: nat) then escape_ascii c @ escape s'
        else if rune_len s = 0 then [backslash] @ ''ufffd'' @ escape s'
        else if take 3 s = [CHR 0xE2, CHR 0x80, CHR 0xA8] then [backslash] @ ''u2028'' @ escape (drop 3 s)
        else if take 3 s = [CHR 0xE2, CHR 0x80, CHR 0xA9] then [backslash] @ ''u2029'' @ escape (drop 3 s)
        else take (rune_len s) s @ escape (drop (rune_len s) s))"
  by auto
termination by (relation "measure length") auto

declare escape.simps [simp del]

definition quote_string :: "string \<Rightarrow> string" where
  "quote_string s = quote_char # escape s @ [quote_char]"

text \<open>\<open>Compact\<close> with the escapes of \<open>Marshal\<close>, on text that is valid JSON. The flag says whether the
  position is inside a string.\<close>

function compact :: "bool \<Rightarrow> string \<Rightarrow> string" where
  "compact instr s = (case s of [] \<Rightarrow> []
     | c # s' \<Rightarrow>
        if \<not> instr then (if json_space c then compact False s' else c # compact (c = quote_char) s')
        else if c = quote_char then c # compact False s'
        else if c = backslash then (case s' of [] \<Rightarrow> [c] | e # s'' \<Rightarrow> c # e # compact True s'')
        else if c = CHR ''<'' \<or> c = CHR ''>'' \<or> c = CHR ''&'' then u_escape c @ compact True s'
        else if take 3 s = [CHR 0xE2, CHR 0x80, CHR 0xA8] then [backslash] @ ''u2028'' @ compact True (drop 3 s)
        else if take 3 s = [CHR 0xE2, CHR 0x80, CHR 0xA9] then [backslash] @ ''u2029'' @ compact True (drop 3 s)
        else c # compact True s')"
  by auto
termination by (relation "measure (\<lambda>(_, s). length s)") auto

declare compact.simps [simp del]

definition base64_alphabet :: string where
  "base64_alphabet = ''ABCDEFGHIJKLMNOPQRSTUVWXYZabcdefghijklmnopqrstuvwxyz0123456789+/''"

fun base64_EncodeToString :: "string \<Rightarrow> string" where
  "base64_EncodeToString [] = []"
| "base64_EncodeToString [a] =
     (let n = of_char a * 16 in [base64_alphabet ! (n div 64), base64_alphabet ! (n mod 64), CHR ''='', CHR ''=''])"
| "base64_EncodeToString [a, b] =
     (let n = (of_char a * 256 + of_char b) * 4 in
      [base64_alphabet ! (n div 4096), base64_alphabet ! (n div 64 mod 64), base64_alphabet ! (n mod 64), CHR ''=''])"
| "base64_EncodeToString (a # b # c # s) =
     (let n = (of_char a * 256 + of_char b) * 256 + of_char c in
      [base64_alphabet ! (n div 262144), base64_alphabet ! (n div 4096 mod 64), base64_alphabet ! (n div 64 mod 64),
       base64_alphabet ! (n mod 64)] @ base64_EncodeToString s)"

definition itoa :: "int \<Rightarrow> string" where
  "itoa i = (if i < 0 then CHR ''-'' # strconv_Itoa (nat (- i)) else strconv_Itoa (nat i))"

fun Marshal :: "(float64 \<Rightarrow> string) \<Rightarrow> goval \<Rightarrow> string option"
  and Marshal_items :: "(float64 \<Rightarrow> string) \<Rightarrow> goval list \<Rightarrow> string list option"
  and Marshal_members :: "(float64 \<Rightarrow> string) \<Rightarrow> (string \<times> goval) list \<Rightarrow> string list option" where
  "Marshal ff VNull = Some ''null''"
| "Marshal ff (VBool b) = Some (if b then ''true'' else ''false'')"
| "Marshal ff (VInt i) = Some (itoa i)"
| "Marshal ff (VFloat x) = Some (ff x)"
| "Marshal ff (VStr s) = Some (quote_string s)"
| "Marshal ff (VRaw s) = (if s = [] then Some ''null'' else if parse_json s = None then None else Some (compact False s))"
| "Marshal ff (VBytes s) = Some (quote_string (base64_EncodeToString s))"
| "Marshal ff (VList vs) = map_option (\<lambda>ts. ''['' @ strings_Join '','' ts @ '']'') (Marshal_items ff vs)"
| "Marshal ff (VObj kvs) = map_option (\<lambda>ts. ''{'' @ strings_Join '','' ts @ ''}'') (Marshal_members ff kvs)"
| "Marshal_items ff [] = Some []"
| "Marshal_items ff (v # vs) =
     (case (Marshal ff v, Marshal_items ff vs) of (Some t, Some ts) \<Rightarrow> Some (t # ts) | _ \<Rightarrow> None)"
| "Marshal_members ff [] = Some []"
| "Marshal_members ff ((k, v) # kvs) =
     (case (Marshal ff v, Marshal_members ff kvs) of
        (Some t, Some ts) \<Rightarrow> Some ((quote_string k @ '':'' @ t) # ts) | _ \<Rightarrow> None)"

text \<open>For examples: a text in which a bar stands for a quotation mark.\<close>

definition bars :: "string \<Rightarrow> string" where
  "bars s = map (\<lambda>c. if c = CHR ''|'' then quote_char else c) s"

section \<open>Fuel\<close>

lemma skip_ws_le: "length (skip_ws s) \<le> length s"
  unfolding skip_ws_def by (rule length_dropWhile_le)

lemma skip_ws_Cons_less: "skip_ws s = c # r \<Longrightarrow> length r < length s"
  using skip_ws_le [of s] by simp

lemma scan_string_split: "scan_string s = Some (b, r) \<Longrightarrow> s = b @ quote_char # r"
proof (induction "length s" arbitrary: s b rule: less_induct)
  case (less s)
  show ?case
  proof (cases s)
    case s: (Cons c t)
    consider "c = quote_char" | "c \<noteq> quote_char" "c = backslash" | "c \<noteq> quote_char" "c \<noteq> backslash" by blast
    then show ?thesis
    proof cases
      case 2
      then obtain e u where t: "t = e # u" using less.prems s by (cases t) auto
      show ?thesis
      proof (cases "e \<in> set ''bfnrt/'' \<or> e = quote_char \<or> e = backslash")
        case True
        then obtain b' where "scan_string u = Some (b', r)" "b = c # e # b'"
          using less.prems 2 s t by (auto simp del: list.set)
        then show ?thesis using less.hyps [of u b'] s t by simp
      next
        case False
        then have "e = CHR ''u''" using less.prems 2 s t by (simp split: if_splits)
        moreover from this obtain h1 h2 h3 h4 u' b' where "u = h1 # h2 # h3 # h4 # u'" "scan_string u' = Some (b', r)"
          "b = c # e # h1 # h2 # h3 # h4 # b'"
          using less.prems 2 s t by (simp split: list.splits if_splits) blast
        ultimately show ?thesis using less.hyps [of u' b'] s t by simp
      qed
    next
      case 3
      then obtain b' where "scan_string t = Some (b', r)" "b = c # b'"
        using less.prems s by (auto split: if_splits)
      then show ?thesis using less.hyps [of t b'] s by simp
    qed (use less.prems s in simp)
  qed (use less.prems in simp)
qed

lemma scan_string_less: "scan_string s = Some (b, r) \<Longrightarrow> length r < length s"
  by (drule scan_string_split) simp

lemma scan_digits_less: "scan_digits s = Some (b, r) \<Longrightarrow> length r < length s"
  by (auto simp: scan_digits_def split: if_splits)
     (metis length_append length_greater_0_conv less_add_same_cancel2 takeWhile_dropWhile_id)

lemma scan_int_less: "scan_int s = Some (b, r) \<Longrightarrow> length r < length s"
  by (auto simp: scan_int_def split: list.splits if_splits dest: scan_digits_less)

lemma scan_frac_le: "scan_frac s = Some (b, r) \<Longrightarrow> length r \<le> length s"
  by (auto simp: scan_frac_def split: list.splits if_splits dest: scan_digits_less)

lemma scan_exp_le:
  assumes "scan_exp s = Some (b, r)"
  shows "length r \<le> length s"
proof (cases s)
  case s: (Cons c t)
  show ?thesis
  proof (cases "c = CHR ''e'' \<or> c = CHR ''E''")
    case True
    then obtain sg u where t: "t = sg # u"
      using assms s by (cases t) (auto simp: scan_exp_def)
    consider d where "scan_digits u = Some (d, r)" | d where "scan_digits t = Some (d, r)"
      using assms s t True by (cases "sg = CHR ''+'' \<or> sg = CHR ''-''") (auto simp: scan_exp_def)
    then show ?thesis
      using s t scan_digits_less by cases fastforce+
  qed (use assms s in \<open>simp add: scan_exp_def\<close>)
qed (use assms in \<open>simp add: scan_exp_def\<close>)

lemma scan_number_less:
  assumes "scan_number s = Some (b, r)"
  shows "length r < length s"
proof -
  obtain sg t where sg: "(case s of [] \<Rightarrow> ([], []) | c # r \<Rightarrow> if c = CHR ''-'' then ([c], r) else ([], s)) = (sg, t)"
    by fastforce
  then have t: "length t \<le> length s" by (cases s) (auto split: if_splits)
  obtain i r1 f r2 e where "scan_int t = Some (i, r1)" "scan_frac r1 = Some (f, r2)" "scan_exp r2 = Some (e, r)"
    using assms sg by (auto simp: scan_number_def split: option.splits)
  then show ?thesis
    using t scan_int_less scan_frac_le scan_exp_le by fastforce
qed

lemma scan_literal_less: "scan_literal lit v s = Some (w, r) \<Longrightarrow> lit \<noteq> [] \<Longrightarrow> length r < length s"
  by (cases s) (auto simp: scan_literal_def split: if_splits)

lemma parse_less_step:
  assumes V: "\<And>d s v r. parse_value n d s = Some (v, r) \<Longrightarrow> length r < length s"
    and I: "\<And>d s v r. parse_items n d s = Some (v, r) \<Longrightarrow> length r < length s"
    and M: "\<And>d s v r. parse_members n d s = Some (v, r) \<Longrightarrow> length r < length s"
  shows "parse_value (Suc n) d s = Some (v, r) \<Longrightarrow> length r < length s"
    and "parse_items (Suc n) d s = Some (vs, r) \<Longrightarrow> length r < length s"
    and "parse_members (Suc n) d s = Some (ms, r) \<Longrightarrow> length r < length s"
proof -
  show "length r < length s" if A: "parse_value (Suc n) d s = Some (v, r)"
  proof (cases s)
    case (Cons c s')
    with A show ?thesis
      by (auto simp del: length_Cons simp: less_Suc_eq_le split: list.splits if_splits
          dest!: I M scan_string_less scan_number_less scan_literal_less skip_ws_Cons_less)
  qed (use A in simp)
  show "length r < length s" if A: "parse_items (Suc n) d s = Some (vs, r)"
  proof -
    obtain v q where v: "parse_value n d s = Some (v, q)"
      using A by (auto split: option.splits)
    obtain e q' where e: "skip_ws q = e # q'"
      using A v by (auto split: list.splits)
    have q': "length q' < length s"
      using V [OF v] skip_ws_Cons_less [OF e] by simp
    have "r = q' \<or> (\<exists>vs. parse_items n d (skip_ws q') = Some (vs, r))"
      using A v e by (auto split: if_splits)
    then show ?thesis
      using q' I [of d "skip_ws q'"] skip_ws_le [of q'] by fastforce
  qed
  show "length r < length s" if A: "parse_members (Suc n) d s = Some (ms, r)"
  proof -
    obtain c s' where s: "s = c # s'" and c: "c = quote_char"
      using A by (cases s) (auto split: if_splits)
    obtain b p where b: "scan_string s' = Some (b, p)"
      using A s c by (auto split: option.splits)
    obtain f p' where f: "skip_ws p = f # p'"
      using A s c b by (auto split: list.splits)
    obtain v q where v: "parse_value n d (skip_ws p') = Some (v, q)"
      using A s c b f by (auto simp: Let_def split: if_splits option.splits)
    obtain e q' where e: "skip_ws q = e # q'"
      using A s c b f v by (auto simp: Let_def split: list.splits if_splits)
    have q': "length q' < length s"
      using V [OF v] skip_ws_Cons_less [OF e] skip_ws_Cons_less [OF f] scan_string_less [OF b] s skip_ws_le [of p'] by simp
    have "r = q' \<or> (\<exists>ms. parse_members n d (skip_ws q') = Some (ms, r))"
      using A s c b f v e by (auto simp: Let_def split: if_splits)
    then show ?thesis
      using q' M [of d "skip_ws q'"] skip_ws_le [of q'] by fastforce
  qed
qed

lemma parse_less:
  shows "parse_value n d s = Some (v, r) \<Longrightarrow> length r < length s"
    and "parse_items n d s = Some (vs, r) \<Longrightarrow> length r < length s"
    and "parse_members n d s = Some (ms, r) \<Longrightarrow> length r < length s"
proof (induction n arbitrary: d s v r vs ms)
  case (Suc n)
  { case 1 from parse_less_step(1) [OF Suc.IH this] show ?case . }
  { case 2 from parse_less_step(2) [OF Suc.IH this] show ?case . }
  { case 3 from parse_less_step(3) [OF Suc.IH this] show ?case . }
qed simp_all

text \<open>With fuel for twice the bytes the result does not depend on the fuel.\<close>

lemma parse_fuel:
  shows "2 * length s < m \<Longrightarrow> 2 * length s < n \<Longrightarrow> parse_value m d s = parse_value n d s"
    and "2 * length s + 1 < m \<Longrightarrow> 2 * length s + 1 < n \<Longrightarrow> parse_items m d s = parse_items n d s"
    and "2 * length s + 1 < m \<Longrightarrow> 2 * length s + 1 < n \<Longrightarrow> parse_members m d s = parse_members n d s"
proof (induction m arbitrary: n d s)
  case (Suc m)
  { case 1
    then obtain k where n: "n = Suc k" "2 * length s < Suc k" by (cases n) auto
    show ?case
    proof (cases s)
      case (Cons c t)
      show ?thesis
      proof (cases "skip_ws t")
        case (Cons f q)
        then have "parse_members m e (f # q) = parse_members k e (f # q)" "parse_items m e (f # q) = parse_items k e (f # q)" for e
          using Suc.IH(2,3) [of "f # q" k e] 1(1) n skip_ws_le [of t] \<open>s = c # t\<close> by simp_all
        then show ?thesis unfolding n(1) parse_value.simps \<open>s = c # t\<close> list.case Cons by (simp only:)
      qed (simp add: n Cons)
    qed (simp add: n) }
  { case 2
    then obtain k where n: "n = Suc k" "2 * length s + 1 < Suc k" by (cases n) auto
    have v: "parse_value m d s = parse_value k d s"
      by (rule Suc.IH(1)) (use 2(1) n(2) in simp_all)
    have i: "parse_items m d (skip_ws p) = parse_items k d (skip_ws p)"
      if "parse_value k d s = Some (w, r)" "skip_ws r = e # p" for w r e p
      using Suc.IH(2) [of "skip_ws p" k d] 2(1) n(2) parse_less(1) [OF that(1)] skip_ws_Cons_less [OF that(2)] skip_ws_le [of p]
      by simp
    show ?case unfolding n(1) parse_items.simps v
      by (auto simp: i split: option.split list.split) }
  { case 3
    then obtain k where n: "n = Suc k" "2 * length s + 1 < Suc k" by (cases n) auto
    have v: "parse_value m d (skip_ws p) = parse_value k d (skip_ws p)"
      if "s = c # t" "scan_string t = Some (b, r)" "skip_ws r = e # p" for c t b r e p
      using Suc.IH(1) [of "skip_ws p" k d] 3(1) n(2) scan_string_less [OF that(2)] skip_ws_Cons_less [OF that(3)] skip_ws_le [of p] that(1)
      by simp
    have i: "parse_members m d (skip_ws q) = parse_members k d (skip_ws q)"
      if "s = c # t" "scan_string t = Some (b, r)" "skip_ws r = e # p" 
        "parse_value k d (skip_ws p) = Some (w, u)" "skip_ws u = f # q" for c t b r e p w u f q
      using Suc.IH(3) [of "skip_ws q" k d] 3(1) n(2) scan_string_less [OF that(2)] skip_ws_Cons_less [OF that(3)] skip_ws_le [of p]
        parse_less(1) [OF that(4)] skip_ws_Cons_less [OF that(5)] skip_ws_le [of q] that(1)
      by simp
    show ?case unfolding n(1) parse_members.simps Let_def
      by (auto simp: v i split: option.split list.split) }
qed simp_all

section \<open>What is written is read back\<close>

lemma rune_cases:
  assumes "rune_len s \<noteq> 0"
  obtains (one) a t where "s = a # t" "of_char a < (128 :: nat)" "rune_len s = 1"
  | (two) a b t where "s = a # b # t" "\<not> of_char a < (128 :: nat)" "rune2 a b" "rune_len s = 2"
  | (three) a b c t where "s = a # b # c # t" "\<not> of_char a < (128 :: nat)" "\<not> rune2 a b" "rune3 a b c" "rune_len s = 3"
  | (four) a b c d t where "s = a # b # c # d # t" "\<not> of_char a < (128 :: nat)" "\<not> rune2 a b" "\<not> rune3 a b c"
      "rune4 a b c d" "rune_len s = 4"
proof -
  obtain a s1 where s: "s = a # s1" using assms by (cases s) (simp_all add: rune_len_def)
  show thesis
  proof (cases "of_char a < (128 :: nat)")
    case False
    then obtain b s2 where s1: "s1 = b # s2" using assms s by (cases s1) (simp_all add: rune_len_def)
    show thesis
    proof (cases "rune2 a b")
      case n2: False
      then obtain c s3 where s2: "s2 = c # s3" using assms False s s1 by (cases s2) (simp_all add: rune_len_def)
      show thesis
      proof (cases "rune3 a b c")
        case n3: False
        then obtain d s4 where s3: "s3 = d # s4" using assms False n2 s s1 s2 by (cases s3) (simp_all add: rune_len_def)
        have "rune4 a b c d" using assms False n2 n3 s s1 s2 s3 by (simp add: rune_len_def split: if_splits)
        then show thesis using four False n2 n3 s s1 s2 s3 by (simp add: rune_len_def)
      qed (use three False n2 s s1 s2 in \<open>simp add: rune_len_def\<close>)
    qed (use two False s s1 in \<open>simp add: rune_len_def\<close>)
  qed (use one s in \<open>simp add: rune_len_def\<close>)
qed

lemma rune_take:
  assumes "rune_len s \<noteq> 0"
  shows "rune_len (take (rune_len s) s @ t) = rune_len s"
  using assms
proof (cases s rule: rune_cases)
  case (one a u)
  then have "take (rune_len s) s = [a]" by simp
  then show ?thesis using one by (simp add: rune_len_def del: One_nat_def)
next
  case (two a b u)
  then have "take (rune_len s) s = [a, b]" by simp
  then show ?thesis unfolding two(4) using two(2,3) by (simp add: rune_len_def)
next
  case (three a b c u)
  then have "take (rune_len s) s = [a, b, c]" by simp
  then show ?thesis unfolding three(5) using three(2-4) by (simp add: rune_len_def)
next
  case (four a b c d u)
  then have "take (rune_len s) s = [a, b, c, d]" by simp
  then show ?thesis unfolding four(6) using four(2-5) by (simp add: rune_len_def)
qed

lemma rune_bytes:
  assumes "rune_len s \<noteq> 0" "128 \<le> (of_char (hd s) :: nat)" "b \<in> set (take (rune_len s) s)"
  shows "128 \<le> (of_char b :: nat)"
  using assms(1)
proof (cases s rule: rune_cases)
  case (three a b c t)
  with assms(2,3) show ?thesis by (auto simp: rune3_def)
next
  case (four a b c d t)
  with assms(2,3) show ?thesis by (auto simp: rune4_def)
qed (use assms(2,3) in \<open>auto simp: rune2_def\<close>)

lemma scan_string_plain:
  "(\<And>b. b \<in> set p \<Longrightarrow> 32 \<le> (of_char b :: nat) \<and> b \<noteq> quote_char \<and> b \<noteq> backslash) \<Longrightarrow>
   scan_string (p @ t) = map_option (\<lambda>(b, r). (p @ b, r)) (scan_string t)"
proof (induction p)
  case Nil
  then show ?case by (simp add: option.map_ident)
next
  case (Cons c p)
  have "32 \<le> (of_char c :: nat)" "c \<noteq> quote_char" "c \<noteq> backslash" using Cons.prems [of c] by auto
  moreover have "scan_string (p @ t) = map_option (\<lambda>(b, r). (p @ b, r)) (scan_string t)"
    by (rule Cons.IH) (use Cons.prems in auto)
  ultimately show ?case by (cases "scan_string t") (auto simp: not_less)
qed

lemma hex_digit_val:
  assumes "n < 16"
  shows "is_hex (hex_digit n) \<and> hex_val (hex_digit n) = n"
proof -
  have "n \<in> set [0..<16]" using assms by simp
  also have "[0..<16] = [0, 1, 2, 3, 4, 5, 6, 7, 8, 9, 10, 11, 12, 13, 14, 15]" by (simp add: upt_rec)
  finally have "list_all (\<lambda>n. is_hex (hex_digit n) \<and> hex_val (hex_digit n) = n)
      [0, 1, 2, 3, 4, 5, 6, 7, 8, 9, 10, 11, 12, 13, 14, 15] \<longrightarrow> ?thesis" unfolding list_all_iff by blast
  moreover have "list_all (\<lambda>n. is_hex (hex_digit n) \<and> hex_val (hex_digit n) = n)
      [0, 1, 2, 3, 4, 5, 6, 7, 8, 9, 10, 11, 12, 13, 14, 15]"
    by (simp add: hex_digit_def is_hex_def hex_val_def)
  ultimately show ?thesis by blast
qed

lemma u_escape_hex:
  fixes c :: char
  defines "hi \<equiv> hex_digit (of_char c div 16)" and "lo \<equiv> hex_digit (of_char c mod 16)"
  shows "is_hex hi" "is_hex lo" "hex4 (CHR ''0'') (CHR ''0'') hi lo = of_char c"
proof -
  have "(of_char c :: nat) < 256" by (fact nat_of_char_less_256)
  then have "(of_char c :: nat) div 16 < 16" by (simp add: less_mult_imp_div_less)
  then have hi: "is_hex hi \<and> hex_val hi = of_char c div 16"
    unfolding hi_def by (rule hex_digit_val)
  have lo: "is_hex lo \<and> hex_val lo = of_char c mod 16"
    unfolding lo_def by (rule hex_digit_val) simp
  show "is_hex hi" "is_hex lo" using hi lo by auto
  have "hex_val (CHR ''0'') = 0" by (simp add: hex_val_def)
  then have "hex4 (CHR ''0'') (CHR ''0'') hi lo = of_char c div 16 * 16 + of_char c mod 16"
    using hi lo by (simp only: hex4_def mult_0 add_0)
  then show "hex4 (CHR ''0'') (CHR ''0'') hi lo = of_char c" by (simp only: div_mult_mod_eq)
qed

lemma escape_ascii_cases:
  obtains (plain) "escape_ascii c = [c]" "32 \<le> (of_char c :: nat)" "c \<noteq> quote_char" "c \<noteq> backslash"
  | (short) e where "escape_ascii c = [backslash, e]" "e \<in> set ''bfnrt/'' \<or> e = quote_char \<or> e = backslash"
      "unescape_char e = c"
  | (long) "escape_ascii c = u_escape c"
proof (cases "c = quote_char \<or> c = backslash \<or> c = CHR 0x08 \<or> c = CHR 0x0C \<or> c = CHR 0x0A \<or> c = CHR 0x0D \<or> c = CHR 0x09")
  case True
  then show thesis
    by (elim disjE) (rule short, simp add: escape_ascii_def, simp, simp add: unescape_char_def)+
next
  case False
  then show thesis
  proof (cases "of_char c < (32 :: nat) \<or> c = CHR ''<'' \<or> c = CHR ''>'' \<or> c = CHR ''&''")
    case True
    with False show thesis by (intro long) (simp add: escape_ascii_def)
  next
    case False2: False
    with False show thesis by (intro plain) (simp_all add: escape_ascii_def)
  qed
qed

lemma scan_string_ascii: "scan_string (escape_ascii c @ t) = map_option (\<lambda>(b, r). (escape_ascii c @ b, r)) (scan_string t)"
proof (cases c rule: escape_ascii_cases)
  case plain
  then show ?thesis by (subst scan_string_plain) simp_all
next
  case (short e)
  then show ?thesis by (simp del: list.set)
next
  case long
  then show ?thesis using u_escape_hex [of c] by (simp add: u_escape_def is_hex_def)
qed

lemma unquote_ascii:
  assumes "of_char c < (128 :: nat)"
  shows "unquote (escape_ascii c @ t) = c # unquote t"
proof (cases c rule: escape_ascii_cases)
  case plain
  then show ?thesis using assms by (subst unquote.simps) simp
next
  case (short e)
  then have "e \<noteq> CHR ''u''" by auto
  then show ?thesis unfolding short by (subst unquote.simps) (simp add: short(3))
next
  case long
  show ?thesis using assms u_escape_hex(3) [of c] unfolding long u_escape_def
    by (subst unquote.simps) (simp add: utf8_encode_def)
qed
lemma char_of_bytes:
  "char_of (226 :: nat) = CHR 0xE2" "char_of (128 :: nat) = CHR 0x80" "char_of (168 :: nat) = CHR 0xA8" "char_of (169 :: nat) = CHR 0xA9"
  by (simp_all add: char_of_eq_iff)

lemma line_runes: "utf8_encode 8232 = [CHR 0xE2, CHR 0x80, CHR 0xA8]" "utf8_encode 8233 = [CHR 0xE2, CHR 0x80, CHR 0xA9]"
  by (simp_all add: utf8_encode_def char_of_bytes)

lemma escape_induct [case_names Nil ascii invalid line para rune]:
  assumes "P []"
    and "\<And>c s. of_char c < (128 :: nat) \<Longrightarrow> escape (c # s) = escape_ascii c @ escape s \<Longrightarrow> P s \<Longrightarrow> P (c # s)"
    and "\<And>c s. \<not> of_char c < (128 :: nat) \<Longrightarrow> rune_len (c # s) = 0 \<Longrightarrow> escape (c # s) = [backslash] @ ''ufffd'' @ escape s \<Longrightarrow> P s \<Longrightarrow> P (c # s)"
    and "\<And>s. escape ([CHR 0xE2, CHR 0x80, CHR 0xA8] @ s) = [backslash] @ ''u2028'' @ escape s \<Longrightarrow> P s \<Longrightarrow> P ([CHR 0xE2, CHR 0x80, CHR 0xA8] @ s)"
    and "\<And>s. escape ([CHR 0xE2, CHR 0x80, CHR 0xA9] @ s) = [backslash] @ ''u2029'' @ escape s \<Longrightarrow> P s \<Longrightarrow> P ([CHR 0xE2, CHR 0x80, CHR 0xA9] @ s)"
    and "\<And>s. 128 \<le> (of_char (hd s) :: nat) \<Longrightarrow> s \<noteq> [] \<Longrightarrow> rune_len s \<noteq> 0 \<Longrightarrow>
          escape s = take (rune_len s) s @ escape (drop (rune_len s) s) \<Longrightarrow> P (drop (rune_len s) s) \<Longrightarrow> P s"
  shows "P s"
proof (induction "length s" arbitrary: s rule: less_induct)
  case less
  show ?case
  proof (cases s)
    case (Cons c t)
    consider "of_char c < (128 :: nat)" | "\<not> of_char c < (128 :: nat)" "rune_len s = 0"
      | u where "\<not> of_char c < (128 :: nat)" "rune_len s \<noteq> 0" "s = [CHR 0xE2, CHR 0x80, CHR 0xA8] @ u"
      | u where "\<not> of_char c < (128 :: nat)" "rune_len s \<noteq> 0" "s = [CHR 0xE2, CHR 0x80, CHR 0xA9] @ u"
      | "\<not> of_char c < (128 :: nat)" "rune_len s \<noteq> 0" "take 3 s \<noteq> [CHR 0xE2, CHR 0x80, CHR 0xA8]" "take 3 s \<noteq> [CHR 0xE2, CHR 0x80, CHR 0xA9]"
      by (metis append_take_drop_id)
    then show ?thesis
    proof cases
      case 1
      then show ?thesis using assms(2) [of c t] less [of t] Cons by (simp add: escape.simps [of "c # t"])
    next
      case 2
      then show ?thesis using assms(3) [of c t] less [of t] Cons by (simp add: escape.simps [of "c # t"])
    next
      case (3 u)
      have "escape s = [backslash] @ ''u2028'' @ escape u"
        using 3 by (subst escape.simps) simp
      then show ?thesis using assms(4) [of u] less [of u] 3(3) by simp
    next
      case (4 u)
      have "escape s = [backslash] @ ''u2029'' @ escape u"
        using 4 by (subst escape.simps) simp
      then show ?thesis using assms(5) [of u] less [of u] 4(3) by simp
    next
      case 5
      have "escape s = take (rune_len s) s @ escape (drop (rune_len s) s)"
        using 5 Cons by (subst escape.simps) (simp only: list.case if_False)
      then show ?thesis using assms(6) [of s] less [of "drop (rune_len s) s"] 5 Cons by simp
    qed
  qed (simp add: assms(1))
qed

lemma scan_string_escape: "scan_string (escape s @ quote_char # r) = Some (escape s, r)"
proof (induction s rule: escape_induct)
  case Nil
  then show ?case by (simp add: escape.simps [of "[]"])
next
  case (rune s)
  have "scan_string (take (rune_len s) s @ t) = map_option (\<lambda>(b, r). (take (rune_len s) s @ b, r)) (scan_string t)" for t
    using rune_bytes [OF rune(3,1)] by (intro scan_string_plain) fastforce
  then show ?case using rune(5) unfolding rune(4) by simp
qed (simp_all add: scan_string_ascii is_hex_def)

lemma unquote_escape: "utf8_valid s \<Longrightarrow> unquote (escape s) = s"
proof (induction s rule: escape_induct)
  case Nil
  then show ?case by (simp add: escape.simps [of "[]"] unquote.simps [of "[]"])
next
  case (ascii c s)
  have "rune_len (c # s) = 1" using ascii(1) by (simp add: rune_len_def)
  then show ?case using ascii by (simp add: unquote_ascii utf8_valid.simps [of "c # s"])
next
  case (invalid c s)
  then show ?case by (simp add: utf8_valid.simps [of "c # s"])
next
  case (line s)
  have "rune_len ([CHR 0xE2, CHR 0x80, CHR 0xA8] @ s) = 3" by (simp add: rune_len_def rune2_def rune3_def)
  then have "utf8_valid s" using line(3) by (simp add: utf8_valid.simps [of "CHR 0xE2 # _"])
  then show ?case using line(2) unfolding line(1)
    by (subst unquote.simps) (simp add: hex4_def hex_val_def line_runes)
next
  case (para s)
  have "rune_len ([CHR 0xE2, CHR 0x80, CHR 0xA9] @ s) = 3" by (simp add: rune_len_def rune2_def rune3_def)
  then have "utf8_valid s" using para(3) by (simp add: utf8_valid.simps [of "CHR 0xE2 # _"])
  then show ?case using para(2) unfolding para(1)
    by (subst unquote.simps) (simp add: hex4_def hex_val_def line_runes)
next
  case (rune s)
  obtain c t where s: "s = c # t" using rune(2) by (cases s) auto
  have c: "\<not> of_char c < (128 :: nat)" using rune(1) s by simp
  then have c': "c \<noteq> backslash" by auto
  let ?p = "take (rune_len s) s" and ?q = "escape (drop (rune_len s) s)"
  have len: "rune_len (?p @ ?q) = rune_len s" by (rule rune_take [OF rune(3)])
  obtain p where p: "?p @ ?q = c # p" using s rune(3) by (cases "rune_len s") auto
  have "utf8_valid (drop (rune_len s) s)" using rune(2,3,6) by (subst (asm) utf8_valid.simps) simp
  then have IH: "unquote ?q = drop (rune_len s) s" by (rule rune(5))
  have "unquote (?p @ ?q) = take (rune_len s) (?p @ ?q) @ unquote (drop (rune_len s) (?p @ ?q))"
    using c c' len rune(3) unfolding p by (subst unquote.simps) simp
  also have "\<dots> = ?p @ unquote ?q" using rune_len_le [of s] by simp
  also have "\<dots> = s" using IH by simp
  finally show ?case unfolding rune(4) .
qed

text \<open>Values whose text is determined: no floats and no raw text, strings in UTF-8, and a depth the
  decoder accepts.\<close>

fun plain_value :: "int \<Rightarrow> goval \<Rightarrow> bool"
  and plain_items :: "int \<Rightarrow> goval list \<Rightarrow> bool"
  and plain_members :: "int \<Rightarrow> (string \<times> goval) list \<Rightarrow> bool" where
  "plain_value d (VStr s) = utf8_valid s"
| "plain_value d (VList vs) = (d < maxNestingDepth \<and> plain_items (d + 1) vs)"
| "plain_value d (VObj kvs) = (d < maxNestingDepth \<and> plain_members (d + 1) kvs)"
| "plain_value d (VFloat x) = False"
| "plain_value d (VRaw s) = False"
| "plain_value d (VBytes s) = False"
| "plain_value d v = True"
| "plain_items d [] = True"
| "plain_items d (v # vs) = (plain_value d v \<and> plain_items d vs)"
| "plain_members d [] = True"
| "plain_members d ((k, v) # kvs) = (utf8_valid k \<and> plain_value d v \<and> plain_members d kvs)"

text \<open>What the decoder makes of the text of a value.\<close>

fun tree_of :: "goval \<Rightarrow> json"
  and tree_items :: "goval list \<Rightarrow> (string \<times> json) list"
  and tree_members :: "(string \<times> goval) list \<Rightarrow> (string \<times> string \<times> json) list" where
  "tree_of (VBool b) = JBool b"
| "tree_of (VInt i) = JNum (itoa i)"
| "tree_of (VStr s) = JStr s"
| "tree_of (VList vs) = JArr (tree_items vs)"
| "tree_of (VObj kvs) = JObj (tree_members kvs)"
| "tree_of v = JNull"
| "tree_items [] = []"
| "tree_items (v # vs) = (the (Marshal (\<lambda>_. []) v), tree_of v) # tree_items vs"
| "tree_members [] = []"
| "tree_members ((k, v) # kvs) = (k, the (Marshal (\<lambda>_. []) v), tree_of v) # tree_members kvs"

definition ends_value :: "string \<Rightarrow> bool" where
  "ends_value r = (r = [] \<or> hd r \<in> {CHR '','', CHR '']'', CHR ''}''})"

definition starts_value :: "string \<Rightarrow> bool" where
  "starts_value t = (t \<noteq> [] \<and> \<not> json_space (hd t) \<and> hd t \<noteq> CHR '']'' \<and> hd t \<noteq> CHR ''}'')"

lemma skip_ws_starts: "starts_value t \<Longrightarrow> skip_ws (t @ r) = t @ r"
  by (cases t) (simp_all add: starts_value_def skip_ws_def)

lemma skip_ws_ends: "ends_value r \<Longrightarrow> skip_ws r = r"
  by (cases r) (auto simp: ends_value_def skip_ws_def json_space_def)

lemma strconv_Itoa_head:
  "\<exists>c r. strconv_Itoa n = c # r \<and> is_digit c \<and> (c = CHR ''0'' \<longleftrightarrow> n = 0) \<and> (n < 10 \<longrightarrow> r = []) \<and> list_all is_digit r"
proof (induction n rule: strconv_Itoa.induct)
  case (1 n)
  show ?case
  proof (cases "n < 10")
    case True
    have "(char_of (48 + n) = CHR ''0'') = (n = 0)"
      using True by (simp add: char_of_eq_iff take_bit_eq_mod)
    then show ?thesis using True digit_char [of n] by (simp add: strconv_Itoa.simps [of n])
  next
    case False
    then show ?thesis using 1 digit_char [of "n mod 10"] by (auto simp: strconv_Itoa.simps [of n])
  qed
qed

lemma ends_value_no_number:
  assumes "ends_value r"
  shows "takeWhile is_digit r = []" "dropWhile is_digit r = r" "scan_frac r = Some ([], r)" "scan_exp r = Some ([], r)"
  using assms by (cases r; auto simp: ends_value_def is_digit_def scan_frac_def scan_exp_def)+

lemma scan_int_Itoa:
  assumes "ends_value r"
  shows "scan_int (strconv_Itoa n @ r) = Some (strconv_Itoa n, r)"
proof -
  obtain c u where n: "strconv_Itoa n = c # u" "is_digit c" "c = CHR ''0'' \<longleftrightarrow> n = 0" "n < 10 \<longrightarrow> u = []" "list_all is_digit u"
    using strconv_Itoa_head [of n] by metis
  show ?thesis
  proof (cases "c = CHR ''0''")
    case True
    then show ?thesis using n by (simp add: scan_int_def)
  next
    case False
    have "takeWhile is_digit (strconv_Itoa n @ r) = strconv_Itoa n" "dropWhile is_digit (strconv_Itoa n @ r) = r"
      using strconv_Itoa_digits [of n] ends_value_no_number(1,2) [OF assms]
      by (simp_all add: takeWhile_append2 dropWhile_append2 list_all_iff)
    then show ?thesis using n(1) False by (simp add: scan_int_def scan_digits_def)
  qed
qed

lemma scan_number_itoa: "ends_value r \<Longrightarrow> scan_number (itoa i @ r) = Some (itoa i, r)"
proof (cases "i < 0")
  case False
  assume r: "ends_value r"
  obtain c u where n: "strconv_Itoa (nat i) = c # u" "is_digit c"
    using strconv_Itoa_head [of "nat i"] by metis
  then have "c \<noteq> CHR ''-''" by (auto simp: is_digit_def)
  then show ?thesis
    using scan_int_Itoa [OF r, of "nat i"] ends_value_no_number(3,4) [OF r] False n
    by (simp add: scan_number_def itoa_def)
qed (simp add: scan_number_def itoa_def scan_int_Itoa ends_value_no_number)

lemma itoa_head: "\<exists>c u. itoa i = c # u \<and> (is_digit c \<or> c = CHR ''-'')"
  using strconv_Itoa_head [of "nat i"] by (auto simp: itoa_def)

lemma itoa_dispatch:
  assumes "itoa i = c # u"
  shows "c \<notin> set ''{[tfn]}'' \<and> c \<noteq> quote_char \<and> \<not> json_space c"
  using itoa_head [of i] assms by (auto simp: is_digit_def json_space_def)
abbreviation text_of :: "goval \<Rightarrow> string" where
  "text_of v \<equiv> the (Marshal (\<lambda>_. []) v)"

text \<open>The parsers read a text as a value, as the elements of an array, as the members of an object.\<close>

definition reads_value :: "int \<Rightarrow> string \<Rightarrow> goval \<Rightarrow> bool" where
  "reads_value d t v = (starts_value t \<and> text_of v = t \<and>
     (\<forall>n r. ends_value r \<longrightarrow> 2 * length (t @ r) < n \<longrightarrow> parse_value n d (t @ r) = Some (tree_of v, r)))"

definition reads_items :: "int \<Rightarrow> string \<Rightarrow> goval list \<Rightarrow> bool" where
  "reads_items d t vs = (starts_value t \<and>
     (\<forall>n r. 2 * length (t @ CHR '']'' # r) + 1 < n \<longrightarrow> parse_items n d (t @ CHR '']'' # r) = Some (tree_items vs, r)))"

definition reads_members :: "int \<Rightarrow> string \<Rightarrow> (string \<times> goval) list \<Rightarrow> bool" where
  "reads_members d t kvs = (starts_value t \<and>
     (\<forall>n r. 2 * length (t @ CHR ''}'' # r) + 1 < n \<longrightarrow> parse_members n d (t @ CHR ''}'' # r) = Some (tree_members kvs, r)))"

lemma reads_value_parse:
  "reads_value d t v \<Longrightarrow> ends_value r \<Longrightarrow> 2 * length (t @ r) < n \<Longrightarrow> parse_value n d (t @ r) = Some (tree_of v, r)"
  by (simp add: reads_value_def)

lemma ends_value_close: "ends_value (CHR '','' # r)" "ends_value (CHR '']'' # r)" "ends_value (CHR ''}'' # r)"
  by (simp_all add: ends_value_def)

lemma skip_ws_close: "skip_ws (CHR '','' # r) = CHR '','' # r" "skip_ws (CHR '']'' # r) = CHR '']'' # r" "skip_ws (CHR ''}'' # r) = CHR ''}'' # r"
  "skip_ws (CHR '':'' # r) = CHR '':'' # r"
  by (simp_all add: skip_ws_def json_space_def)

lemma reads_items_one:
  assumes "reads_value d t v"
  shows "reads_items d t [v]"
  unfolding reads_items_def
proof (intro conjI allI impI)
  fix n r
  assume n: "2 * length (t @ CHR '']'' # r) + 1 < n"
  then obtain m where m: "n = Suc m" "2 * length (t @ CHR '']'' # r) < m" by (cases n) auto
  show "parse_items n d (t @ CHR '']'' # r) = Some (tree_items [v], r)"
    using assms reads_value_parse [OF assms ends_value_close(2) m(2)] m(1) by (simp add: reads_value_def skip_ws_close)
qed (use assms in \<open>simp add: reads_value_def\<close>)

lemma reads_items_Cons:
  assumes v: "reads_value d t v" and vs: "reads_items d s vs"
  shows "reads_items d (t @ CHR '','' # s) (v # vs)"
  unfolding reads_items_def
proof (intro conjI allI impI)
  fix n r
  assume n: "2 * length ((t @ CHR '','' # s) @ CHR '']'' # r) + 1 < n"
  then obtain m where m: "n = Suc m" "2 * length (t @ CHR '','' # s @ CHR '']'' # r) < m" by (cases n) auto
  have "parse_items m d (s @ CHR '']'' # r) = Some (tree_items vs, r)"
    using vs m(2) by (simp add: reads_items_def)
  moreover have "skip_ws (s @ CHR '']'' # r) = s @ CHR '']'' # r"
    using vs by (simp add: reads_items_def skip_ws_starts)
  ultimately show "parse_items n d ((t @ CHR '','' # s) @ CHR '']'' # r) = Some (tree_items (v # vs), r)"
    using v reads_value_parse [OF v ends_value_close(1) m(2)] m(1) by (simp add: reads_value_def skip_ws_close)
qed (use v in \<open>simp add: reads_value_def starts_value_def\<close>)

lemma parse_key:
  assumes k: "utf8_valid k" and v: "reads_value d t v" and r: "ends_value r"
    and m: "2 * length (t @ r) < m"
  shows "parse_members (Suc m) d (quote_string k @ CHR '':'' # t @ r) =
     (case r of [] \<Rightarrow> None
      | e # q' \<Rightarrow> if e = CHR ''}'' then Some ([(k, t, tree_of v)], q')
         else if e = CHR '','' then map_option (\<lambda>(ms, q''). ((k, t, tree_of v) # ms, q'')) (parse_members m d (skip_ws q'))
         else None)"
proof -
  have "skip_ws (t @ q) = t @ q" for q using v by (simp add: reads_value_def skip_ws_starts)
  note this this [of "[]", simplified]
  then show ?thesis
    using reads_value_parse [OF v r m] skip_ws_ends [OF r]
    by (cases r) (simp_all add: Let_def quote_string_def scan_string_escape unquote_escape [OF k] skip_ws_close)
qed

lemma reads_members_one:
  assumes k: "utf8_valid k" and v: "reads_value d t v"
  shows "reads_members d (quote_string k @ CHR '':'' # t) [(k, v)]"
  unfolding reads_members_def
proof (intro conjI allI impI)
  fix n r
  assume n: "2 * length ((quote_string k @ CHR '':'' # t) @ CHR ''}'' # r) + 1 < n"
  then obtain m where m: "n = Suc m" "2 * length (t @ CHR ''}'' # r) < m" by (cases n) auto
  show "parse_members n d ((quote_string k @ CHR '':'' # t) @ CHR ''}'' # r) = Some (tree_members [(k, v)], r)"
    using parse_key [OF k v ends_value_close(3) m(2)] m(1) v by (simp add: reads_value_def)
qed (simp add: starts_value_def quote_string_def json_space_def)

lemma reads_members_Cons:
  assumes k: "utf8_valid k" and v: "reads_value d t v" and kvs: "reads_members d s kvs"
  shows "reads_members d ((quote_string k @ CHR '':'' # t) @ CHR '','' # s) ((k, v) # kvs)"
  unfolding reads_members_def
proof (intro conjI allI impI)
  fix n r
  assume n: "2 * length (((quote_string k @ CHR '':'' # t) @ CHR '','' # s) @ CHR ''}'' # r) + 1 < n"
  then obtain m where m: "n = Suc m" "2 * length (t @ CHR '','' # s @ CHR ''}'' # r) < m" by (cases n) auto
  have "parse_members m d (s @ CHR ''}'' # r) = Some (tree_members kvs, r)"
    using kvs m(2) by (simp add: reads_members_def)
  moreover have "skip_ws (s @ CHR ''}'' # r) = s @ CHR ''}'' # r"
    using kvs by (simp add: reads_members_def skip_ws_starts)
  ultimately show "parse_members n d (((quote_string k @ CHR '':'' # t) @ CHR '','' # s) @ CHR ''}'' # r) = Some (tree_members ((k, v) # kvs), r)"
    using parse_key [OF k v ends_value_close(1) m(2)] m(1) v by (simp add: reads_value_def)
qed (simp add: starts_value_def quote_string_def json_space_def)

lemma reads_list:
  assumes d: "d < maxNestingDepth" and i: "vs = [] \<and> s = [] \<or> reads_items (d + 1) s vs"
    and t: "text_of (VList vs) = ''['' @ s @ '']''"
  shows "reads_value d (''['' @ s @ '']'') (VList vs)"
  unfolding reads_value_def
proof (intro conjI allI impI)
  fix n r
  assume n: "2 * length ((''['' @ s @ '']'') @ r) < n"
  then obtain m where m: "n = Suc m" "2 * length (s @ CHR '']'' # r) + 1 < m" by (cases n) auto
  show "parse_value n d ((''['' @ s @ '']'') @ r) = Some (tree_of (VList vs), r)"
  proof (cases "vs = [] \<and> s = []")
    case False
    then have i: "reads_items (d + 1) s vs" using i by blast
    then obtain e q where e: "s = e # q" "e \<noteq> CHR '']''" by (cases s) (auto simp: reads_items_def starts_value_def)
    have "skip_ws (s @ CHR '']'' # r) = s @ CHR '']'' # r"
      "parse_items m (d + 1) (s @ CHR '']'' # r) = Some (tree_items vs, r)"
      using i m(2) by (simp_all add: reads_items_def skip_ws_starts)
    then show ?thesis using d e m(1) by simp
  qed (use d m(1) in \<open>simp add: skip_ws_close\<close>)
qed (simp add: starts_value_def json_space_def, fact t)

lemma reads_object:
  assumes d: "d < maxNestingDepth" and i: "kvs = [] \<and> s = [] \<or> reads_members (d + 1) s kvs"
    and t: "text_of (VObj kvs) = ''{'' @ s @ ''}''"
  shows "reads_value d (''{'' @ s @ ''}'') (VObj kvs)"
  unfolding reads_value_def
proof (intro conjI allI impI)
  fix n r
  assume n: "2 * length ((''{'' @ s @ ''}'') @ r) < n"
  then obtain m where m: "n = Suc m" "2 * length (s @ CHR ''}'' # r) + 1 < m" by (cases n) auto
  show "parse_value n d ((''{'' @ s @ ''}'') @ r) = Some (tree_of (VObj kvs), r)"
  proof (cases "kvs = [] \<and> s = []")
    case False
    then have i: "reads_members (d + 1) s kvs" using i by blast
    then obtain e q where e: "s = e # q" "e \<noteq> CHR ''}''" by (cases s) (auto simp: reads_members_def starts_value_def)
    have "skip_ws (s @ CHR ''}'' # r) = s @ CHR ''}'' # r"
      "parse_members m (d + 1) (s @ CHR ''}'' # r) = Some (tree_members kvs, r)"
      using i m(2) by (simp_all add: reads_members_def skip_ws_starts)
    then show ?thesis using d e m(1) by simp
  qed (use d m(1) in \<open>simp add: skip_ws_close\<close>)
qed (simp add: starts_value_def json_space_def, fact t)

lemma reads_value_I:
  assumes "starts_value t" "text_of v = t"
    and "\<And>m r. ends_value r \<Longrightarrow> parse_value (Suc m) d (t @ r) = Some (tree_of v, r)"
  shows "reads_value d t v"
  unfolding reads_value_def
proof (intro conjI allI impI)
  fix n :: nat and r
  assume "ends_value r" "2 * length (t @ r) < n"
  then show "parse_value n d (t @ r) = Some (tree_of v, r)" using assms(3) by (cases n) simp_all
qed (fact assms)+

lemma reads_scalar:
  shows "reads_value d ''null'' VNull" "reads_value d (if b then ''true'' else ''false'') (VBool b)"
    and "reads_value d (itoa i) (VInt i)" "utf8_valid s \<Longrightarrow> reads_value d (quote_string s) (VStr s)"
proof -
  show "reads_value d ''null'' VNull" "reads_value d (if b then ''true'' else ''false'') (VBool b)"
    by (rule reads_value_I; simp add: starts_value_def json_space_def scan_literal_def)+
  show "reads_value d (quote_string s) (VStr s)" if "utf8_valid s"
    by (rule reads_value_I)
       (simp_all add: quote_string_def starts_value_def json_space_def scan_string_escape unquote_escape [OF that])
  obtain c u where c: "itoa i = c # u" using itoa_head [of i] by blast
  show "reads_value d (itoa i) (VInt i)"
  proof (rule reads_value_I)
    show "starts_value (itoa i)" using c itoa_dispatch [OF c] by (simp add: starts_value_def)
    show "parse_value (Suc m) d (itoa i @ r) = Some (tree_of (VInt i), r)" if "ends_value r" for m r
      using scan_number_itoa [OF that(1), of i] itoa_dispatch [OF c] c by simp
  qed simp
qed

lemma Marshal_reads:
  shows "plain_value d v \<Longrightarrow> \<exists>t. Marshal ff v = Some t \<and> Marshal (\<lambda>_. []) v = Some t \<and> reads_value d t v"
    and "plain_items d vs \<Longrightarrow> \<exists>ts. Marshal_items ff vs = Some ts \<and> Marshal_items (\<lambda>_. []) vs = Some ts \<and>
      (vs = [] \<and> ts = [] \<or> vs \<noteq> [] \<and> ts \<noteq> [] \<and> reads_items d (strings_Join '','' ts) vs)"
    and "plain_members d kvs \<Longrightarrow> \<exists>ts. Marshal_members ff kvs = Some ts \<and> Marshal_members (\<lambda>_. []) kvs = Some ts \<and>
      (kvs = [] \<and> ts = [] \<or> kvs \<noteq> [] \<and> ts \<noteq> [] \<and> reads_members d (strings_Join '','' ts) kvs)"
proof (induction d v and d vs and d kvs rule: plain_value_plain_items_plain_members.induct)
  case (2 d vs)
  then obtain ts where "Marshal_items ff vs = Some ts" "Marshal_items (\<lambda>_. []) vs = Some ts"
    "vs = [] \<and> ts = [] \<or> vs \<noteq> [] \<and> ts \<noteq> [] \<and> reads_items (d + 1) (strings_Join '','' ts) vs" by auto
  then show ?case using 2(2) reads_list [of d vs "strings_Join '','' ts"] by auto
next
  case (3 d kvs)
  then obtain ts where "Marshal_members ff kvs = Some ts" "Marshal_members (\<lambda>_. []) kvs = Some ts"
    "kvs = [] \<and> ts = [] \<or> kvs \<noteq> [] \<and> ts \<noteq> [] \<and> reads_members (d + 1) (strings_Join '','' ts) kvs" by auto
  then show ?case using 3(2) reads_object [of d kvs "strings_Join '','' ts"] by auto
next
  case (9 d v vs)
  then obtain t ts where "Marshal ff v = Some t" "Marshal (\<lambda>_. []) v = Some t" "reads_value d t v" "Marshal_items ff vs = Some ts" "Marshal_items (\<lambda>_. []) vs = Some ts"
    "vs = [] \<and> ts = [] \<or> vs \<noteq> [] \<and> ts \<noteq> [] \<and> reads_items d (strings_Join '','' ts) vs" by auto
  then show ?case
    using reads_items_one [of d t v] reads_items_Cons [of d t v] strings_Join_Cons [of ts "'',''" t]
    by (auto simp: reads_value_def)
next
  case (11 d k v kvs)
  then obtain t ts where "Marshal ff v = Some t" "Marshal (\<lambda>_. []) v = Some t" "reads_value d t v" "Marshal_members ff kvs = Some ts" "Marshal_members (\<lambda>_. []) kvs = Some ts"
    "kvs = [] \<and> ts = [] \<or> kvs \<noteq> [] \<and> ts \<noteq> [] \<and> reads_members d (strings_Join '','' ts) kvs" by auto
  then show ?case
    using 11(3) reads_members_one [of k d t v] reads_members_Cons [of k d t v] strings_Join_Cons [of ts "'',''" "quote_string k @ '':'' @ t"]
    by (auto simp: reads_value_def)
qed (use reads_scalar in auto)

text \<open>The round trip.\<close>

lemma parse_Marshal:
  assumes "plain_value 0 v"
  shows "\<exists>t. Marshal ff v = Some t \<and> parse_json t = Some (tree_of v)"
proof -
  obtain t where t: "Marshal ff v = Some t" "reads_value 0 t v" using Marshal_reads(1) [OF assms] by blast
  then have "parse_value (Suc (2 * length t)) 0 (t @ []) = Some (tree_of v, [])"
    by (intro reads_value_parse) (simp_all add: ends_value_def)
  moreover have "skip_ws t = t" using t(2) skip_ws_starts [of t "[]"] by (simp add: reads_value_def)
  moreover have "skip_ws [] = []" by (simp add: skip_ws_def)
  ultimately show ?thesis using t(1) by (simp add: parse_json_def del: parse_value.simps)
qed

end
