(* ===== verification/Codec.thy ===== *)
theory Codec
  imports Wire Json
begin

text \<open>
  The JSON codecs of \<open>internal/gateway/types.go\<close> on the bytes of a request: message content, tool
  definitions, tool calls, the items of a Responses input, and with them the decoder of a chat request.
  \<open>normaliseTool\<close> of \<open>cursor_compat.go\<close> is here because the tool decoder calls it. A decoder gives
  \<open>None\<close> where \<open>json.Unmarshal\<close> reports an error. When an object names a list or a struct field twice,
  the later one replaces the earlier.
\<close>

section \<open>Content\<close>

text \<open>Writing the next text to a builder, with a separator if something is there already.\<close>

definition write_part :: "string \<Rightarrow> string \<Rightarrow> string \<Rightarrow> string" where
  "write_part sep b t = (if t = [] then b else if b \<noteq> [] then b @ sep @ t else t)"

record ContentPart =
  cp_Type :: string
  cp_Text :: string
  cp_InputText :: string

definition ContentPart_fields :: "(string \<times> ContentPart setter) list" where
  "ContentPart_fields =
     [(''type'', set_string (\<lambda>t p. p\<lparr>cp_Type := t\<rparr>)), (''text'', set_string (\<lambda>t p. p\<lparr>cp_Text := t\<rparr>)),
      (''input_text'', set_string (\<lambda>t p. p\<lparr>cp_InputText := t\<rparr>))]"

definition zero_ContentPart :: ContentPart where
  "zero_ContentPart = \<lparr>cp_Type = [], cp_Text = [], cp_InputText = []\<rparr>"

definition parseMessageContent :: "string \<Rightarrow> string option" where
  "parseMessageContent raw =
     (let trimmed = strings_TrimSpace raw in
      if trimmed = [] \<or> trimmed = ''null'' then Some []
      else if hd trimmed = quote_char then Unmarshal to_string raw
      else if hd trimmed \<noteq> CHR ''['' then None
      else map_option
        (foldl (\<lambda>b p. write_part [CHR 0x0A] b (if cp_Text p = [] then cp_InputText p else cp_Text p)) [])
        (Unmarshal (to_list (\<lambda>_. to_struct ContentPart_fields zero_ContentPart)) raw))"

section \<open>Tool calls\<close>

definition zero_FunctionCall :: FunctionCall where "zero_FunctionCall = \<lparr>fc_Name = [], fc_Arguments = []\<rparr>"
definition zero_CustomCall :: CustomCall where "zero_CustomCall = \<lparr>cc_Name = [], cc_Input = []\<rparr>"

definition zero_ToolCall :: ToolCall where
  "zero_ToolCall = \<lparr>tc_Index = None, tc_ID = [], tc_Type = [], tc_Function = zero_FunctionCall, tc_Custom = zero_CustomCall\<rparr>"

definition set_struct :: "(string \<times> 'a setter) list \<Rightarrow> ('s \<Rightarrow> 'a) \<Rightarrow> ('a \<Rightarrow> 's \<Rightarrow> 's) \<Rightarrow> 's setter" where
  "set_struct tbl sel upd s raw j = map_option (\<lambda>x. upd x s) (to_struct tbl (sel s) j)"

definition FunctionCall_fields :: "(string \<times> FunctionCall setter) list" where
  "FunctionCall_fields =
     [(''name'', set_string (\<lambda>t f. f\<lparr>fc_Name := t\<rparr>)), (''arguments'', set_string (\<lambda>t f. f\<lparr>fc_Arguments := t\<rparr>))]"

definition CustomCall_fields :: "(string \<times> CustomCall setter) list" where
  "CustomCall_fields =
     [(''name'', set_string (\<lambda>t f. f\<lparr>cc_Name := t\<rparr>)), (''input'', set_string (\<lambda>t f. f\<lparr>cc_Input := t\<rparr>))]"

definition ToolCall_fields :: "(string \<times> ToolCall setter) list" where
  "ToolCall_fields =
     [(''index'', set_ptr to_int (\<lambda>i t. t\<lparr>tc_Index := i\<rparr>)),
      (''id'', set_string (\<lambda>x t. t\<lparr>tc_ID := x\<rparr>)),
      (''type'', set_string (\<lambda>x t. t\<lparr>tc_Type := x\<rparr>)),
      (''function'', set_struct FunctionCall_fields tc_Function (\<lambda>f t. t\<lparr>tc_Function := f\<rparr>)),
      (''custom'', set_struct CustomCall_fields tc_Custom (\<lambda>f t. t\<lparr>tc_Custom := f\<rparr>))]"

definition ToolCall_UnmarshalJSON :: "json \<Rightarrow> ToolCall option" where
  "ToolCall_UnmarshalJSON = to_struct ToolCall_fields zero_ToolCall"

text \<open>\<open>omitempty\<close> drops a nil pointer and an empty string. The interface fields \<open>Function\<close> and \<open>Custom\<close>
  are nil or hold a struct.\<close>

definition ToolCall_MarshalJSON :: "ToolCall \<Rightarrow> goval" where
  "ToolCall_MarshalJSON t = VObj (
     (case tc_Index t of None \<Rightarrow> [] | Some i \<Rightarrow> [(''index'', VInt i)]) @
     (if tc_ID t = [] then [] else [(''id'', VStr (tc_ID t))]) @
     [(''type'', VStr (tc_Type t))] @
     (if tc_Type t = ''custom''
      then [(''custom'', VObj [(''name'', VStr (cc_Name (tc_Custom t))), (''input'', VStr (cc_Input (tc_Custom t)))])]
      else [(''function'', VObj [(''name'', VStr (fc_Name (tc_Function t))), (''arguments'', VStr (fc_Arguments (tc_Function t)))])]))"

section \<open>Tool definitions\<close>

abbreviation Marshal_any :: "goval \<Rightarrow> string" where
  "Marshal_any v \<equiv> (case Marshal (\<lambda>_. []) v of None \<Rightarrow> [] | Some t \<Rightarrow> t)"

record ToolProbe =
  tp_Type :: string
  tp_Name :: string
  tp_Description :: string
  tp_Parameters :: string
  tp_Function :: string
  tp_Custom :: string
  tp_Format :: string

definition zero_ToolProbe :: ToolProbe where
  "zero_ToolProbe = \<lparr>tp_Type = [], tp_Name = [], tp_Description = [], tp_Parameters = [], tp_Function = [], tp_Custom = [], tp_Format = []\<rparr>"

text \<open>The anonymous structs that the tool functions decode into are selections of these fields.\<close>

definition ToolProbe_fields :: "string list \<Rightarrow> (string \<times> ToolProbe setter) list" where
  "ToolProbe_fields names = filter (\<lambda>(n, _). n \<in> set names)
     [(''type'', set_string (\<lambda>t p. p\<lparr>tp_Type := t\<rparr>)), (''name'', set_string (\<lambda>t p. p\<lparr>tp_Name := t\<rparr>)),
      (''description'', set_string (\<lambda>t p. p\<lparr>tp_Description := t\<rparr>)), (''parameters'', set_raw (\<lambda>t p. p\<lparr>tp_Parameters := t\<rparr>)),
      (''function'', set_raw (\<lambda>t p. p\<lparr>tp_Function := t\<rparr>)), (''custom'', set_raw (\<lambda>t p. p\<lparr>tp_Custom := t\<rparr>)),
      (''format'', set_raw (\<lambda>t p. p\<lparr>tp_Format := t\<rparr>))]"

abbreviation probe_tool :: "string list \<Rightarrow> string \<Rightarrow> ToolProbe option" where
  "probe_tool names raw \<equiv> Unmarshal (to_struct (ToolProbe_fields names) zero_ToolProbe) raw"

definition function_body :: "ToolProbe \<Rightarrow> string" where
  "function_body flat = Marshal_any (VMap [(''name'', VStr (tp_Name flat)), (''description'', VStr (tp_Description flat)),
     (''parameters'', VRaw (tp_Parameters flat))])"

definition wrapApplyPatchGrammar :: "string \<Rightarrow> string \<times> bool" where
  "wrapApplyPatchGrammar custom =
     (case probe_tool [''name'', ''description'', ''format''] custom of
        None \<Rightarrow> (custom, False)
      | Some probe \<Rightarrow>
          if tp_Name probe = [] then (custom, False)
          else
            let params = (if tp_Format probe \<noteq> [] then VMap [(''format'', VRaw (tp_Format probe))] else VMap []) in
            (case Marshal (\<lambda>_. []) (VMap [(''name'', VStr (tp_Name probe)), (''description'', VStr (tp_Description probe)), (''parameters'', params)]) of
               None \<Rightarrow> (custom, False)
             | Some b \<Rightarrow> (b, True)))"

definition normaliseTool :: "string \<Rightarrow> Tool option" where
  "normaliseTool raw =
     (case probe_tool [''type'', ''function'', ''custom''] raw of
        None \<Rightarrow> None
      | Some nested \<Rightarrow>
          let flatName = (case parse_json raw of None \<Rightarrow> []
                | Some j \<Rightarrow> tp_Name (fst (decode_struct (ToolProbe_fields [''name'']) zero_ToolProbe j)));
              flat = probe_tool [''type'', ''name'', ''description'', ''parameters''] raw in
          if flatName \<noteq> [] \<and> tp_Function nested = [] then
            map_option (\<lambda>f. \<lparr>tool_Type = tp_Type f, tool_Function = function_body f, tool_Custom = []\<rparr>) flat
          else if tp_Type nested = ''function'' then
            (if tp_Function nested = [] then None
             else Some \<lparr>tool_Type = ''function'', tool_Function = tp_Function nested, tool_Custom = []\<rparr>)
          else if tp_Type nested = ''custom'' then
            (if tp_Custom nested = [] then None
             else Some \<lparr>tool_Type = ''custom'', tool_Function = fst (wrapApplyPatchGrammar (tp_Custom nested)), tool_Custom = []\<rparr>)
          else
            (case flat of None \<Rightarrow> None
             | Some f \<Rightarrow>
                 if tp_Name f = [] then None
                 else Some \<lparr>tool_Type = tp_Type f, tool_Function = function_body f, tool_Custom = []\<rparr>))"

definition Tool_UnmarshalJSON :: "string \<Rightarrow> Tool option" where
  "Tool_UnmarshalJSON data =
     (case probe_tool [''type'', ''function''] data of
        None \<Rightarrow> None
      | Some kind \<Rightarrow>
          (case (if tp_Type kind = ''custom'' then probe_tool [''custom''] data else None) of
             Some c \<Rightarrow>
               if tp_Custom c \<noteq> [] then Some \<lparr>tool_Type = ''custom'', tool_Function = [], tool_Custom = tp_Custom c\<rparr>
               else if tp_Function kind \<noteq> [] then Some \<lparr>tool_Type = tp_Type kind, tool_Function = tp_Function kind, tool_Custom = []\<rparr>
               else normaliseTool data
           | None \<Rightarrow>
               if tp_Function kind \<noteq> [] then Some \<lparr>tool_Type = tp_Type kind, tool_Function = tp_Function kind, tool_Custom = []\<rparr>
               else normaliseTool data))"

section \<open>Messages and chat requests\<close>

record MessageProbe =
  mp_Message :: Message
  mp_Content :: string

definition MessageProbe_fields :: "(string \<times> MessageProbe setter) list" where
  "MessageProbe_fields =
     [(''role'', set_string (\<lambda>x p. p\<lparr>mp_Message := (mp_Message p)\<lparr>msg_Role := x\<rparr>\<rparr>)),
      (''name'', set_string (\<lambda>x p. p\<lparr>mp_Message := (mp_Message p)\<lparr>msg_Name := x\<rparr>\<rparr>)),
      (''tool_calls'', set_list (\<lambda>_. ToolCall_UnmarshalJSON) (\<lambda>x p. p\<lparr>mp_Message := (mp_Message p)\<lparr>msg_ToolCalls := x\<rparr>\<rparr>)),
      (''tool_call_id'', set_string (\<lambda>x p. p\<lparr>mp_Message := (mp_Message p)\<lparr>msg_ToolCallID := x\<rparr>\<rparr>)),
      (''content'', set_raw (\<lambda>x p. p\<lparr>mp_Content := x\<rparr>))]"

definition Message_UnmarshalJSON :: "json \<Rightarrow> Message option" where
  "Message_UnmarshalJSON j =
     (case to_struct MessageProbe_fields \<lparr>mp_Message = plain_message [] [], mp_Content = []\<rparr> j of
        None \<Rightarrow> None
      | Some p \<Rightarrow>
          if mp_Content p \<noteq> []
          then map_option (\<lambda>t. (mp_Message p)\<lparr>msg_Content := t\<rparr>) (parseMessageContent (mp_Content p))
          else Some (mp_Message p))"

definition NexusEval_fields :: "(string \<times> NexusEvalContext setter) list" where
  "NexusEval_fields =
     [(''contexts'', set_list (\<lambda>_. to_string) (\<lambda>x e. e\<lparr>ne_Contexts := x\<rparr>)), (''reference'', set_string (\<lambda>x e. e\<lparr>ne_Reference := x\<rparr>))]"

definition to_NexusEval :: "json \<Rightarrow> NexusEvalContext option" where
  "to_NexusEval = to_struct NexusEval_fields \<lparr>ne_Contexts = [], ne_Reference = []\<rparr>"

definition JSONSchemaSpec_fields :: "(string \<times> JSONSchemaSpec setter) list" where
  "JSONSchemaSpec_fields =
     [(''name'', set_string (\<lambda>x e. e\<lparr>js_Name := x\<rparr>)), (''schema'', set_raw (\<lambda>x e. e\<lparr>js_Schema := x\<rparr>)),
      (''strict'', set_bool (\<lambda>x e. e\<lparr>js_Strict := x\<rparr>))]"

definition ResponseFormat_fields :: "(string \<times> ResponseFormat setter) list" where
  "ResponseFormat_fields =
     [(''type'', set_string (\<lambda>x e. e\<lparr>rf_Type := x\<rparr>)),
      (''json_schema'', set_ptr (to_struct JSONSchemaSpec_fields \<lparr>js_Name = [], js_Schema = [], js_Strict = False\<rparr>) (\<lambda>x e. e\<lparr>rf_JSONSchema := x\<rparr>))]"

definition zero_ChatCompletionRequest :: ChatCompletionRequest where
  "zero_ChatCompletionRequest = \<lparr>req_Model = [], req_Messages = [], req_Temperature = None, req_TopP = None, req_MaxTokens = None,
     req_Stream = False, req_Stop = [], req_Tools = [], req_User = [], req_ReasoningEffort = [], req_StreamOptions = [],
     req_ToolChoice = [], req_ParallelToolCalls = None, req_ResponseFormat = None, req_NexusEval = None, req_Extra = []\<rparr>"

definition ChatCompletionRequest_fields :: "(string \<times> ChatCompletionRequest setter) list" where
  "ChatCompletionRequest_fields =
     [(''model'', set_string (\<lambda>x r. r\<lparr>req_Model := x\<rparr>)),
      (''messages'', set_list (\<lambda>_. Message_UnmarshalJSON) (\<lambda>x r. r\<lparr>req_Messages := x\<rparr>)),
      (''temperature'', set_ptr to_float (\<lambda>x r. r\<lparr>req_Temperature := x\<rparr>)),
      (''top_p'', set_ptr to_float (\<lambda>x r. r\<lparr>req_TopP := x\<rparr>)),
      (''max_tokens'', set_ptr to_int (\<lambda>x r. r\<lparr>req_MaxTokens := x\<rparr>)),
      (''stream'', set_bool (\<lambda>x r. r\<lparr>req_Stream := x\<rparr>)),
      (''stop'', set_list (\<lambda>_. to_string) (\<lambda>x r. r\<lparr>req_Stop := x\<rparr>)),
      (''tools'', set_list (\<lambda>raw _. Tool_UnmarshalJSON raw) (\<lambda>x r. r\<lparr>req_Tools := x\<rparr>)),
      (''user'', set_string (\<lambda>x r. r\<lparr>req_User := x\<rparr>)),
      (''reasoning_effort'', set_string (\<lambda>x r. r\<lparr>req_ReasoningEffort := x\<rparr>)),
      (''stream_options'', set_raw (\<lambda>x r. r\<lparr>req_StreamOptions := x\<rparr>)),
      (''tool_choice'', set_raw (\<lambda>x r. r\<lparr>req_ToolChoice := x\<rparr>)),
      (''parallel_tool_calls'', set_ptr to_bool (\<lambda>x r. r\<lparr>req_ParallelToolCalls := x\<rparr>)),
      (''response_format'', set_ptr (to_struct ResponseFormat_fields \<lparr>rf_Type = [], rf_JSONSchema = None\<rparr>) (\<lambda>x r. r\<lparr>req_ResponseFormat := x\<rparr>)),
      (''nexus_eval'', set_ptr to_NexusEval (\<lambda>x r. r\<lparr>req_NexusEval := x\<rparr>))]"

definition Unmarshal_chat :: "string \<Rightarrow> ChatCompletionRequest option" where
  "Unmarshal_chat = Unmarshal (to_struct ChatCompletionRequest_fields zero_ChatCompletionRequest)"

section \<open>Metadata\<close>

text \<open>A value decoded into \<open>any\<close>: only a number out of the range of a float is an error.\<close>

fun any_ok :: "json \<Rightarrow> bool"
  and any_items :: "(string \<times> json) list \<Rightarrow> bool"
  and any_members :: "(string \<times> string \<times> json) list \<Rightarrow> bool" where
  "any_ok (JNum t) = (float_of_literal t \<noteq> None)"
| "any_ok (JArr vs) = any_items vs"
| "any_ok (JObj ms) = any_members ms"
| "any_ok j = True"
| "any_items [] = True"
| "any_items ((raw, v) # vs) = (any_ok v \<and> any_items vs)"
| "any_members [] = True"
| "any_members ((k, raw, v) # ms) = (any_ok v \<and> any_members ms)"

text \<open>\<open>map[string]any\<close>, of which the code reads string values only: a key with another value is mapped
  to the empty string, as the failed type assertion gives.\<close>

definition to_metadata :: "json \<Rightarrow> (string, string) gomap option option" where
  "to_metadata j =
     (case j of
        JNull \<Rightarrow> Some None
      | JObj ms \<Rightarrow>
          if any_members ms
          then Some (Some (foldl (\<lambda>m (k, raw, v). gomap_set k (case v of JStr t \<Rightarrow> t | _ \<Rightarrow> []) m) [] ms))
          else None
      | _ \<Rightarrow> None)"

definition set_metadata :: "((string, string) gomap option \<Rightarrow> 's \<Rightarrow> 's) \<Rightarrow> 's setter" where
  "set_metadata upd s raw j = map_option (\<lambda>m. upd m s) (to_metadata j)"

text \<open>The probe of \<open>extractSessionID\<close>: \<open>metadata\<close> and \<open>user\<close>.\<close>

definition session_probe :: "string \<Rightarrow> ((string, string) gomap option \<times> string) option" where
  "session_probe = Unmarshal (to_struct
     [(''metadata'', set_metadata (\<lambda>m (_, u). (m, u))), (''user'', set_string (\<lambda>u (m, _). (m, u)))] (None, []))"

section \<open>Items of a Responses input\<close>

record InputItem =
  it_Type :: string
  it_ID :: string
  it_Role :: string
  it_Content :: string
  it_Name :: string
  it_CallID :: string
  it_ToolUseID :: string
  it_Input :: string
  it_Arguments :: string
  it_Output :: string

definition zero_InputItem :: InputItem where
  "zero_InputItem = \<lparr>it_Type = [], it_ID = [], it_Role = [], it_Content = [], it_Name = [], it_CallID = [], it_ToolUseID = [],
     it_Input = [], it_Arguments = [], it_Output = []\<rparr>"

definition InputItem_fields :: "(string \<times> InputItem setter) list" where
  "InputItem_fields =
     [(''type'', set_string (\<lambda>x i. i\<lparr>it_Type := x\<rparr>)), (''id'', set_string (\<lambda>x i. i\<lparr>it_ID := x\<rparr>)),
      (''role'', set_string (\<lambda>x i. i\<lparr>it_Role := x\<rparr>)), (''content'', set_raw (\<lambda>x i. i\<lparr>it_Content := x\<rparr>)),
      (''name'', set_string (\<lambda>x i. i\<lparr>it_Name := x\<rparr>)), (''call_id'', set_string (\<lambda>x i. i\<lparr>it_CallID := x\<rparr>)),
      (''tool_use_id'', set_string (\<lambda>x i. i\<lparr>it_ToolUseID := x\<rparr>)), (''input'', set_raw (\<lambda>x i. i\<lparr>it_Input := x\<rparr>)),
      (''arguments'', set_string (\<lambda>x i. i\<lparr>it_Arguments := x\<rparr>)), (''output'', set_raw (\<lambda>x i. i\<lparr>it_Output := x\<rparr>))]"

definition Unmarshal_items :: "string \<Rightarrow> InputItem list option" where
  "Unmarshal_items = Unmarshal (to_list (\<lambda>_. to_struct InputItem_fields zero_InputItem))"

definition OutputString :: "InputItem \<Rightarrow> string" where
  "OutputString it =
     (if it_Output it = [] then []
      else
        let trim = strings_TrimSpace (it_Output it) in
        if trim = [] \<or> trim = ''null'' then []
        else (case (if hd trim = quote_char then Unmarshal to_string (it_Output it) else None) of
                Some s \<Rightarrow> s
              | None \<Rightarrow> trim))"

section \<open>Tool calls survive the wire\<close>

lemma int_of_literal_itoa: "- (2 ^ 63) \<le> i \<Longrightarrow> i < 2 ^ 63 \<Longrightarrow> int_of_literal (itoa i) = Some i"
proof -
  assume i: "- (2 ^ 63) \<le> i" "i < 2 ^ 63"
  obtain c u where n: "strconv_Itoa (nat i) = c # u" "is_digit c" using strconv_Itoa_head [of "nat i"] by metis
  then have "c \<noteq> CHR ''-''" by (auto simp: is_digit_def)
  then show ?thesis
    using i n strconv_Itoa_digits [of "nat i"] strconv_Itoa_digits [of "nat (- i)"] strconv_Itoa_head [of "nat (- i)"]
    by (auto simp: int_of_literal_def itoa_def)
qed

text \<open>What a tool call carries on the wire: the call of its kind.\<close>

definition wire_call :: "ToolCall \<Rightarrow> ToolCall" where
  "wire_call t = (if tc_Type t = ''custom'' then t\<lparr>tc_Function := zero_FunctionCall\<rparr> else t\<lparr>tc_Custom := zero_CustomCall\<rparr>)"

definition utf8_call :: "ToolCall \<Rightarrow> bool" where
  "utf8_call t = (list_all utf8_valid [tc_ID t, tc_Type t, fc_Name (tc_Function t), fc_Arguments (tc_Function t),
     cc_Name (tc_Custom t), cc_Input (tc_Custom t)])"

lemma find_ToolCall_field:
  "find_field ToolCall_fields ''index'' = Some (set_ptr to_int (\<lambda>i t. t\<lparr>tc_Index := i\<rparr>))"
  "find_field ToolCall_fields ''id'' = Some (set_string (\<lambda>x t. t\<lparr>tc_ID := x\<rparr>))"
  "find_field ToolCall_fields ''type'' = Some (set_string (\<lambda>x t. t\<lparr>tc_Type := x\<rparr>))"
  "find_field ToolCall_fields ''function'' = Some (set_struct FunctionCall_fields tc_Function (\<lambda>f t. t\<lparr>tc_Function := f\<rparr>))"
  "find_field ToolCall_fields ''custom'' = Some (set_struct CustomCall_fields tc_Custom (\<lambda>f t. t\<lparr>tc_Custom := f\<rparr>))"
  "find_field FunctionCall_fields ''name'' = Some (set_string (\<lambda>t f. f\<lparr>fc_Name := t\<rparr>))"
  "find_field FunctionCall_fields ''arguments'' = Some (set_string (\<lambda>t f. f\<lparr>fc_Arguments := t\<rparr>))"
  "find_field CustomCall_fields ''name'' = Some (set_string (\<lambda>t f. f\<lparr>cc_Name := t\<rparr>))"
  "find_field CustomCall_fields ''input'' = Some (set_string (\<lambda>t f. f\<lparr>cc_Input := t\<rparr>))"
  by (simp_all add: find_field_def ToolCall_fields_def FunctionCall_fields_def CustomCall_fields_def)

lemma utf8_valid_ascii: "list_all (\<lambda>c. of_char c < (128 :: nat)) s \<Longrightarrow> utf8_valid s"
proof (induction s)
  case (Cons c s)
  then have "rune_len (c # s) = 1" by (simp add: rune_len_def)
  with Cons show ?case by (simp add: utf8_valid.simps [of "c # s"])
qed (simp add: utf8_valid.simps)

lemma utf8_call_names [simp]:
  "utf8_valid ''index''" "utf8_valid ''id''" "utf8_valid ''type''" "utf8_valid ''function''" "utf8_valid ''custom''"
  "utf8_valid ''name''" "utf8_valid ''arguments''" "utf8_valid ''input''"
  by (rule utf8_valid_ascii, simp)+

text \<open>C36. A tool call keeps its index, its id, its type and the call of its kind, function or custom,
  when it is written to JSON and read back, for strings in UTF-8 and an index of 64 bits.\<close>

theorem ToolCall_roundtrip:
  assumes "utf8_call t" "\<forall>i. tc_Index t = Some i \<longrightarrow> - (2 ^ 63) \<le> i \<and> i < 2 ^ 63"
  shows "\<exists>data. Marshal ff (ToolCall_MarshalJSON t) = Some data \<and> Unmarshal ToolCall_UnmarshalJSON data = Some (wire_call t)"
proof -
  have "plain_value 0 (ToolCall_MarshalJSON t)"
    using assms(1) by (auto simp: ToolCall_MarshalJSON_def utf8_call_def split: option.split)
  then obtain data where data: "Marshal ff (ToolCall_MarshalJSON t) = Some data" "parse_json data = Some (tree_of (ToolCall_MarshalJSON t))"
    using parse_Marshal by blast
  have "ToolCall_UnmarshalJSON (tree_of (ToolCall_MarshalJSON t)) = Some (wire_call t)"
    using assms(2)
    by (cases "tc_Index t")
       (simp_all add: ToolCall_MarshalJSON_def ToolCall_UnmarshalJSON_def to_struct_def decode_struct_def find_ToolCall_field
         set_string_def set_ptr_def set_struct_def to_int_def int_of_literal_itoa wire_call_def zero_ToolCall_def zero_FunctionCall_def zero_CustomCall_def)
  then show ?thesis using data by (simp add: Unmarshal_def)
qed

definition demo_call :: ToolCall where
  "demo_call = zero_ToolCall\<lparr>tc_Index := Some 0, tc_ID := ''call_1'', tc_Type := ''function'',
     tc_Function := \<lparr>fc_Name = ''f'', fc_Arguments = ''{}''\<rparr>\<rparr>"

theorem ToolCall_roundtrip_witness:
  "\<exists>data. Marshal (\<lambda>_. []) (ToolCall_MarshalJSON demo_call) = Some data \<and> Unmarshal ToolCall_UnmarshalJSON data = Some demo_call"
proof -
  have "utf8_call demo_call"
    by (simp add: utf8_call_def demo_call_def zero_ToolCall_def zero_CustomCall_def utf8_valid_ascii)
  then show ?thesis using ToolCall_roundtrip [of demo_call "\<lambda>_. []"] 
    by (simp add: demo_call_def wire_call_def zero_ToolCall_def zero_CustomCall_def)
qed

end
