(* ===== verification/Hybrid.thy ===== *)
theory Hybrid
  imports Codec
begin

text \<open>
  The translation of Cursor's hybrid bodies (\<open>internal/gateway/cursor_compat.go\<close>): a Responses-style
  body posted to the chat endpoint becomes a chat request. \<open>je\<close> is the text of the error that
  \<open>encoding/json\<close> reports for some data.
\<close>

text \<open>\<open>extractInputText\<close> of \<open>responses.go\<close>: the text of a content payload, a string or an array of parts.\<close>

definition extractInputText :: "string \<Rightarrow> string" where
  "extractInputText raw =
     (let trimmed = strings_TrimSpace raw in
      if trimmed = [] \<or> trimmed = ''null'' then []
      else if hd trimmed = quote_char then (case Unmarshal to_string raw of Some s \<Rightarrow> s | None \<Rightarrow> [])
      else (case Unmarshal (to_list (\<lambda>_. to_struct (filter (\<lambda>(n, _). n \<noteq> ''input_text'') ContentPart_fields) zero_ContentPart)) raw of
              None \<Rightarrow> raw
            | Some parts \<Rightarrow> foldl (\<lambda>b p. write_part [CHR 0x0A] b (cp_Text p)) [] parts))"

definition call_message :: "string \<Rightarrow> string \<Rightarrow> string \<Rightarrow> Message" where
  "call_message callID name arguments = (plain_message ''assistant'' [])\<lparr>msg_ToolCalls :=
     [zero_ToolCall\<lparr>tc_Type := ''function'', tc_ID := callID, tc_Function := \<lparr>fc_Name = name, fc_Arguments = arguments\<rparr>\<rparr>]\<rparr>"

abbreviation message_role :: "string \<Rightarrow> bool" where
  "message_role r \<equiv> r = ''user'' \<or> r = ''system'' \<or> r = ''assistant'' \<or> r = ''developer''"

text \<open>One round of the loop over the items; an item of another kind is skipped.\<close>

definition hybrid_item :: "InputItem \<Rightarrow> Message list" where
  "hybrid_item it =
     (if message_role (it_Role it) then [plain_message (it_Role it) (extractInputText (it_Content it))]
      else if it_Type it = ''function_call'' then
        [call_message (it_CallID it) (strings_TrimSpace (it_Name it)) (it_Arguments it)]
      else if it_Type it = ''function_call_output'' then
        [(plain_message ''tool'' (OutputString it))\<lparr>msg_ToolCallID := it_CallID it, msg_Name := it_Name it\<rparr>]
      else if it_Type it = ''tool_use'' then
        (let extra = (case parse_json (it_Content it) of None \<Rightarrow> ([], [])
               | Some j \<Rightarrow> fst (decode_struct [(''name'', set_string (\<lambda>x (_, i). (x, i))), (''input'', set_raw (\<lambda>x (n, _). (n, x)))] ([], []) j));
             args = (if snd extra \<noteq> [] then snd extra else ''{}'')
         in [call_message (it_CallID it) (fst extra) args])
      else if it_Type it = ''tool_result'' then [(plain_message ''tool'' (OutputString it))\<lparr>msg_ToolCallID := it_CallID it\<rparr>]
      else [])"

definition parseInputToMessages :: "(string \<Rightarrow> string) \<Rightarrow> string \<Rightarrow> string + Message list" where
  "parseInputToMessages je raw =
     (let trimmed = strings_TrimSpace raw in
      if trimmed = [] \<or> trimmed = ''null'' then Inl ''input is empty''
      else if hd trimmed = quote_char then
        (case Unmarshal to_string raw of None \<Rightarrow> Inl (je raw) | Some s \<Rightarrow> Inr [plain_message ''user'' s])
      else if hd trimmed \<noteq> CHR ''['' then Inl ''input must be a string or an array''
      else (case Unmarshal_items raw of None \<Rightarrow> Inl (je raw) | Some items \<Rightarrow> Inr (concat (map hybrid_item items))))"

definition normaliseHybridToolChoice :: "string \<Rightarrow> string" where
  "normaliseHybridToolChoice raw =
     (let trimmed = strings_TrimSpace raw in
      if raw = [] \<or> trimmed = [] \<or> trimmed = ''null'' then []
      else if hd trimmed \<noteq> CHR ''{'' then raw
      else (case probe_tool [''type'', ''function'', ''name''] raw of
              None \<Rightarrow> raw
            | Some probe \<Rightarrow>
                if tp_Function probe \<noteq> [] then raw
                else if tp_Type probe \<noteq> [] \<and> tp_Name probe \<noteq> []
                then Marshal_any (VMap [(''type'', VStr (tp_Type probe)), (''function'', VMap [(''name'', VStr (tp_Name probe))])])
                else raw))"

definition promoted_keys :: "string list" where
  "promoted_keys = [''model'', ''messages'', ''input'', ''tools'', ''temperature'', ''top_p'', ''max_output_tokens'', ''stream'', ''user'',
     ''nexus_eval'', ''instructions'', ''reasoning'', ''text'', ''tool_choice'', ''parallel_tool_calls'']"

definition pickResponsesExtras :: "string \<Rightarrow> (string, string) gomap" where
  "pickResponsesExtras raw =
     (case parse_json raw of
        Some (JObj ms) \<Rightarrow>
          filter (\<lambda>(k, _). k \<notin> set promoted_keys) (foldl (\<lambda>m (k, v, _). gomap_set k v m) [] ms)
      | _ \<Rightarrow> [])"

record CursorHybridReq =
  hy_Model :: string
  hy_Messages :: "Message list"
  hy_Input :: string
  hy_Temperature :: "float64 option"
  hy_TopP :: "float64 option"
  hy_MaxTokens :: "int option"
  hy_MaxOutputTokens :: "int option"
  hy_Stream :: bool
  hy_Stop :: "string list"
  hy_Tools :: "string list"
  hy_User :: string
  hy_ToolChoice :: string
  hy_ParallelToolCalls :: "bool option"
  hy_Reasoning :: string
  hy_StreamOptions :: string

definition zero_CursorHybridReq :: CursorHybridReq where
  "zero_CursorHybridReq = \<lparr>hy_Model = [], hy_Messages = [], hy_Input = [], hy_Temperature = None, hy_TopP = None, hy_MaxTokens = None,
     hy_MaxOutputTokens = None, hy_Stream = False, hy_Stop = [], hy_Tools = [], hy_User = [], hy_ToolChoice = [],
     hy_ParallelToolCalls = None, hy_Reasoning = [], hy_StreamOptions = []\<rparr>"

definition CursorHybridReq_fields :: "(string \<times> CursorHybridReq setter) list" where
  "CursorHybridReq_fields =
     [(''model'', set_string (\<lambda>x r. r\<lparr>hy_Model := x\<rparr>)),
      (''messages'', set_list (\<lambda>_. Message_UnmarshalJSON) (\<lambda>x r. r\<lparr>hy_Messages := x\<rparr>)),
      (''input'', set_raw (\<lambda>x r. r\<lparr>hy_Input := x\<rparr>)),
      (''temperature'', set_ptr to_float (\<lambda>x r. r\<lparr>hy_Temperature := x\<rparr>)),
      (''top_p'', set_ptr to_float (\<lambda>x r. r\<lparr>hy_TopP := x\<rparr>)),
      (''max_tokens'', set_ptr to_int (\<lambda>x r. r\<lparr>hy_MaxTokens := x\<rparr>)),
      (''max_output_tokens'', set_ptr to_int (\<lambda>x r. r\<lparr>hy_MaxOutputTokens := x\<rparr>)),
      (''stream'', set_bool (\<lambda>x r. r\<lparr>hy_Stream := x\<rparr>)),
      (''stop'', set_list (\<lambda>_. to_string) (\<lambda>x r. r\<lparr>hy_Stop := x\<rparr>)),
      (''tools'', set_list (\<lambda>raw _. Some raw) (\<lambda>x r. r\<lparr>hy_Tools := x\<rparr>)),
      (''user'', set_string (\<lambda>x r. r\<lparr>hy_User := x\<rparr>)),
      (''tool_choice'', set_raw (\<lambda>x r. r\<lparr>hy_ToolChoice := x\<rparr>)),
      (''parallel_tool_calls'', set_ptr to_bool (\<lambda>x r. r\<lparr>hy_ParallelToolCalls := x\<rparr>)),
      (''reasoning'', set_raw (\<lambda>x r. r\<lparr>hy_Reasoning := x\<rparr>)),
      (''stream_options'', set_raw (\<lambda>x r. r\<lparr>hy_StreamOptions := x\<rparr>))]"

definition reasoning_effort :: "string \<Rightarrow> string" where
  "reasoning_effort raw =
     (if raw \<noteq> [] \<and> raw \<noteq> ''null''
      then (case Unmarshal (to_struct [(''effort'', set_string (\<lambda>x _. x))] []) raw of Some e \<Rightarrow> e | None \<Rightarrow> [])
      else [])"

text \<open>On an error the request built so far is returned with it; no caller looks at it.\<close>

definition TransformCursorHybrid :: "(string \<Rightarrow> string) \<Rightarrow> string \<Rightarrow> string + ChatCompletionRequest" where
  "TransformCursorHybrid je body =
     (case Unmarshal (to_struct CursorHybridReq_fields zero_CursorHybridReq) body of
        None \<Rightarrow> Inl (''decode hybrid body: '' @ je body)
      | Some h \<Rightarrow>
          (case (if hy_Messages h \<noteq> [] then Inr (hy_Messages h)
                 else if hy_Input h \<noteq> [] \<and> hy_Input h \<noteq> ''null'' then parseInputToMessages je (hy_Input h)
                 else Inr []) of
             Inl err \<Rightarrow> Inl (''input'' @ [CHR 0xE2, CHR 0x86, CHR 0x92] @ ''messages: '' @ err)
           | Inr msgs \<Rightarrow> Inr (zero_ChatCompletionRequest
               \<lparr>req_Model := hy_Model h, req_Temperature := hy_Temperature h, req_TopP := hy_TopP h, req_Stream := hy_Stream h,
                req_Stop := hy_Stop h, req_User := hy_User h,
                req_MaxTokens := (if hy_MaxTokens h \<noteq> None then hy_MaxTokens h else hy_MaxOutputTokens h),
                req_Messages := msgs, req_Tools := List.map_filter normaliseTool (hy_Tools h),
                req_ReasoningEffort := reasoning_effort (hy_Reasoning h),
                req_ToolChoice := (if hy_ToolChoice h \<noteq> [] then normaliseHybridToolChoice (hy_ToolChoice h) else hy_ToolChoice h),
                req_ParallelToolCalls := hy_ParallelToolCalls h, req_Extra := pickResponsesExtras body,
                req_StreamOptions := hy_StreamOptions h\<rparr>)))"

end
