(* ===== verification/Surfaces.thy ===== *)
theory Surfaces
  imports Streaming Codec
begin

text \<open>
  What the handlers of \<open>/v1/messages\<close> and \<open>/v1/responses\<close> share (\<open>internal/gateway/responses.go\<close>,
  \<open>messages.go\<close>): the choice of providers, the credential of a call, the unary dispatch, and the writing
  of JSON bodies and server-sent events. These two surfaces do not use the chain, the guard and the
  retry loop of the chat path.

  \<open>Api\<close> has what these handlers get from outside besides \<open>Env\<close>: the text of a float in JSON, of an
  error of the JSON decoder and of an error of the credential store, fresh identifiers, the Unix time
  and whether the writer can flush.
\<close>

record Api =
  ap_float :: "float64 \<Rightarrow> string"
  ap_jsonErr :: "string \<Rightarrow> string"
  ap_credErr :: "string \<Rightarrow> string"
  ap_uuid :: "nat \<Rightarrow> string"
  ap_unix :: int
  ap_flusher :: bool

section \<open>Choosing providers\<close>

record providerRef =
  pr_Provider :: Provider
  pr_ForwardModel :: string

definition resolve_ref :: "'re Handler \<Rightarrow> string \<Rightarrow> providerRef option" where
  "resolve_ref h m = (case Resolve (h_registry h) m of Inr (p, fwd) \<Rightarrow> Some \<lparr>pr_Provider = p, pr_ForwardModel = fwd\<rparr> | Inl _ \<Rightarrow> None)"

definition pickResponsesChain :: "'re Handler \<Rightarrow> string \<Rightarrow> providerRef list option" where
  "pickResponsesChain h model =
     (let out = (case routeCandidates h model of Some c \<Rightarrow> List.map_filter (resolve_ref h) c | None \<Rightarrow> []) in
      if length out > 0 then Some out else map_option (\<lambda>p. [p]) (resolve_ref h model))"

section \<open>Credential and unary dispatch\<close>

text \<open>The credential block. \<open>Inl\<close> is the refusal of the strict mode, which only an error of the store
  causes.\<close>

definition surface_credential ::
  "('u, 'c, 'l, 're, 'doc, 'schema) Env \<Rightarrow> 're Handler \<Rightarrow> Ctx \<Rightarrow> string \<Rightarrow> string \<Rightarrow> ('u, 'c, 'l) GState \<Rightarrow>
     (unit + Ctx \<times> string) \<times> ('u, 'c, 'l) GState" where
  "surface_credential env h ctx source providerName s =
     (if g_creds s \<noteq> None \<and> h_keyMode h \<noteq> KeyModeShared then
        (case Resolve_credential (ev_credSource env) (g_creds s) (ev_now env) (ev_now env) (OrgIDFrom ctx) (UserIDFrom ctx) providerName of
           (Some (cred, found), cr) \<Rightarrow>
             (Inr (if found then (ctx\<lparr>cx_Credential := Some (caller_credential cred)\<rparr>, rc_Source cred) else (ctx, source)), s\<lparr>g_creds := cr\<rparr>)
         | (None, cr) \<Rightarrow> (if h_keyMode h = KeyModeStrictBYOK then Inl () else Inr (ctx, source), s\<lparr>g_creds := cr\<rparr>))
      else (Inr (ctx, source), s))"

text \<open>The same block in the streams, which ignore an error. \<open>source\<close> is what the trace says when no key of the
  caller is found.\<close>

definition stream_credential ::
  "('u, 'c, 'l, 're, 'doc, 'schema) Env \<Rightarrow> 're Handler \<Rightarrow> Ctx \<Rightarrow> string \<Rightarrow> string \<Rightarrow> ('u, 'c, 'l) GState \<Rightarrow>
     Ctx \<times> string \<times> ('u, 'c, 'l) GState" where
  "stream_credential env h ctx source providerName s =
     (if g_creds s \<noteq> None \<and> h_keyMode h \<noteq> KeyModeShared then
        (case Resolve_credential (ev_credSource env) (g_creds s) (ev_now env) (ev_now env) (OrgIDFrom ctx) (UserIDFrom ctx) providerName of
           (Some (cred, True), cr) \<Rightarrow> (ctx\<lparr>cx_Credential := Some (caller_credential cred)\<rparr>, rc_Source cred, s\<lparr>g_creds := cr\<rparr>)
         | (_, cr) \<Rightarrow> (ctx, source, s\<lparr>g_creds := cr\<rparr>))
      else (ctx, source, s))"

text \<open>The loop of \<open>executeResponsesUnary\<close> and \<open>executeMessagesUnary\<close>, which have the same body: \<open>np\<close> is the
  number of providers and \<open>i\<close> the position of the first of the remaining ones. Every branch of the body
  returns, as in the code; the first equation is the return after the loop.\<close>

fun unary_loop ::
  "('u, 'c, 'l, 're, 'doc, 'schema) Env \<Rightarrow> Api \<Rightarrow> 're Handler \<Rightarrow> Ctx \<Rightarrow> ChatCompletionRequest \<Rightarrow> nat \<Rightarrow> nat \<Rightarrow> providerRef list \<Rightarrow> Trace \<Rightarrow>
     ('u, 'c, 'l) GState \<Rightarrow> ChatCompletionResponse option \<times> Trace \<times> ('u, 'c, 'l) GState" where
  "unary_loop env ap h ctx req np i [] trace s = (None, trace, s)"
| "unary_loop env ap h ctx req np i (p # ps) trace s =
     (let name = pv_Name (pr_Provider p);
          attempt = req\<lparr>req_Model := pr_ForwardModel p\<rparr> in
      case surface_credential env h ctx ''env'' name s of
        (Inl _, s) \<Rightarrow>
          (None, trace\<lparr>tr_LatencyMs := ev_latency env i, tr_StatusCode := 403, tr_ErrorType := ''missing_byok_key'',
                       tr_ErrorMsg := ap_credErr ap name, tr_CredentialSource := ''none''\<rparr>, s)
      | (Inr (callCtx, credSource), s) \<Rightarrow>
          let trace = trace\<lparr>tr_CredentialSource := credSource\<rparr> in
          (case call_chat env (pr_Provider p) callCtx attempt s of
             (Inl err, s) \<Rightarrow>
               (None, trace\<lparr>tr_LatencyMs := ev_latency env i, tr_StatusCode := 502,
                  tr_ErrorType := (if i + 1 < np then ''upstream_error_failover'' else ''upstream_error''), tr_ErrorMsg := err\<rparr>, s)
           | (Inr resp, s) \<Rightarrow>
               let trace = trace\<lparr>tr_LatencyMs := ev_latency env i, tr_StatusCode := 200, tr_ResponseModel := resp_Model resp,
                     tr_InputTokens := us_PromptTokens (resp_Usage resp), tr_OutputTokens := us_CompletionTokens (resp_Usage resp)\<rparr>;
                   trace = (case resp_Choices resp of [] \<Rightarrow> trace
                     | ch # _ \<Rightarrow> trace\<lparr>tr_OutputMessages := msg_Content (ch_Message ch), tr_FinishReason := ch_FinishReason ch\<rparr>)
               in (Some resp, trace, s)))"

text \<open>\<open>pickResponsesChain\<close> never gives an empty list (\<open>pickResponsesChain_nonempty\<close>), so \<open>providers[0]\<close> exists.\<close>

definition executeResponsesUnary ::
  "('u, 'c, 'l, 're, 'doc, 'schema) Env \<Rightarrow> Api \<Rightarrow> 're Handler \<Rightarrow> Ctx \<Rightarrow> ChatCompletionRequest \<Rightarrow>
     ('u, 'c, 'l) GState \<Rightarrow> ChatCompletionResponse option \<times> Trace option \<times> ('u, 'c, 'l) GState" where
  "executeResponsesUnary env ap h ctx req s =
     (case pickResponsesChain h (req_Model req) of
        None \<Rightarrow> (None, None, s)
      | Some providers \<Rightarrow>
          let trace = newTrace env h ctx req (pv_Name (pr_Provider (hd providers))) 0 in
          (case unary_loop env ap h ctx req (length providers) 0 providers trace s of (r, t, s) \<Rightarrow> (r, Some t, s)))"

definition executeMessagesUnary ::
  "('u, 'c, 'l, 're, 'doc, 'schema) Env \<Rightarrow> Api \<Rightarrow> 're Handler \<Rightarrow> Ctx \<Rightarrow> ChatCompletionRequest \<Rightarrow>
     ('u, 'c, 'l) GState \<Rightarrow> ChatCompletionResponse option \<times> Trace option \<times> ('u, 'c, 'l) GState" where
  "executeMessagesUnary env ap h ctx req s =
     (case pickResponsesChain h (req_Model req) of
        None \<Rightarrow> (None, None, s)
      | Some providers \<Rightarrow>
          let trace = newTrace env h ctx req (pv_Name (pr_Provider (hd providers))) 0 in
          (case unary_loop env ap h ctx req (length providers) 0 providers trace s of (r, t, s) \<Rightarrow> (r, Some t, s)))"

text \<open>The marker of the conversation, put into the context.\<close>

definition session_ctx :: "string \<Rightarrow> Ctx \<Rightarrow> Ctx" where
  "session_ctx rawBody ctx =
     (let sid = extractSessionID session_probe rawBody in if sid \<noteq> [] then ctx\<lparr>cx_SessionID := Some sid\<rparr> else ctx)"

section \<open>Writing\<close>

text \<open>\<open>writeJSON\<close> of a struct: headers and status first, then the body if \<open>Encode\<close> succeeds.\<close>

definition write_value :: "(float64 \<Rightarrow> string) \<Rightarrow> int \<Rightarrow> goval \<Rightarrow> gw_body Writer \<Rightarrow> gw_body Writer" where
  "write_value ff status v w =
     (let w = WriteHeader status (set_header ''Content-Type'' ''application/json'' w) in
      case Marshal ff v of None \<Rightarrow> w | Some t \<Rightarrow> w\<lparr>wr_Body := wr_Body w @ [Payload (JSONBody (t @ nl))]\<rparr>)"

definition write_event :: "(float64 \<Rightarrow> string) \<Rightarrow> string \<times> goval \<Rightarrow> gw_body Writer \<Rightarrow> gw_body Writer" where
  "write_event ff ev w =
     (case Marshal ff (snd ev) of None \<Rightarrow> w
      | Some payload \<Rightarrow> write_bytes (''event: '' @ fst ev @ nl @ ''data: '' @ payload @ nl @ nl) w)"

text \<open>A direct call of \<open>recorder.Record\<close>; a nil recorder panics.\<close>

definition record_trace :: "'re Handler \<Rightarrow> Trace \<Rightarrow> ('u, 'c, 'l) GState \<Rightarrow> ('u, 'c, 'l) GState option" where
  "record_trace h t s = (if h_recorder h then Some (s\<lparr>g_traces := g_traces s @ [t]\<rparr>) else None)"

text \<open>The end of a unary request that has an answer: cost, header, trace, spend and body.\<close>

definition settle_unary ::
  "('u, 'c, 'l, 're, 'doc, 'schema) Env \<Rightarrow> 're Handler \<Rightarrow> Ctx \<Rightarrow> string \<Rightarrow> ChatCompletionResponse \<Rightarrow> Trace option \<Rightarrow>
     (ChatCompletionResponse \<Rightarrow> gw_body Writer \<Rightarrow> gw_body Writer) \<Rightarrow> gw_body Writer \<Rightarrow> ('u, 'c, 'l) GState \<Rightarrow> ('u, 'c, 'l) turn" where
  "settle_unary env h ctx model resp trace body w s =
     (case trace of
        None \<Rightarrow> Answered (body resp w) s
      | Some t \<Rightarrow>
          let cost = ResolveCostUSD (us_EstimatedCost (resp_Usage resp)) model (tr_ResponseModel t) (Some (resp_Usage resp));
              resp = stamp_cost cost resp;
              w = setCostHeader env cost w in
          (case record_trace h (t\<lparr>tr_CostUSD := cost\<rparr>) s of
             None \<Rightarrow> Panicked s
           | Some s \<Rightarrow> Answered (body resp w) (recordSpend env ctx cost s)))"

section \<open>Facts\<close>

lemma pickResponsesChain_nonempty: "pickResponsesChain h model = Some ps \<Longrightarrow> ps \<noteq> []"
  by (auto simp: pickResponsesChain_def Let_def split: if_splits)

end
