(* ===== verification/MessagesWire.thy ===== *)
theory MessagesWire
  imports Codec
begin

text \<open>
  The translation between the Anthropic Messages schema and the canonical chat schema
  (\<open>internal/gateway/messages.go\<close>): the request decoder, \<open>messagesToChat\<close> and \<open>chatToMessages\<close>.
\<close>

section \<open>Schema\<close>

record MessagesToolUse =
  mu_ID :: string
  mu_Name :: string
  mu_Input :: string

record MessagesToolResult =
  mt_ToolUseID :: string
  mt_Content :: string
  mt_IsError :: bool

record MessagesDocument =
  md_Type :: string
  md_MediaType :: string
  md_Data :: string
  md_URL :: string

record MessagesMsg =
  mm_Role :: string
  mm_Text :: string
  mm_ToolUse :: "MessagesToolUse list"
  mm_ToolResult :: "MessagesToolResult list"
  mm_Documents :: "MessagesDocument list"

record MessagesTool =
  ml_Name :: string
  ml_Description :: string
  ml_InputSchema :: string

record MessagesRequest =
  mq_Model :: string
  mq_MaxTokens :: int
  mq_System :: string
  mq_Messages :: "MessagesMsg list"
  mq_Tools :: "MessagesTool list"
  mq_ToolChoice :: string
  mq_Stream :: bool
  mq_StopSequences :: "string list"
  mq_Temperature :: "float64 option"
  mq_TopP :: "float64 option"
  mq_Metadata :: "(string, string) gomap option"
  mq_NexusEval :: "NexusEvalContext option"

record MessagesUsage =
  mg_InputTokens :: int
  mg_OutputTokens :: int

record MessagesRespBlk =
  mb_Type :: string
  mb_Text :: string
  mb_ID :: string
  mb_Name :: string
  mb_Input :: string

record MessagesResponse =
  mo_ID :: string
  mo_Type :: string
  mo_Role :: string
  mo_Blocks :: "MessagesRespBlk list"
  mo_Model :: string
  mo_StopReason :: string
  mo_StopSequence :: "string option"
  mo_Usage :: MessagesUsage

section \<open>Decoding the request\<close>

definition firstNonEmpty :: "string \<Rightarrow> string \<Rightarrow> string" where
  "firstNonEmpty a b = (if a \<noteq> [] then a else b)"

definition firstNonZero :: "int \<Rightarrow> int \<Rightarrow> int" where
  "firstNonZero a b = (if a \<noteq> 0 then a else b)"

record BlockProbe =
  bp_Type :: string
  bp_Text :: string
  bp_ID :: string
  bp_Name :: string
  bp_Input :: string
  bp_ToolUseID :: string
  bp_Content :: string
  bp_IsError :: bool
  bp_Source :: string
  bp_MediaType :: string
  bp_Data :: string
  bp_URL :: string

definition zero_BlockProbe :: BlockProbe where
  "zero_BlockProbe = \<lparr>bp_Type = [], bp_Text = [], bp_ID = [], bp_Name = [], bp_Input = [], bp_ToolUseID = [], bp_Content = [],
     bp_IsError = False, bp_Source = [], bp_MediaType = [], bp_Data = [], bp_URL = []\<rparr>"

definition BlockProbe_fields :: "(string \<times> BlockProbe setter) list" where
  "BlockProbe_fields =
     [(''type'', set_string (\<lambda>x p. p\<lparr>bp_Type := x\<rparr>)), (''text'', set_string (\<lambda>x p. p\<lparr>bp_Text := x\<rparr>)),
      (''id'', set_string (\<lambda>x p. p\<lparr>bp_ID := x\<rparr>)), (''name'', set_string (\<lambda>x p. p\<lparr>bp_Name := x\<rparr>)),
      (''input'', set_raw (\<lambda>x p. p\<lparr>bp_Input := x\<rparr>)), (''tool_use_id'', set_string (\<lambda>x p. p\<lparr>bp_ToolUseID := x\<rparr>)),
      (''content'', set_raw (\<lambda>x p. p\<lparr>bp_Content := x\<rparr>)), (''is_error'', set_bool (\<lambda>x p. p\<lparr>bp_IsError := x\<rparr>)),
      (''source'', set_raw (\<lambda>x p. p\<lparr>bp_Source := x\<rparr>)), (''media_type'', set_string (\<lambda>x p. p\<lparr>bp_MediaType := x\<rparr>)),
      (''data'', set_string (\<lambda>x p. p\<lparr>bp_Data := x\<rparr>)), (''url'', set_string (\<lambda>x p. p\<lparr>bp_URL := x\<rparr>))]"

text \<open>The decode of an image source ignores errors, so it keeps what was read before one.\<close>

definition image_source :: "string \<Rightarrow> BlockProbe" where
  "image_source raw =
     (case parse_json raw of None \<Rightarrow> zero_BlockProbe
      | Some j \<Rightarrow> fst (decode_struct (filter (\<lambda>(n, _). n \<in> {''type'', ''media_type'', ''data'', ''url''}) BlockProbe_fields) zero_BlockProbe j))"

definition add_block :: "MessagesMsg \<Rightarrow> string \<Rightarrow> MessagesMsg" where
  "add_block msg blk =
     (case Unmarshal (to_struct BlockProbe_fields zero_BlockProbe) blk of
        None \<Rightarrow> msg
      | Some probe \<Rightarrow>
          if bp_Type probe = ''text'' then msg\<lparr>mm_Text := write_part [CHR 0x0A] (mm_Text msg) (bp_Text probe)\<rparr>
          else if bp_Type probe = ''tool_use'' then
            msg\<lparr>mm_ToolUse := mm_ToolUse msg @ [\<lparr>mu_ID = bp_ID probe, mu_Name = bp_Name probe, mu_Input = bp_Input probe\<rparr>]\<rparr>
          else if bp_Type probe = ''tool_result'' then
            msg\<lparr>mm_ToolResult := mm_ToolResult msg @
              [\<lparr>mt_ToolUseID = bp_ToolUseID probe, mt_Content = bp_Content probe, mt_IsError = bp_IsError probe\<rparr>]\<rparr>
          else if bp_Type probe = ''image'' then
            (let src = image_source (bp_Source probe) in
             msg\<lparr>mm_Documents := mm_Documents msg @
               [\<lparr>md_Type = ''image'', md_MediaType = firstNonEmpty (bp_MediaType src) (bp_MediaType probe),
                 md_Data = firstNonEmpty (bp_Data src) (bp_Data probe), md_URL = firstNonEmpty (bp_URL src) (bp_URL probe)\<rparr>]\<rparr>)
          else msg)"

definition zero_MessagesMsg :: MessagesMsg where
  "zero_MessagesMsg = \<lparr>mm_Role = [], mm_Text = [], mm_ToolUse = [], mm_ToolResult = [], mm_Documents = []\<rparr>"

definition decodeMessages :: "string \<Rightarrow> MessagesMsg option" where
  "decodeMessages raw =
     (let trimmed = strings_TrimSpace raw in
      if trimmed = [] \<or> trimmed = ''null'' then Some zero_MessagesMsg
      else if hd trimmed = quote_char then map_option (\<lambda>s. zero_MessagesMsg\<lparr>mm_Text := s\<rparr>) (Unmarshal to_string raw)
      else if hd trimmed \<noteq> CHR ''['' then None
      else map_option (foldl add_block zero_MessagesMsg) (Unmarshal (to_list (\<lambda>raw _. Some raw)) raw))"

definition MessagesMsg_UnmarshalJSON :: "json \<Rightarrow> MessagesMsg option" where
  "MessagesMsg_UnmarshalJSON j =
     (case to_struct [(''role'', set_string (\<lambda>x (_, c). (x, c))), (''content'', set_raw (\<lambda>x (r, _). (r, x)))] ([], []) j of
        None \<Rightarrow> None
      | Some (role, content) \<Rightarrow>
          if content = [] then Some (zero_MessagesMsg\<lparr>mm_Role := role\<rparr>)
          else map_option (\<lambda>m. m\<lparr>mm_Role := role\<rparr>) (decodeMessages content))"

definition MessagesTool_fields :: "(string \<times> MessagesTool setter) list" where
  "MessagesTool_fields =
     [(''name'', set_string (\<lambda>x t. t\<lparr>ml_Name := x\<rparr>)), (''description'', set_string (\<lambda>x t. t\<lparr>ml_Description := x\<rparr>)),
      (''input_schema'', set_raw (\<lambda>x t. t\<lparr>ml_InputSchema := x\<rparr>))]"

definition zero_MessagesRequest :: MessagesRequest where
  "zero_MessagesRequest = \<lparr>mq_Model = [], mq_MaxTokens = 0, mq_System = [], mq_Messages = [], mq_Tools = [], mq_ToolChoice = [],
     mq_Stream = False, mq_StopSequences = [], mq_Temperature = None, mq_TopP = None, mq_Metadata = None, mq_NexusEval = None\<rparr>"

definition MessagesRequest_fields :: "(string \<times> MessagesRequest setter) list" where
  "MessagesRequest_fields =
     [(''model'', set_string (\<lambda>x r. r\<lparr>mq_Model := x\<rparr>)), (''max_tokens'', set_int (\<lambda>x r. r\<lparr>mq_MaxTokens := x\<rparr>)),
      (''system'', set_raw (\<lambda>x r. r\<lparr>mq_System := x\<rparr>)),
      (''messages'', set_list (\<lambda>_. MessagesMsg_UnmarshalJSON) (\<lambda>x r. r\<lparr>mq_Messages := x\<rparr>)),
      (''tools'', set_list (\<lambda>_. to_struct MessagesTool_fields \<lparr>ml_Name = [], ml_Description = [], ml_InputSchema = []\<rparr>) (\<lambda>x r. r\<lparr>mq_Tools := x\<rparr>)),
      (''tool_choice'', set_raw (\<lambda>x r. r\<lparr>mq_ToolChoice := x\<rparr>)), (''stream'', set_bool (\<lambda>x r. r\<lparr>mq_Stream := x\<rparr>)),
      (''stop_sequences'', set_list (\<lambda>_. to_string) (\<lambda>x r. r\<lparr>mq_StopSequences := x\<rparr>)),
      (''temperature'', set_ptr to_float (\<lambda>x r. r\<lparr>mq_Temperature := x\<rparr>)), (''top_p'', set_ptr to_float (\<lambda>x r. r\<lparr>mq_TopP := x\<rparr>)),
      (''metadata'', set_metadata (\<lambda>x r. r\<lparr>mq_Metadata := x\<rparr>)), (''nexus_eval'', set_ptr to_NexusEval (\<lambda>x r. r\<lparr>mq_NexusEval := x\<rparr>))]"

definition Unmarshal_MessagesRequest :: "string \<Rightarrow> MessagesRequest option" where
  "Unmarshal_MessagesRequest = Unmarshal (to_struct MessagesRequest_fields zero_MessagesRequest)"

section \<open>From Messages to chat\<close>

definition encodeMaxTokens :: "int \<Rightarrow> int option" where
  "encodeMaxTokens src = (if src \<le> 0 then Some 4096 else Some src)"

definition decodeSystem :: "string \<Rightarrow> string option" where
  "decodeSystem raw =
     (let trimmed = strings_TrimSpace raw in
      if trimmed = [] \<or> trimmed = ''null'' then Some []
      else if hd trimmed = quote_char then Unmarshal to_string raw
      else if hd trimmed \<noteq> CHR ''['' then None
      else map_option (foldl (\<lambda>b p. if cp_Type p = ''text'' then write_part [CHR 0x0A, CHR 0x0A] b (cp_Text p) else b) [])
        (Unmarshal (to_list (\<lambda>_. to_struct (filter (\<lambda>(n, _). n \<noteq> ''input_text'') ContentPart_fields) zero_ContentPart)) raw))"

definition encode_tool :: "MessagesTool \<Rightarrow> Tool option" where
  "encode_tool t =
     (if ml_InputSchema t \<noteq> [] \<and> ml_Name t \<noteq> [] then
        Some \<lparr>tool_Type = ''function'',
              tool_Function = Marshal_any (VMap [(''name'', VStr (ml_Name t)), (''description'', VStr (ml_Description t)),
                (''parameters'', VRaw (ml_InputSchema t))]),
              tool_Custom = []\<rparr>
      else (case probe_tool [''type'', ''function''] (ml_Name t) of
              Some nested \<Rightarrow>
                if tp_Type nested \<noteq> [] then Some \<lparr>tool_Type = tp_Type nested, tool_Function = tp_Function nested, tool_Custom = []\<rparr>
                else None
            | None \<Rightarrow> None))"

text \<open>The first tool that cannot be encoded ends the loop with an error.\<close>

definition encodeTools :: "MessagesTool list \<Rightarrow> Tool list option" where
  "encodeTools tools = those (map encode_tool tools)"

definition encodeToolChoice :: "string \<Rightarrow> string" where
  "encodeToolChoice raw =
     (let trimmed = strings_TrimSpace raw; q = (\<lambda>s. quote_char # s @ [quote_char]) in
      if raw = [] \<or> trimmed = [] \<or> trimmed = ''null'' then []
      else if hd trimmed = quote_char then
        (case Unmarshal to_string raw of
           None \<Rightarrow> raw
         | Some s \<Rightarrow>
             if s = ''auto'' then q ''auto'' else if s = ''any'' then q ''required'' else if s = ''none'' then q ''none'' else raw)
      else if hd trimmed \<noteq> CHR ''{'' then raw
      else (case probe_tool [''type'', ''name''] raw of
              None \<Rightarrow> raw
            | Some obj \<Rightarrow>
                if tp_Type obj = ''auto'' then q ''auto'' else if tp_Type obj = ''any'' then q ''required''
                else if tp_Type obj = ''tool'' then
                  (if tp_Name obj = [] then raw
                   else Marshal_any (VMap [(''type'', VStr ''function''), (''function'', VMap [(''name'', VStr (tp_Name obj))])]))
                else if tp_Type obj = ''none'' then q ''none'' else raw))"

definition encodeImageSource :: "MessagesDocument \<Rightarrow> string" where
  "encodeImageSource doc =
     (if md_Type doc = ''image'' then
        (if md_URL doc \<noteq> [] then md_URL doc
         else if md_Data doc \<noteq> [] then
           ''data:'' @ (if md_MediaType doc = [] then ''image/png'' else md_MediaType doc) @ '';base64,'' @ md_Data doc
         else [])
      else [])"

definition userFromMetadata :: "(string, string) gomap option \<Rightarrow> string" where
  "userFromMetadata meta = (case meta of None \<Rightarrow> [] | Some m \<Rightarrow> (case gomap_get m ''user_id'' of Some v \<Rightarrow> v | None \<Rightarrow> []))"

definition stringOr :: "string \<Rightarrow> string \<Rightarrow> string" where
  "stringOr raw fallback =
     (let trimmed = strings_TrimSpace raw in
      if trimmed = [] \<or> trimmed = ''null'' then fallback
      else (case (if hd trimmed = quote_char then Unmarshal to_string raw else None) of Some s \<Rightarrow> s | None \<Rightarrow> raw))"

text \<open>One round of the loop over the messages.\<close>

definition chat_messages :: "MessagesMsg \<Rightarrow> Message list" where
  "chat_messages m =
     (let txt = strings_TrimSpace (mm_Text m) in if txt \<noteq> [] then [plain_message (mm_Role m) txt] else []) @
     map (\<lambda>tu. (plain_message ''assistant'' [])\<lparr>msg_ToolCalls :=
            [zero_ToolCall\<lparr>tc_Type := ''function'', tc_ID := mu_ID tu,
               tc_Function := \<lparr>fc_Name = mu_Name tu, fc_Arguments = stringOr (mu_Input tu) ''{}''\<rparr>\<rparr>]\<rparr>) (mm_ToolUse m) @
     map (\<lambda>tr. (plain_message ''tool'' (stringOr (mt_Content tr) []))\<lparr>msg_ToolCallID := mt_ToolUseID tr\<rparr>) (mm_ToolResult m) @
     map (\<lambda>d. plain_message (mm_Role m) (encodeImageSource d)) (filter (\<lambda>d. encodeImageSource d \<noteq> []) (mm_Documents m))"

text \<open>The error result of the Go function is always nil.\<close>

definition messagesToChat :: "MessagesRequest \<Rightarrow> ChatCompletionRequest" where
  "messagesToChat req = zero_ChatCompletionRequest
     \<lparr>req_Model := mq_Model req, req_Temperature := mq_Temperature req, req_TopP := mq_TopP req,
      req_MaxTokens := encodeMaxTokens (mq_MaxTokens req), req_Stream := mq_Stream req, req_Stop := mq_StopSequences req,
      req_User := userFromMetadata (mq_Metadata req), req_NexusEval := mq_NexusEval req, req_ParallelToolCalls := Some False,
      req_Tools := (case encodeTools (mq_Tools req) of Some ts \<Rightarrow> ts | None \<Rightarrow> []),
      req_ToolChoice := (if mq_ToolChoice req \<noteq> [] then encodeToolChoice (mq_ToolChoice req) else []),
      req_Messages :=
        (case decodeSystem (mq_System req) of
           Some sys \<Rightarrow> if sys \<noteq> [] then [plain_message ''system'' sys] else []
         | None \<Rightarrow> []) @
        concat (map chat_messages (mq_Messages req))\<rparr>"

section \<open>From chat to Messages\<close>

definition mapCanonicalStopToAnthropic :: "string \<Rightarrow> string" where
  "mapCanonicalStopToAnthropic reason =
     (if reason = ''stop'' then ''end_turn'' else if reason = ''length'' then ''max_tokens''
      else if reason = ''tool_calls'' then ''tool_use'' else if reason = ''content_filter'' then ''stop_sequence''
      else reason)"

text \<open>\<open>uuid\<close> is the fresh identifier that is drawn.\<close>

definition chatToMessages :: "string \<Rightarrow> ChatCompletionResponse \<Rightarrow> MessagesRequest \<Rightarrow> MessagesResponse" where
  "chatToMessages uuid c req =
     (let out = \<lparr>mo_ID = firstNonEmpty (resp_ID c) (''msg_'' @ uuid), mo_Type = ''message'', mo_Role = ''assistant'', mo_Blocks = [],
            mo_Model = firstNonEmpty (resp_Model c) (mq_Model req), mo_StopReason = ''end_turn'', mo_StopSequence = None,
            mo_Usage = \<lparr>mg_InputTokens = us_PromptTokens (resp_Usage c), mg_OutputTokens = us_CompletionTokens (resp_Usage c)\<rparr>\<rparr> in
      case resp_Choices c of
        [] \<Rightarrow> out
      | ch # _ \<Rightarrow>
          let txt = strings_TrimSpace (msg_Content (ch_Message ch));
              stop = mapCanonicalStopToAnthropic (ch_FinishReason ch) in
          out\<lparr>mo_Blocks :=
                map (\<lambda>tc. \<lparr>mb_Type = ''tool_use'', mb_Text = [], mb_ID = tc_ID tc, mb_Name = fc_Name (tc_Function tc),
                       mb_Input = fc_Arguments (tc_Function tc)\<rparr>) (msg_ToolCalls (ch_Message ch)) @
                (if txt \<noteq> [] then [\<lparr>mb_Type = ''text'', mb_Text = txt, mb_ID = [], mb_Name = [], mb_Input = []\<rparr>] else []),
              mo_StopReason := (if stop \<noteq> [] then stop else ''end_turn'')\<rparr>)"

text \<open>The response as \<open>Marshal\<close> sees it. A nil slice is \<open>null\<close>.\<close>

definition MessagesRespBlk_value :: "MessagesRespBlk \<Rightarrow> goval" where
  "MessagesRespBlk_value b = VObj ([(''type'', VStr (mb_Type b))] @
     (if mb_Text b = [] then [] else [(''text'', VStr (mb_Text b))]) @
     (if mb_ID b = [] then [] else [(''id'', VStr (mb_ID b))]) @
     (if mb_Name b = [] then [] else [(''name'', VStr (mb_Name b))]) @
     (if mb_Input b = [] then [] else [(''input'', VRaw (mb_Input b))]))"

definition MessagesResponse_value :: "MessagesResponse \<Rightarrow> goval" where
  "MessagesResponse_value r = VObj ([(''id'', VStr (mo_ID r)), (''type'', VStr (mo_Type r)), (''role'', VStr (mo_Role r)),
     (''content'', if mo_Blocks r = [] then VNull else VList (map MessagesRespBlk_value (mo_Blocks r))),
     (''model'', VStr (mo_Model r)), (''stop_reason'', VStr (mo_StopReason r))] @
     (case mo_StopSequence r of None \<Rightarrow> [] | Some x \<Rightarrow> [(''stop_sequence'', VStr x)]) @
     [(''usage'', VObj [(''input_tokens'', VInt (mg_InputTokens (mo_Usage r))), (''output_tokens'', VInt (mg_OutputTokens (mo_Usage r)))])])"

section \<open>Facts\<close>

lemma messagesToChat_sel [simp]:
  "req_Model (messagesToChat req) = mq_Model req" "req_Stream (messagesToChat req) = mq_Stream req"
  by (simp_all add: messagesToChat_def)

end
