(* ===== verification/MessagesApi.thy ===== *)
theory MessagesApi
  imports Surfaces MessagesWire
begin

text \<open>
  The handler of \<open>POST /v1/messages\<close> (\<open>internal/gateway/messages.go\<close>): the unary path and the stream of
  Anthropic events. An event is a value of \<open>msg_event\<close>; \<open>msg_payload\<close> gives its name and data. The
  theorems say when the stream is well formed and when it is not, and what this path does not do:
  failover, guardrails, the allow-list of models, and the charge of streams.
\<close>

section \<open>Events\<close>

datatype msg_event =
    MessageStart string string
  | TextStart int
  | ToolStart int string string
  | TextDelta int string
  | InputDelta int string
  | BlockStop int
  | StreamError string
  | MessageDelta string MessagesUsage
  | MessageStop

fun msg_payload :: "msg_event \<Rightarrow> string \<times> goval" where
  "msg_payload (MessageStart mid model) = (''message_start'', VMap [(''type'', VStr ''message_start''), (''message'', VMap
     [(''id'', VStr mid), (''type'', VStr ''message''), (''role'', VStr ''assistant''), (''content'', VList []), (''model'', VStr model),
      (''stop_reason'', VNull), (''stop_sequence'', VNull),
      (''usage'', VMap [(''input_tokens'', VInt 0), (''output_tokens'', VInt 0)])])])"
| "msg_payload (TextStart i) = (''content_block_start'', VMap [(''type'', VStr ''content_block_start''), (''index'', VInt i),
     (''content_block'', VMap [(''type'', VStr ''text''), (''text'', VStr [])])])"
| "msg_payload (ToolStart i bid name) = (''content_block_start'', VMap [(''type'', VStr ''content_block_start''), (''index'', VInt i),
     (''content_block'', VMap [(''type'', VStr ''tool_use''), (''id'', VStr bid), (''name'', VStr name), (''input'', VMap [])])])"
| "msg_payload (TextDelta i t) = (''content_block_delta'', VMap [(''type'', VStr ''content_block_delta''), (''index'', VInt i),
     (''delta'', VMap [(''type'', VStr ''text_delta''), (''text'', VStr t)])])"
| "msg_payload (InputDelta i t) = (''content_block_delta'', VMap [(''type'', VStr ''content_block_delta''), (''index'', VInt i),
     (''delta'', VMap [(''type'', VStr ''input_json_delta''), (''partial_json'', VStr t)])])"
| "msg_payload (BlockStop i) = (''content_block_stop'', VMap [(''type'', VStr ''content_block_stop''), (''index'', VInt i)])"
| "msg_payload (StreamError e) = (''error'', VMap [(''type'', VStr ''stream_error''), (''message'', VStr e)])"
| "msg_payload (MessageDelta stop u) = (''message_delta'', VMap [(''type'', VStr ''message_delta''),
     (''delta'', VMap [(''stop_reason'', VStr stop), (''stop_sequence'', VNull)]),
     (''usage'', VMap [(''input_tokens'', VInt (mg_InputTokens u)), (''output_tokens'', VInt (mg_OutputTokens u))])])"
| "msg_payload MessageStop = (''message_stop'', VMap [(''type'', VStr ''message_stop'')])"

section \<open>Assembling blocks\<close>

record MsgTool =
  mtl_idx :: int
  mtl_blockID :: string
  mtl_name :: string
  mtl_inputBuf :: string
  mtl_opened :: bool
  mtl_stoppedSent :: bool

text \<open>The local \<open>state\<close>, with the events emitted so far. The trace of the stream is left out: it is filled
  in but never recorded.\<close>

record MsgState =
  mst_textOpened :: bool
  mst_textIdx :: int
  mst_textBuf :: string
  mst_tools :: "(int, MsgTool) gomap"
  mst_order :: "int list"
  mst_usage :: MessagesUsage
  mst_hasUsage :: bool
  mst_finishReason :: string
  mst_streamErrSeen :: bool
  mst_events :: "msg_event list"

definition msg_init :: "msg_event list \<Rightarrow> MsgState" where
  "msg_init evs = \<lparr>mst_textOpened = False, mst_textIdx = 0, mst_textBuf = [], mst_tools = [], mst_order = [],
     mst_usage = \<lparr>mg_InputTokens = 0, mg_OutputTokens = 0\<rparr>, mst_hasUsage = False, mst_finishReason = [], mst_streamErrSeen = False,
     mst_events = evs\<rparr>"

definition emit :: "msg_event \<Rightarrow> MsgState \<Rightarrow> MsgState" where
  "emit e st = st\<lparr>mst_events := mst_events st @ [e]\<rparr>"

definition text_delta :: "string \<Rightarrow> MsgState \<Rightarrow> MsgState" where
  "text_delta content st =
     (if content = [] then st
      else
        let st = (if \<not> mst_textOpened st then emit (TextStart 0) (st\<lparr>mst_textOpened := True, mst_textIdx := 0\<rparr>) else st);
            st = st\<lparr>mst_textBuf := mst_textBuf st @ content\<rparr>
        in emit (TextDelta (mst_textIdx st) content) st)"

text \<open>A fragment of a tool call opens a block if it is the first of its call, or brings the name late.\<close>

definition open_tool :: "Api \<Rightarrow> int \<Rightarrow> int \<Rightarrow> string \<Rightarrow> MsgState \<Rightarrow> MsgState" where
  "open_tool ap idx blockIdx fnName st =
     (case gomap_get (mst_tools st) idx of
        None \<Rightarrow>
          let blockID = ''toolu_'' @ ap_uuid ap (length (mst_order st) + 1);
              p = \<lparr>mtl_idx = blockIdx, mtl_blockID = blockID, mtl_name = fnName, mtl_inputBuf = [], mtl_opened = True, mtl_stoppedSent = False\<rparr>
          in emit (ToolStart blockIdx blockID fnName) (st\<lparr>mst_tools := gomap_set idx p (mst_tools st), mst_order := mst_order st @ [idx]\<rparr>)
      | Some p \<Rightarrow>
          if fnName \<noteq> [] \<and> mtl_name p = [] then st\<lparr>mst_tools := gomap_set idx (p\<lparr>mtl_name := fnName\<rparr>) (mst_tools st)\<rparr> else st)"

definition buffer_input :: "int \<Rightarrow> string \<Rightarrow> MsgState \<Rightarrow> MsgState" where
  "buffer_input idx args st =
     (case gomap_get (mst_tools st) idx of None \<Rightarrow> st
      | Some p \<Rightarrow> st\<lparr>mst_tools := gomap_set idx (p\<lparr>mtl_inputBuf := mtl_inputBuf p @ args\<rparr>) (mst_tools st)\<rparr>)"

definition tool_delta :: "Api \<Rightarrow> ToolCall \<Rightarrow> MsgState \<Rightarrow> MsgState" where
  "tool_delta ap tc st =
     (let idx = or_zero 0 (tc_Index tc);
          blockIdx = (if mst_textOpened st then idx + 1 else idx);
          args = fc_Arguments (tc_Function tc);
          st = open_tool ap idx blockIdx (fc_Name (tc_Function tc)) st
      in if args = [] then st else emit (InputDelta blockIdx args) (buffer_input idx args st))"

definition choice_delta :: "Api \<Rightarrow> ChunkChoice \<Rightarrow> MsgState \<Rightarrow> MsgState" where
  "choice_delta ap dc st =
     (let st = fold (tool_delta ap) (dl_ToolCalls (ck_Delta dc)) (text_delta (dl_Content (ck_Delta dc)) st)
      in if ck_FinishReason dc \<noteq> [] then st\<lparr>mst_finishReason := mapCanonicalStopToAnthropic (ck_FinishReason dc)\<rparr> else st)"

definition chunk_delta :: "Api \<Rightarrow> ChatCompletionChunk \<Rightarrow> MsgState \<Rightarrow> MsgState" where
  "chunk_delta ap ch st =
     fold (choice_delta ap) (chunk_Choices ch)
       (case chunk_Usage ch of None \<Rightarrow> st
        | Some u \<Rightarrow> st\<lparr>mst_usage := \<lparr>mg_InputTokens = us_PromptTokens u, mg_OutputTokens = us_CompletionTokens u\<rparr>, mst_hasUsage := True\<rparr>)"

text \<open>The loop over the events of the provider.\<close>

fun msg_relay :: "Api \<Rightarrow> StreamEvent list \<Rightarrow> MsgState \<Rightarrow> MsgState" where
  "msg_relay ap [] st = st"
| "msg_relay ap (evt # evs) st =
     (case sev_Err evt of
        Some err \<Rightarrow> emit (StreamError err) (st\<lparr>mst_streamErrSeen := True\<rparr>)
      | None \<Rightarrow>
          if sev_Done evt then st
          else (case sev_Chunk evt of None \<Rightarrow> st | Some ch \<Rightarrow> msg_relay ap evs (chunk_delta ap ch st)))"

text \<open>Closing the open blocks and the message. \<open>stoppedSent\<close> is set here only and every index is in
  \<open>order\<close> once, so the check of the flag never skips.\<close>

definition msg_close :: "MsgState \<Rightarrow> msg_event list" where
  "msg_close st =
     (if mst_textOpened st then [BlockStop (mst_textIdx st)] else []) @
     List.map_filter (\<lambda>idx. case gomap_get (mst_tools st) idx of None \<Rightarrow> None
        | Some p \<Rightarrow> if mtl_stoppedSent p then None else Some (BlockStop (mtl_idx p))) (mst_order st) @
     [MessageDelta (if mst_streamErrSeen st \<and> mst_finishReason st = [] then ''error'' else mst_finishReason st) (mst_usage st), MessageStop]"

section \<open>The handler\<close>

text \<open>The loop over the providers: the first that connects is relayed. A provider that does not leaves a
  trace; \<open>None\<close> is the panic of a nil recorder.\<close>

fun msg_open ::
  "('u, 'c, 'l, 're, 'doc, 'schema) Env \<Rightarrow> Api \<Rightarrow> 're Handler \<Rightarrow> Ctx \<Rightarrow> ChatCompletionRequest \<Rightarrow> nat \<Rightarrow> nat \<Rightarrow> providerRef list \<Rightarrow> MsgState \<Rightarrow>
     ('u, 'c, 'l) GState \<Rightarrow> MsgState option \<times> ('u, 'c, 'l) GState" where
  "msg_open env ap h ctx req np i [] st s = (Some st, s)"
| "msg_open env ap h ctx req np i (p # ps) st s =
     (let name = pv_Name (pr_Provider p) in
      case stream_credential env h ctx [] name s of
        (callCtx, credSource, s) \<Rightarrow>
          let t = (newTrace env h ctx req name i)\<lparr>tr_RequestModel := req_Model req, tr_Streamed := True, tr_CredentialSource := credSource\<rparr> in
          (case call_stream env (pr_Provider p) callCtx (req\<lparr>req_Model := pr_ForwardModel p\<rparr>) s of
             (Inl err, s) \<Rightarrow>
               (case record_trace h (t\<lparr>tr_LatencyMs := ev_latency env i, tr_StatusCode := 502,
                        tr_ErrorType := (if np > 1 then ''upstream_error_failover'' else ''upstream_error''), tr_ErrorMsg := err\<rparr>) s of
                  None \<Rightarrow> (None, s)
                | Some s \<Rightarrow> msg_open env ap h ctx req np (i + 1) ps st s)
           | (Inr events, s) \<Rightarrow> (Some (msg_relay ap events st), s)))"

definition write_events :: "Api \<Rightarrow> msg_event list \<Rightarrow> gw_body Writer \<Rightarrow> gw_body Writer" where
  "write_events ap evs w = fold (\<lambda>e. write_event (ap_float ap) (msg_payload e)) evs w"

definition handleMessagesStream ::
  "('u, 'c, 'l, 're, 'doc, 'schema) Env \<Rightarrow> Api \<Rightarrow> 're Handler \<Rightarrow> Ctx \<Rightarrow> ChatCompletionRequest \<Rightarrow> gw_body Writer \<Rightarrow>
     ('u, 'c, 'l) GState \<Rightarrow> ('u, 'c, 'l) turn" where
  "handleMessagesStream env ap h ctx chatReq w s =
     (case pickResponsesChain h (req_Model chatReq) of
        None \<Rightarrow> Answered (writeError ctx 502 ''upstream_error'' (''no provider for model '' @ req_Model chatReq) w) s
      | Some providers \<Rightarrow>
          if \<not> ap_flusher ap then Answered (writeError ctx 500 ''internal_error'' ''streaming unsupported'' w) s
          else
            let st = msg_init [MessageStart (''msg_'' @ ap_uuid ap 0) (req_Model chatReq)] in
            (case msg_open env ap h ctx chatReq (length providers) 0 providers st s of
               (None, s) \<Rightarrow> Panicked s
             | (Some st, s) \<Rightarrow> Answered (write_events ap (mst_events st @ msg_close st) (stream_head w)) s))"

definition Messages ::
  "('u, 'c, 'l, 're, 'doc, 'schema) Env \<Rightarrow> Api \<Rightarrow> 're Handler \<Rightarrow> Ctx \<Rightarrow> string + string \<Rightarrow> gw_body Writer \<Rightarrow>
     ('u, 'c, 'l) GState \<Rightarrow> ('u, 'c, 'l) turn" where
  "Messages env ap h ctx body w s =
     (case body of
        Inl err \<Rightarrow> Answered (writeError ctx 400 ''invalid_request_error'' (''cannot read body: '' @ err) w) s
      | Inr rawBody \<Rightarrow>
          (case Unmarshal_MessagesRequest rawBody of
             None \<Rightarrow> Answered (writeError ctx 400 ''invalid_request_error'' (''invalid JSON body: '' @ ap_jsonErr ap rawBody) w) s
           | Some req \<Rightarrow>
               if mq_Model req = [] then Answered (writeError ctx 400 ''invalid_request_error'' ''model is required'' w) s
               else if length (mq_Messages req) = 0
               then Answered (writeError ctx 400 ''invalid_request_error'' ''messages is required and must contain at least one entry'' w) s
               else
                 let ctx = session_ctx rawBody ctx;
                     chatReq = messagesToChat req in
                 if mq_Stream req then handleMessagesStream env ap h ctx chatReq w s
                 else (case executeMessagesUnary env ap h ctx chatReq s of
                         (None, _, s) \<Rightarrow> Answered (writeError ctx 502 ''upstream_error'' ''all candidate providers failed'' w) s
                       | (Some resp, trace, s) \<Rightarrow>
                           settle_unary env h ctx (req_Model chatReq) resp trace
                             (\<lambda>resp. write_value (ap_float ap) 200 (MessagesResponse_value (chatToMessages (ap_uuid ap 0) resp req))) w s)))"

section \<open>Well-formed streams\<close>

text \<open>What an Anthropic client accepts: a block is opened once and under an index not used before, a delta
  goes to an open block of its kind, a block is closed once, and the message ends with no block open.\<close>

fun block_step :: "msg_event \<Rightarrow> (int \<times> bool) list \<times> int list \<Rightarrow> ((int \<times> bool) list \<times> int list) option" where
  "block_step (TextStart i) (opn, seen) = (if i \<in> set seen then None else Some ((i, True) # opn, i # seen))"
| "block_step (ToolStart i _ _) (opn, seen) = (if i \<in> set seen then None else Some ((i, False) # opn, i # seen))"
| "block_step (TextDelta i _) (opn, seen) = (if (i, True) \<in> set opn then Some (opn, seen) else None)"
| "block_step (InputDelta i _) (opn, seen) = (if (i, False) \<in> set opn then Some (opn, seen) else None)"
| "block_step (BlockStop i) (opn, seen) = (if i \<in> fst ` set opn then Some (filter (\<lambda>b. fst b \<noteq> i) opn, seen) else None)"
| "block_step (StreamError _) os = Some os"
| "block_step _ os = None"

fun wf_blocks :: "(int \<times> bool) list \<times> int list \<Rightarrow> msg_event list \<Rightarrow> bool" where
  "wf_blocks os [] = False"
| "wf_blocks os (MessageDelta _ _ # evs) = (fst os = [] \<and> evs = [MessageStop])"
| "wf_blocks os (e # evs) = (case block_step e os of None \<Rightarrow> False | Some os \<Rightarrow> wf_blocks os evs)"

fun wf_message_stream :: "msg_event list \<Rightarrow> bool" where
  "wf_message_stream (MessageStart _ _ # evs) = wf_blocks ([], []) evs"
| "wf_message_stream _ = False"

text \<open>The deltas of a stream: \<open>None\<close> is text, \<open>Some i\<close> a fragment of tool call \<open>i\<close>.\<close>

definition choice_deltas :: "ChunkChoice \<Rightarrow> int option list" where
  "choice_deltas dc = (if dl_Content (ck_Delta dc) = [] then [] else [None]) @
     map (\<lambda>tc. Some (or_zero 0 (tc_Index tc))) (dl_ToolCalls (ck_Delta dc))"

fun stream_deltas :: "StreamEvent list \<Rightarrow> int option list" where
  "stream_deltas [] = []"
| "stream_deltas (evt # evs) =
     (if sev_Err evt \<noteq> None \<or> sev_Done evt then []
      else (case sev_Chunk evt of None \<Rightarrow> [] | Some ch \<Rightarrow> concat (map choice_deltas (chunk_Choices ch)) @ stream_deltas evs))"

text \<open>Text comes before the tool calls or not at all, and indices are not negative.\<close>

definition text_first :: "int option list \<Rightarrow> bool" where
  "text_first ds = ((None \<notin> set ds \<or> ds \<noteq> [] \<and> hd ds = None) \<and> (\<forall>i. Some i \<in> set ds \<longrightarrow> 0 \<le> i))"

fun block_run :: "msg_event list \<Rightarrow> (int \<times> bool) list \<times> int list \<Rightarrow> ((int \<times> bool) list \<times> int list) option" where
  "block_run [] os = Some os"
| "block_run (e # evs) os = Option.bind (block_step e os) (block_run evs)"

lemma block_run_append: "block_run (xs @ ys) os = Option.bind (block_run xs os) (block_run ys)"
proof (induction xs arbitrary: os)
  case (Cons e xs)
  then show ?case by (cases "block_step e os") simp_all
qed simp

lemma wf_blocks_run: "block_run xs os = Some os' \<Longrightarrow> wf_blocks os' ys \<Longrightarrow> wf_blocks os (xs @ ys)"
proof (induction xs arbitrary: os)
  case (Cons e xs)
  then obtain os1 where "block_step e os = Some os1" "block_run xs os1 = Some os'" by (auto simp: bind_eq_Some_conv)
  with Cons show ?case by (cases e) auto
qed simp

text \<open>The state of the assembly and the blocks it has opened agree.\<close>

definition tool_offset :: "MsgState \<Rightarrow> int" where
  "tool_offset st = (if mst_textOpened st then 1 else 0)"

definition open_blocks :: "MsgState \<Rightarrow> (int \<times> bool) set" where
  "open_blocks st = (if mst_textOpened st then {(0, True)} else {}) \<union> (\<lambda>i. (i + tool_offset st, False)) ` set (mst_order st)"

definition tools_ok :: "MsgState \<Rightarrow> bool" where
  "tools_ok st = (mst_textIdx st = 0 \<and> distinct (mst_order st) \<and> (\<forall>i \<in> set (mst_order st). 0 \<le> i) \<and>
     dom (map_of (mst_tools st)) = set (mst_order st) \<and>
     (\<forall>i p. gomap_get (mst_tools st) i = Some p \<longrightarrow> mtl_idx p = i + tool_offset st \<and> \<not> mtl_stoppedSent p))"

lemma tools_ok_frame:
  "mst_textIdx st' = mst_textIdx st \<Longrightarrow> mst_order st' = mst_order st \<Longrightarrow> mst_tools st' = mst_tools st \<Longrightarrow>
   mst_textOpened st' = mst_textOpened st \<Longrightarrow> tools_ok st' = tools_ok st"
  by (simp add: tools_ok_def tool_offset_def)

definition blocks_ok :: "MsgState \<Rightarrow> bool" where
  "blocks_ok st = (\<exists>x y evs opn seen. mst_events st = MessageStart x y # evs \<and> block_run evs ([], []) = Some (opn, seen) \<and>
     distinct (map fst opn) \<and> set seen = fst ` set opn \<and> set opn = open_blocks st)"

definition ok_from :: "MsgState \<Rightarrow> int option list \<Rightarrow> bool" where
  "ok_from st ds = ((mst_textOpened st \<or> None \<notin> set ds \<or> mst_order st = [] \<and> ds \<noteq> [] \<and> hd ds = None) \<and> (\<forall>i. Some i \<in> set ds \<longrightarrow> 0 \<le> i))"

lemma blocks_ok_emit:
  assumes "blocks_ok st" "open_blocks st' = open_blocks st" "mst_events st' = mst_events st"
    and "\<And>opn seen. set opn = open_blocks st \<Longrightarrow> block_step e (opn, seen) = Some (opn, seen)"
  shows "blocks_ok (emit e st')"
proof -
  obtain x y evs opn seen where *: "mst_events st = MessageStart x y # evs" "block_run evs ([], []) = Some (opn, seen)"
    "distinct (map fst opn)" "set seen = fst ` set opn" "set opn = open_blocks st"
    using assms(1) by (auto simp: blocks_ok_def)
  have open': "open_blocks (emit e st') = open_blocks st" using assms(2) by (simp add: open_blocks_def emit_def tool_offset_def)
  have run: "block_run (evs @ [e]) ([], []) = Some (opn, seen)" using *(2) assms(4) [OF *(5)] by (simp add: block_run_append)
  show ?thesis
    unfolding blocks_ok_def
    by (intro exI [of _ x] exI [of _ y] exI [of _ "evs @ [e]"] exI [of _ opn] exI [of _ seen] conjI)
       (use * open' run assms(3) in \<open>simp_all add: emit_def\<close>)
qed

lemma blocks_ok_start:
  assumes "blocks_ok st" "mst_events st' = mst_events st" "open_blocks st' = insert (i, k) (open_blocks st)" "i \<notin> fst ` open_blocks st"
    and "\<And>opn seen. i \<notin> set seen \<Longrightarrow> block_step e (opn, seen) = Some ((i, k) # opn, i # seen)"
  shows "blocks_ok (emit e st')"
proof -
  obtain x y evs opn seen where *: "mst_events st = MessageStart x y # evs" "block_run evs ([], []) = Some (opn, seen)"
    "distinct (map fst opn)" "set seen = fst ` set opn" "set opn = open_blocks st"
    using assms(1) by (auto simp: blocks_ok_def)
  have "i \<notin> set seen" "i \<notin> fst ` set opn" using * assms(4) by auto
  moreover have open': "open_blocks (emit e st') = insert (i, k) (open_blocks st)" using assms(3) by (simp add: open_blocks_def emit_def tool_offset_def)
  moreover have run: "block_run (evs @ [e]) ([], []) = Some ((i, k) # opn, i # seen)"
    using *(2) assms(5) [OF \<open>i \<notin> set seen\<close>] by (simp add: block_run_append)
  ultimately show ?thesis
    unfolding blocks_ok_def
    by (intro exI [of _ x] exI [of _ y] exI [of _ "evs @ [e]"] exI [of _ "(i, k) # opn"] exI [of _ "i # seen"] conjI)
       (use * assms(2) in \<open>simp_all add: emit_def\<close>)
qed

lemma text_delta_ok:
  assumes "blocks_ok st" "tools_ok st" "ok_from st ((if c = [] then [] else [None]) @ ds)"
  shows "blocks_ok (text_delta c st) \<and> tools_ok (text_delta c st) \<and> ok_from (text_delta c st) ds"
proof (cases "c = []")
  case False
  show ?thesis
  proof (cases "mst_textOpened st")
    case True
    have "text_delta c st = emit (TextDelta 0 c) (st\<lparr>mst_textBuf := mst_textBuf st @ c\<rparr>)"
      using True False assms(2) by (simp add: text_delta_def Let_def tools_ok_def)
    moreover have "blocks_ok (emit (TextDelta 0 c) (st\<lparr>mst_textBuf := mst_textBuf st @ c\<rparr>))"
      by (rule blocks_ok_emit [OF assms(1)]) (use True in \<open>simp_all add: open_blocks_def tool_offset_def\<close>)
    moreover have "tools_ok (emit (TextDelta 0 c) (st\<lparr>mst_textBuf := mst_textBuf st @ c\<rparr>)) = tools_ok st"
      by (rule tools_ok_frame) (simp_all add: emit_def)
    ultimately show ?thesis
      using assms True by (simp add: ok_from_def emit_def)
  next
    case closed: False
    then have order: "mst_order st = []" using assms(3) False by (simp add: ok_from_def)
    let ?st = "st\<lparr>mst_textOpened := True, mst_textIdx := 0\<rparr>"
    have "blocks_ok (emit (TextStart 0) ?st)"
      by (rule blocks_ok_start [OF assms(1), where i = 0 and k = True]) (use closed order in \<open>simp_all add: open_blocks_def\<close>)
    then have "blocks_ok (emit (TextDelta 0 c) ((emit (TextStart 0) ?st)\<lparr>mst_textBuf := mst_textBuf st @ c\<rparr>))"
      by (rule blocks_ok_emit) (simp_all add: open_blocks_def tool_offset_def emit_def)
    moreover have "text_delta c st = emit (TextDelta 0 c) ((emit (TextStart 0) ?st)\<lparr>mst_textBuf := mst_textBuf st @ c\<rparr>)"
      using False closed by (simp add: text_delta_def Let_def emit_def)
    ultimately show ?thesis
      using assms order by (simp add: tools_ok_def ok_from_def emit_def)
  qed
qed (use assms in \<open>simp add: text_delta_def\<close>)

lemma open_tool_ok:
  assumes "blocks_ok st" "tools_ok st" "0 \<le> idx"
  shows "blocks_ok (open_tool ap idx (idx + tool_offset st) fnName st) \<and> tools_ok (open_tool ap idx (idx + tool_offset st) fnName st) \<and> idx \<in> set (mst_order (open_tool ap idx (idx + tool_offset st) fnName st))
    \<and> mst_textOpened (open_tool ap idx (idx + tool_offset st) fnName st) = mst_textOpened st"
proof (cases "gomap_get (mst_tools st) idx")
  case None
  let ?p = "\<lparr>mtl_idx = idx + tool_offset st, mtl_blockID = ''toolu_'' @ ap_uuid ap (length (mst_order st) + 1), mtl_name = fnName,
    mtl_inputBuf = [], mtl_opened = True, mtl_stoppedSent = False\<rparr>"
  let ?st = "st\<lparr>mst_tools := gomap_set idx ?p (mst_tools st), mst_order := mst_order st @ [idx]\<rparr>"
  have new: "idx \<notin> set (mst_order st)" using assms(2) None by (auto simp: tools_ok_def)
  have "idx + tool_offset st \<notin> fst ` open_blocks st"
    using new assms(2,3) by (auto simp: open_blocks_def tool_offset_def tools_ok_def)
  then have "blocks_ok (emit (ToolStart (idx + tool_offset st) (mtl_blockID ?p) fnName) ?st)"
    by (intro blocks_ok_start [OF assms(1), where i = "idx + tool_offset st" and k = False])
       (simp_all add: open_blocks_def tool_offset_def insert_commute)
  moreover have "tools_ok ?st"
    using assms(2,3) new by (simp add: tools_ok_def tool_offset_def dom_gomap_set gomap_set_get)
  ultimately show ?thesis
    using None by (simp add: open_tool_def Let_def tools_ok_def emit_def tool_offset_def)
next
  case (Some p)
  then have idx: "idx \<in> set (mst_order st)" using assms(2) by (auto simp: tools_ok_def)
  moreover have "blocks_ok (st\<lparr>mst_tools := ts\<rparr>)" for ts
    using assms(1) by (simp add: blocks_ok_def open_blocks_def tool_offset_def)
  moreover have "tools_ok (st\<lparr>mst_tools := gomap_set idx (p\<lparr>mtl_name := fnName\<rparr>) (mst_tools st)\<rparr>)"
    using assms(2) Some idx by (simp add: tools_ok_def tool_offset_def dom_gomap_set gomap_set_get insert_absorb)
  ultimately show ?thesis
    using assms(1,2) Some by (simp add: open_tool_def Let_def)
qed

lemma tool_delta_ok:
  assumes "blocks_ok st" "tools_ok st" "ok_from st (Some (or_zero 0 (tc_Index tc)) # ds)"
  shows "blocks_ok (tool_delta ap tc st) \<and> tools_ok (tool_delta ap tc st) \<and> ok_from (tool_delta ap tc st) ds"
proof -
  let ?idx = "or_zero 0 (tc_Index tc)" and ?args = "fc_Arguments (tc_Function tc)"
  define st1 where "st1 = open_tool ap ?idx (?idx + tool_offset st) (fc_Name (tc_Function tc)) st"
  define st2 where "st2 = buffer_input ?idx ?args st1"
  have st1: "blocks_ok st1" "tools_ok st1" "?idx \<in> set (mst_order st1)" "mst_textOpened st1 = mst_textOpened st"
    using open_tool_ok [OF assms(1,2)] assms(3) unfolding st1_def by (simp_all add: ok_from_def)
  have from1: "ok_from st1 ds" using assms(3) st1(4) by (auto simp: ok_from_def)
  have eqs: "open_blocks st2 = open_blocks st1" "mst_events st2 = mst_events st1" "mst_textOpened st2 = mst_textOpened st1"
    "mst_order st2 = mst_order st1" "tool_offset st2 = tool_offset st1"
    unfolding st2_def buffer_input_def by (simp_all add: open_blocks_def tool_offset_def split: option.split)
  have "tools_ok st2"
    using st1(2,3) unfolding st2_def buffer_input_def
    by (cases "gomap_get (mst_tools st1) ?idx") (simp_all add: tools_ok_def tool_offset_def dom_gomap_set gomap_set_get insert_absorb)
  have "blocks_ok (emit (InputDelta (?idx + tool_offset st) ?args) st2)"
    by (rule blocks_ok_emit [OF st1(1) eqs(1,2)]) (use st1(3,4) in \<open>simp add: open_blocks_def tool_offset_def\<close>)
  moreover have "tool_delta ap tc st = (if ?args = [] then st1 else emit (InputDelta (?idx + tool_offset st) ?args) st2)"
    unfolding tool_delta_def st1_def st2_def by (simp add: Let_def tool_offset_def)
  moreover have "tools_ok (emit e st2)" "ok_from (emit e st2) ds" for e
    using \<open>tools_ok st2\<close> from1 eqs by (simp_all add: tools_ok_def ok_from_def emit_def tool_offset_def)
  ultimately show ?thesis using st1(1,2) from1 by simp
qed
lemma assembly_frame:
  assumes "mst_events st' = mst_events st" "mst_textOpened st' = mst_textOpened st" "mst_order st' = mst_order st"
    "mst_textIdx st' = mst_textIdx st" "mst_tools st' = mst_tools st"
  shows "blocks_ok st' = blocks_ok st" "tools_ok st' = tools_ok st" "ok_from st' ds = ok_from st ds"
  using assms by (simp_all add: blocks_ok_def open_blocks_def tool_offset_def ok_from_def tools_ok_def)

definition assembled :: "MsgState \<Rightarrow> int option list \<Rightarrow> bool" where
  "assembled st ds = (blocks_ok st \<and> tools_ok st \<and> ok_from st ds)"

text \<open>Both results about the event stream follow the deltas one by one. The locale carries a property of
  the assembly and the deltas still to come through the loops over choices, chunks and events.\<close>

locale relay_invariant =
  fixes P :: "MsgState \<Rightarrow> int option list \<Rightarrow> bool" and ap :: Api
  assumes step_text: "c \<noteq> [] \<Longrightarrow> P st (None # ds) \<Longrightarrow> P (text_delta c st) ds"
    and step_tool: "P st (Some (or_zero 0 (tc_Index tc)) # ds) \<Longrightarrow> P (tool_delta ap tc st) ds"
    and step_error: "P st [] \<Longrightarrow> P (emit (StreamError err) st) []"
    and frame: "P st ds \<Longrightarrow> mst_events st' = mst_events st \<Longrightarrow> mst_textOpened st' = mst_textOpened st \<Longrightarrow> mst_order st' = mst_order st
      \<Longrightarrow> mst_textIdx st' = mst_textIdx st \<Longrightarrow> mst_tools st' = mst_tools st \<Longrightarrow> P st' ds"
begin

lemma tools: "P st (map (\<lambda>tc. Some (or_zero 0 (tc_Index tc))) tcs @ ds) \<Longrightarrow> P (fold (tool_delta ap) tcs st) ds"
proof (induction tcs arbitrary: st)
  case (Cons tc tcs)
  then show ?case using step_tool by simp
qed simp

lemma choice:
  assumes "P st (choice_deltas dc @ ds)"
  shows "P (choice_delta ap dc st) ds"
proof -
  let ?tools = "map (\<lambda>tc. Some (or_zero 0 (tc_Index tc))) (dl_ToolCalls (ck_Delta dc))"
  have "P (text_delta (dl_Content (ck_Delta dc)) st) (?tools @ ds)"
    using assms step_text [of "dl_Content (ck_Delta dc)" st] by (cases "dl_Content (ck_Delta dc) = []") (simp_all add: choice_deltas_def text_delta_def)
  then have fold: "P (fold (tool_delta ap) (dl_ToolCalls (ck_Delta dc)) (text_delta (dl_Content (ck_Delta dc)) st)) ds"
    by (rule tools)
  have "P (fold (tool_delta ap) (dl_ToolCalls (ck_Delta dc)) (text_delta (dl_Content (ck_Delta dc)) st)\<lparr>mst_finishReason := x\<rparr>) ds" for x
    by (rule frame [OF fold]) simp_all
  then show ?thesis using fold by (simp add: choice_delta_def Let_def)
qed

lemma choices: "P st (concat (map choice_deltas dcs) @ ds) \<Longrightarrow> P (fold (choice_delta ap) dcs st) ds"
proof (induction dcs arbitrary: st)
  case (Cons dc dcs)
  then show ?case using choice [of st dc] by simp
qed simp

lemma chunk:
  assumes "P st (concat (map choice_deltas (chunk_Choices ch)) @ ds)"
  shows "P (chunk_delta ap ch st) ds"
proof (cases "chunk_Usage ch")
  case (Some u)
  have "P (st\<lparr>mst_usage := x, mst_hasUsage := True\<rparr>) (concat (map choice_deltas (chunk_Choices ch)) @ ds)" for x
    by (rule frame [OF assms]) simp_all
  then show ?thesis using Some choices by (simp add: chunk_delta_def)
qed (use assms choices in \<open>simp add: chunk_delta_def\<close>)

lemma relay: "P st (stream_deltas evs) \<Longrightarrow> P (msg_relay ap evs st) []"
proof (induction evs arbitrary: st)
  case (Cons evt evs)
  consider err where "sev_Err evt = Some err" | "sev_Err evt = None" "sev_Done evt \<or> sev_Chunk evt = None"
    | ch where "sev_Err evt = None" "\<not> sev_Done evt" "sev_Chunk evt = Some ch" by fastforce
  then show ?case
  proof cases
    case (1 err)
    then have "P st []" using Cons.prems by simp
    then have "P (st\<lparr>mst_streamErrSeen := True\<rparr>) []" by (rule frame) simp_all
    then show ?thesis using 1 step_error by simp
  next
    case 2
    then show ?thesis using Cons.prems by (auto split: option.splits)
  next
    case (3 ch)
    then have "P (chunk_delta ap ch st) (stream_deltas evs)" using Cons.prems by (intro chunk) simp
    then show ?thesis using Cons.IH 3 by simp
  qed
qed simp

end

interpretation assembly: relay_invariant assembled ap for ap
proof
  show "assembled (text_delta c st) ds" if "c \<noteq> []" "assembled st (None # ds)" for c st ds
    using text_delta_ok [of st c ds] that by (simp add: assembled_def)
  show "assembled (tool_delta ap tc st) ds" if "assembled st (Some (or_zero 0 (tc_Index tc)) # ds)" for st tc ds
    using tool_delta_ok [of st tc ds ap] that unfolding assembled_def by fastforce
  show "assembled (emit (StreamError err) st) []" if "assembled st []" for err st
  proof -
    have "blocks_ok (emit (StreamError err) st)"
      by (rule blocks_ok_emit) (use that in \<open>simp_all add: assembled_def\<close>)
    moreover have "tools_ok (emit (StreamError err) st) = tools_ok st" by (rule tools_ok_frame) (simp_all add: emit_def)
    ultimately show ?thesis using that by (simp add: assembled_def ok_from_def)
  qed
  show "assembled st' ds" if "assembled st ds" "mst_events st' = mst_events st" "mst_textOpened st' = mst_textOpened st"
    "mst_order st' = mst_order st" "mst_textIdx st' = mst_textIdx st" "mst_tools st' = mst_tools st" for st ds st'
    using assembly_frame [OF that(2-6)] that(1) by (simp add: assembled_def)
qed

lemma close_run:
  "distinct is \<Longrightarrow> set is = fst ` set opn \<Longrightarrow> block_run (map BlockStop is) (opn, seen) = Some ([], seen)"
proof (induction "is" arbitrary: opn)
  case (Cons i "is")
  have "set is = fst ` set (filter (\<lambda>b. fst b \<noteq> i) opn)" using Cons.prems by auto
  then have "block_run (map BlockStop is) (filter (\<lambda>b. fst b \<noteq> i) opn, seen) = Some ([], seen)" using Cons by simp
  moreover have "i \<in> fst ` set opn" using Cons.prems(2) by auto
  ultimately show ?case by simp
qed auto

lemma msg_close_stops:
  assumes "tools_ok st"
  shows "\<exists>d. msg_close st = map BlockStop ((if mst_textOpened st then [0] else []) @ map (\<lambda>i. i + tool_offset st) (mst_order st)) @ [d, MessageStop]
    \<and> (\<exists>x y. d = MessageDelta x y)"
proof -
  have "(case gomap_get (mst_tools st) i of None \<Rightarrow> None | Some p \<Rightarrow> if mtl_stoppedSent p then None else Some (BlockStop (mtl_idx p)))
      = Some (BlockStop (i + tool_offset st))" if "i \<in> set (mst_order st)" for i
  proof -
    have "i \<in> dom (map_of (mst_tools st))" using assms that by (simp add: tools_ok_def)
    then obtain p where "gomap_get (mst_tools st) i = Some p" by blast
    then show ?thesis using assms by (simp add: tools_ok_def)
  qed
  then have "List.map_filter (\<lambda>idx. case gomap_get (mst_tools st) idx of None \<Rightarrow> None | Some p \<Rightarrow> if mtl_stoppedSent p then None else Some (BlockStop (mtl_idx p)))
      (mst_order st) = map (\<lambda>i. BlockStop (i + tool_offset st)) (mst_order st)"
    by (simp add: List.map_filter_def)
  then show ?thesis using assms by (simp add: msg_close_def tools_ok_def comp_def)
qed

lemma assembled_closes:
  assumes "assembled st []"
  shows "wf_message_stream (mst_events st @ msg_close st)"
proof -
  obtain x y evs opn seen where run: "mst_events st = MessageStart x y # evs" "block_run evs ([], []) = Some (opn, seen)"
    "set opn = open_blocks st" using assms by (auto simp: assembled_def blocks_ok_def)
  let ?is = "(if mst_textOpened st then [0] else []) @ map (\<lambda>i. i + tool_offset st) (mst_order st)"
  obtain d a b where close: "msg_close st = map BlockStop ?is @ [d, MessageStop]" "d = MessageDelta a b"
    using msg_close_stops [of st] assms by (auto simp: assembled_def)
  have "distinct ?is" "set ?is = fst ` set opn"
    using assms run(3) by (auto simp: assembled_def tools_ok_def distinct_map inj_on_def open_blocks_def tool_offset_def image_iff)
  then have "block_run (map BlockStop ?is) (opn, seen) = Some ([], seen)" by (rule close_run)
  then have "block_run (evs @ map BlockStop ?is) ([], []) = Some ([], seen)" using run(2) by (simp add: block_run_append)
  then have "wf_blocks ([], []) ((evs @ map BlockStop ?is) @ [d, MessageStop])" by (rule wf_blocks_run) (simp add: close(2))
  then show ?thesis using run(1) close(1) by simp
qed

lemma msg_open_ok:
  assumes "h_recorder h" "\<And>u p cx rq evs. fst (ev_stream env u p cx rq) = Inr evs \<Longrightarrow> text_first (stream_deltas evs)"
    and "blocks_ok st" "tools_ok st" "\<not> mst_textOpened st" "mst_order st = []"
  shows "\<exists>st' s'. msg_open env ap h ctx req np i ps st s = (Some st', s') \<and> assembled st' []"
proof (induction ps arbitrary: i s)
  case Nil
  then show ?case using assms by (simp add: assembled_def ok_from_def)
next
  case (Cons p ps)
  obtain cx cs s1 where cred: "stream_credential env h ctx [] (pv_Name (pr_Provider p)) s = (cx, cs, s1)" by (metis prod_cases3)
  obtain r s2 where call: "call_stream env (pr_Provider p) cx (req\<lparr>req_Model := pr_ForwardModel p\<rparr>) s1 = (r, s2)" by fastforce
  show ?case
  proof (cases r)
    case (Inl err)
    then show ?thesis using Cons cred call assms(1) by (simp add: Let_def record_trace_def)
  next
    case (Inr evs)
    then have "fst (ev_stream env (g_world s1) (pr_Provider p) cx (req\<lparr>req_Model := pr_ForwardModel p\<rparr>)) = Inr evs"
      using call by (auto simp: call_stream_def split: prod.splits)
    then have "text_first (stream_deltas evs)" by (rule assms(2))
    then have "assembled st (stream_deltas evs)" using assms(3-6) by (auto simp: assembled_def ok_from_def text_first_def)
    then show ?thesis using cred call Inr assembly.relay by (simp add: Let_def)
  qed
qed

text \<open>C35. When the providers send text before tool calls or no text at all, the event stream of
  \<open>/v1/messages\<close> is well formed whatever the split into chunks and however it ends: every block is opened
  once under its own index, deltas go to an open block of their kind, every block is closed, and the
  message ends.\<close>

theorem messages_stream_wellformed:
  assumes "pickResponsesChain h (req_Model req) = Some ps" "ap_flusher ap" "h_recorder h"
    and "\<And>u p cx rq evs. fst (ev_stream env u p cx rq) = Inr evs \<Longrightarrow> text_first (stream_deltas evs)"
  shows "\<exists>evs s'. handleMessagesStream env ap h ctx req w s = Answered (write_events ap evs (stream_head w)) s' \<and> wf_message_stream evs"
proof -
  let ?st = "msg_init [MessageStart (''msg_'' @ ap_uuid ap 0) (req_Model req)]"
  have "blocks_ok ?st" "tools_ok ?st" "\<not> mst_textOpened ?st" "mst_order ?st = []"
    by (simp_all add: blocks_ok_def tools_ok_def open_blocks_def msg_init_def)
  then obtain st' s' where "msg_open env ap h ctx req (length ps) 0 ps ?st s = (Some st', s')" "assembled st' []"
    using msg_open_ok [of h env ?st ap ctx req "length ps" 0 ps s] assms(3,4) by blast
  then show ?thesis using assms(1,2) assembled_closes by (auto simp: handleMessagesStream_def Let_def)
qed
text \<open>A tool call before the text takes index 0, and so does the text.\<close>

definition tool_zero :: "MsgState \<Rightarrow> bool" where
  "tool_zero st = (\<exists>x y. ToolStart 0 x y \<in> set (mst_events st))"

fun zero_before_text :: "int option list \<Rightarrow> bool" where
  "zero_before_text (Some i # ds) = (i = 0 \<or> zero_before_text ds)"
| "zero_before_text _ = False"

definition clashes :: "MsgState \<Rightarrow> int option list \<Rightarrow> bool" where
  "clashes st ds = ((mst_textOpened st \<longrightarrow> TextStart 0 \<in> set (mst_events st)) \<and>
     (tool_zero st \<or> \<not> mst_textOpened st \<and> gomap_get (mst_tools st) 0 = None \<and> zero_before_text ds) \<and>
     (mst_textOpened st \<or> None \<in> set ds))"

lemma tool_delta_effect:
  "mst_textOpened (tool_delta ap tc st) = mst_textOpened st \<and> set (mst_events st) \<subseteq> set (mst_events (tool_delta ap tc st))
   \<and> (gomap_get (mst_tools st) 0 = None \<and> \<not> mst_textOpened st \<and> or_zero 0 (tc_Index tc) = 0 \<longrightarrow> tool_zero (tool_delta ap tc st))
   \<and> (or_zero 0 (tc_Index tc) \<noteq> 0 \<longrightarrow> gomap_get (mst_tools (tool_delta ap tc st)) 0 = gomap_get (mst_tools st) 0)"
proof -
  let ?idx = "or_zero 0 (tc_Index tc)" and ?args = "fc_Arguments (tc_Function tc)"
  define st1 where "st1 = open_tool ap ?idx (if mst_textOpened st then ?idx + 1 else ?idx) (fc_Name (tc_Function tc)) st"
  have st1: "mst_textOpened st1 = mst_textOpened st" "set (mst_events st) \<subseteq> set (mst_events st1)"
    unfolding st1_def open_tool_def by (auto simp: emit_def Let_def split: option.split)
  have zero: "tool_zero st1" if "gomap_get (mst_tools st) 0 = None" "\<not> mst_textOpened st" "?idx = 0"
    using that unfolding st1_def open_tool_def by (auto simp: emit_def Let_def tool_zero_def)
  have other: "gomap_get (mst_tools (buffer_input ?idx ?args st1)) 0 = gomap_get (mst_tools st) 0" "gomap_get (mst_tools st1) 0 = gomap_get (mst_tools st) 0"
    if "?idx \<noteq> 0"
    using that unfolding st1_def open_tool_def buffer_input_def by (cases "tc_Index tc"; auto simp: emit_def Let_def gomap split: option.split)+
  have "mst_textOpened (buffer_input ?idx ?args st1) = mst_textOpened st1" "mst_events (buffer_input ?idx ?args st1) = mst_events st1"
    by (simp_all add: buffer_input_def split: option.split)
  moreover have "tool_delta ap tc st = (if ?args = [] then st1 else emit (InputDelta (if mst_textOpened st then ?idx + 1 else ?idx) ?args) (buffer_input ?idx ?args st1))"
    unfolding tool_delta_def st1_def by (simp add: Let_def)
  ultimately show ?thesis using st1 zero other by (auto simp: emit_def tool_zero_def)
qed

interpretation clash: relay_invariant clashes ap for ap
proof
  show "clashes (text_delta c st) ds" if "c \<noteq> []" "clashes st (None # ds)" for c st ds
    using that by (auto simp: clashes_def text_delta_def emit_def Let_def tool_zero_def)
  show "clashes (tool_delta ap tc st) ds" if "clashes st (Some (or_zero 0 (tc_Index tc)) # ds)" for st tc ds
    using that tool_delta_effect [of ap tc st] unfolding clashes_def tool_zero_def by (auto simp del: split_paired_Ex)
  show "clashes (emit (StreamError err) st) []" if "clashes st []" for err st
    using that by (auto simp: clashes_def emit_def tool_zero_def)
  show "clashes st' ds" if "clashes st ds" "mst_events st' = mst_events st" "mst_textOpened st' = mst_textOpened st"
    "mst_order st' = mst_order st" "mst_textIdx st' = mst_textIdx st" "mst_tools st' = mst_tools st" for st ds st'
    using that by (simp add: clashes_def tool_zero_def)
qed

lemma zero_before_text_append: "None \<notin> set pre \<Longrightarrow> Some 0 \<in> set pre \<Longrightarrow> zero_before_text (pre @ ds)"
  by (induction pre rule: zero_before_text.induct) auto

fun start_index :: "msg_event \<Rightarrow> int option" where
  "start_index (TextStart i) = Some i"
| "start_index (ToolStart i _ _) = Some i"
| "start_index _ = None"

lemma block_step_seen:
  "block_step e os = Some os' \<Longrightarrow>
     (case start_index e of None \<Rightarrow> snd os' = snd os | Some i \<Rightarrow> i \<notin> set (snd os) \<and> snd os' = i # snd os)"
  by (cases os; cases e) (auto split: if_splits)

lemma wf_blocks_fresh:
  "wf_blocks os evs \<Longrightarrow> e \<in> set evs \<Longrightarrow> start_index e = Some i \<Longrightarrow> i \<notin> set (snd os)"
proof (induction evs arbitrary: os)
  case (Cons e' evs)
  show ?case
  proof (cases "\<exists>x y. e' = MessageDelta x y")
    case True
    then show ?thesis using Cons.prems by auto
  next
    case False
    then obtain os' where os': "block_step e' os = Some os'" "wf_blocks os' evs"
      using Cons.prems(1) by (cases e') (auto split: option.splits)
    then show ?thesis
      using Cons.IH [OF os'(2)] Cons.prems(2,3) block_step_seen [OF os'(1)] by (cases "e = e'") (auto split: option.splits)
  qed
qed simp

lemma wf_blocks_distinct:
  "wf_blocks os evs \<Longrightarrow> a \<in> set evs \<Longrightarrow> b \<in> set evs \<Longrightarrow> start_index a = Some i \<Longrightarrow> start_index b = Some i \<Longrightarrow> a = b"
proof (induction evs arbitrary: os)
  case (Cons e evs)
  show ?case
  proof (cases "\<exists>x y. e = MessageDelta x y")
    case True
    then show ?thesis using Cons.prems by auto
  next
    case False
    then obtain os' where os': "block_step e os = Some os'" "wf_blocks os' evs"
      using Cons.prems(1) by (cases e) (auto split: option.splits)
    have "start_index e = Some i \<Longrightarrow> i \<in> set (snd os')" using block_step_seen [OF os'(1)] by simp
    then have "start_index e = Some i \<Longrightarrow> a \<notin> set evs \<and> b \<notin> set evs"
      using wf_blocks_fresh [OF os'(2)] Cons.prems(4,5) by blast
    then show ?thesis using Cons os'(2) by (cases "a = e"; cases "b = e") auto
  qed
qed simp

text \<open>C37. When the provider that is relayed, the first of the chain, sends a fragment of the tool call with
  index 0 before its first text (\<open>pre\<close> are the deltas before it), the event stream is not well formed:
  a tool block and the text block are both opened with index 0.\<close>

theorem messages_tool_before_text:
  assumes "pickResponsesChain h (req_Model req) = Some (p # ps)" "ap_flusher ap"
    and "stream_credential env h ctx [] (pv_Name (pr_Provider p)) s = (cx, cs, s1)"
    and "call_stream env (pr_Provider p) cx (req\<lparr>req_Model := pr_ForwardModel p\<rparr>) s1 = (Inr events, s2)"
    and "stream_deltas events = pre @ None # post" "None \<notin> set pre" "Some 0 \<in> set pre"
  shows "\<exists>evs x y. handleMessagesStream env ap h ctx req w s = Answered (write_events ap evs (stream_head w)) s2
     \<and> ToolStart 0 x y \<in> set evs \<and> TextStart 0 \<in> set evs \<and> \<not> wf_message_stream evs"
proof -
  let ?m = "MessageStart (''msg_'' @ ap_uuid ap 0) (req_Model req)"
  let ?st = "msg_relay ap events (msg_init [?m])"
  have "clashes (msg_init [?m]) (stream_deltas events)"
    using zero_before_text_append [OF assms(6,7)] assms(5) by (simp add: clashes_def msg_init_def)
  then have "clashes ?st []" by (rule clash.relay)
  then obtain x y where start: "ToolStart 0 x y \<in> set (mst_events ?st)" "TextStart 0 \<in> set (mst_events ?st)"
    by (auto simp: clashes_def tool_zero_def)
  have "\<not> wf_message_stream (mst_events ?st @ msg_close ?st)"
  proof
    assume wf: "wf_message_stream (mst_events ?st @ msg_close ?st)"
    then obtain a b evs where evs: "mst_events ?st @ msg_close ?st = MessageStart a b # evs" "wf_blocks ([], []) evs"
      by (cases "mst_events ?st @ msg_close ?st" rule: wf_message_stream.cases) auto
    have "ToolStart 0 x y \<in> set (mst_events ?st @ msg_close ?st)" "TextStart 0 \<in> set (mst_events ?st @ msg_close ?st)"
      using start by simp_all
    then have "ToolStart 0 x y \<in> set evs" "TextStart 0 \<in> set evs" unfolding evs(1) by simp_all
    then show False using wf_blocks_distinct [OF evs(2), of "ToolStart 0 x y" "TextStart 0" 0] by simp
  qed
  moreover have "handleMessagesStream env ap h ctx req w s = Answered (write_events ap (mst_events ?st @ msg_close ?st) (stream_head w)) s2"
    using assms(1-4) by (simp add: handleMessagesStream_def Let_def)
  moreover have "ToolStart 0 x y \<in> set (mst_events ?st @ msg_close ?st)" "TextStart 0 \<in> set (mst_events ?st @ msg_close ?st)"
    using start by simp_all
  ultimately show ?thesis by blast
qed

section \<open>What the streams do not record\<close>

lemma stream_credential_sel:
  assumes "stream_credential env h ctx src p s = (cx, cs, s')"
  shows "g_world s' = g_world s" "g_calls s' = g_calls s" "g_limiter s' = g_limiter s" "g_traces s' = g_traces s"
  using assms by (auto simp: stream_credential_def split: if_splits prod.splits option.splits bool.splits)

lemma msg_open_books:
  "\<exists>ts. g_traces (snd (msg_open env ap h ctx req np i ps st s)) = g_traces s @ ts \<and> list_all (\<lambda>t. tr_StatusCode t = 502 \<and> tr_CostUSD t = 0) ts
     \<and> g_limiter (snd (msg_open env ap h ctx req np i ps st s)) = g_limiter s"
proof (induction ps arbitrary: i s)
  case (Cons p ps)
  obtain cx cs s1 where cred: "stream_credential env h ctx [] (pv_Name (pr_Provider p)) s = (cx, cs, s1)" by (metis prod_cases3)
  obtain r s2 where call: "call_stream env (pr_Provider p) cx (req\<lparr>req_Model := pr_ForwardModel p\<rparr>) s1 = (r, s2)" by fastforce
  have same: "g_traces s2 = g_traces s" "g_limiter s2 = g_limiter s"
    using stream_credential_sel [OF cred] call_stream_sel [OF call] by simp_all
  show ?case
  proof (cases r)
    case (Inl err)
    define t where "t = (newTrace env h ctx req (pv_Name (pr_Provider p)) i)\<lparr>tr_RequestModel := req_Model req, tr_Streamed := True,
      tr_CredentialSource := cs, tr_LatencyMs := ev_latency env i, tr_StatusCode := 502,
      tr_ErrorType := (if np > 1 then ''upstream_error_failover'' else ''upstream_error''), tr_ErrorMsg := err\<rparr>"
    have t: "tr_StatusCode t = 502" "tr_CostUSD t = 0"
      by (simp_all add: t_def newTrace_def zero_Trace_def Let_def split: option.split)
    show ?thesis
    proof (cases "h_recorder h")
      case True
      obtain ts where "g_traces (snd (msg_open env ap h ctx req np (i + 1) ps st (s2\<lparr>g_traces := g_traces s2 @ [t]\<rparr>))) = (g_traces s2 @ [t]) @ ts"
        "list_all (\<lambda>t. tr_StatusCode t = 502 \<and> tr_CostUSD t = 0) ts"
        "g_limiter (snd (msg_open env ap h ctx req np (i + 1) ps st (s2\<lparr>g_traces := g_traces s2 @ [t]\<rparr>))) = g_limiter s2"
        using Cons.IH [of "i + 1" "s2\<lparr>g_traces := g_traces s2 @ [t]\<rparr>"] by auto
      moreover have "msg_open env ap h ctx req np i (p # ps) st s = msg_open env ap h ctx req np (i + 1) ps st (s2\<lparr>g_traces := g_traces s2 @ [t]\<rparr>)"
        using cred call Inl True by (simp add: Let_def record_trace_def t_def)
      ultimately show ?thesis using same t by (intro exI [of _ "t # ts"]) simp
    qed (use cred call Inl same in \<open>simp add: Let_def record_trace_def\<close>)
  qed (use cred call same in \<open>simp add: Let_def\<close>)
qed simp

text \<open>C40. A streamed \<open>/v1/messages\<close> request leaves the spend of every key as it was and records no trace with a
  cost: the only traces are those of providers that refused the connection.\<close>

theorem messages_stream_uncharged:
  "g_limiter (state_of (handleMessagesStream env ap h ctx req w s)) = g_limiter s
   \<and> (\<exists>ts. g_traces (state_of (handleMessagesStream env ap h ctx req w s)) = g_traces s @ ts
        \<and> list_all (\<lambda>t. tr_StatusCode t = 502 \<and> tr_CostUSD t = 0) ts)"
proof (cases "pickResponsesChain h (req_Model req) = None \<or> \<not> ap_flusher ap")
  case False
  then obtain ps where ps: "pickResponsesChain h (req_Model req) = Some ps" "ap_flusher ap" by auto
  let ?st = "msg_init [MessageStart (''msg_'' @ ap_uuid ap 0) (req_Model req)]"
  obtain r s' where run: "msg_open env ap h ctx req (length ps) 0 ps ?st s = (r, s')" by fastforce
  have "state_of (handleMessagesStream env ap h ctx req w s) = s'"
    using ps run by (cases r) (simp_all add: handleMessagesStream_def Let_def)
  then show ?thesis using msg_open_books [of env ap h ctx req "length ps" 0 ps ?st s] run by auto
next
  case True
  then have "state_of (handleMessagesStream env ap h ctx req w s) = s"
    by (cases "pickResponsesChain h (req_Model req)") (simp_all add: handleMessagesStream_def)
  then show ?thesis by simp
qed

section \<open>The unary path\<close>

text \<open>The request that a body stands for, once the checks have passed.\<close>

definition accepted :: "string \<Rightarrow> MessagesRequest \<Rightarrow> bool" where
  "accepted rawBody req = (Unmarshal_MessagesRequest rawBody = Some req \<and> mq_Model req \<noteq> [] \<and> mq_Messages req \<noteq> [])"

lemma Messages_accepted:
  "accepted rawBody req \<Longrightarrow> Messages env ap h ctx (Inr rawBody) w s =
     (if mq_Stream req then handleMessagesStream env ap h (session_ctx rawBody ctx) (messagesToChat req) w s
      else (case executeMessagesUnary env ap h (session_ctx rawBody ctx) (messagesToChat req) s of
              (None, _, s) \<Rightarrow> Answered (writeError (session_ctx rawBody ctx) 502 ''upstream_error'' ''all candidate providers failed'' w) s
            | (Some resp, trace, s) \<Rightarrow>
                settle_unary env h (session_ctx rawBody ctx) (req_Model (messagesToChat req)) resp trace
                  (\<lambda>resp. write_value (ap_float ap) 200 (MessagesResponse_value (chatToMessages (ap_uuid ap 0) resp req))) w s))"
  by (simp add: accepted_def Messages_def Let_def)

lemma surface_credential_sel:
  assumes "surface_credential env h ctx src p s = (r, s')"
  shows "g_world s' = g_world s" "g_calls s' = g_calls s" "g_limiter s' = g_limiter s" "g_traces s' = g_traces s"
  using assms by (auto simp: surface_credential_def split: if_splits prod.splits option.splits)

text \<open>C38. A request to \<open>/v1/messages\<close> that is accepted and not to be streamed gets 502 ``all candidate providers
  failed'' when the first provider of its chain returns an error, whatever providers the chain has left:
  the only call made is the one to the first provider, and the failure leaves no trace.\<close>

theorem messages_no_failover:
  assumes "accepted rawBody req" "\<not> mq_Stream req"
    and "pickResponsesChain h (mq_Model req) = Some (p # ps)"
    and "surface_credential env h (session_ctx rawBody ctx) ''env'' (pv_Name (pr_Provider p)) s = (Inr (cx, cs), s1)"
    and "call_chat env (pr_Provider p) cx ((messagesToChat req)\<lparr>req_Model := pr_ForwardModel p\<rparr>) s1 = (Inl err, s2)"
  shows "Messages env ap h ctx (Inr rawBody) w s =
      Answered (writeError (session_ctx rawBody ctx) 502 ''upstream_error'' ''all candidate providers failed'' w) s2
    \<and> g_calls s2 = g_calls s @ [(pr_Provider p, cx, (messagesToChat req)\<lparr>req_Model := pr_ForwardModel p\<rparr>)] \<and> g_traces s2 = g_traces s"
  using assms(2-) surface_credential_sel [OF assms(4)] call_chat_sel [OF assms(5)]
  unfolding Messages_accepted [OF assms(1)]
  by (simp add: executeMessagesUnary_def Let_def)

text \<open>C39. \<open>/v1/messages\<close> calls the provider of the requested model also when the caller's key may not use
  the model and when the guard blocks the prompt.\<close>

theorem messages_ignores_policy:
  assumes "accepted rawBody req" "\<not> mq_Stream req"
    and "pickResponsesChain h (mq_Model req) = Some (p # ps)"
    and "surface_credential env h (session_ctx rawBody ctx) ''env'' (pv_Name (pr_Provider p)) s = (Inr (cx, cs), s1)"
    and "\<not> modelAllowed ctx (mq_Model req)"
    and "fi_Blocked (CheckInput (ev_matchRe env) (h_guard h) (promptText (req_Messages (messagesToChat req))))"
  shows "g_calls (state_of (Messages env ap h ctx (Inr rawBody) w s)) =
     g_calls s @ [(pr_Provider p, cx, (messagesToChat req)\<lparr>req_Model := pr_ForwardModel p\<rparr>)]"
proof -
  let ?rq = "(messagesToChat req)\<lparr>req_Model := pr_ForwardModel p\<rparr>"
  obtain r s2 where call: "call_chat env (pr_Provider p) cx ?rq s1 = (r, s2)" by fastforce
  have calls: "g_calls s2 = g_calls s @ [(pr_Provider p, cx, ?rq)]"
    using surface_credential_sel [OF assms(4)] call_chat_sel [OF call] by simp
  show ?thesis
    unfolding Messages_accepted [OF assms(1)]
    using assms(2-4) call calls
    by (cases r) (auto simp: executeMessagesUnary_def settle_unary_def record_trace_def recordSpend_def Let_def split: option.split list.split)
qed

lemma Marshal_members_None: "(k, v) \<in> set kvs \<Longrightarrow> Marshal ff v = None \<Longrightarrow> Marshal_members ff kvs = None"
  by (induction kvs) (auto split: option.splits)

lemma Marshal_items_None: "v \<in> set vs \<Longrightarrow> Marshal ff v = None \<Longrightarrow> Marshal_items ff vs = None"
  by (induction vs) (auto split: option.splits)

lemma Messages_value_None:
  assumes "resp_Choices c = ch # chs" "tc \<in> set (msg_ToolCalls (ch_Message ch))"
    "fc_Arguments (tc_Function tc) \<noteq> []" "parse_json (fc_Arguments (tc_Function tc)) = None"
  shows "Marshal ff (MessagesResponse_value (chatToMessages u c req)) = None"
proof -
  let ?b = "\<lparr>mb_Type = ''tool_use'', mb_Text = [], mb_ID = tc_ID tc, mb_Name = fc_Name (tc_Function tc), mb_Input = fc_Arguments (tc_Function tc)\<rparr>"
  have "?b \<in> set (mo_Blocks (chatToMessages u c req))" using assms(1,2) by (auto simp: chatToMessages_def Let_def)
  moreover have "Marshal ff (MessagesRespBlk_value ?b) = None"
    using assms(3,4) Marshal_members_None [of "''input''" "VRaw (fc_Arguments (tc_Function tc))"]
    by (simp add: MessagesRespBlk_value_def)
  ultimately have "Marshal_items ff (map MessagesRespBlk_value (mo_Blocks (chatToMessages u c req))) = None"
    by (intro Marshal_items_None [of "MessagesRespBlk_value ?b"]) auto
  moreover have "mo_Blocks (chatToMessages u c req) \<noteq> []" using \<open>?b \<in> _\<close> by auto
  ultimately show ?thesis
    by (simp add: MessagesResponse_value_def split: option.split)
qed

text \<open>When the answer has a tool call whose arguments are not a complete JSON text, as after a stop at the
  token limit, \<open>/v1/messages\<close> answers 200 with an empty body and charges the call.\<close>

theorem messages_truncated_call_empty_body:
  assumes "accepted rawBody req" "\<not> mq_Stream req" "h_recorder h" "wr_Status w = None"
    and "pickResponsesChain h (mq_Model req) = Some (p # ps)"
    and "surface_credential env h (session_ctx rawBody ctx) ''env'' (pv_Name (pr_Provider p)) s = (Inr (cx, cs), s1)"
    and "call_chat env (pr_Provider p) cx ((messagesToChat req)\<lparr>req_Model := pr_ForwardModel p\<rparr>) s1 = (Inr resp, s2)"
    and "resp_Choices resp = ch # chs" "tc \<in> set (msg_ToolCalls (ch_Message ch))"
    and "fc_Arguments (tc_Function tc) \<noteq> []" "parse_json (fc_Arguments (tc_Function tc)) = None"
  shows "\<exists>w' t. Messages env ap h ctx (Inr rawBody) w s =
       Answered w' (recordSpend env (session_ctx rawBody ctx) (tr_CostUSD t) (s2\<lparr>g_traces := g_traces s2 @ [t]\<rparr>))
     \<and> wr_Status w' = Some 200 \<and> wr_Body w' = wr_Body w"
proof -
  have none: "Marshal (ap_float ap) (MessagesResponse_value (chatToMessages (ap_uuid ap 0) (stamp_cost c resp) req)) = None" for c
    by (rule Messages_value_None [OF _ assms(9-11), of _ chs]) (simp add: stamp_cost_def assms(8))
  have w: "wr_Status (write_value (ap_float ap) 200 v (setCostHeader env c w)) = Some 200"
    "wr_Body (write_value (ap_float ap) 200 v (setCostHeader env c w)) = wr_Body w" if "Marshal (ap_float ap) v = None" for v c
    using that assms(4) by (simp_all add: write_value_def setCostHeader_def set_header_def WriteHeader_def)
  obtain t where exec: "executeMessagesUnary env ap h (session_ctx rawBody ctx) (messagesToChat req) s = (Some resp, Some t, s2)"
    using assms(5-8) by (simp add: executeMessagesUnary_def Let_def)
  define c where "c = ResolveCostUSD (us_EstimatedCost (resp_Usage resp)) (mq_Model req) (tr_ResponseModel t) (Some (resp_Usage resp))"
  let ?w = "write_value (ap_float ap) 200 (MessagesResponse_value (chatToMessages (ap_uuid ap 0) (stamp_cost c resp) req)) (setCostHeader env c w)"
  have "Messages env ap h ctx (Inr rawBody) w s = Answered ?w
      (recordSpend env (session_ctx rawBody ctx) (tr_CostUSD (t\<lparr>tr_CostUSD := c\<rparr>)) (s2\<lparr>g_traces := g_traces s2 @ [t\<lparr>tr_CostUSD := c\<rparr>]\<rparr>))"
    unfolding Messages_accepted [OF assms(1)]
    using assms(2,3) exec by (simp add: settle_unary_def record_trace_def Let_def c_def)
  then show ?thesis using w [OF none] by blast
qed
section \<open>Witnesses\<close>

definition demo_api :: Api where
  "demo_api = \<lparr>ap_float = (\<lambda>_. []), ap_jsonErr = (\<lambda>x. x), ap_credErr = (\<lambda>x. x), ap_uuid = (\<lambda>_. ''u''), ap_unix = 0, ap_flusher = True\<rparr>"

definition demo_messages_body :: string where
  "demo_messages_body = bars ''{|model|:|fast|,|messages|:[{|role|:|user|,|content|:|hi|}]}''"

definition demo_messages_request :: MessagesRequest where
  "demo_messages_request = zero_MessagesRequest\<lparr>mq_Model := ''fast'', mq_Messages := [zero_MessagesMsg\<lparr>mm_Role := ''user'', mm_Text := ''hi''\<rparr>]\<rparr>"

definition demo_ref :: "string \<Rightarrow> string \<Rightarrow> providerRef" where
  "demo_ref p m = \<lparr>pr_Provider = demo_provider p m, pr_ForwardModel = m\<rparr>"

lemma demo_accepted: "accepted demo_messages_body demo_messages_request"
  by code_simp

lemma demo_session: "session_ctx demo_messages_body ctx = ctx"
proof -
  have "extractSessionID session_probe demo_messages_body = []" by code_simp
  then show ?thesis by (simp add: session_ctx_def)
qed

lemma demo_pick: "pickResponsesChain (demo_handler g) ''fast'' = Some [demo_ref ''p'' ''m'', demo_ref ''q'' ''n'']"
proof -
  have "pickResponsesChain (demo_handler None) ''fast'' = Some [demo_ref ''p'' ''m'', demo_ref ''q'' ''n'']" by code_simp
  moreover have "resolve_ref (demo_handler g) = resolve_ref (demo_handler None)" "routeCandidates (demo_handler g) = routeCandidates (demo_handler None)"
    by (simp_all add: fun_eq_iff resolve_ref_def routeCandidates_def demo_handler_def)
  ultimately show ?thesis by (simp only: pickResponsesChain_def)
qed

lemma demo_request_sel: "mq_Model demo_messages_request = ''fast''" "\<not> mq_Stream demo_messages_request"
  by (simp_all add: demo_messages_request_def zero_MessagesRequest_def)

lemma demo_credential:
  "stream_credential env (demo_handler g) ctx src p s = (ctx, src, s)"
  "surface_credential env (demo_handler g) ctx src p s = (Inr (ctx, src), s)"
  by (simp_all add: stream_credential_def surface_credential_def demo_handler_def)

definition demo_delta :: "string \<Rightarrow> ToolCall list \<Rightarrow> StreamEvent" where
  "demo_delta t tcs = \<lparr>sev_Chunk = Some \<lparr>chunk_ID = [], chunk_Object = [], chunk_Created = 0, chunk_Model = [],
     chunk_Choices = [\<lparr>ck_Index = 0, ck_Delta = \<lparr>dl_Role = [], dl_Content = t, dl_ToolCalls = tcs\<rparr>, ck_FinishReason = []\<rparr>], chunk_Usage = None\<rparr>,
     sev_Raw = None, sev_Err = None, sev_Done = False\<rparr>"

definition demo_events_env :: "StreamEvent list \<Rightarrow> (unit, semcache_Memory, Memory, unit, unit, unit) Env" where
  "demo_events_env evs = (demo_env demo_answer)\<lparr>ev_stream := (\<lambda>u p cx rq. (Inr evs, u))\<rparr>"

definition demo_text_then_tool :: "StreamEvent list" where
  "demo_text_then_tool = [demo_delta ''Hi'' [], demo_delta [] [demo_call]]"

definition demo_tool_then_text :: "StreamEvent list" where
  "demo_tool_then_text = [demo_delta [] [demo_call], demo_delta ''Hi'' []]"

lemma demo_deltas:
  "stream_deltas demo_text_then_tool = [None, Some 0]"
  "stream_deltas demo_tool_then_text = [Some 0, None]"
  by (simp_all add: demo_text_then_tool_def demo_tool_then_text_def demo_delta_def choice_deltas_def demo_call_def)

theorem messages_stream_wellformed_witness:
  "\<exists>evs s'. handleMessagesStream (demo_events_env demo_text_then_tool) demo_api (demo_handler None) emptyCtx
      (messagesToChat demo_messages_request) new_writer (demo_state None) = Answered (write_events demo_api evs (stream_head new_writer)) s'
    \<and> wf_message_stream evs"
  by (rule messages_stream_wellformed [OF demo_pick [of None, folded demo_request_sel(1) messagesToChat_sel(1)]])
     (auto simp: demo_api_def demo_handler_def demo_events_env_def text_first_def demo_deltas)

theorem messages_tool_before_text_witness:
  "\<exists>evs x y. handleMessagesStream (demo_events_env demo_tool_then_text) demo_api (demo_handler None) emptyCtx
      (messagesToChat demo_messages_request) new_writer (demo_state None)
        = Answered (write_events demo_api evs (stream_head new_writer))
            ((demo_state None)\<lparr>g_calls := [(demo_provider ''p'' ''m'', emptyCtx, (messagesToChat demo_messages_request)\<lparr>req_Model := ''m''\<rparr>)]\<rparr>)
    \<and> ToolStart 0 x y \<in> set evs \<and> TextStart 0 \<in> set evs \<and> \<not> wf_message_stream evs"
  by (rule messages_tool_before_text [OF demo_pick [of None, folded demo_request_sel(1) messagesToChat_sel(1)] _ demo_credential(1), where pre = "[Some 0]" and post = "[]" and events = demo_tool_then_text])
     (simp_all add: demo_api_def demo_events_env_def demo_deltas call_stream_def demo_state_def demo_ref_def demo_env_def)

theorem messages_no_failover_witness:
  "Messages (demo_env demo_answer) demo_api (demo_handler None) emptyCtx (Inr demo_messages_body) new_writer (demo_state None) =
     Answered (writeError emptyCtx 502 ''upstream_error'' ''all candidate providers failed'' new_writer)
       ((demo_state None)\<lparr>g_calls := [(demo_provider ''p'' ''m'', emptyCtx, (messagesToChat demo_messages_request)\<lparr>req_Model := ''m''\<rparr>)]\<rparr>)"
proof -
  have "call_chat (demo_env demo_answer) (pr_Provider (demo_ref ''p'' ''m'')) emptyCtx
      ((messagesToChat demo_messages_request)\<lparr>req_Model := pr_ForwardModel (demo_ref ''p'' ''m'')\<rparr>) (demo_state None)
      = (Inl ''down'', (demo_state None)\<lparr>g_calls := [(demo_provider ''p'' ''m'', emptyCtx, (messagesToChat demo_messages_request)\<lparr>req_Model := ''m''\<rparr>)]\<rparr>)"
    by (simp add: call_chat_def demo_env_def demo_answer_def demo_ref_def demo_provider_def demo_state_def)
  from messages_no_failover [OF demo_accepted demo_request_sel(2) demo_pick [of None, folded demo_request_sel(1)] demo_credential(2), of _ emptyCtx, unfolded demo_session, OF this]
  show ?thesis by blast
qed

definition demo_strict_guard :: "unit Guard" where
  "demo_strict_guard = \<lparr>gd_cfg = \<lparr>cfg_Enabled = True, cfg_BlockPIIInput = False, cfg_RedactPIIOutput = False, cfg_MaxInputChars = 1,
     cfg_DenyPatterns = [], cfg_ValidateJSONOutput = False\<rparr>, gd_denyCompiled = []\<rparr>"

theorem messages_ignores_policy_witness:
  "\<not> modelAllowed (emptyCtx\<lparr>cx_AllowedModels := Some [''n'']\<rparr>) ''fast''
   \<and> fi_Blocked (CheckInput (\<lambda>_ _. False) (Some demo_strict_guard) (promptText (req_Messages (messagesToChat demo_messages_request))))
   \<and> g_calls (state_of (Messages (demo_env demo_answer) demo_api (demo_handler (Some demo_strict_guard)) (emptyCtx\<lparr>cx_AllowedModels := Some [''n'']\<rparr>)
        (Inr demo_messages_body) new_writer (demo_state None)))
      = [(demo_provider ''p'' ''m'', emptyCtx\<lparr>cx_AllowedModels := Some [''n'']\<rparr>, (messagesToChat demo_messages_request)\<lparr>req_Model := ''m''\<rparr>)]"
proof -
  have prompt: "promptText (req_Messages (messagesToChat demo_messages_request)) = ''hi''" by code_simp
  have block: "fi_Blocked (CheckInput (\<lambda>_ _. False) (Some demo_strict_guard) ''hi'')" by code_simp
  have model: "\<not> modelAllowed (emptyCtx\<lparr>cx_AllowedModels := Some [''n'']\<rparr>) ''fast''" by code_simp
  have sel: "ev_matchRe (demo_env demo_answer) = (\<lambda>_ _. False)" "h_guard (demo_handler (Some demo_strict_guard)) = Some demo_strict_guard"
    "g_calls (demo_state None) = []" "pr_Provider (demo_ref ''p'' ''m'') = demo_provider ''p'' ''m''" "pr_ForwardModel (demo_ref ''p'' ''m'') = ''m''"
    by (simp_all add: demo_env_def demo_handler_def demo_state_def demo_ref_def)
  show ?thesis
    using messages_ignores_policy [OF demo_accepted demo_request_sel(2) demo_pick [of "Some demo_strict_guard", folded demo_request_sel(1)] demo_credential(2),
        of "emptyCtx\<lparr>cx_AllowedModels := Some [''n'']\<rparr>" "demo_env demo_answer" demo_api new_writer "demo_state None", unfolded demo_session] block model
    unfolding demo_request_sel sel prompt by simp
qed

definition demo_truncated :: ChatCompletionResponse where
  "demo_truncated = (demo_response [])\<lparr>resp_Choices := [\<lparr>ch_Index = 0, ch_Message = (plain_message ''assistant'' [])\<lparr>msg_ToolCalls :=
     [demo_call\<lparr>tc_Function := \<lparr>fc_Name = ''f'', fc_Arguments = ''{''\<rparr>\<rparr>]\<rparr>, ch_FinishReason = ''length''\<rparr>]\<rparr>"

theorem messages_truncated_call_empty_body_witness:
  "\<exists>w' t s2. Messages (demo_env (\<lambda>_. Inr demo_truncated)) demo_api (demo_handler None) emptyCtx (Inr demo_messages_body) new_writer (demo_state None) =
       Answered w' (recordSpend (demo_env (\<lambda>_. Inr demo_truncated)) emptyCtx (tr_CostUSD t) (s2\<lparr>g_traces := g_traces s2 @ [t]\<rparr>))
     \<and> wr_Status w' = Some 200 \<and> wr_Body w' = []"
proof -
  have bad: "parse_json ''{'' = None" by code_simp
  obtain s2 where call: "call_chat (demo_env (\<lambda>_. Inr demo_truncated)) (pr_Provider (demo_ref ''p'' ''m'')) emptyCtx
      ((messagesToChat demo_messages_request)\<lparr>req_Model := pr_ForwardModel (demo_ref ''p'' ''m'')\<rparr>) (demo_state None) = (Inr demo_truncated, s2)"
    by (simp add: call_chat_def demo_env_def)
  have h: "h_recorder (demo_handler None)" "wr_Status new_writer = None" "wr_Body new_writer = []"
    by (simp_all add: demo_handler_def new_writer_def)
  have resp: "resp_Choices demo_truncated = [\<lparr>ch_Index = 0, ch_Message = (plain_message ''assistant'' [])\<lparr>msg_ToolCalls :=
     [demo_call\<lparr>tc_Function := \<lparr>fc_Name = ''f'', fc_Arguments = ''{''\<rparr>\<rparr>]\<rparr>, ch_FinishReason = ''length''\<rparr>]"
    by (simp add: demo_truncated_def)
  have "\<exists>w' t. Messages (demo_env (\<lambda>_. Inr demo_truncated)) demo_api (demo_handler None) emptyCtx (Inr demo_messages_body) new_writer (demo_state None) =
       Answered w' (recordSpend (demo_env (\<lambda>_. Inr demo_truncated)) emptyCtx (tr_CostUSD t) (s2\<lparr>g_traces := g_traces s2 @ [t]\<rparr>))
     \<and> wr_Status w' = Some 200 \<and> wr_Body w' = wr_Body new_writer"
    by (rule messages_truncated_call_empty_body [OF demo_accepted demo_request_sel(2) h(1,2) demo_pick [of None, folded demo_request_sel(1)]
          demo_credential(2), unfolded demo_session, OF call resp,
          where tc = "demo_call\<lparr>tc_Function := \<lparr>fc_Name = ''f'', fc_Arguments = ''{''\<rparr>\<rparr>"])
       (simp_all add: bad)
  then show ?thesis unfolding h(3) by blast
qed

end
