(* ===== verification/ResponsesWire.thy ===== *)
theory ResponsesWire
  imports MessagesWire Hybrid
begin

text \<open>
  The translation between the Responses API and chat completions (\<open>internal/gateway/responses.go\<close>, with
  the structs of \<open>types.go\<close>): the request body, its messages, and the answer. \<open>je\<close> is the text of a
  decoder error.
\<close>

section \<open>Structs\<close>

record ResponsesRequest =
  rr_Model :: string
  rr_Input :: string
  rr_Instructions :: string
  rr_Temperature :: "float64 option"
  rr_TopP :: "float64 option"
  rr_MaxOutputTokens :: "int option"
  rr_Stream :: bool
  rr_Tools :: "Tool list"
  rr_ToolChoice :: string
  rr_ParallelToolCalls :: "bool option"
  rr_Reasoning :: string
  rr_Text :: string
  rr_StreamOptions :: string
  rr_User :: string
  rr_NexusEval :: "NexusEvalContext option"

record ResponsesContent =
  rn_Type :: string
  rn_Text :: string

record ResponsesOutput =
  ro_Type :: string
  ro_ID :: string
  ro_CallID :: string
  ro_Name :: string
  ro_Arguments :: string
  ro_Input :: string
  ro_Role :: string
  ro_Status :: string
  ro_Content :: "ResponsesContent list"

record ResponsesUsage =
  ru_InputTokens :: int
  ru_OutputTokens :: int
  ru_TotalTokens :: int
  ru_CostUSD :: float64

record ResponsesResponse =
  rz_ID :: string
  rz_Object :: string
  rz_CreatedAt :: int
  rz_Model :: string
  rz_Status :: string
  rz_Output :: "ResponsesOutput list"
  rz_Usage :: ResponsesUsage

definition zero_ResponsesRequest :: ResponsesRequest where
  "zero_ResponsesRequest = \<lparr>rr_Model = [], rr_Input = [], rr_Instructions = [], rr_Temperature = None, rr_TopP = None,
     rr_MaxOutputTokens = None, rr_Stream = False, rr_Tools = [], rr_ToolChoice = [], rr_ParallelToolCalls = None, rr_Reasoning = [],
     rr_Text = [], rr_StreamOptions = [], rr_User = [], rr_NexusEval = None\<rparr>"

definition ResponsesRequest_fields :: "(string \<times> ResponsesRequest setter) list" where
  "ResponsesRequest_fields =
     [(''model'', set_string (\<lambda>x r. r\<lparr>rr_Model := x\<rparr>)),
      (''input'', set_raw (\<lambda>x r. r\<lparr>rr_Input := x\<rparr>)),
      (''instructions'', set_string (\<lambda>x r. r\<lparr>rr_Instructions := x\<rparr>)),
      (''temperature'', set_ptr to_float (\<lambda>x r. r\<lparr>rr_Temperature := x\<rparr>)),
      (''top_p'', set_ptr to_float (\<lambda>x r. r\<lparr>rr_TopP := x\<rparr>)),
      (''max_output_tokens'', set_ptr to_int (\<lambda>x r. r\<lparr>rr_MaxOutputTokens := x\<rparr>)),
      (''stream'', set_bool (\<lambda>x r. r\<lparr>rr_Stream := x\<rparr>)),
      (''tools'', set_list (\<lambda>raw _. Tool_UnmarshalJSON raw) (\<lambda>x r. r\<lparr>rr_Tools := x\<rparr>)),
      (''tool_choice'', set_raw (\<lambda>x r. r\<lparr>rr_ToolChoice := x\<rparr>)),
      (''parallel_tool_calls'', set_ptr to_bool (\<lambda>x r. r\<lparr>rr_ParallelToolCalls := x\<rparr>)),
      (''reasoning'', set_raw (\<lambda>x r. r\<lparr>rr_Reasoning := x\<rparr>)),
      (''text'', set_raw (\<lambda>x r. r\<lparr>rr_Text := x\<rparr>)),
      (''stream_options'', set_raw (\<lambda>x r. r\<lparr>rr_StreamOptions := x\<rparr>)),
      (''user'', set_string (\<lambda>x r. r\<lparr>rr_User := x\<rparr>)),
      (''nexus_eval'', set_ptr to_NexusEval (\<lambda>x r. r\<lparr>rr_NexusEval := x\<rparr>))]"

definition Unmarshal_ResponsesRequest :: "string \<Rightarrow> ResponsesRequest option" where
  "Unmarshal_ResponsesRequest = Unmarshal (to_struct ResponsesRequest_fields zero_ResponsesRequest)"

section \<open>The request\<close>

definition responses_item :: "InputItem \<Rightarrow> Message list" where
  "responses_item it =
     (if message_role (it_Role it) then [plain_message (it_Role it) (extractInputText (it_Content it))]
      else if it_Type it = ''function_call'' then
        [call_message (it_CallID it) (strings_TrimSpace (it_Name it)) (it_Arguments it)]
      else if it_Type it = ''function_call_output'' then
        [(plain_message ''tool'' (OutputString it))\<lparr>msg_ToolCallID := it_CallID it, msg_Name := it_Name it\<rparr>]
      else [])"

definition input_messages :: "(string \<Rightarrow> string) \<Rightarrow> string \<Rightarrow> string + Message list" where
  "input_messages je input =
     (let trimmed = strings_TrimSpace input in
      if trimmed = [] \<or> trimmed = ''null'' then Inl ''input is required''
      else if hd trimmed = quote_char then
        (case Unmarshal to_string input of None \<Rightarrow> Inl (''input string decode: '' @ je input) | Some s \<Rightarrow> Inr [plain_message ''user'' s])
      else if hd trimmed \<noteq> CHR ''['' then Inl ''input must be a string or an array of items''
      else (case Unmarshal_items input of
              None \<Rightarrow> Inl (''input array decode: '' @ je input)
            | Some items \<Rightarrow> Inr (concat (map responses_item items))))"

text \<open>With an error the code also returns the request built so far, which no caller uses.\<close>

definition responsesToChat :: "(string \<Rightarrow> string) \<Rightarrow> ResponsesRequest \<Rightarrow> string + ChatCompletionRequest" where
  "responsesToChat je req =
     (case input_messages je (rr_Input req) of
        Inl err \<Rightarrow> Inl err
      | Inr msgs \<Rightarrow> Inr (zero_ChatCompletionRequest
          \<lparr>req_Model := rr_Model req, req_Temperature := rr_Temperature req, req_TopP := rr_TopP req, req_MaxTokens := rr_MaxOutputTokens req,
           req_Stream := rr_Stream req, req_Tools := rr_Tools req, req_User := rr_User req, req_NexusEval := rr_NexusEval req,
           req_Messages := (if rr_Instructions req \<noteq> [] then [plain_message ''system'' (rr_Instructions req)] else []) @ msgs\<rparr>))"

section \<open>The answer\<close>

definition responses_call :: "string \<Rightarrow> ToolCall \<Rightarrow> ResponsesOutput" where
  "responses_call uuid tc =
     (if tc_Type tc = ''custom'' then
        \<lparr>ro_Type = ''custom_tool_call'', ro_ID = ''ctc_'' @ firstNonEmpty (tc_ID tc) uuid, ro_CallID = tc_ID tc, ro_Name = cc_Name (tc_Custom tc),
         ro_Arguments = [], ro_Input = cc_Input (tc_Custom tc), ro_Role = [], ro_Status = ''completed'', ro_Content = []\<rparr>
      else
        \<lparr>ro_Type = ''function_call'', ro_ID = ''fc_'' @ firstNonEmpty (tc_ID tc) uuid, ro_CallID = tc_ID tc, ro_Name = fc_Name (tc_Function tc),
         ro_Arguments = fc_Arguments (tc_Function tc), ro_Input = [], ro_Role = [], ro_Status = ''completed'', ro_Content = []\<rparr>)"

text \<open>\<open>uuid n\<close> is the \<open>n\<close>-th identifier that is drawn, \<open>now\<close> the Unix time.\<close>

definition chatToResponses :: "(nat \<Rightarrow> string) \<Rightarrow> int \<Rightarrow> ChatCompletionResponse \<Rightarrow> ResponsesRequest \<Rightarrow> ResponsesResponse" where
  "chatToResponses uuid now c req =
     (let out = \<lparr>rz_ID = firstNonEmpty (resp_ID c) (''resp_'' @ uuid 0), rz_Object = ''response'', rz_CreatedAt = firstNonZero (resp_Created c) now,
            rz_Model = firstNonEmpty (resp_Model c) (rr_Model req), rz_Status = ''completed'', rz_Output = [],
            rz_Usage = \<lparr>ru_InputTokens = us_PromptTokens (resp_Usage c), ru_OutputTokens = us_CompletionTokens (resp_Usage c),
              ru_TotalTokens = us_TotalTokens (resp_Usage c), ru_CostUSD = us_CostUSD (resp_Usage c)\<rparr>\<rparr> in
      case resp_Choices c of
        [] \<Rightarrow> out
      | ch # _ \<Rightarrow>
          let calls = msg_ToolCalls (ch_Message ch); txt = msg_Content (ch_Message ch) in
          out\<lparr>rz_Output := map (\<lambda>(n, tc). responses_call (uuid n) tc) (List.enumerate 1 calls) @
            (if txt \<noteq> []
             then [\<lparr>ro_Type = ''message'', ro_ID = ''msg_'' @ uuid (length calls + 1), ro_CallID = [], ro_Name = [], ro_Arguments = [], ro_Input = [],
                    ro_Role = ''assistant'', ro_Status = ''completed'', ro_Content = [\<lparr>rn_Type = ''output_text'', rn_Text = txt\<rparr>]\<rparr>]
             else [])\<rparr>)"

section \<open>The answer as JSON\<close>

definition omit_empty :: "string \<Rightarrow> string \<Rightarrow> (string \<times> goval) list" where
  "omit_empty k v = (if v = [] then [] else [(k, VStr v)])"

definition ResponsesContent_value :: "ResponsesContent \<Rightarrow> goval" where
  "ResponsesContent_value p = VObj ([(''type'', VStr (rn_Type p))] @ omit_empty ''text'' (rn_Text p))"

definition ResponsesOutput_value :: "ResponsesOutput \<Rightarrow> goval" where
  "ResponsesOutput_value x = VObj ([(''type'', VStr (ro_Type x))] @ omit_empty ''id'' (ro_ID x) @ omit_empty ''call_id'' (ro_CallID x) @
     omit_empty ''name'' (ro_Name x) @ omit_empty ''arguments'' (ro_Arguments x) @ omit_empty ''input'' (ro_Input x) @
     omit_empty ''role'' (ro_Role x) @ omit_empty ''status'' (ro_Status x) @
     (if ro_Content x = [] then [] else [(''content'', VList (map ResponsesContent_value (ro_Content x)))]))"

definition ResponsesUsage_value :: "ResponsesUsage \<Rightarrow> goval" where
  "ResponsesUsage_value u = VObj ([(''input_tokens'', VInt (ru_InputTokens u)), (''output_tokens'', VInt (ru_OutputTokens u)),
     (''total_tokens'', VInt (ru_TotalTokens u))] @ (if ru_CostUSD u = 0 then [] else [(''cost_usd'', VFloat (ru_CostUSD u))]))"

definition ResponsesResponse_value :: "ResponsesResponse \<Rightarrow> goval" where
  "ResponsesResponse_value r = VObj [(''id'', VStr (rz_ID r)), (''object'', VStr (rz_Object r)), (''created_at'', VInt (rz_CreatedAt r)),
     (''model'', VStr (rz_Model r)), (''status'', VStr (rz_Status r)),
     (''output'', if rz_Output r = [] then VNull else VList (map ResponsesOutput_value (rz_Output r))),
     (''usage'', ResponsesUsage_value (rz_Usage r))]"

definition Tool_value :: "Tool \<Rightarrow> goval" where
  "Tool_value t = VObj ([(''type'', VStr (tool_Type t))] @
     (if tool_Function t = [] then [] else [(''function'', VRaw (tool_Function t))]) @
     (if tool_Custom t = [] then [] else [(''custom'', VRaw (tool_Custom t))]))"

section \<open>Facts\<close>

lemma responsesToChat_sel:
  assumes "responsesToChat je req = Inr chat"
  shows "req_Model chat = rr_Model req" "req_Stream chat = rr_Stream req"
  using assms by (auto simp: responsesToChat_def split: sum.splits)

end
