(* ===== verification/ResponsesApi.thy ===== *)
theory ResponsesApi
  imports MessagesApi ResponsesWire
begin

text \<open>
  The handler of \<open>POST /v1/responses\<close> (\<open>internal/gateway/responses.go\<close>): the unary path and the stream. An
  event is a value of \<open>resp_event\<close>; \<open>resp_payload\<close> gives its name and data. The theorems say that the
  fragments of an item are joined in the event that closes it, what a stream records and charges, and
  what the client sees when no provider answers.
\<close>

section \<open>Events\<close>

record RespTool =
  rt_itemType :: string
  rt_itemID :: string
  rt_callID :: string
  rt_boundID :: bool
  rt_name :: string
  rt_offset :: int
  rt_arguments :: string

datatype resp_event =
    RespCreated
  | TextAdded
  | TextFragment string
  | ToolAdded RespTool
  | ArgsFragment string int string
  | RespFailed string
  | TextDone string
  | TextItemDone string string
  | ArgsDone RespTool string
  | ToolItemDone RespTool string
  | RespCompleted goval

text \<open>What the events of one response share: the drawn identifier, the time and the model.\<close>

record RespIds =
  ri_uuid :: string
  ri_createdAt :: int
  ri_model :: string

abbreviation respID :: "RespIds \<Rightarrow> string" where "respID ids \<equiv> ''resp_'' @ ri_uuid ids"
abbreviation msgID :: "RespIds \<Rightarrow> string" where "msgID ids \<equiv> ''msg_'' @ ri_uuid ids"

definition text_content :: "string \<Rightarrow> goval" where
  "text_content t = VList [VMap [(''type'', VStr ''output_text''), (''text'', VStr t)]]"

definition tool_payload :: "RespTool \<Rightarrow> string \<Rightarrow> goval" where
  "tool_payload p status = VMap [(''type'', VStr (rt_itemType p)), (''id'', VStr (rt_itemID p)), (''call_id'', VStr (rt_callID p)),
     (''output_index'', VInt (rt_offset p)), (''name'', VStr (rt_name p)), (''arguments'', VStr (rt_arguments p)),
     (''input'', VStr (rt_arguments p)), (''status'', VStr status)]"

fun resp_payload :: "RespIds \<Rightarrow> resp_event \<Rightarrow> string \<times> goval" where
  "resp_payload ids RespCreated = (''response.created'', VMap [(''id'', VStr (respID ids)), (''object'', VStr ''response''),
     (''model'', VStr (ri_model ids)), (''created_at'', VInt (ri_createdAt ids)), (''status'', VStr ''in_progress'')])"
| "resp_payload ids TextAdded = (''response.output_item.added'', VMap [(''type'', VStr ''message''), (''output_index'', VInt 0),
     (''id'', VStr (msgID ids)), (''role'', VStr ''assistant''), (''status'', VStr ''in_progress''), (''content'', VList [])])"
| "resp_payload ids (TextFragment t) = (''response.output_text.delta'', VMap [(''item_id'', VStr (msgID ids)), (''output_index'', VInt 0),
     (''content_index'', VInt 0), (''delta'', VStr t), (''logprobs'', VList [])])"
| "resp_payload ids (ToolAdded p) = (''response.output_item.added'', VMap [(''type'', VStr (rt_itemType p)), (''output_index'', VInt (rt_offset p)),
     (''id'', VStr (rt_itemID p)), (''call_id'', VStr (rt_callID p)), (''name'', VStr (rt_name p)), (''arguments'', VStr []), (''input'', VStr []),
     (''status'', VStr ''in_progress'')])"
| "resp_payload ids (ArgsFragment item offset t) = (''response.function_call_arguments.delta'', VMap [(''item_id'', VStr item),
     (''output_index'', VInt offset), (''delta'', VStr t)])"
| "resp_payload ids (RespFailed err) = (''response.failed'', VMap [(''response'', VMap [(''id'', VStr (respID ids)), (''object'', VStr ''response''),
     (''status'', VStr ''failed''), (''created_at'', VInt (ri_createdAt ids)), (''model'', VStr (ri_model ids)), (''output'', VList []),
     (''error'', VMap [(''message'', VStr err), (''type'', VStr ''stream_error'')])])])"
| "resp_payload ids (TextDone t) = (''response.output_text.done'', VMap [(''item_id'', VStr (msgID ids)), (''output_index'', VInt 0),
     (''content_index'', VInt 0), (''text'', VStr t)])"
| "resp_payload ids (TextItemDone t status) = (''response.output_item.done'', VMap [(''type'', VStr ''message''), (''output_index'', VInt 0),
     (''id'', VStr (msgID ids)), (''role'', VStr ''assistant''), (''status'', VStr status), (''content'', text_content t)])"
| "resp_payload ids (ArgsDone p status) = (''response.function_call_arguments.done'', tool_payload p status)"
| "resp_payload ids (ToolItemDone p status) = (''response.output_item.done'', tool_payload p status)"
| "resp_payload ids (RespCompleted v) = (''response.completed'', VMap [(''response'', v)])"

section \<open>Assembling items\<close>

text \<open>The local \<open>state\<close>, with the trace and the events emitted so far. \<open>rs_text\<close> is the buffer of the text
  item; its identifier is always \<open>msgID\<close> and its index 0.\<close>

record RespState =
  rs_text :: "string option"
  rs_tools :: "(int, RespTool) gomap"
  rs_order :: "int list"
  rs_textTaken :: bool
  rs_usage :: Usage
  rs_hasUsage :: bool
  rs_finish :: string
  rs_trace :: Trace
  rs_events :: "resp_event list"

definition resp_init :: "Trace \<Rightarrow> RespState" where
  "resp_init t = \<lparr>rs_text = None, rs_tools = [], rs_order = [], rs_textTaken = False, rs_usage = zero_Usage, rs_hasUsage = False,
     rs_finish = [], rs_trace = t, rs_events = [RespCreated]\<rparr>"

definition resp_emit :: "resp_event \<Rightarrow> RespState \<Rightarrow> RespState" where
  "resp_emit e st = st\<lparr>rs_events := rs_events st @ [e]\<rparr>"

definition resp_text :: "string \<Rightarrow> RespState \<Rightarrow> RespState" where
  "resp_text content st =
     (if content = [] then st
      else
        let st = (if rs_text st = None then (resp_emit TextAdded (st\<lparr>rs_text := Some []\<rparr>))\<lparr>rs_textTaken := True\<rparr> else st)
        in resp_emit (TextFragment content) (st\<lparr>rs_text := map_option (\<lambda>b. b @ content) (rs_text st)\<rparr>))"

definition resp_item_type :: "ToolCall \<Rightarrow> string" where
  "resp_item_type tc = (if tc_Type tc = ''custom'' then ''custom_tool_call'' else ''function_call'')"

definition new_tool :: "Api \<Rightarrow> RespIds \<Rightarrow> nat \<Rightarrow> int \<Rightarrow> int \<Rightarrow> ToolCall \<Rightarrow> RespTool" where
  "new_tool ap ids n idx offset tc =
     \<lparr>rt_itemType = resp_item_type tc,
      rt_itemID = (if resp_item_type tc = ''custom_tool_call'' then ''ctc_'' else ''fc_'') @ ri_uuid ids @ ''_'' @ itoa idx,
      rt_callID = (if tc_ID tc \<noteq> [] then tc_ID tc else ''call_'' @ ap_uuid ap n), rt_boundID = (tc_ID tc \<noteq> []),
      rt_name = (if tc_Type tc = ''custom'' then cc_Name (tc_Custom tc) else fc_Name (tc_Function tc)), rt_offset = offset, rt_arguments = []\<rparr>"

text \<open>A later fragment may bring the identifier and the name of its call.\<close>

definition rebind :: "ToolCall \<Rightarrow> RespTool \<Rightarrow> RespTool" where
  "rebind tc p =
     (let p = (if tc_ID tc \<noteq> [] then p\<lparr>rt_callID := tc_ID tc, rt_boundID := True\<rparr> else p) in
      if tc_Type tc = ''custom'' \<and> cc_Name (tc_Custom tc) \<noteq> [] then p\<lparr>rt_name := cc_Name (tc_Custom tc)\<rparr>
      else if tc_Type tc \<noteq> ''custom'' \<and> fc_Name (tc_Function tc) \<noteq> [] then p\<lparr>rt_name := fc_Name (tc_Function tc)\<rparr>
      else p)"

definition bind_tool :: "Api \<Rightarrow> RespIds \<Rightarrow> int \<Rightarrow> int \<Rightarrow> ToolCall \<Rightarrow> RespState \<Rightarrow> RespState" where
  "bind_tool ap ids idx offset tc st =
     (case gomap_get (rs_tools st) idx of
        None \<Rightarrow>
          let p = new_tool ap ids (length (rs_order st) + 1) idx offset tc
          in resp_emit (ToolAdded p) (st\<lparr>rs_tools := gomap_set idx p (rs_tools st), rs_order := rs_order st @ [idx]\<rparr>)
      | Some p \<Rightarrow> st\<lparr>rs_tools := gomap_set idx (rebind tc p) (rs_tools st)\<rparr>)"

definition add_args :: "int \<Rightarrow> string \<Rightarrow> RespState \<Rightarrow> RespState" where
  "add_args idx t st =
     (if t = [] then st
      else (case gomap_get (rs_tools st) idx of
              None \<Rightarrow> st
            | Some p \<Rightarrow> resp_emit (ArgsFragment (rt_itemID p) (rt_offset p) t)
                (st\<lparr>rs_tools := gomap_set idx (p\<lparr>rt_arguments := rt_arguments p @ t\<rparr>) (rs_tools st)\<rparr>)))"

definition resp_tool :: "Api \<Rightarrow> RespIds \<Rightarrow> ToolCall \<Rightarrow> RespState \<Rightarrow> RespState" where
  "resp_tool ap ids tc st =
     (let idx = or_zero 0 (tc_Index tc);
          offset = (if rs_textTaken st then idx + 1 else idx);
          st = add_args idx (fc_Arguments (tc_Function tc)) (bind_tool ap ids idx offset tc st)
      in if tc_Type tc = ''custom'' then add_args idx (cc_Input (tc_Custom tc)) st else st)"

definition resp_choice :: "Api \<Rightarrow> RespIds \<Rightarrow> ChunkChoice \<Rightarrow> RespState \<Rightarrow> RespState" where
  "resp_choice ap ids dc st =
     (let st = fold (resp_tool ap ids) (dl_ToolCalls (ck_Delta dc)) (resp_text (dl_Content (ck_Delta dc)) st)
      in if ck_FinishReason dc \<noteq> [] then st\<lparr>rs_finish := ck_FinishReason dc\<rparr> else st)"

definition resp_usage :: "Usage option \<Rightarrow> RespState \<Rightarrow> RespState" where
  "resp_usage u st =
     (case u of None \<Rightarrow> st
      | Some u \<Rightarrow> st\<lparr>rs_usage := u, rs_hasUsage := True,
          rs_trace := (rs_trace st)\<lparr>tr_InputTokens := us_PromptTokens u, tr_OutputTokens := us_CompletionTokens u\<rparr>\<rparr>)"

text \<open>The loop over the events of the provider; the flag of the result says whether it ended with an error.
  \<open>late\<close> is the latency at the end.\<close>

fun resp_relay ::
  "('u, 'c, 'l, 're, 'doc, 'schema) Env \<Rightarrow> Api \<Rightarrow> RespIds \<Rightarrow> int \<Rightarrow> bool \<Rightarrow> StreamEvent list \<Rightarrow> RespState \<Rightarrow> RespState \<times> bool" where
  "resp_relay env ap ids late firstChunk [] st = (st, False)"
| "resp_relay env ap ids late firstChunk (evt # evs) st =
     (case sev_Err evt of
        Some err \<Rightarrow>
          (let t = (rs_trace st)\<lparr>tr_LatencyMs := late, tr_ErrorType := ''stream_error'', tr_ErrorMsg := err\<rparr>;
               t = (if firstChunk then t else t\<lparr>tr_StatusCode := 502\<rparr>)
           in (resp_emit (RespFailed err) (st\<lparr>rs_trace := t\<rparr>), True))
      | None \<Rightarrow>
          if sev_Done evt then (st, False)
          else (case sev_Chunk evt of
                  None \<Rightarrow> resp_relay env ap ids late firstChunk evs st
                | Some ch \<Rightarrow>
                    let st = (if firstChunk then st else st\<lparr>rs_trace := (rs_trace st)\<lparr>tr_TTFTMillis := ev_ttft env\<rparr>\<rparr>)
                    in resp_relay env ap ids late True evs (fold (resp_choice ap ids) (chunk_Choices ch) (resp_usage (chunk_Usage ch) st))))"

section \<open>Completion\<close>

text \<open>\<open>writeCompleted\<close>. The tools are given as a \<open>[]byte\<close>. \<open>isStreaming\<close> is a variable of the handler that is
  never assigned again.\<close>

definition message_output :: "RespIds \<Rightarrow> string \<Rightarrow> RespState \<Rightarrow> goval list" where
  "message_output ids status st =
     (case rs_text st of
        Some b \<Rightarrow> if b = [] then [] else [VMap [(''type'', VStr ''message''), (''id'', VStr (msgID ids)), (''role'', VStr ''assistant''),
                     (''status'', VStr status), (''content'', text_content b)]]
      | None \<Rightarrow> [])"

definition ordered_tools :: "RespState \<Rightarrow> RespTool list" where
  "ordered_tools st = List.map_filter (gomap_get (rs_tools st)) (rs_order st)"

definition completed_value :: "RespIds \<Rightarrow> ResponsesRequest \<Rightarrow> bool \<Rightarrow> string \<Rightarrow> RespState \<Rightarrow> goval" where
  "completed_value ids req isStreaming status st = VMap
     [(''id'', VStr (respID ids)), (''object'', VStr ''response''), (''created_at'', VInt (ri_createdAt ids)), (''model'', VStr (ri_model ids)),
      (''status'', VStr status), (''instructions'', VStr (rr_Instructions req)),
      (''parallel_tool_calls'', VBool (if isStreaming then True else or_zero True (rr_ParallelToolCalls req))),
      (''tools'', if rr_Tools req = [] then VRaw ''[]''
                  else (case Marshal (\<lambda>_. []) (VList (map Tool_value (rr_Tools req))) of Some raw \<Rightarrow> VBytes raw | None \<Rightarrow> VRaw ''[]'')),
      (''output'', VList (message_output ids status st @ map (\<lambda>p. tool_payload p status) (ordered_tools st))),
      (''usage'', ResponsesUsage_value
         (if rs_hasUsage st
          then \<lparr>ru_InputTokens = us_PromptTokens (rs_usage st), ru_OutputTokens = us_CompletionTokens (rs_usage st),
                ru_TotalTokens = us_TotalTokens (rs_usage st), ru_CostUSD = tr_CostUSD (rs_trace st)\<rparr>
          else \<lparr>ru_InputTokens = 0, ru_OutputTokens = 0, ru_TotalTokens = 0, ru_CostUSD = 0\<rparr>)),
      (''error'', VNull)]"

definition resp_truncated :: "RespState \<Rightarrow> bool" where
  "resp_truncated st \<longleftrightarrow> rs_finish st = [] \<and> (rs_text st \<noteq> None \<or> length (rs_order st) > 0)"

definition final_status :: "RespState \<Rightarrow> string" where
  "final_status st = (if resp_truncated st then ''incomplete'' else ''completed'')"

definition final_trace :: "string \<Rightarrow> int \<Rightarrow> RespState \<Rightarrow> Trace" where
  "final_trace model late st =
     (let t = rs_trace st;
          t = (if resp_truncated st then t\<lparr>tr_ErrorType := ''stream_truncated''\<rparr> else t);
          t = (case rs_text st of None \<Rightarrow> t | Some b \<Rightarrow> t\<lparr>tr_OutputMessages := b\<rparr>);
          t = t\<lparr>tr_StatusCode := 200, tr_LatencyMs := late\<rparr>
      in t\<lparr>tr_CostUSD := ResolveCostUSD (us_EstimatedCost (rs_usage st)) model (tr_ResponseModel t) (Some (rs_usage st))\<rparr>)"

definition resp_close :: "RespIds \<Rightarrow> ResponsesRequest \<Rightarrow> RespState \<Rightarrow> resp_event list" where
  "resp_close ids req st =
     (let status = final_status st in
      (case rs_text st of Some b \<Rightarrow> if b = [] then [] else [TextDone b, TextItemDone b status] | None \<Rightarrow> []) @
      concat (map (\<lambda>p. [ArgsDone p status, ToolItemDone p status]) (ordered_tools st)) @
      [RespCompleted (completed_value ids req True status st)])"

section \<open>The handler\<close>

fun resp_open ::
  "('u, 'c, 'l, 're, 'doc, 'schema) Env \<Rightarrow> Api \<Rightarrow> 're Handler \<Rightarrow> Ctx \<Rightarrow> RespIds \<Rightarrow> ChatCompletionRequest \<Rightarrow> int \<Rightarrow> nat \<Rightarrow> providerRef list \<Rightarrow>
     RespState \<Rightarrow> ('u, 'c, 'l) GState \<Rightarrow> RespState \<times> bool \<times> ('u, 'c, 'l) GState" where
  "resp_open env ap h ctx ids req late i [] st s = (st, False, s)"
| "resp_open env ap h ctx ids req late i (p # ps) st s =
     (case stream_credential env h ctx (tr_CredentialSource (rs_trace st)) (pv_Name (pr_Provider p)) s of
        (callCtx, credSource, s) \<Rightarrow>
          let st = st\<lparr>rs_trace := (rs_trace st)\<lparr>tr_CredentialSource := credSource\<rparr>\<rparr> in
          (case call_stream env (pr_Provider p) callCtx (req\<lparr>req_Model := pr_ForwardModel p\<rparr>) s of
             (Inl err, s) \<Rightarrow>
               resp_open env ap h ctx ids req late (i + 1) ps
                 (st\<lparr>rs_trace := (rs_trace st)\<lparr>tr_LatencyMs := ev_latency env i, tr_StatusCode := 502,
                      tr_ErrorType := ''upstream_error_failover'', tr_ErrorMsg := err\<rparr>\<rparr>) s
           | (Inr events, s) \<Rightarrow> (case resp_relay env ap ids late False events st of (st, failed) \<Rightarrow> (st, failed, s))))"

definition write_resp_events :: "Api \<Rightarrow> RespIds \<Rightarrow> resp_event list \<Rightarrow> gw_body Writer \<Rightarrow> gw_body Writer" where
  "write_resp_events ap ids evs w = fold (\<lambda>e. write_event (ap_float ap) (resp_payload ids e)) evs w"

definition handleResponsesStream ::
  "('u, 'c, 'l, 're, 'doc, 'schema) Env \<Rightarrow> Api \<Rightarrow> 're Handler \<Rightarrow> Ctx \<Rightarrow> ResponsesRequest \<Rightarrow> gw_body Writer \<Rightarrow>
     ('u, 'c, 'l) GState \<Rightarrow> ('u, 'c, 'l) turn" where
  "handleResponsesStream env ap h ctx respReq w s =
     (case responsesToChat (ap_jsonErr ap) respReq of
        Inl err \<Rightarrow> Answered (writeError ctx 400 ''invalid_request_error'' err w) s
      | Inr chatReq \<Rightarrow>
          (case pickResponsesChain h (req_Model chatReq) of
             Some (p # ps) \<Rightarrow>
               if \<not> ap_flusher ap then Answered (writeError ctx 500 ''internal_error'' ''streaming unsupported'' w) s
               else
                 let ids = \<lparr>ri_uuid = ap_uuid ap 0, ri_createdAt = ap_unix ap, ri_model = req_Model chatReq\<rparr>;
                     late = ev_latency env (length (p # ps));
                     t = (newTrace env h ctx chatReq (pv_Name (pr_Provider p)) 0)\<lparr>tr_Streamed := True\<rparr> in
                 (case resp_open env ap h ctx ids chatReq late 0 (p # ps) (resp_init t) s of
                    (st, True, s) \<Rightarrow>
                      (case record_trace h (rs_trace st) s of
                         None \<Rightarrow> Panicked s
                       | Some s \<Rightarrow> Answered (write_resp_events ap ids (rs_events st) (stream_head w)) s)
                  | (st, False, s) \<Rightarrow>
                      let t = final_trace (req_Model chatReq) late st;
                          st = st\<lparr>rs_trace := t\<rparr> in
                      (case record_trace h t s of
                         None \<Rightarrow> Panicked s
                       | Some s \<Rightarrow>
                           Answered (setCostTrailer env (tr_CostUSD t)
                               (write_resp_events ap ids (rs_events st @ resp_close ids respReq st) (stream_head w)))
                             (recordSpend env ctx (tr_CostUSD t) s)))
           | _ \<Rightarrow> Answered (writeError ctx 502 ''upstream_error'' (''no provider for model '' @ req_Model chatReq) w) s))"

definition Responses ::
  "('u, 'c, 'l, 're, 'doc, 'schema) Env \<Rightarrow> Api \<Rightarrow> 're Handler \<Rightarrow> Ctx \<Rightarrow> string + string \<Rightarrow> gw_body Writer \<Rightarrow>
     ('u, 'c, 'l) GState \<Rightarrow> ('u, 'c, 'l) turn" where
  "Responses env ap h ctx body w s =
     (case body of
        Inl err \<Rightarrow> Answered (writeError ctx 400 ''invalid_request_error'' (''cannot read body: '' @ err) w) s
      | Inr rawBody \<Rightarrow>
          (case Unmarshal_ResponsesRequest rawBody of
             None \<Rightarrow> Answered (writeError ctx 400 ''invalid_request_error'' (''invalid JSON body: '' @ ap_jsonErr ap rawBody) w) s
           | Some req \<Rightarrow>
               if rr_Model req = [] then Answered (writeError ctx 400 ''invalid_request_error'' ''model is required'' w) s
               else
                 let ctx = session_ctx rawBody ctx in
                 (case responsesToChat (ap_jsonErr ap) req of
                    Inl err \<Rightarrow> Answered (writeError ctx 400 ''invalid_request_error'' err w) s
                  | Inr chatReq \<Rightarrow>
                      if rr_Stream req then handleResponsesStream env ap h ctx req w s
                      else (case executeResponsesUnary env ap h ctx chatReq s of
                              (None, _, s) \<Rightarrow> Answered (writeError ctx 502 ''upstream_error'' ''all candidate providers failed'' w) s
                            | (Some resp, trace, s) \<Rightarrow>
                                settle_unary env h ctx (req_Model chatReq) resp trace
                                  (\<lambda>resp. write_value (ap_float ap) 200
                                     (ResponsesResponse_value (chatToResponses (ap_uuid ap) (ap_unix ap) resp req))) w s))))"

section \<open>Joined fragments\<close>

text \<open>What a client can read off the events: the fragments of an item, the items that were added, and those
  that were closed with their arguments.\<close>

definition fragments :: "string \<Rightarrow> resp_event list \<Rightarrow> string" where
  "fragments item evs = concat (List.map_filter (\<lambda>e. case e of ArgsFragment i _ t \<Rightarrow> if i = item then Some t else None | _ \<Rightarrow> None) evs)"

definition text_fragments :: "resp_event list \<Rightarrow> string" where
  "text_fragments evs = concat (List.map_filter (\<lambda>e. case e of TextFragment t \<Rightarrow> Some t | _ \<Rightarrow> None) evs)"

definition added :: "resp_event list \<Rightarrow> string list" where
  "added evs = List.map_filter (\<lambda>e. case e of ToolAdded p \<Rightarrow> Some (rt_itemID p) | _ \<Rightarrow> None) evs"

definition closed_items :: "resp_event list \<Rightarrow> (string \<times> string) list" where
  "closed_items evs = List.map_filter (\<lambda>e. case e of ToolItemDone p _ \<Rightarrow> Some (rt_itemID p, rt_arguments p) | _ \<Rightarrow> None) evs"

definition closed_texts :: "resp_event list \<Rightarrow> string list" where
  "closed_texts evs = List.map_filter (\<lambda>e. case e of TextItemDone t _ \<Rightarrow> Some t | _ \<Rightarrow> None) evs"

lemmas readings = fragments_def text_fragments_def added_def closed_items_def closed_texts_def

lemma readings_append [simp]:
  "fragments item (xs @ ys) = fragments item xs @ fragments item ys"
  "text_fragments (xs @ ys) = text_fragments xs @ text_fragments ys"
  "added (xs @ ys) = added xs @ added ys"
  "closed_items (xs @ ys) = closed_items xs @ closed_items ys"
  "closed_texts (xs @ ys) = closed_texts xs @ closed_texts ys"
  by (simp_all add: readings List.map_filter_def)

lemma readings_one [simp]:
  "fragments item [e] = (case e of ArgsFragment i _ t \<Rightarrow> if i = item then t else [] | _ \<Rightarrow> [])"
  "text_fragments [e] = (case e of TextFragment t \<Rightarrow> t | _ \<Rightarrow> [])"
  "added [e] = (case e of ToolAdded p \<Rightarrow> [rt_itemID p] | _ \<Rightarrow> [])"
  "closed_items [e] = (case e of ToolItemDone p _ \<Rightarrow> [(rt_itemID p, rt_arguments p)] | _ \<Rightarrow> [])"
  "closed_texts [e] = (case e of TextItemDone t _ \<Rightarrow> [t] | _ \<Rightarrow> [])"
  by (simp_all add: readings List.map_filter_def split: resp_event.split)

lemma itoa_inj: "itoa i = itoa j \<Longrightarrow> i = j"
proof -
  assume eq: "itoa i = itoa j"
  have head: "CHR ''-'' # r \<noteq> strconv_Itoa n" for r n
    using strconv_Itoa_head [of n] by (auto simp: is_digit_def)
  then show ?thesis using eq head [symmetric]
    by (auto simp: itoa_def strconv_Itoa_inj split: if_splits)
qed

definition item_id :: "RespIds \<Rightarrow> int \<Rightarrow> string \<Rightarrow> bool" where
  "item_id ids i x \<longleftrightarrow> x = ''ctc_'' @ ri_uuid ids @ ''_'' @ itoa i \<or> x = ''fc_'' @ ri_uuid ids @ ''_'' @ itoa i"

lemma item_id_inj: "item_id ids i x \<Longrightarrow> item_id ids j x \<Longrightarrow> i = j"
  using itoa_inj by (auto simp: item_id_def)

text \<open>The invariant of the relay.\<close>

definition tool_id :: "RespState \<Rightarrow> int \<Rightarrow> string" where
  "tool_id st i = (case gomap_get (rs_tools st) i of Some p \<Rightarrow> rt_itemID p | None \<Rightarrow> [])"

definition tools_joined :: "RespIds \<Rightarrow> RespState \<Rightarrow> bool" where
  "tools_joined ids st \<longleftrightarrow> distinct (rs_order st) \<and> set (rs_order st) = dom (map_of (rs_tools st))
     \<and> (\<forall>i p. gomap_get (rs_tools st) i = Some p \<longrightarrow> item_id ids i (rt_itemID p) \<and> rt_arguments p = fragments (rt_itemID p) (rs_events st))
     \<and> added (rs_events st) = map (tool_id st) (rs_order st)
     \<and> (\<forall>x. fragments x (rs_events st) \<noteq> [] \<longrightarrow> x \<in> set (added (rs_events st)))
     \<and> closed_items (rs_events st) = []"

definition joined :: "RespIds \<Rightarrow> RespState \<Rightarrow> bool" where
  "joined ids st \<longleftrightarrow> tools_joined ids st \<and> text_fragments (rs_events st) = or_zero [] (rs_text st) \<and> closed_texts (rs_events st) = []"

lemma tools_joined_frame:
  assumes "tools_joined ids st" "rs_order st' = rs_order st" "rs_tools st' = rs_tools st"
    and "added (rs_events st') = added (rs_events st)" "\<And>x. fragments x (rs_events st') = fragments x (rs_events st)"
    and "closed_items (rs_events st') = closed_items (rs_events st)"
  shows "tools_joined ids st'"
proof -
  have t: "tool_id st' = tool_id st" using assms(3) by (simp add: fun_eq_iff tool_id_def)
  show ?thesis using assms(1) unfolding tools_joined_def t assms(2-6) .
qed

lemma joined_frame:
  assumes "joined ids st" "rs_order st' = rs_order st" "rs_tools st' = rs_tools st" "rs_text st' = rs_text st"
    and "rs_events st' = rs_events st @ evs" "added evs = []" "\<And>x. fragments x evs = []" "closed_items evs = []"
    and "text_fragments evs = []" "closed_texts evs = []"
  shows "joined ids st'"
  using assms tools_joined_frame [of ids st st'] by (simp add: joined_def)

lemma joined_resp_text: "joined ids st \<Longrightarrow> joined ids (resp_text c st)"
proof -
  assume j: "joined ids st"
  have "tools_joined ids (resp_text c st)"
    by (rule tools_joined_frame [of ids st]) (use j in \<open>auto simp: joined_def resp_text_def resp_emit_def Let_def\<close>)
  with j show ?thesis by (auto simp: joined_def resp_text_def resp_emit_def Let_def split: option.split)
qed
lemma joined_bind_tool:
  assumes j: "joined ids st"
  shows "joined ids (bind_tool ap ids idx offset tc st)" "gomap_get (rs_tools (bind_tool ap ids idx offset tc st)) idx \<noteq> None"
proof -
  show "gomap_get (rs_tools (bind_tool ap ids idx offset tc st)) idx \<noteq> None"
    by (auto simp: bind_tool_def resp_emit_def gomap Let_def split: option.split)
  note tj = j [unfolded joined_def tools_joined_def]
  have "tools_joined ids (bind_tool ap ids idx offset tc st)"
  proof (cases "gomap_get (rs_tools st) idx")
    case None
    let ?p = "new_tool ap ids (length (rs_order st) + 1) idx offset tc"
    have p: "item_id ids idx (rt_itemID ?p)" "rt_arguments ?p = []" by (auto simp: new_tool_def item_id_def)
    have new: "idx \<notin> set (rs_order st)" using None tj by auto
    have "rt_itemID ?p \<notin> set (added (rs_events st))"
    proof
      assume "rt_itemID ?p \<in> set (added (rs_events st))"
      then obtain i where i: "i \<in> set (rs_order st)" "rt_itemID ?p = tool_id st i" using tj by auto
      then obtain q where q: "gomap_get (rs_tools st) i = Some q" using tj by auto
      then have "item_id ids i (rt_itemID q)" "tool_id st i = rt_itemID q" using tj by (blast, simp add: tool_id_def)
      with i(2) p(1) have "i = idx" by (metis item_id_inj)
      with i new show False by simp
    qed
    then have "fragments (rt_itemID ?p) (rs_events st) = []" using tj by blast
    moreover have "map (tool_id (bind_tool ap ids idx offset tc st)) (rs_order st) = map (tool_id st) (rs_order st)"
      using new by (auto simp: bind_tool_def None tool_id_def resp_emit_def gomap Let_def)
    ultimately show ?thesis
      using tj p new by (auto simp: tools_joined_def bind_tool_def None resp_emit_def gomap Let_def tool_id_def)
  next
    case (Some q)
    have q: "rt_itemID (rebind tc q) = rt_itemID q" "rt_arguments (rebind tc q) = rt_arguments q" by (simp_all add: rebind_def Let_def)
    then have "tool_id (bind_tool ap ids idx offset tc st) = tool_id st" by (auto simp: tool_id_def bind_tool_def Some gomap)
    then show ?thesis using tj q Some by (auto simp: tools_joined_def bind_tool_def gomap)
  qed
  with tj show "joined ids (bind_tool ap ids idx offset tc st)"
    by (auto simp: joined_def bind_tool_def resp_emit_def Let_def split: option.split)
qed

lemma joined_add_args:
  assumes j: "joined ids st"
  shows "joined ids (add_args idx t st)"
proof (cases "t = [] \<or> gomap_get (rs_tools st) idx = None")
  case False
  then obtain p where p: "t \<noteq> []" "gomap_get (rs_tools st) idx = Some p" by auto
  note tj = j [unfolded joined_def tools_joined_def]
  have other: "rt_itemID q \<noteq> rt_itemID p" if "gomap_get (rs_tools st) i = Some q" "i \<noteq> idx" for i q
    using tj p(2) that item_id_inj by metis
  have ids: "tool_id (add_args idx t st) = tool_id st" using p by (auto simp: tool_id_def add_args_def resp_emit_def gomap)
  have "idx \<in> set (rs_order st)" using tj p by auto
  then have "rt_itemID p \<in> set (added (rs_events st))" using tj p by (auto simp: tool_id_def image_iff intro!: bexI [of _ idx])
  then have "tools_joined ids (add_args idx t st)"
    using tj p other ids by (auto simp: tools_joined_def add_args_def resp_emit_def gomap)
  with tj p show ?thesis by (auto simp: joined_def add_args_def resp_emit_def)
qed (use j in \<open>auto simp: add_args_def\<close>)

lemma joined_resp_tool: "joined ids st \<Longrightarrow> joined ids (resp_tool ap ids tc st)"
  by (simp add: resp_tool_def Let_def joined_bind_tool joined_add_args)

lemma joined_choice: "joined ids st \<Longrightarrow> joined ids (resp_choice ap ids dc st)"
proof -
  assume "joined ids st"
  then have "joined ids (resp_text (dl_Content (ck_Delta dc)) st)" by (rule joined_resp_text)
  then have f: "joined ids (fold (resp_tool ap ids) tcs (resp_text (dl_Content (ck_Delta dc)) st))" for tcs
    by (induction tcs rule: rev_induct) (simp_all add: joined_resp_tool)
  show ?thesis
    unfolding resp_choice_def Let_def by (auto intro: f joined_frame [OF f, where evs = "[]"] simp: readings)
qed

lemma joined_chunk: "joined ids st \<Longrightarrow> joined ids (fold (resp_choice ap ids) dcs (resp_usage u st))"
proof -
  assume "joined ids st"
  then have "joined ids (resp_usage u st)"
    by (cases u) (auto simp: resp_usage_def intro: joined_frame [where evs = "[]"] simp: readings)
  then show ?thesis by (induction dcs rule: rev_induct) (simp_all add: joined_choice)
qed

lemma joined_relay: "joined ids st \<Longrightarrow> joined ids (fst (resp_relay env ap ids late fc evs st))"
proof (induction evs arbitrary: st fc)
  case (Cons evt evs)
  have t: "joined ids (st\<lparr>rs_trace := x\<rparr>)" for x
    by (rule joined_frame [OF Cons.prems, where evs = "[]"]) (simp_all add: readings)
  have e: "joined ids (resp_emit (RespFailed err) (st\<lparr>rs_trace := x\<rparr>))" for err x
    by (rule joined_frame [OF Cons.prems, where evs = "[RespFailed err]"]) (simp_all add: resp_emit_def)
  show ?case
    using Cons t e by (auto simp: Let_def joined_chunk split: option.split)
qed simp
lemma joined_open: "joined ids st \<Longrightarrow> joined ids (fst (resp_open env ap h ctx ids req late i ps st s))"
proof (induction ps arbitrary: st s i)
  case (Cons p ps)
  have t: "joined ids (st\<lparr>rs_trace := x\<rparr>)" for x
    by (rule joined_frame [OF Cons.prems, where evs = "[]"]) (simp_all add: readings List.map_filter_def)
  obtain cx cs s1 where cred: "stream_credential env h ctx (tr_CredentialSource (rs_trace st)) (pv_Name (pr_Provider p)) s = (cx, cs, s1)"
    by (metis prod_cases3)
  obtain r s2 where call: "call_stream env (pr_Provider p) cx (req\<lparr>req_Model := pr_ForwardModel p\<rparr>) s1 = (r, s2)" by fastforce
  show ?case
    by (cases r) (simp_all add: cred call Let_def Cons.IH [OF t] case_prod_beta joined_relay [OF t])
qed simp

lemma joined_init: "joined ids (resp_init t)"
  by (simp add: joined_def tools_joined_def resp_init_def)

lemma resp_close_readings:
  "fragments x (resp_close ids req st) = []" "added (resp_close ids req st) = []" "text_fragments (resp_close ids req st) = []"
  "closed_items (resp_close ids req st) = map (\<lambda>p. (rt_itemID p, rt_arguments p)) (ordered_tools st)"
  "closed_texts (resp_close ids req st) = (case rs_text st of Some b \<Rightarrow> if b = [] then [] else [b] | None \<Rightarrow> [])"
proof -
  let ?tl = "\<lambda>ps. concat (map (\<lambda>p. [ArgsDone p (final_status st), ToolItemDone p (final_status st)]) ps)"
  have tl: "fragments x (?tl ps) = []" "added (?tl ps) = []" "text_fragments (?tl ps) = []" "closed_texts (?tl ps) = []"
    "closed_items (?tl ps) = map (\<lambda>p. (rt_itemID p, rt_arguments p)) ps" for ps
    by (induction ps) (simp_all add: readings List.map_filter_def)
  let ?tx = "case rs_text st of Some b \<Rightarrow> if b = [] then [] else [TextDone b, TextItemDone b (final_status st)] | None \<Rightarrow> []"
  have tx: "fragments x ?tx = []" "added ?tx = []" "text_fragments ?tx = []" "closed_items ?tx = []"
    "closed_texts ?tx = (case rs_text st of Some b \<Rightarrow> if b = [] then [] else [b] | None \<Rightarrow> [])"
    by (cases "rs_text st"; simp add: readings List.map_filter_def)+
  show "fragments x (resp_close ids req st) = []" "added (resp_close ids req st) = []" "text_fragments (resp_close ids req st) = []"
    "closed_items (resp_close ids req st) = map (\<lambda>p. (rt_itemID p, rt_arguments p)) (ordered_tools st)"
    "closed_texts (resp_close ids req st) = (case rs_text st of Some b \<Rightarrow> if b = [] then [] else [b] | None \<Rightarrow> [])"
    by (simp_all only: resp_close_def Let_def readings_append tl tx) simp_all
qed

lemma joined_closed:
  assumes j: "joined ids st" and evs: "evs = rs_events st @ resp_close ids req (st\<lparr>rs_trace := t\<rparr>)"
  shows "distinct (added evs)" "closed_items evs = map (\<lambda>x. (x, fragments x evs)) (added evs)"
    "closed_texts evs = (if text_fragments evs = [] then [] else [text_fragments evs])"
proof -
  note tj = j [unfolded joined_def tools_joined_def]
  have tool: "\<exists>p. gomap_get (rs_tools st) i = Some p \<and> item_id ids i (rt_itemID p) \<and> tool_id st i = rt_itemID p
      \<and> rt_arguments p = fragments (rt_itemID p) (rs_events st)" if "i \<in> set (rs_order st)" for i
    using tj that by (auto simp: tool_id_def)
  have "inj_on (tool_id st) (set (rs_order st))" by (rule inj_onI) (metis tool item_id_inj)
  then show "distinct (added evs)" using tj by (simp add: evs resp_close_readings distinct_map)
  have "map (\<lambda>p. (rt_itemID p, rt_arguments p)) (List.map_filter (gomap_get (rs_tools st)) is)
      = map (\<lambda>x. (x, fragments x (rs_events st))) (map (tool_id st) is)" if "set is \<subseteq> set (rs_order st)" for "is"
    using that
  proof (induction "is")
    case (Cons i "is")
    then obtain p where "gomap_get (rs_tools st) i = Some p" "tool_id st i = rt_itemID p" "rt_arguments p = fragments (rt_itemID p) (rs_events st)"
      using tool [of i] by auto
    with Cons show ?case by simp
  qed simp
  then show "closed_items evs = map (\<lambda>x. (x, fragments x evs)) (added evs)"
    using tj by (simp add: evs resp_close_readings ordered_tools_def)
  show "closed_texts evs = (if text_fragments evs = [] then [] else [text_fragments evs])"
    using tj by (simp add: evs resp_close_readings split: option.split)
qed
section \<open>What a stream settles\<close>

fun stream_fails :: "StreamEvent list \<Rightarrow> bool" where
  "stream_fails [] = False"
| "stream_fails (e # es) = (sev_Err e \<noteq> None \<or> \<not> sev_Done e \<and> stream_fails es)"

lemma resp_relay_flag: "snd (resp_relay env ap ids late fc evs st) = stream_fails evs"
  by (induction evs arbitrary: st fc) (simp_all add: Let_def split: option.split)

lemma resp_open_ok:
  assumes "\<And>u p cx rq evs. fst (ev_stream env u p cx rq) = Inr evs \<Longrightarrow> \<not> stream_fails evs"
  shows "fst (snd (resp_open env ap h ctx ids req late i ps st s)) = False"
proof (induction ps arbitrary: st s i)
  case (Cons p ps)
  obtain cx cs s1 where cred: "stream_credential env h ctx (tr_CredentialSource (rs_trace st)) (pv_Name (pr_Provider p)) s = (cx, cs, s1)"
    by (metis prod_cases3)
  obtain r u where ev: "ev_stream env (g_world s1) (pr_Provider p) cx (req\<lparr>req_Model := pr_ForwardModel p\<rparr>) = (r, u)" by fastforce
  show ?case
  proof (cases r)
    case (Inr evs)
    then have "\<not> stream_fails evs" using assms ev by (metis fst_conv)
    then show ?thesis using Inr by (simp add: cred call_stream_def ev Let_def case_prod_beta resp_relay_flag)
  qed (simp add: cred call_stream_def ev Let_def Cons.IH)
qed simp

lemma resp_open_books:
  "g_limiter (snd (snd (resp_open env ap h ctx ids req late i ps st s))) = g_limiter s
   \<and> g_traces (snd (snd (resp_open env ap h ctx ids req late i ps st s))) = g_traces s"
proof (induction ps arbitrary: st s i)
  case (Cons p ps)
  obtain cx cs s1 where cred: "stream_credential env h ctx (tr_CredentialSource (rs_trace st)) (pv_Name (pr_Provider p)) s = (cx, cs, s1)"
    by (metis prod_cases3)
  obtain r s2 where call: "call_stream env (pr_Provider p) cx (req\<lparr>req_Model := pr_ForwardModel p\<rparr>) s1 = (r, s2)" by fastforce
  have same: "g_limiter s2 = g_limiter s" "g_traces s2 = g_traces s"
    using stream_credential_sel [OF cred] call by (auto simp: call_stream_def split: prod.splits)
  show ?case by (cases r) (simp_all add: cred call Let_def Cons.IH same case_prod_beta)
qed simp

text \<open>The identifiers that a stream draws and the latency it reports.\<close>

definition stream_ids :: "Api \<Rightarrow> ResponsesRequest \<Rightarrow> RespIds" where
  "stream_ids ap req = \<lparr>ri_uuid = ap_uuid ap 0, ri_createdAt = ap_unix ap, ri_model = rr_Model req\<rparr>"

lemma handleResponsesStream_served:
  assumes "responsesToChat (ap_jsonErr ap) req = Inr chat" "pickResponsesChain h (rr_Model req) = Some ps" "ap_flusher ap" "h_recorder h"
    and "\<And>u p cx rq evs. fst (ev_stream env u p cx rq) = Inr evs \<Longrightarrow> \<not> stream_fails evs"
  obtains st s1 t where "joined (stream_ids ap req) st" "g_limiter s1 = g_limiter s" "g_traces s1 = g_traces s"
    "t = final_trace (rr_Model req) (ev_latency env (length ps)) st"
    "handleResponsesStream env ap h ctx req w s =
       Answered (setCostTrailer env (tr_CostUSD t) (write_resp_events ap (stream_ids ap req)
           (rs_events st @ resp_close (stream_ids ap req) req (st\<lparr>rs_trace := t\<rparr>)) (stream_head w)))
         (recordSpend env ctx (tr_CostUSD t) (s1\<lparr>g_traces := g_traces s1 @ [t]\<rparr>))"
proof -
  obtain p ps' where ps: "ps = p # ps'" using pickResponsesChain_nonempty [OF assms(2)] by (cases ps) auto
  let ?t0 = "(newTrace env h ctx chat (pv_Name (pr_Provider p)) 0)\<lparr>tr_Streamed := True\<rparr>"
  let ?run = "resp_open env ap h ctx (stream_ids ap req) chat (ev_latency env (length ps)) 0 ps (resp_init ?t0) s"
  obtain st b s1 where run: "?run = (st, b, s1)" by (metis prod_cases3)
  have "joined (stream_ids ap req) st"
    using joined_open [OF joined_init, of "stream_ids ap req" env ap h ctx chat "ev_latency env (length ps)" 0 ps ?t0 s] run by simp
  moreover have "g_limiter s1 = g_limiter s" "g_traces s1 = g_traces s"
    using resp_open_books [of env ap h ctx "stream_ids ap req" chat "ev_latency env (length ps)" 0 ps "resp_init ?t0" s] run by simp_all
  moreover have "fst (snd ?run) = False" by (rule resp_open_ok) (rule assms(5))
  then have "b = False" using run by simp
  ultimately show ?thesis
    using run assms(1-4) responsesToChat_sel [OF assms(1)]
    by (intro that [of st s1]) (simp_all add: handleResponsesStream_def ps stream_ids_def Let_def record_trace_def)
qed

text \<open>When no stream error occurs, the fragments of every item of a Responses stream are joined in the event
  that closes it: every added call is closed once, in the order of addition and with the concatenation of
  its fragments, and the text is closed once with the concatenation of its fragments, if there is any.\<close>

theorem responses_items_joined:
  assumes "responsesToChat (ap_jsonErr ap) req = Inr chat" "pickResponsesChain h (rr_Model req) = Some ps" "ap_flusher ap" "h_recorder h"
    and "\<And>u p cx rq evs. fst (ev_stream env u p cx rq) = Inr evs \<Longrightarrow> \<not> stream_fails evs"
  shows "\<exists>c evs s'. handleResponsesStream env ap h ctx req w s =
       Answered (setCostTrailer env c (write_resp_events ap (stream_ids ap req) evs (stream_head w))) s'
     \<and> distinct (added evs) \<and> closed_items evs = map (\<lambda>x. (x, fragments x evs)) (added evs)
     \<and> closed_texts evs = (if text_fragments evs = [] then [] else [text_fragments evs])"
  by (rule handleResponsesStream_served [OF assms(1-4), of env s ctx w])
     (use assms(5) in blast, (rule exI)+, (rule conjI), assumption, (intro conjI joined_closed [OF _ refl]; assumption))

text \<open>A Responses stream without stream error records one trace, charges its cost to the key, and sends the same
  cost in the trailer and, if the provider reported usage, in the completed response.\<close>

theorem responses_stream_settled:
  assumes "responsesToChat (ap_jsonErr ap) req = Inr chat" "pickResponsesChain h (rr_Model req) = Some ps" "ap_flusher ap" "h_recorder h"
    and "\<And>u p cx rq evs. fst (ev_stream env u p cx rq) = Inr evs \<Longrightarrow> \<not> stream_fails evs"
  shows "\<exists>t evs st s1. handleResponsesStream env ap h ctx req w s =
       Answered (setCostTrailer env (tr_CostUSD t) (write_resp_events ap (stream_ids ap req) evs (stream_head w)))
         (recordSpend env ctx (tr_CostUSD t) s1)
     \<and> g_traces s1 = g_traces s @ [t] \<and> g_limiter s1 = g_limiter s
     \<and> tr_StatusCode t = 200 \<and> tr_CostUSD t = ResolveCostUSD (us_EstimatedCost (rs_usage st)) (rr_Model req) (tr_ResponseModel t) (Some (rs_usage st))
     \<and> last evs = RespCompleted (completed_value (stream_ids ap req) req True (final_status st) st) \<and> rs_trace st = t"
proof (rule handleResponsesStream_served [OF assms(1-4), of env s ctx w])
  fix st s1 t
  assume a: "g_limiter s1 = g_limiter s" "g_traces s1 = g_traces s" "t = final_trace (rr_Model req) (ev_latency env (length ps)) st"
    "handleResponsesStream env ap h ctx req w s =
       Answered (setCostTrailer env (tr_CostUSD t) (write_resp_events ap (stream_ids ap req)
           (rs_events st @ resp_close (stream_ids ap req) req (st\<lparr>rs_trace := t\<rparr>)) (stream_head w)))
         (recordSpend env ctx (tr_CostUSD t) (s1\<lparr>g_traces := g_traces s1 @ [t]\<rparr>))"
  show ?thesis
    by (rule exI [of _ t], rule exI [of _ "rs_events st @ resp_close (stream_ids ap req) req (st\<lparr>rs_trace := t\<rparr>)"],
        rule exI [of _ "st\<lparr>rs_trace := t\<rparr>"], rule exI [of _ "s1\<lparr>g_traces := g_traces s1 @ [t]\<rparr>"])
       (use a in \<open>simp add: resp_close_def Let_def final_trace_def split: option.split\<close>)
qed (use assms(5) in blast)

lemma resp_fold_trace: "rs_trace (fold (resp_choice ap ids) dcs st) = rs_trace st"
proof -
  have "rs_trace (resp_text c st) = rs_trace st" for c st
    by (simp add: resp_text_def resp_emit_def Let_def)
  moreover have "rs_trace (add_args idx t st) = rs_trace st" "rs_trace (bind_tool ap ids idx offset tc st) = rs_trace st" for idx t offset tc st
    by (simp_all add: add_args_def bind_tool_def resp_emit_def Let_def split: option.split)
  then have "rs_trace (resp_tool ap ids tc st) = rs_trace st" for tc st
    by (simp add: resp_tool_def Let_def)
  then have "rs_trace (fold (resp_tool ap ids) tcs st) = rs_trace st" for tcs st
    by (induction tcs arbitrary: st) simp_all
  ultimately have "rs_trace (resp_choice ap ids dc st) = rs_trace st" for dc st
    by (simp add: resp_choice_def Let_def)
  then show ?thesis by (induction dcs arbitrary: st) simp_all
qed

lemma resp_relay_cost: "tr_CostUSD (rs_trace (fst (resp_relay env ap ids late fc evs st))) = tr_CostUSD (rs_trace st)"
  by (induction evs arbitrary: st fc) (simp_all add: Let_def resp_emit_def resp_fold_trace resp_usage_def split: option.split)

lemma resp_relay_failed:
  "stream_fails evs \<Longrightarrow> \<exists>err. last (rs_events (fst (resp_relay env ap ids late fc evs st))) = RespFailed err"
  by (induction evs arbitrary: st fc) (auto simp: Let_def resp_emit_def split: option.split)

text \<open>When the provider that is relayed reports an error, the last event is \<open>response.failed\<close>, the one trace of the
  request has no cost, and the key is not charged, whatever usage was reported before.\<close>

theorem responses_error_uncharged:
  assumes "responsesToChat (ap_jsonErr ap) req = Inr chat" "pickResponsesChain h (rr_Model req) = Some (p # ps)" "ap_flusher ap" "h_recorder h"
    and "stream_credential env h ctx (tr_CredentialSource (newTrace env h ctx chat (pv_Name (pr_Provider p)) 0)) (pv_Name (pr_Provider p)) s = (cx, cs, s1)"
    and "call_stream env (pr_Provider p) cx (chat\<lparr>req_Model := pr_ForwardModel p\<rparr>) s1 = (Inr events, s2)" "stream_fails events"
  shows "\<exists>evs err t. handleResponsesStream env ap h ctx req w s =
       Answered (write_resp_events ap (stream_ids ap req) evs (stream_head w)) (s2\<lparr>g_traces := g_traces s2 @ [t]\<rparr>)
     \<and> last evs = RespFailed err \<and> tr_CostUSD t = 0 \<and> g_limiter s2 = g_limiter s"
proof -
  define t0 where "t0 = newTrace env h ctx chat (pv_Name (pr_Provider p)) 0"
  let ?st = "resp_init (t0\<lparr>tr_Streamed := True, tr_CredentialSource := cs\<rparr>)" and ?late = "ev_latency env (length (p # ps))"
  obtain st where relay: "resp_relay env ap (stream_ids ap req) ?late False events ?st = (st, True)"
    using resp_relay_flag [of env ap "stream_ids ap req" ?late False events ?st] assms(7) by (metis prod.collapse)
  obtain err where err: "last (rs_events st) = RespFailed err"
    using resp_relay_failed [OF assms(7), of env ap "stream_ids ap req" ?late False ?st] relay by auto
  have "tr_CostUSD t0 = 0" by (simp add: t0_def newTrace_def zero_Trace_def Let_def split: option.split)
  then have cost: "tr_CostUSD (rs_trace st) = 0"
    using resp_relay_cost [of env ap "stream_ids ap req" ?late False events ?st] relay by (simp add: resp_init_def)
  have init: "(resp_init (t0\<lparr>tr_Streamed := True\<rparr>))\<lparr>rs_trace := (rs_trace (resp_init (t0\<lparr>tr_Streamed := True\<rparr>)))\<lparr>tr_CredentialSource := cs\<rparr>\<rparr> = ?st"
    "tr_CredentialSource (rs_trace (resp_init (t0\<lparr>tr_Streamed := True\<rparr>))) = tr_CredentialSource t0"
    by (simp_all add: resp_init_def)
  have run: "resp_open env ap h ctx (stream_ids ap req) chat ?late 0 (p # ps) (resp_init (t0\<lparr>tr_Streamed := True\<rparr>)) s = (st, True, s2)"
    unfolding resp_open.simps init(2) assms(5) [folded t0_def] using assms(6) relay init(1) by (simp add: Let_def)
  have "handleResponsesStream env ap h ctx req w s =
      Answered (write_resp_events ap (stream_ids ap req) (rs_events st) (stream_head w)) (s2\<lparr>g_traces := g_traces s2 @ [rs_trace st]\<rparr>)"
    using assms(1-4) run responsesToChat_sel [OF assms(1)]
    by (simp add: handleResponsesStream_def stream_ids_def Let_def record_trace_def t0_def del: resp_open.simps)
  moreover have "g_limiter s2 = g_limiter s" using stream_credential_sel [OF assms(5)] call_stream_sel [OF assms(6)] by simp
  ultimately show ?thesis using err cost by blast
qed

text \<open>When no provider can be connected to, the client of a stream gets 200 and an empty response with the status
  \<open>completed\<close>, and the trace has status 200 next to the error of the last provider.\<close>

lemma resp_open_down:
  assumes "\<And>u p cx rq. \<exists>err. fst (ev_stream env u p cx rq) = Inl err"
  shows "\<exists>t s'. resp_open env ap h ctx ids req late i ps st s = (st\<lparr>rs_trace := t\<rparr>, False, s')
    \<and> (ps \<noteq> [] \<longrightarrow> tr_ErrorType t = ''upstream_error_failover'')"
proof (induction ps arbitrary: st s i)
  case Nil
  then show ?case by (intro exI [of _ "rs_trace st"]) simp
next
  case (Cons p ps)
  obtain cx cs s1 where cred: "stream_credential env h ctx (tr_CredentialSource (rs_trace st)) (pv_Name (pr_Provider p)) s = (cx, cs, s1)"
    by (metis prod_cases3)
  obtain err u where ev: "ev_stream env (g_world s1) (pr_Provider p) cx (req\<lparr>req_Model := pr_ForwardModel p\<rparr>) = (Inl err, u)"
    using assms by (metis prod.collapse)
  define st1 where "st1 = st\<lparr>rs_trace := (rs_trace st)\<lparr>tr_CredentialSource := cs, tr_LatencyMs := ev_latency env i, tr_StatusCode := 502,
    tr_ErrorType := ''upstream_error_failover'', tr_ErrorMsg := err\<rparr>\<rparr>"
  obtain s2 where step: "resp_open env ap h ctx ids req late i (p # ps) st s = resp_open env ap h ctx ids req late (i + 1) ps st1 s2"
    by (simp add: cred call_stream_def ev Let_def st1_def)
  show ?case
  proof (cases "ps = []")
    case True
    then show ?thesis unfolding step by (auto simp: st1_def)
  next
    case False
    then obtain t s' where "resp_open env ap h ctx ids req late (i + 1) ps st1 s2 = (st1\<lparr>rs_trace := t\<rparr>, False, s')"
      "tr_ErrorType t = ''upstream_error_failover''" using Cons.IH [of "i + 1" st1 s2] by auto
    then show ?thesis unfolding step by (auto simp: st1_def)
  qed
qed

theorem responses_down_completed:
  assumes "responsesToChat (ap_jsonErr ap) req = Inr chat" "pickResponsesChain h (rr_Model req) = Some ps" "ap_flusher ap" "h_recorder h"
    and "\<And>u p cx rq. \<exists>err. fst (ev_stream env u p cx rq) = Inl err"
  shows "\<exists>t st s'. handleResponsesStream env ap h ctx req w s =
       Answered (setCostTrailer env (tr_CostUSD t) (write_resp_events ap (stream_ids ap req)
         [RespCreated, RespCompleted (completed_value (stream_ids ap req) req True ''completed'' st)] (stream_head w)))
        (recordSpend env ctx (tr_CostUSD t) s')
     \<and> last (g_traces s') = t \<and> tr_StatusCode t = 200 \<and> tr_ErrorType t = ''upstream_error_failover'' \<and> rs_text st = None \<and> rs_order st = []"
proof -
  obtain p ps' where ps: "ps = p # ps'" using pickResponsesChain_nonempty [OF assms(2)] by (cases ps) auto
  define t0 where "t0 = (newTrace env h ctx chat (pv_Name (pr_Provider p)) 0)\<lparr>tr_Streamed := True\<rparr>"
  obtain t1 s1 where run: "resp_open env ap h ctx (stream_ids ap req) chat (ev_latency env (length ps)) 0 ps (resp_init t0) s
      = ((resp_init t0)\<lparr>rs_trace := t1\<rparr>, False, s1)" and err: "tr_ErrorType t1 = ''upstream_error_failover''"
    using resp_open_down [where env = env and ap = ap and h = h and ctx = ctx and ids = "stream_ids ap req" and req = chat
        and late = "ev_latency env (length ps)" and i = 0 and ps = ps and st = "resp_init t0" and s = s] assms(5) ps by blast
  define t where "t = final_trace (rr_Model req) (ev_latency env (length ps)) ((resp_init t0)\<lparr>rs_trace := t1\<rparr>)"
  define st where "st = (resp_init t0)\<lparr>rs_trace := t\<rparr>"
  have st: "rs_text st = None" "rs_order st = []" "rs_events st = [RespCreated]" "final_status st = ''completed''"
    by (simp_all add: st_def resp_init_def final_status_def resp_truncated_def)
  have t: "tr_StatusCode t = 200" "tr_ErrorType t = ''upstream_error_failover''"
    by (simp_all add: t_def final_trace_def resp_init_def resp_truncated_def err Let_def)
  have "resp_close (stream_ids ap req) req st = [RespCompleted (completed_value (stream_ids ap req) req True ''completed'' st)]"
    by (simp add: resp_close_def st ordered_tools_def Let_def)
  moreover have "handleResponsesStream env ap h ctx req w s = Answered (setCostTrailer env (tr_CostUSD t) (write_resp_events ap (stream_ids ap req)
      (rs_events st @ resp_close (stream_ids ap req) req st) (stream_head w))) (recordSpend env ctx (tr_CostUSD t) (s1\<lparr>g_traces := g_traces s1 @ [t]\<rparr>))"
    using assms(1-4) run responsesToChat_sel [OF assms(1)] unfolding ps
    by (simp add: handleResponsesStream_def stream_ids_def Let_def record_trace_def t0_def t_def st_def ps del: resp_open.simps)
  ultimately show ?thesis using st t
    by (intro exI [of _ t] exI [of _ st] exI [of _ "s1\<lparr>g_traces := g_traces s1 @ [t]\<rparr>"]) simp
qed

section \<open>Examples\<close>

definition demo_responses_request :: ResponsesRequest where
  "demo_responses_request = zero_ResponsesRequest\<lparr>rr_Model := ''fast'', rr_Input := bars ''|hi|'', rr_Stream := True\<rparr>"

lemma demo_responses_chat: "\<exists>chat. responsesToChat je demo_responses_request = Inr chat"
proof -
  have "\<not> isl (responsesToChat (\<lambda>x. x) demo_responses_request)" by code_simp
  moreover have "isl (responsesToChat je demo_responses_request) = isl (responsesToChat (\<lambda>x. x) demo_responses_request)"
    by (simp add: responsesToChat_def input_messages_def Let_def split: sum.split option.split)
  ultimately show ?thesis by (cases "responsesToChat je demo_responses_request") auto
qed

lemma demo_responses_model: "rr_Model demo_responses_request = ''fast''"
  by (simp add: demo_responses_request_def zero_ResponsesRequest_def)

theorem responses_items_joined_witness:
  "\<exists>c evs s'. handleResponsesStream (demo_events_env demo_text_then_tool) demo_api (demo_handler None) emptyCtx demo_responses_request new_writer
       (demo_state None) = Answered (setCostTrailer (demo_events_env demo_text_then_tool) c
         (write_resp_events demo_api (stream_ids demo_api demo_responses_request) evs (stream_head new_writer))) s'
     \<and> distinct (added evs) \<and> closed_items evs = map (\<lambda>x. (x, fragments x evs)) (added evs)
     \<and> closed_texts evs = (if text_fragments evs = [] then [] else [text_fragments evs])"
proof -
  obtain chat where "responsesToChat (ap_jsonErr demo_api) demo_responses_request = Inr chat" using demo_responses_chat by blast
  then show ?thesis
    by (rule responses_items_joined [OF _ demo_pick [of None, folded demo_responses_model]])
       (auto simp: demo_api_def demo_handler_def demo_events_env_def demo_text_then_tool_def demo_delta_def)
qed

theorem responses_down_completed_witness:
  "\<exists>t st s'. handleResponsesStream (demo_env demo_answer) demo_api (demo_handler None) emptyCtx demo_responses_request new_writer (demo_state None) =
       Answered (setCostTrailer (demo_env demo_answer) (tr_CostUSD t) (write_resp_events demo_api (stream_ids demo_api demo_responses_request)
         [RespCreated, RespCompleted (completed_value (stream_ids demo_api demo_responses_request) demo_responses_request True ''completed'' st)]
         (stream_head new_writer))) (recordSpend (demo_env demo_answer) emptyCtx (tr_CostUSD t) s')
     \<and> last (g_traces s') = t \<and> tr_StatusCode t = 200 \<and> tr_ErrorType t = ''upstream_error_failover'' \<and> rs_text st = None \<and> rs_order st = []"
proof -
  obtain chat where "responsesToChat (ap_jsonErr demo_api) demo_responses_request = Inr chat" using demo_responses_chat by blast
  then show ?thesis
    by (rule responses_down_completed [OF _ demo_pick [of None, folded demo_responses_model]])
       (simp_all add: demo_api_def demo_handler_def demo_env_def)
qed

end
