(* ===== verification/Spec2Isabelle.thy ===== *)
theory Spec2Isabelle
  imports Balancer ApiErr Router Registry Limiter Pricing Credentials TurnKey Guardrails SemCache ServerRuns Chat Delivery Egress IpPolicy Hybrid MessagesApi ResponsesApi
begin

text \<open>
  Verification of Nexus, a gateway between LLM clients and LLM providers (\<open>src/internal\<close>, Go).

  \<^bold>\<open>The program.\<close> A request enters through the mux of \<open>gateway/server.go\<close>, passes the middleware
  (request id, recovery, access log, authentication, budget and rate, concurrency cap) and reaches a
  handler. The chat handler decodes the body, checks the prompt, resolves the model to a chain of
  candidates (a routing group ranked by the router and rotated by the balancer, or one model), and
  tries the candidates in order, each with the credential of the caller or the shared key. On the way it
  uses the semantic cache, the output guardrails, the price table, the limiter, and it records a trace.
  The Messages and Responses handlers offer the same providers in two other shapes, without most of these
  steps.
  Requests to providers leave through the outbound guard.

  \<^bold>\<open>Theories and sources\<close> (paths under \<open>src/internal\<close>).
  \<^item> \<open>Nexus_Prelude\<close>: names for Go's types, Go maps as association lists, \<open>strings\<close>, \<open>strconv\<close> and \<open>sort\<close>.
    \<open>Regex\<close>, \<open>Netip\<close> and \<open>Json\<close>: what the code uses of \<open>regexp\<close>, of \<open>net/netip\<close> and \<open>net/url\<close>, and of
    \<open>encoding/json\<close> on bytes, with a proof that the encoder's output is read back.
  \<^item> \<open>Balancer\<close> (\<open>balancer\<close>), \<open>ApiErr\<close> (\<open>apierr\<close>), \<open>Router\<close> (\<open>router\<close>), \<open>Limiter\<close> (\<open>limiter\<close>), \<open>Guardrails\<close>
    (\<open>guardrails\<close>), \<open>SemCache\<close> (\<open>semcache\<close>), \<open>Egress\<close> (\<open>egress\<close> and \<open>cmd/nexus/egress_boot.go\<close>), \<open>IpPolicy\<close>
    (\<open>ippolicy\<close>): one package each. A struct is a record, a method takes and returns it.
  \<^item> \<open>Registry\<close>, \<open>Pricing\<close>, \<open>Credentials\<close>, \<open>TurnKey\<close>, \<open>Middleware\<close>: the files of \<open>gateway\<close> with these subjects.
    \<open>ServerRuns\<close> interleaves many requests through the middleware, as an inductive step relation.
  \<^item> \<open>Wire\<close> and \<open>Codec\<close>: the records of \<open>gateway/types.go\<close> and their JSON codecs. \<open>Hybrid\<close>:
    \<open>gateway/cursor_compat.go\<close>.
  \<^item> \<open>GatewayCore\<close>, \<open>Unary\<close>, \<open>Streaming\<close>, \<open>Chat\<close>: \<open>gateway/handler.go\<close> with \<open>evidence.go\<close> and the three small
    endpoints. \<open>Delivery\<close> has the properties of the unary path, \<open>Demo\<close> the gateway used in examples.
  \<^item> \<open>MessagesWire\<close>, \<open>MessagesApi\<close>: \<open>gateway/messages.go\<close>. \<open>ResponsesWire\<close>, \<open>ResponsesApi\<close>:
    \<open>gateway/responses.go\<close>. \<open>Surfaces\<close>: what both handlers share.

  \<^bold>\<open>State and effects.\<close> The request paths pass a record \<open>GState\<close> of everything a request can change: the
  providers' world, limiter, balancer, cache, credential cache, and the lists of upstream calls, traces
  and alerts. A handler returns a \<open>turn\<close>: the response writer with headers, first status and body, or a
  panic. \<open>Handler\<close> is the configuration, \<open>Env\<close> and \<open>Api\<close> hold what comes from outside: providers, clock,
  identifiers, the credential store, hash functions, the JSON schema validator, operator-defined patterns
  and the formatting of floats. Errors are values. Machine integers are written with their width where
  the code can overflow (\<open>sync_backoff\<close>, the balancer's bound); prices, scores and similarities
  are reals instead of floats, so rounding is not modelled.

  \<^bold>\<open>Loops.\<close> All definitions are total. The JSON parser recurses on fuel of twice the length of the text,
  which \<open>parse_fuel\<close> shows to be enough for every text; redirects recurse on the limit of the client; the
  other loops recurse on the data.

  \<^bold>\<open>Interfaces.\<close> Locales state what a client relies on and are interpreted on the model: \<open>model_router\<close>
  (the ranking), \<open>rate_limiter\<close> and \<open>concurrency_cap\<close> (the middleware's view of the limiters),
  \<open>semantic_cache\<close> (the handler's view of the cache), \<open>relay_invariant\<close> (properties that survive a stream).

  \<^bold>\<open>What is shown.\<close>
  \<^item> Authorisation and isolation: every upstream call of a chat request is for an allowed model, to the
    provider the registry names, with the caller's own credential; no cached answer crosses tenants; no
    request without a key passes the mux; connections only go where the address policy allows, except to
    addresses with a zone; redaction holds for cached answers too.
  \<^item> Books: one answer, one trace and one charge per chat request, unary or streamed; the cost in the
    body, the trailer, the trace and the charge agree; slots are released and caps hold in every
    interleaving; the overdraft of a budget is bounded.
  \<^item> Functions: ranking refines its formula, the balancer is fair in proportion to rank, redaction and the
    leak guard are complete, the cost of a call follows the price tables, repair recovers embedded JSON, tool calls survive the wire,
    the event stream of the Messages API is well formed when text comes first, the fragments of a Responses
    stream are joined in the events that close its items.
  \<^item> Deviations: further theorems show, on the same definitions, where the
    code does not do what its comments say.

  \<^bold>\<open>Not modelled\<close>: SQL stores, Redis and ClickHouse clients, HTTP clients of providers and vendors, the
  web console, evaluation and benchmark runners, configuration, migrations, logging and timers. They
  perform input and output, or run beside the request path; where the request path uses them, they are
  parameters.
\<close>

end
